(* ===== verification/Utp_Prelude.thy ===== *)
theory Utp_Prelude
  imports Main "HOL-Library.Word" "HOL-Library.Signed_Division" "HOL-Library.Monad_Syntax"
begin

unbundle bit_operations_syntax

text \<open>
  What every component shares: the names of the machine integer types, the two ways an
  operation of the library can stop (a failed \<open>assert\<close> and undefined behaviour, both the
  value \<open>None\<close> of an option), the conversions between C++ integer types, and the lemmas on
  words, lists and options that carry the component proofs.
\<close>

section \<open>Types and collections\<close>

type_synonym u8 = "8 word"
type_synonym u16 = "16 word"
type_synonym u32 = "32 word"
type_synonym u64 = "64 word"
type_synonym byte = u8
type_synonym bytes = "8 word list"

text \<open>
  A signed C++ integer is kept as the word of its width and read with \<open>sint\<close>. The type
  synonyms record which of the two the source declares.
\<close>

type_synonym i32 = "32 word"
type_synonym i64 = "64 word"

named_theorems utp_defs "definitions of small accessors, unfolded together"
named_theorems wrap_simps "facts on wrap-around arithmetic of sequence numbers"

section \<open>Assertions and undefined behaviour\<close>

text \<open>
  \<open>assert\<close> stops a debug build and does nothing under \<open>NDEBUG\<close>; the flag is an argument.
  Undefined behaviour (a null or out-of-range access) has no result in either build.
\<close>

definition c_assert :: "bool \<Rightarrow> bool \<Rightarrow> unit option" where
  "c_assert ndebug c = (if ndebug \<or> c then Some () else None)"

definition ub_unless :: "bool \<Rightarrow> unit option" where
  "ub_unless c = (if c then Some () else None)"

lemma c_assert_simps [simp]:
  "c_assert nd True = Some ()"
  "c_assert True c = Some ()"
  "c_assert False False = None"
  by (simp_all add: c_assert_def)

lemma c_assert_Some_iff: "c_assert nd c = Some u \<longleftrightarrow> nd \<or> c"
  by (simp add: c_assert_def)

lemma ub_unless_simps [simp]:
  "ub_unless True = Some ()"
  "ub_unless False = None"
  by (simp_all add: ub_unless_def)

lemma ub_unless_Some_iff: "ub_unless c = Some u \<longleftrightarrow> c"
  by (simp add: ub_unless_def)

section \<open>Postconditions\<close>

text \<open>What holds of the result of an operation that may stop; the operation is taken apart by \<open>post_simps\<close>.\<close>

definition post :: "'a option \<Rightarrow> ('a \<Rightarrow> bool) \<Rightarrow> bool" where
  "post m Q \<longleftrightarrow> (\<forall>x. m = Some x \<longrightarrow> Q x)"

named_theorems post_simps "postconditions of the combinators of fallible operations"

lemma post_basic [post_simps]:
  "post None Q" "post (Some x) Q = Q x"
  "post (Option.bind m f) Q = post m (\<lambda>x. post (f x) Q)"
  "post (c_assert nd c) R = (nd \<or> c \<longrightarrow> R ())"
  "post (ub_unless c) R = (c \<longrightarrow> R ())"
  by (auto simp: post_def bind_eq_Some_conv c_assert_def ub_unless_def)

lemma post_mono: "post m P \<Longrightarrow> (\<And>x. P x \<Longrightarrow> Q x) \<Longrightarrow> post m Q"
  by (auto simp: post_def)

lemma postI: "(\<And>x. m = Some x \<Longrightarrow> Q x) \<Longrightarrow> post m Q"
  by (simp add: post_def)

lemma postD: "post m Q \<Longrightarrow> m = Some x \<Longrightarrow> Q x"
  by (simp add: post_def)

lemma post_True [post_simps]: "post m (\<lambda>_. True)"
  by (simp add: post_def)

section \<open>Operations that return\<close>

text \<open>The total counterpart of \<open>post\<close>.\<close>

definition yields :: "'a option \<Rightarrow> ('a \<Rightarrow> bool) \<Rightarrow> bool" where
  "yields m Q \<longleftrightarrow> (\<exists>x. m = Some x \<and> Q x)"

named_theorems yields_simps "results of the combinators of fallible operations"

lemma yields_basic [yields_simps]:
  "yields None Q = False" "yields (Some x) Q = Q x"
  "yields (Option.bind m f) Q = yields m (\<lambda>x. yields (f x) Q)"
  "yields (c_assert nd c) R = ((nd \<or> c) \<and> R ())"
  "yields (ub_unless c) R = (c \<and> R ())"
  by (auto simp: yields_def bind_eq_Some_conv c_assert_def ub_unless_def split: if_splits)

lemma yields_mono: "yields m P \<Longrightarrow> (\<And>x. m = Some x \<Longrightarrow> P x \<Longrightarrow> Q x) \<Longrightarrow> yields m Q"
  by (auto simp: yields_def)

lemma yields_bind: "yields m P \<Longrightarrow> (\<And>x. m = Some x \<Longrightarrow> P x \<Longrightarrow> yields (f x) Q) \<Longrightarrow> yields (Option.bind m f) Q"
  by (auto simp: yields_def)

lemma yieldsI: "m = Some x \<Longrightarrow> Q x \<Longrightarrow> yields m Q"
  by (simp add: yields_def)

lemma yields_post: "yields m P \<Longrightarrow> post m Q \<Longrightarrow> yields m (\<lambda>x. P x \<and> Q x)"
  by (auto simp: yields_def post_def)

section \<open>Bytes of a vector\<close>

text \<open>Reading and overwriting a run of bytes; outside the vector the access is undefined.\<close>

definition read_bytes :: "nat \<Rightarrow> nat \<Rightarrow> bytes \<Rightarrow> bytes option" where
  "read_bytes off n bs = (if off + n \<le> length bs then Some (take n (drop off bs)) else None)"

definition write_bytes :: "nat \<Rightarrow> bytes \<Rightarrow> bytes \<Rightarrow> bytes option" where
  "write_bytes off xs bs =
     (if off + length xs \<le> length bs
      then Some (take off bs @ xs @ drop (off + length xs) bs) else None)"

lemma write_bytes_Some_iff:
  "write_bytes off xs bs = Some bs' \<longleftrightarrow>
     off + length xs \<le> length bs \<and> bs' = take off bs @ xs @ drop (off + length xs) bs"
  unfolding write_bytes_def by (simp add: eq_commute)

lemma write_bytes_length:
  "write_bytes off xs bs = Some bs' \<Longrightarrow> length bs' = length bs"
  unfolding write_bytes_Some_iff by simp

lemma read_write_same:
  "write_bytes off xs bs = Some bs' \<Longrightarrow> read_bytes off (length xs) bs' = Some xs"
  unfolding write_bytes_Some_iff read_bytes_def by simp

lemma take_write_bytes:
  "write_bytes off xs bs = Some bs' \<Longrightarrow> n \<le> off \<Longrightarrow> take n bs' = take n bs"
  unfolding write_bytes_Some_iff by (simp add: min_def)

lemma drop_write_bytes:
  "write_bytes off xs bs = Some bs' \<Longrightarrow> off + length xs \<le> n \<Longrightarrow> drop n bs' = drop n bs"
  unfolding write_bytes_Some_iff by simp

lemma read_write_before:
  assumes w: "write_bytes off xs bs = Some bs'" and n: "o' + n \<le> off"
  shows "read_bytes o' n bs' = read_bytes o' n bs"
proof -
  have "take n (drop o' bs') = drop o' (take (o' + n) bs')"
    by (simp add: drop_take)
  also have "\<dots> = drop o' (take (o' + n) bs)"
    using take_write_bytes [OF w n] by simp
  also have "\<dots> = take n (drop o' bs)"
    by (simp add: drop_take)
  finally show ?thesis
    using write_bytes_length [OF w] by (simp add: read_bytes_def)
qed

lemma read_write_after:
  assumes "write_bytes off xs bs = Some bs'" and "off + length xs \<le> o'"
  shows "read_bytes o' n bs' = read_bytes o' n bs"
  using drop_write_bytes [OF assms] write_bytes_length [OF assms(1)]
  by (simp add: read_bytes_def)

section \<open>Words\<close>

lemma unat_and_mask: "unat (x AND mask n :: 'a::len word) = unat x mod 2 ^ n"
proof -
  have "x AND mask n = take_bit n x"
    by (simp add: take_bit_eq_mask)
  then have "unat (x AND mask n) = take_bit n (unat x)"
    by (simp only: unsigned_take_bit_eq)
  then show ?thesis
    by (simp only: take_bit_eq_mod)
qed

lemma uint_and_mask: "uint (x AND mask n :: 'a::len word) = uint x mod 2 ^ n"
proof -
  have "x AND mask n = take_bit n x"
    by (simp add: take_bit_eq_mask)
  then have "uint (x AND mask n) = take_bit n (uint x)"
    by (simp only: unsigned_take_bit_eq)
  then show ?thesis
    by (simp only: take_bit_eq_mod)
qed

lemma u8_lt [simp]: "unat (x :: u8) < 256"
proof -
  have "unat x < 2 ^ LENGTH(8)" by (rule unsigned_less)
  then show ?thesis by simp
qed

lemma u16_lt [simp]: "unat (x :: u16) < 65536"
proof -
  have "unat x < 2 ^ LENGTH(16)" by (rule unsigned_less)
  then show ?thesis by simp
qed

lemma u32_lt [simp]: "unat (x :: u32) < 4294967296"
proof -
  have "unat x < 2 ^ LENGTH(32)" by (rule unsigned_less)
  then show ?thesis by simp
qed

lemma u64_lt [simp]: "unat (x :: u64) < 18446744073709551616"
proof -
  have "unat x < 2 ^ LENGTH(64)" by (rule unsigned_less)
  then show ?thesis by simp
qed

lemma word_sub_add_swap: "(a :: 'a::len word) - b + c = a + c - b"
  by simp

end
