(* ===== verification/Utp_Config.thy ===== *)
theory Utp_Config
  imports Utp_Prelude
begin

text \<open>
  The compile-time constants of \<^verbatim>\<open>src/utp/config.hpp\<close> that the protocol code reads, at the
  width the source gives them (\<open>uint32_t\<close> as \<open>32 word\<close>, \<open>size_t\<close> as \<open>64 word\<close>).
\<close>

definition TIMEOUT_CHECK_INTERVAL :: u32 where "TIMEOUT_CHECK_INTERVAL = 500"
definition RST_INFO_TIMEOUT :: u32 where "RST_INFO_TIMEOUT = 10000"
definition KEEPALIVE_INTERVAL :: u32 where "KEEPALIVE_INTERVAL = 29000"

definition CCONTROL_TARGET :: u32 where "CCONTROL_TARGET = 100 * 1000"
definition MAX_CWND_INCREASE_BYTES_PER_RTT :: u32 where
  "MAX_CWND_INCREASE_BYTES_PER_RTT = 3000"
definition CUR_DELAY_SIZE :: u32 where "CUR_DELAY_SIZE = 3"
definition DELAY_BASE_HISTORY :: u32 where "DELAY_BASE_HISTORY = 13"

definition REORDER_BUFFER_MAX_SIZE :: u64 where "REORDER_BUFFER_MAX_SIZE = 1024"
definition OUTGOING_BUFFER_MAX_SIZE :: u64 where "OUTGOING_BUFFER_MAX_SIZE = 1024"

definition PACKET_SIZE :: u64 where "PACKET_SIZE = 1435"

definition DUPLICATE_ACKS_BEFORE_RESEND :: u32 where "DUPLICATE_ACKS_BEFORE_RESEND = 3"
definition ACK_NR_ALLOWED_WINDOW :: u32 where
  "ACK_NR_ALLOWED_WINDOW = DUPLICATE_ACKS_BEFORE_RESEND"
definition RST_INFO_LIMIT :: u32 where "RST_INFO_LIMIT = 1000"

definition SEQ_NR_MASK :: u16 where "SEQ_NR_MASK = 0xFFFF"
definition ACK_NR_MASK :: u16 where "ACK_NR_MASK = 0xFFFF"
definition TIMESTAMP_MASK :: u32 where "TIMESTAMP_MASK = 0xFFFFFFFF"

lemmas config_defs =
  TIMEOUT_CHECK_INTERVAL_def RST_INFO_TIMEOUT_def KEEPALIVE_INTERVAL_def CCONTROL_TARGET_def
  MAX_CWND_INCREASE_BYTES_PER_RTT_def CUR_DELAY_SIZE_def DELAY_BASE_HISTORY_def
  REORDER_BUFFER_MAX_SIZE_def OUTGOING_BUFFER_MAX_SIZE_def PACKET_SIZE_def
  DUPLICATE_ACKS_BEFORE_RESEND_def ACK_NR_ALLOWED_WINDOW_def RST_INFO_LIMIT_def
  SEQ_NR_MASK_def ACK_NR_MASK_def TIMESTAMP_MASK_def

end
