(* ===== verification/Wire_Format.thy ===== *)
theory Wire_Format
  imports Utp_Config
begin

text \<open>
  Byte order (\<^verbatim>\<open>src/utp/endian.hpp\<close>) and packet layout (\<^verbatim>\<open>src/utp/wire_format.hpp\<close>).
  The host's byte order is a parameter: \<open>big_endian\<close> fields are shown to occupy the same
  bytes, most significant first, on either kind of host. A packet in memory is a list of
  bytes; each field of \<open>PacketFormatV1\<close> has a getter and a setter at its offset.
\<close>

section \<open>Byte order\<close>

datatype endianness = Little | Big

definition swap16 :: "u16 \<Rightarrow> u16" where
  "swap16 w = push_bit 8 w OR drop_bit 8 w"

definition swap32 :: "u32 \<Rightarrow> u32" where
  "swap32 w = push_bit 24 (take_bit 8 w) OR push_bit 16 (take_bit 8 (drop_bit 8 w))
     OR push_bit 8 (take_bit 8 (drop_bit 16 w)) OR drop_bit 24 w"

definition host_to_network16 :: "endianness \<Rightarrow> u16 \<Rightarrow> u16" where
  "host_to_network16 e i = (case e of Little \<Rightarrow> swap16 i | Big \<Rightarrow> i)"

definition host_to_network32 :: "endianness \<Rightarrow> u32 \<Rightarrow> u32" where
  "host_to_network32 e i = (case e of Little \<Rightarrow> swap32 i | Big \<Rightarrow> i)"

definition network_to_host16 :: "endianness \<Rightarrow> u16 \<Rightarrow> u16" where
  "network_to_host16 e i = (case e of Little \<Rightarrow> swap16 i | Big \<Rightarrow> i)"

definition network_to_host32 :: "endianness \<Rightarrow> u32 \<Rightarrow> u32" where
  "network_to_host32 e i = (case e of Little \<Rightarrow> swap32 i | Big \<Rightarrow> i)"

text \<open>The bytes an integer occupies in the memory of a host, lowest address first.\<close>

definition mem16 :: "endianness \<Rightarrow> u16 \<Rightarrow> bytes" where
  "mem16 e w = (let lo = ucast w; hi = ucast (drop_bit 8 w)
                in case e of Little \<Rightarrow> [lo, hi] | Big \<Rightarrow> [hi, lo])"

definition mem32 :: "endianness \<Rightarrow> u32 \<Rightarrow> bytes" where
  "mem32 e w = (let b0 = ucast w; b1 = ucast (drop_bit 8 w);
                    b2 = ucast (drop_bit 16 w); b3 = ucast (drop_bit 24 w)
                in case e of Little \<Rightarrow> [b0, b1, b2, b3] | Big \<Rightarrow> [b3, b2, b1, b0])"

text \<open>
  \<open>big_endian<T>\<close>: the stored integer is the converted value; assignment converts and
  returns its argument, reading converts back.
\<close>

definition big_endian_store16 :: "endianness \<Rightarrow> u16 \<Rightarrow> u16" where
  "big_endian_store16 e val = host_to_network16 e val"

definition big_endian_load16 :: "endianness \<Rightarrow> u16 \<Rightarrow> u16" where
  "big_endian_load16 e m_integer = network_to_host16 e m_integer"

definition big_endian_store32 :: "endianness \<Rightarrow> u32 \<Rightarrow> u32" where
  "big_endian_store32 e val = host_to_network32 e val"

definition big_endian_load32 :: "endianness \<Rightarrow> u32 \<Rightarrow> u32" where
  "big_endian_load32 e m_integer = network_to_host32 e m_integer"

text \<open>The bytes of a big-endian field, and their value.\<close>

definition be16 :: "u16 \<Rightarrow> bytes" where
  "be16 w = [ucast (drop_bit 8 w), ucast w]"

definition be32 :: "u32 \<Rightarrow> bytes" where
  "be32 w = [ucast (drop_bit 24 w), ucast (drop_bit 16 w), ucast (drop_bit 8 w), ucast w]"

fun of_be16 :: "bytes \<Rightarrow> u16" where
  "of_be16 [a, b] = push_bit 8 (ucast a) OR ucast b"
| "of_be16 _ = 0"

fun of_be32 :: "bytes \<Rightarrow> u32" where
  "of_be32 [a, b, c, d] =
     push_bit 24 (ucast a) OR push_bit 16 (ucast b) OR push_bit 8 (ucast c) OR ucast d"
| "of_be32 _ = 0"

lemma be_length [simp]: "length (be16 w) = 2" "length (be32 v) = 4"
  by (simp_all add: be16_def be32_def)

lemma byte_bit_imp: "bit (b :: u8) n \<Longrightarrow> n < 8"
  using bit_imp_le_length by fastforce

lemma of_be16_be16 [simp]: "of_be16 (be16 w) = w"
  unfolding be16_def of_be16.simps
  by (rule bit_word_eqI) (auto simp: bit_simps)

lemma byte_cases32:
  assumes "(n :: nat) < 32"
  obtains "n < 8" | "8 \<le> n" "n < 16" | "16 \<le> n" "n < 24" | "24 \<le> n" "n < 32"
  using assms by linarith

lemma of_be32_be32 [simp]: "of_be32 (be32 w) = w"
  unfolding be32_def of_be32.simps
proof (rule bit_word_eqI)
  fix n assume "n < LENGTH(32)"
  then have "n < 32" by simp
  then show "bit (push_bit 24 (ucast (ucast (drop_bit 24 w) :: u8)) OR
      push_bit 16 (ucast (ucast (drop_bit 16 w) :: u8)) OR
      push_bit 8 (ucast (ucast (drop_bit 8 w) :: u8)) OR ucast (ucast w :: u8) :: u32) n = bit w n"
    by (cases rule: byte_cases32) (auto simp: bit_simps)
qed

lemma be16_of_be16: "length bs = 2 \<Longrightarrow> be16 (of_be16 bs) = bs"
proof -
  assume "length bs = 2"
  then obtain a b where bs: "bs = [a, b]"
    by (auto simp: numeral_2_eq_2 length_Suc_conv)
  have "(ucast (drop_bit 8 (push_bit 8 (ucast a) OR ucast b :: u16)) :: u8) = a"
    by (rule bit_word_eqI) (auto simp: bit_simps dest: byte_bit_imp)
  moreover have "(ucast (push_bit 8 (ucast a) OR ucast b :: u16) :: u8) = b"
    by (rule bit_word_eqI) (auto simp: bit_simps dest: byte_bit_imp)
  ultimately show ?thesis
    by (simp add: bs be16_def)
qed

lemma be32_of_be32: "length bs = 4 \<Longrightarrow> be32 (of_be32 bs) = bs"
proof -
  assume "length bs = 4"
  then obtain a b c d where bs: "bs = [a, b, c, d]"
    by (auto simp: eval_nat_numeral length_Suc_conv)
  let ?w = "push_bit 24 (ucast a) OR push_bit 16 (ucast b) OR push_bit 8 (ucast c) OR ucast d :: u32"
  have "(ucast (drop_bit 24 ?w) :: u8) = a"
    by (rule bit_word_eqI) (auto simp: bit_simps dest: byte_bit_imp)
  moreover have "(ucast (drop_bit 16 ?w) :: u8) = b"
    by (rule bit_word_eqI) (auto simp: bit_simps dest: byte_bit_imp)
  moreover have "(ucast (drop_bit 8 ?w) :: u8) = c"
    by (rule bit_word_eqI) (auto simp: bit_simps dest: byte_bit_imp)
  moreover have "(ucast ?w :: u8) = d"
    by (rule bit_word_eqI) (auto simp: bit_simps dest: byte_bit_imp)
  ultimately show ?thesis
    by (simp add: bs be32_def)
qed

text \<open>Whatever the host's byte order, a stored field reads most significant byte first.\<close>

lemma mem16_store: "mem16 e (big_endian_store16 e w) = be16 w"
proof (cases e)
  case Little
  have "(ucast (swap16 w) :: u8) = ucast (drop_bit 8 w)"
    unfolding swap16_def by (rule bit_word_eqI) (auto simp: bit_simps)
  moreover have "(ucast (drop_bit 8 (swap16 w)) :: u8) = ucast w"
    unfolding swap16_def by (rule bit_word_eqI) (auto simp: bit_simps)
  ultimately show ?thesis
    using Little by (simp add: mem16_def be16_def big_endian_store16_def host_to_network16_def)
qed (simp add: mem16_def be16_def big_endian_store16_def host_to_network16_def)

lemma swap32_bytes:
  shows "(ucast (swap32 w) :: u8) = ucast (drop_bit 24 w)"
    and "(ucast (drop_bit 8 (swap32 w)) :: u8) = ucast (drop_bit 16 w)"
    and "(ucast (drop_bit 16 (swap32 w)) :: u8) = ucast (drop_bit 8 w)"
    and "(ucast (drop_bit 24 (swap32 w)) :: u8) = ucast w"
  unfolding swap32_def
  by (rule bit_word_eqI, auto simp: bit_simps)+

lemma mem32_store: "mem32 e (big_endian_store32 e w) = be32 w"
  by (cases e)
     (simp_all add: mem32_def be32_def big_endian_store32_def host_to_network32_def swap32_bytes)

lemma swap16_swap16 [simp]: "swap16 (swap16 w) = w"
  unfolding swap16_def by (rule bit_word_eqI) (auto simp: bit_simps)

lemma swap32_swap32 [simp]: "swap32 (swap32 w) = w"
proof -
  have "be32 (swap32 (swap32 w)) = be32 w"
    by (simp add: be32_def swap32_bytes)
  then show ?thesis by (metis of_be32_be32)
qed

lemma load_store16: "big_endian_load16 e (big_endian_store16 e w) = w"
  by (cases e) (simp_all add: big_endian_load16_def big_endian_store16_def
    network_to_host16_def host_to_network16_def)

lemma load_store32: "big_endian_load32 e (big_endian_store32 e w) = w"
  by (cases e) (simp_all add: big_endian_load32_def big_endian_store32_def
    network_to_host32_def host_to_network32_def)

section \<open>Packet types and header\<close>

definition ST_DATA :: u8 where "ST_DATA = 0"
definition ST_FIN :: u8 where "ST_FIN = 1"
definition ST_STATE :: u8 where "ST_STATE = 2"
definition ST_RESET :: u8 where "ST_RESET = 3"
definition ST_SYN :: u8 where "ST_SYN = 4"
definition ST_NUM_STATES :: u8 where "ST_NUM_STATES = 5"
definition PROTOCOL_VERSION :: u8 where "PROTOCOL_VERSION = 1"

lemmas st_defs = ST_DATA_def ST_FIN_def ST_STATE_def ST_RESET_def ST_SYN_def ST_NUM_STATES_def

record PacketFormatV1 =
  pf_ver_type :: u8
  pf_ext :: u8
  pf_connid :: u16
  pf_tv_usec :: u32
  pf_reply_micro :: u32
  pf_windowsize :: u32
  pf_seq_nr :: u16
  pf_ack_nr :: u16

definition pf_version :: "PacketFormatV1 \<Rightarrow> u8" where
  "pf_version pf = pf_ver_type pf AND 0xf"

definition pf_type :: "PacketFormatV1 \<Rightarrow> u8" where
  "pf_type pf = drop_bit 4 (pf_ver_type pf)"

definition set_version :: "u8 \<Rightarrow> PacketFormatV1 \<Rightarrow> PacketFormatV1" where
  "set_version v pf = pf\<lparr>pf_ver_type := (pf_ver_type pf AND 0xf0) OR (v AND 0xf)\<rparr>"

definition set_type :: "u8 \<Rightarrow> PacketFormatV1 \<Rightarrow> PacketFormatV1" where
  "set_type t pf = pf\<lparr>pf_ver_type := (pf_ver_type pf AND 0x0f) OR push_bit 4 t\<rparr>"

definition PF_SIZE :: nat where "PF_SIZE = 20"
definition PFA_SIZE :: nat where "PFA_SIZE = 26"

definition zero_pf :: PacketFormatV1 where
  "zero_pf = \<lparr>pf_ver_type = 0, pf_ext = 0, pf_connid = 0, pf_tv_usec = 0, pf_reply_micro = 0,
     pf_windowsize = 0, pf_seq_nr = 0, pf_ack_nr = 0\<rparr>"

text \<open>The packed struct as the 20 bytes it occupies, and the struct read from 20 bytes.\<close>

definition encode_pf :: "PacketFormatV1 \<Rightarrow> bytes" where
  "encode_pf pf =
     [pf_ver_type pf, pf_ext pf] @ be16 (pf_connid pf) @ be32 (pf_tv_usec pf)
     @ be32 (pf_reply_micro pf) @ be32 (pf_windowsize pf) @ be16 (pf_seq_nr pf)
     @ be16 (pf_ack_nr pf)"

definition decode_pf :: "bytes \<Rightarrow> PacketFormatV1 option" where
  "decode_pf bs =
     (if length bs < PF_SIZE then None
      else Some \<lparr>pf_ver_type = bs ! 0, pf_ext = bs ! 1,
        pf_connid = of_be16 (take 2 (drop 2 bs)),
        pf_tv_usec = of_be32 (take 4 (drop 4 bs)),
        pf_reply_micro = of_be32 (take 4 (drop 8 bs)),
        pf_windowsize = of_be32 (take 4 (drop 12 bs)),
        pf_seq_nr = of_be16 (take 2 (drop 16 bs)),
        pf_ack_nr = of_be16 (take 2 (drop 18 bs))\<rparr>)"

text \<open>Assigning fields through a \<open>PacketFormatV1 *\<close> that points at the start of a buffer.\<close>

definition update_pf :: "(PacketFormatV1 \<Rightarrow> PacketFormatV1) \<Rightarrow> bytes \<Rightarrow> bytes option" where
  "update_pf f bs = map_option (\<lambda>pf. encode_pf (f pf) @ drop PF_SIZE bs) (decode_pf bs)"

text \<open>\<open>PacketFormatAckV1\<close>: the header, the selective-ACK extension header and its 4 bytes.\<close>

record PacketFormatAckV1 =
  pfa_pf :: PacketFormatV1
  pfa_ext_next :: u8
  pfa_ext_len :: u8
  pfa_acks :: bytes

definition encode_pfa :: "PacketFormatAckV1 \<Rightarrow> bytes" where
  "encode_pfa p = encode_pf (pfa_pf p) @ [pfa_ext_next p, pfa_ext_len p] @ pfa_acks p"

section \<open>Size buckets\<close>

datatype PacketSizeBucket =
    PACKET_SIZE_EMPTY_BUCKET
  | PACKET_SIZE_SMALL_BUCKET
  | PACKET_SIZE_MID_BUCKET
  | PACKET_SIZE_BIG_BUCKET
  | PACKET_SIZE_HUGE_BUCKET

fun packet_size_from_bucket :: "PacketSizeBucket \<Rightarrow> u32" where
  "packet_size_from_bucket PACKET_SIZE_EMPTY_BUCKET = 23"
| "packet_size_from_bucket PACKET_SIZE_SMALL_BUCKET = 373"
| "packet_size_from_bucket PACKET_SIZE_MID_BUCKET = 723"
| "packet_size_from_bucket PACKET_SIZE_BIG_BUCKET = 1400"
| "packet_size_from_bucket PACKET_SIZE_HUGE_BUCKET = 0"

definition packet_size_bucket :: "u64 \<Rightarrow> PacketSizeBucket" where
  "packet_size_bucket len =
     (if len \<le> ucast (packet_size_from_bucket PACKET_SIZE_EMPTY_BUCKET)
      then PACKET_SIZE_EMPTY_BUCKET
      else if len \<le> ucast (packet_size_from_bucket PACKET_SIZE_SMALL_BUCKET)
      then PACKET_SIZE_SMALL_BUCKET
      else if len \<le> ucast (packet_size_from_bucket PACKET_SIZE_MID_BUCKET)
      then PACKET_SIZE_MID_BUCKET
      else if len \<le> ucast (packet_size_from_bucket PACKET_SIZE_BIG_BUCKET)
      then PACKET_SIZE_BIG_BUCKET
      else PACKET_SIZE_HUGE_BUCKET)"

fun bucket_index :: "PacketSizeBucket \<Rightarrow> nat" where
  "bucket_index PACKET_SIZE_EMPTY_BUCKET = 0"
| "bucket_index PACKET_SIZE_SMALL_BUCKET = 1"
| "bucket_index PACKET_SIZE_MID_BUCKET = 2"
| "bucket_index PACKET_SIZE_BIG_BUCKET = 3"
| "bucket_index PACKET_SIZE_HUGE_BUCKET = 4"

section \<open>Lemmas on the header\<close>

lemma encode_pf_length [simp]: "length (encode_pf pf) = 20"
  by (simp add: encode_pf_def)

lemma decode_encode_append: "decode_pf (encode_pf pf @ rest) = Some pf"
  by (simp add: decode_pf_def encode_pf_def PF_SIZE_def be16_def be32_def
      flip: of_be16.simps of_be32.simps)
     (simp add: be16_def [symmetric] be32_def [symmetric] del: of_be16.simps of_be32.simps)

lemma decode_pf_None_iff: "decode_pf bs = None \<longleftrightarrow> length bs < 20"
  by (simp add: decode_pf_def PF_SIZE_def)

lemma take2_nth: "2 \<le> length xs \<Longrightarrow> take 2 xs = [xs ! 0, xs ! 1]"
  by (cases xs rule: remdups_adj.cases) (auto simp: numeral_2_eq_2)

lemma take20_split:
  "take 20 xs = take 2 xs @ take 2 (drop 2 xs) @ take 4 (drop 4 xs) @ take 4 (drop 8 xs)
     @ take 4 (drop 12 xs) @ take 2 (drop 16 xs) @ take 2 (drop 18 xs)"
proof -
  have "take 20 xs = take (2 + (2 + (4 + (4 + (4 + (2 + 2)))))) xs"
    by simp
  then show ?thesis
    unfolding take_add drop_drop by simp
qed

lemma encode_decode: "decode_pf bs = Some pf \<Longrightarrow> encode_pf pf = take 20 bs"
proof -
  assume d: "decode_pf bs = Some pf"
  then have len: "20 \<le> length bs"
    by (simp add: decode_pf_def PF_SIZE_def split: if_splits)
  have "encode_pf pf = [bs ! 0, bs ! 1] @ take 2 (drop 2 bs) @ take 4 (drop 4 bs)
      @ take 4 (drop 8 bs) @ take 4 (drop 12 bs) @ take 2 (drop 16 bs) @ take 2 (drop 18 bs)"
    using d len unfolding decode_pf_def PF_SIZE_def
    by (auto simp: encode_pf_def be16_of_be16 be32_of_be32)
  also have "\<dots> = take 20 bs"
    using len by (simp add: take20_split take2_nth)
  finally show ?thesis .
qed

lemma decode_update_pf:
  "update_pf f bs = Some bs' \<Longrightarrow> decode_pf bs = Some pf \<Longrightarrow> decode_pf bs' = Some (f pf)"
  by (auto simp: update_pf_def decode_encode_append)

lemma drop_update_pf: "update_pf f bs = Some bs' \<Longrightarrow> drop 20 bs' = drop 20 bs"
  by (auto simp: update_pf_def PF_SIZE_def)

lemma length_update_pf: "update_pf f bs = Some bs' \<Longrightarrow> length bs' = length bs"
  by (auto simp: update_pf_def PF_SIZE_def decode_pf_def split: if_splits)

lemma update_pf_defined: "20 \<le> length bs \<Longrightarrow> \<exists>bs'. update_pf f bs = Some bs'"
  by (simp add: update_pf_def decode_pf_def PF_SIZE_def)

lemma nibble_masks: "(0xf :: u8) = mask 4" "(0xf0 :: u8) = push_bit 4 (mask 4)"
  by (simp_all add: mask_eq_exp_minus_1 push_bit_eq_mult)

lemma version_type_accessors:
  shows "pf_version (set_version v pf) = v AND 0xf"
    and "pf_type (set_version v pf) = pf_type pf"
    and "pf_type (set_type t pf) = t AND 0xf"
    and "pf_version (set_type t pf) = pf_version pf"
  unfolding pf_version_def pf_type_def set_version_def set_type_def PacketFormatV1.simps
    nibble_masks
  by (rule bit_word_eqI, auto simp: bit_simps dest: byte_bit_imp)+

section \<open>Properties\<close>

text \<open>
  A \<open>big_endian\<close> field holds the value most significant byte first in memory whatever the
  byte order of the host, and reads back as the value that was assigned.
\<close>

theorem big_endian_host_independent:
  "mem16 e (big_endian_store16 e v) = be16 v \<and> big_endian_load16 e (big_endian_store16 e v) = v \<and>
   mem32 e (big_endian_store32 e w) = be32 w \<and> big_endian_load32 e (big_endian_store32 e w) = w"
  by (intro conjI mem16_store load_store16 mem32_store load_store32)


text \<open>
  Assigning fields through the packet pointer changes the header by the assignment alone:
  the length and every byte after the header stay, and the header read back is the one written.
\<close>

theorem update_pf_frame:
  assumes "20 \<le> length bs"
  shows "\<exists>pf bs'. decode_pf bs = Some pf \<and> update_pf f bs = Some bs' \<and>
    decode_pf bs' = Some (f pf) \<and> drop 20 bs' = drop 20 bs \<and> length bs' = length bs"
proof -
  obtain bs' where bs': "update_pf f bs = Some bs'" using update_pf_defined [OF assms] by blast
  moreover obtain pf where pf: "decode_pf bs = Some pf"
    using assms decode_pf_None_iff [of bs] by (cases "decode_pf bs") auto
  ultimately show ?thesis
    using decode_update_pf [OF bs' pf] drop_update_pf [OF bs'] length_update_pf [OF bs'] by blast
qed

theorem update_pf_frame_witness:
  "\<exists>pf bs'. decode_pf (replicate 24 7) = Some pf \<and>
    update_pf (\<lambda>pf. pf\<lparr>pf_ack_nr := 513\<rparr>) (replicate 24 7) = Some bs' \<and>
    decode_pf bs' = Some (pf\<lparr>pf_ack_nr := 513\<rparr>) \<and>
    drop 20 bs' = drop 20 (replicate 24 7) \<and> length bs' = length (replicate 24 (7 :: u8))"
  by (rule update_pf_frame) simp

end
