(* ===== verification/Address.thy ===== *)
theory Address
  imports Wire_Format
begin

text \<open>
  \<^verbatim>\<open>src/utp/address.hpp\<close> and \<^verbatim>\<open>src/utp/address.cpp\<close>: the peer address, an IPv6 address in network
  order with IPv4 addresses mapped into it, and a port in host order. The textual form
  (\<open>fmt\<close>) is used for logging only and is left out. \<open>sockaddr\<close> has the two layouts the code
  reads; a family other than \<open>AF_INET\<close> is read as the second. Ports in it are the raw
  integers a host of the given byte order reads from the network-order field.
\<close>

section \<open>Model\<close>

datatype sockaddr =
    Sockaddr_in (sin_port: u16) (sin_addr: bytes)
  | Sockaddr_in6 (sin6_port: u16) (sin6_flowinfo: u32) (sin6_addr: bytes) (sin6_scope_id: u32)

datatype family = AF_INET | AF_INET6

text \<open>\<open>sizeof\<close> of the two structures, as \<open>socklen_t\<close>.\<close>

definition SIZEOF_SOCKADDR_IN :: u32 where "SIZEOF_SOCKADDR_IN = 16"
definition SIZEOF_SOCKADDR_IN6 :: u32 where "SIZEOF_SOCKADDR_IN6 = 28"

record Address =
  in6 :: bytes
  port :: u16

definition v4mapped_prefix :: bytes where
  "v4mapped_prefix = replicate 10 0 @ [0xff, 0xff]"

definition get_family :: "Address \<Rightarrow> family" where
  "get_family a = (if take 12 (in6 a) = v4mapped_prefix then AF_INET else AF_INET6)"

definition address_eq :: "Address \<Rightarrow> Address \<Rightarrow> bool" where
  "address_eq a b = (if port a \<noteq> port b then False else in6 a = in6 b)"

definition Address_set :: "endianness \<Rightarrow> bool \<Rightarrow> sockaddr \<Rightarrow> u32 \<Rightarrow> Address option" where
  "Address_set e nd sa len =
     (case sa of
        Sockaddr_in p a \<Rightarrow> do {
          c_assert nd (SIZEOF_SOCKADDR_IN \<le> len);
          Some \<lparr>in6 = replicate 10 0 @ [0xff, 0xff] @ a, port = network_to_host16 e p\<rparr>
        }
      | Sockaddr_in6 p fl a sc \<Rightarrow> do {
          c_assert nd (SIZEOF_SOCKADDR_IN6 \<le> len);
          Some \<lparr>in6 = a, port = network_to_host16 e p\<rparr>
        })"

definition empty_Address :: Address where
  "empty_Address = \<lparr>in6 = replicate 10 0 @ [0xff, 0xff] @ [0, 0, 0, 0], port = 0\<rparr>"

definition get_sockaddr_storage :: "endianness \<Rightarrow> Address \<Rightarrow> sockaddr \<times> u32" where
  "get_sockaddr_storage e a =
     (if get_family a = AF_INET
      then (Sockaddr_in (host_to_network16 e (port a)) (drop 12 (in6 a)), SIZEOF_SOCKADDR_IN)
      else (Sockaddr_in6 (host_to_network16 e (port a)) 0 (in6 a) 0, SIZEOF_SOCKADDR_IN6))"

text \<open>The hash reads the address as four integers of the host.\<close>

definition read_host32 :: "endianness \<Rightarrow> bytes \<Rightarrow> u32" where
  "read_host32 e bs = (case e of Big \<Rightarrow> of_be32 bs | Little \<Rightarrow> of_be32 (rev bs))"

definition rotate_left :: "nat \<Rightarrow> u32 \<Rightarrow> u32" where
  "rotate_left n h = push_bit n h OR drop_bit (32 - n) h"

fun hash_bytes :: "endianness \<Rightarrow> bytes \<Rightarrow> u32 \<Rightarrow> u32" where
  "hash_bytes e (a # b # c # d # p) h =
     hash_bytes e p (rotate_left 13 (h XOR read_host32 e [a, b, c, d]))"
| "hash_bytes e (x # p) h = hash_bytes e p (rotate_left 8 (h XOR ucast x))"
| "hash_bytes e [] h = h"

definition compute_hash :: "endianness \<Rightarrow> Address \<Rightarrow> u32" where
  "compute_hash e a = hash_bytes e (in6 a) 0 XOR ucast (port a)"

text \<open>The key of the socket table: the peer's address and the connection id we receive on.\<close>

record UtpSocketKey =
  key_addr :: Address
  key_recv_id :: u32

definition key_eq :: "UtpSocketKey \<Rightarrow> UtpSocketKey \<Rightarrow> bool" where
  "key_eq k l \<longleftrightarrow> key_recv_id k = key_recv_id l \<and> address_eq (key_addr k) (key_addr l)"

definition key_hash :: "endianness \<Rightarrow> UtpSocketKey \<Rightarrow> u32" where
  "key_hash e k = key_recv_id k XOR compute_hash e (key_addr k)"

section \<open>Lemmas\<close>

definition address_wf :: "Address \<Rightarrow> bool" where
  "address_wf a \<longleftrightarrow> length (in6 a) = 16"

lemma address_eq_iff: "address_eq a b \<longleftrightarrow> a = (b :: Address)"
  by (auto simp: address_eq_def intro: Address.equality)

lemma key_eq_iff: "key_eq k l \<longleftrightarrow> k = (l :: UtpSocketKey)"
  by (auto simp: key_eq_def address_eq_iff intro: UtpSocketKey.equality)

lemma ntohs_htons [simp]: "network_to_host16 e (host_to_network16 e p) = p"
  using load_store16 [of e p] by (simp add: big_endian_load16_def big_endian_store16_def)

lemma htons_ntohs [simp]: "host_to_network16 e (network_to_host16 e p) = p"
  by (cases e) (simp_all add: host_to_network16_def network_to_host16_def)

section \<open>Properties\<close>

text \<open>
  C31: addresses survive the conversion to a socket address and back, so packets go back to the
  address they came from; a socket address survives the other way round up to the flow label
  and scope, which are not stored, and a v4-mapped IPv6 address, which becomes IPv4.
\<close>

theorem sockaddr_round_trip:
  assumes "address_wf a"
  shows "(case get_sockaddr_storage e a of (sa, len) \<Rightarrow> Address_set e False sa len) = Some a \<and>
    (length q = 4 \<longrightarrow> map_option (get_sockaddr_storage e) (Address_set e False (Sockaddr_in p q) 16) =
       Some (Sockaddr_in p q, 16)) \<and>
    (length r = 16 \<longrightarrow> take 12 r \<noteq> v4mapped_prefix \<longrightarrow>
       map_option (get_sockaddr_storage e) (Address_set e False (Sockaddr_in6 p fl r sc) 28) =
         Some (Sockaddr_in6 p 0 r 0, 28)) \<and>
    (length r = 16 \<longrightarrow> take 12 r = v4mapped_prefix \<longrightarrow>
       map_option (get_sockaddr_storage e) (Address_set e False (Sockaddr_in6 p fl r sc) 28) =
         Some (Sockaddr_in p (drop 12 r), 16))"
proof (intro conjI impI)
  have "v4mapped_prefix @ drop 12 (in6 a) = in6 a" if "take 12 (in6 a) = v4mapped_prefix"
    using append_take_drop_id [of 12 "in6 a"] by (simp add: that)
  then show "(case get_sockaddr_storage e a of (sa, len) \<Rightarrow> Address_set e False sa len) = Some a"
    by (auto simp: get_sockaddr_storage_def Address_set_def get_family_def v4mapped_prefix_def
        intro: Address.equality)
qed (simp_all add: Address_set_def get_sockaddr_storage_def get_family_def v4mapped_prefix_def
      SIZEOF_SOCKADDR_IN_def SIZEOF_SOCKADDR_IN6_def)

lemma sockaddr_round_trip_witness:
  "(case get_sockaddr_storage Little empty_Address of (sa, len) \<Rightarrow> Address_set Little False sa len) =
     Some empty_Address \<and>
   map_option (get_sockaddr_storage Little) (Address_set Little False (Sockaddr_in 80 [127, 0, 0, 1]) 16) =
     Some (Sockaddr_in 80 [127, 0, 0, 1], 16) \<and>
   map_option (get_sockaddr_storage Little)
       (Address_set Little False (Sockaddr_in6 80 5 (replicate 16 1) 2) 28) =
     Some (Sockaddr_in6 80 0 (replicate 16 1) 0, 28)"
proof -
  have "hd (take 12 (replicate 16 (1 :: u8))) \<noteq> hd v4mapped_prefix"
    by (simp add: v4mapped_prefix_def)
  then have "take 12 (replicate 16 (1 :: u8)) \<noteq> v4mapped_prefix" by metis
  then show ?thesis
    using sockaddr_round_trip [of empty_Address Little "[127, 0, 0, 1]" 80 "replicate 16 1" 5 2]
    by (simp add: address_wf_def empty_Address_def)
qed

end
