(* ===== verification/Delay_History.thy ===== *)
theory Delay_History
  imports Utp_Config
begin

text \<open>
  \<^verbatim>\<open>src/utp/delay_history.hpp\<close>: the wrap-around comparison used for timestamps and sequence
  numbers, and \<open>DelayHistory\<close>, which turns one-way delay samples into queueing delays against
  a base delay. The abstract view measures every value as an offset from one origin of the
  wrapped clock; there the base is the minimum of the recorded history.
\<close>

section \<open>Model\<close>

definition kCurDelaySize :: nat where "kCurDelaySize = 3"
definition kDelayBaseHistory :: nat where "kDelayBaseHistory = 13"
definition kTimestampMask :: u32 where "kTimestampMask = 0xFFFFFFFF"

definition wrapping_compare_less :: "u32 \<Rightarrow> u32 \<Rightarrow> u32 \<Rightarrow> bool" where
  "wrapping_compare_less lhs rhs m =
     (let dist_down = (lhs - rhs) AND m; dist_up = (rhs - lhs) AND m
      in dist_up < dist_down)"

record DelayHistory =
  delay_base :: u32
  cur_delay_hist :: "u32 list"
  cur_delay_idx :: nat
  delay_base_hist :: "u32 list"
  delay_base_idx :: nat
  delay_base_time :: u64
  delay_base_initialized :: bool

definition new_DelayHistory :: DelayHistory where
  "new_DelayHistory =
     \<lparr>delay_base = 0, cur_delay_hist = replicate kCurDelaySize 0, cur_delay_idx = 0,
      delay_base_hist = replicate kDelayBaseHistory 0, delay_base_idx = 0,
      delay_base_time = 0, delay_base_initialized = False\<rparr>"

definition clear :: "u64 \<Rightarrow> DelayHistory \<Rightarrow> DelayHistory" where
  "clear current_ms h = h
     \<lparr>delay_base_initialized := False, delay_base := 0, cur_delay_idx := 0,
      delay_base_idx := 0, delay_base_time := current_ms,
      cur_delay_hist := replicate kCurDelaySize 0,
      delay_base_hist := replicate kDelayBaseHistory 0\<rparr>"

definition shift :: "u32 \<Rightarrow> DelayHistory \<Rightarrow> DelayHistory" where
  "shift offset h = h
     \<lparr>delay_base_hist := map (\<lambda>x. x + offset) (delay_base_hist h),
      delay_base := delay_base h + offset\<rparr>"

text \<open>The scan that recomputes the base: keep the smaller of each entry and the best so far.\<close>

definition min_base :: "u32 list \<Rightarrow> u32 \<Rightarrow> u32" where
  "min_base hist b =
     fold (\<lambda>x b. if wrapping_compare_less x b kTimestampMask then x else b) hist b"

text \<open>The parts of \<open>add_sample\<close> in the order of the source.\<close>

definition init_base :: "u32 \<Rightarrow> DelayHistory \<Rightarrow> DelayHistory" where
  "init_base sample h =
     (if delay_base_initialized h then h
      else h\<lparr>delay_base_hist := replicate kDelayBaseHistory sample, delay_base := sample,
             delay_base_initialized := True\<rparr>)"

definition lower_base :: "u32 \<Rightarrow> DelayHistory \<Rightarrow> DelayHistory" where
  "lower_base sample h =
     (let h = (if wrapping_compare_less sample (delay_base_hist h ! delay_base_idx h) kTimestampMask
               then h\<lparr>delay_base_hist := (delay_base_hist h)[delay_base_idx h := sample]\<rparr> else h)
      in if wrapping_compare_less sample (delay_base h) kTimestampMask
         then h\<lparr>delay_base := sample\<rparr> else h)"

definition record_delay :: "u32 \<Rightarrow> DelayHistory \<Rightarrow> DelayHistory" where
  "record_delay sample h =
     (let delay = sample - delay_base h
      in h\<lparr>cur_delay_hist := (cur_delay_hist h)[cur_delay_idx h := delay],
           cur_delay_idx := (cur_delay_idx h + 1) mod kCurDelaySize\<rparr>)"

definition rotate_base :: "u32 \<Rightarrow> u64 \<Rightarrow> DelayHistory \<Rightarrow> DelayHistory" where
  "rotate_base sample current_ms h =
     (if current_ms - delay_base_time h > 60 * 1000
      then let idx = (delay_base_idx h + 1) mod kDelayBaseHistory;
               hist = (delay_base_hist h)[idx := sample]
           in h\<lparr>delay_base_time := current_ms, delay_base_idx := idx, delay_base_hist := hist,
                delay_base := min_base hist (hist ! 0)\<rparr>
      else h)"

definition add_sample :: "u32 \<Rightarrow> u64 \<Rightarrow> DelayHistory \<Rightarrow> DelayHistory" where
  "add_sample sample current_ms h =
     rotate_base sample current_ms (record_delay sample (lower_base sample (init_base sample h)))"

definition get_value :: "DelayHistory \<Rightarrow> u32" where
  "get_value h = fold (\<lambda>x v. min x v) (cur_delay_hist h) 0xFFFFFFFF"

section \<open>Wrap-around comparison\<close>

text \<open>
  The comparison is that of serial numbers: \<open>lhs\<close> precedes \<open>rhs\<close> exactly when walking up
  from \<open>lhs\<close> reaches \<open>rhs\<close> in less than half of the number space.
\<close>

lemma dist_and_mask:
  assumes n: "n \<le> 32"
  shows "uint ((a - b) AND mask n :: u32) =
         (let u = uint ((b - a) AND mask n) in if u = 0 then 0 else 2 ^ n - u)"
proof -
  have dvd: "(2 :: int) ^ n dvd 2 ^ 32"
    using n by (rule le_imp_power_dvd)
  have "uint (a - b) = (- uint (b - a)) mod 2 ^ LENGTH(32)"
    by (metis minus_diff_eq uint_word_ariths(4))
  then have "uint (a - b) mod 2 ^ n = (- uint (b - a)) mod 2 ^ n"
    using dvd by (simp add: mod_mod_cancel)
  also have "\<dots> = (if uint (b - a) mod 2 ^ n = 0 then 0 else 2 ^ n - uint (b - a) mod 2 ^ n)"
    by (rule zmod_zminus1_eq_if)
  finally show ?thesis
    by (simp add: uint_and_mask Let_def)
qed

lemma unat_dist_and_mask:
  assumes "n \<le> 32"
  shows "unat ((a - b) AND mask n :: u32) =
         (let u = unat ((b - a) AND mask n) in if u = 0 then 0 else 2 ^ n - u)"
proof (cases "(b - a) AND mask n = 0")
  case True
  with dist_and_mask [OF assms, of a b] have "uint ((a - b) AND mask n) = 0"
    by (simp add: Let_def)
  with True show ?thesis
    by (simp add: Let_def uint_0_iff)
next
  case False
  let ?u = "unat ((b - a) AND mask n)"
  from False have nz: "uint ((b - a) AND mask n) \<noteq> 0" "?u \<noteq> 0"
    by (simp_all add: uint_0_iff unat_eq_zero)
  have "?u < 2 ^ n" by (simp add: unat_and_mask)
  then have "int (unat ((a - b) AND mask n)) = int (2 ^ n - ?u)"
    using dist_and_mask [OF assms, of a b] nz by (simp add: Let_def of_nat_diff)
  with nz show ?thesis
    unfolding of_nat_eq_iff Let_def by simp
qed

lemma wrapping_compare_less_iff:
  assumes n: "n \<le> 32"
  shows "wrapping_compare_less lhs rhs (mask n) \<longleftrightarrow>
         (let d = unat ((rhs - lhs) AND mask n) in 0 < d \<and> 2 * d < 2 ^ n)"
proof -
  define d where "d = unat ((rhs - lhs) AND mask n)"
  have "d < 2 ^ n" by (simp add: d_def unat_and_mask)
  moreover have "unat ((lhs - rhs) AND mask n) = (if d = 0 then 0 else 2 ^ n - d)"
    unfolding d_def using unat_dist_and_mask [OF n, of lhs rhs] by (simp only: Let_def)
  ultimately show ?thesis
    unfolding wrapping_compare_less_def word_less_nat_alt Let_def d_def [symmetric] by auto
qed

lemma timestamp_mask: "kTimestampMask = mask 32"
  by (simp add: kTimestampMask_def mask_eq_exp_minus_1)

lemma wcl32_iff:
  "wrapping_compare_less lhs rhs kTimestampMask \<longleftrightarrow>
     lhs \<noteq> rhs \<and> unat (rhs - lhs) < 2 ^ 31"
proof -
  have "(rhs - lhs) AND mask 32 = rhs - lhs"
    unfolding mask_eq_iff using uint_lt2p [of "rhs - lhs"] by simp
  moreover have "0 < unat (rhs - lhs) \<longleftrightarrow> lhs \<noteq> rhs"
    by (metis eq_iff_diff_eq_0 neq0_conv unat_eq_zero)
  ultimately show ?thesis
    unfolding timestamp_mask wrapping_compare_less_iff [OF order.refl] by (simp add: Let_def)
qed

section \<open>Offsets from an origin\<close>

definition off :: "u32 \<Rightarrow> u32 \<Rightarrow> nat" where
  "off orig x = unat (x - orig)"

definition in_window :: "u32 \<Rightarrow> u32 list \<Rightarrow> bool" where
  "in_window orig xs \<longleftrightarrow> (\<forall>x \<in> set xs. off orig x < 2 ^ 31)"

lemma in_window_simps [simp]:
  "in_window orig []"
  "in_window orig (x # xs) \<longleftrightarrow> off orig x < 2 ^ 31 \<and> in_window orig xs"
  by (auto simp: in_window_def)

lemma in_window_replicate: "off orig x < 2 ^ 31 \<Longrightarrow> in_window orig (replicate n x)"
  by (simp add: in_window_def)

lemma in_window_update:
  "in_window orig xs \<Longrightarrow> off orig x < 2 ^ 31 \<Longrightarrow> in_window orig (xs[i := x])"
  by (auto simp: in_window_def dest: set_update_subset_insert [THEN subsetD])

lemma unat_sub32:
  "unat (a - b :: u32) = (if unat b \<le> unat a then unat a - unat b else 2 ^ 32 + unat a - unat b)"
  using unat_sub_if' [of a b] by (auto simp: unat_sub_if_size word_size word_le_nat_alt)

lemma wcl_off:
  assumes "off orig x < 2 ^ 31" and "off orig y < 2 ^ 31"
  shows "wrapping_compare_less x y kTimestampMask \<longleftrightarrow> off orig x < off orig y"
proof -
  have "y - x = (y - orig) - (x - orig)" by simp
  then have "unat (y - x) = (if off orig x \<le> off orig y then off orig y - off orig x
                             else 2 ^ 32 + off orig y - off orig x)"
    by (simp only: off_def unat_sub32)
  moreover have "x = y \<longleftrightarrow> off orig x = off orig y"
    using word_unat_eq_iff [of "x - orig" "y - orig"] by (simp add: off_def)
  ultimately show ?thesis
    using assms by (auto simp: wcl32_iff)
qed

lemma min_base_off:
  assumes "off orig b < 2 ^ 31" and "in_window orig hist"
  shows "off orig (min_base hist b) = fold min (map (off orig) hist) (off orig b)"
  using assms
proof (induction hist arbitrary: b)
  case (Cons x hist)
  let ?b = "if wrapping_compare_less x b kTimestampMask then x else b"
  have b: "off orig ?b = min (off orig x) (off orig b)" "off orig ?b < 2 ^ 31"
    using Cons.prems wcl_off [of orig x b] by (auto simp: min_def)
  have "min_base (x # hist) b = min_base hist ?b"
    by (simp add: min_base_def)
  then show ?case
    using Cons.IH [OF b(2)] Cons.prems b(1) by simp
qed (simp add: min_base_def)

section \<open>Invariants and the minimum\<close>

text \<open>The two ring indices stay inside their arrays.\<close>

definition dh_wf :: "DelayHistory \<Rightarrow> bool" where
  "dh_wf h \<longleftrightarrow> length (cur_delay_hist h) = kCurDelaySize \<and> cur_delay_idx h < kCurDelaySize \<and>
     length (delay_base_hist h) = kDelayBaseHistory \<and> delay_base_idx h < kDelayBaseHistory"

text \<open>Seen from an origin with every entry in one half of the clock, the base is the minimum.\<close>

definition base_is_min :: "u32 \<Rightarrow> DelayHistory \<Rightarrow> bool" where
  "base_is_min orig h \<longleftrightarrow> in_window orig (delay_base_hist h) \<and>
     off orig (delay_base h) = Min (off orig ` set (delay_base_hist h))"

lemmas dh_size_defs = kCurDelaySize_def kDelayBaseHistory_def

lemma dh_wf_new [simp]: "dh_wf new_DelayHistory"
  by (simp add: dh_wf_def new_DelayHistory_def dh_size_defs)

lemma dh_wf_clear [simp]: "dh_wf (clear t h)"
  by (simp add: dh_wf_def clear_def dh_size_defs)

lemma clear_initialized [simp]: "\<not> delay_base_initialized (clear t h)"
  by (simp add: clear_def)

lemma dh_wf_shift [simp]: "dh_wf (shift k h) \<longleftrightarrow> dh_wf h"
  by (simp add: dh_wf_def shift_def)

lemma dh_wf_init_base: "dh_wf h \<Longrightarrow> dh_wf (init_base x h)"
  by (simp add: dh_wf_def init_base_def)

lemma dh_wf_lower_base: "dh_wf h \<Longrightarrow> dh_wf (lower_base x h)"
  by (simp add: dh_wf_def lower_base_def Let_def)

lemma dh_wf_record_delay: "dh_wf h \<Longrightarrow> dh_wf (record_delay x h)"
  by (simp add: dh_wf_def record_delay_def kCurDelaySize_def Let_def)

lemma dh_wf_rotate_base: "dh_wf h \<Longrightarrow> dh_wf (rotate_base x t h)"
  by (simp add: dh_wf_def rotate_base_def kDelayBaseHistory_def Let_def)

lemma dh_wf_add_sample: "dh_wf h \<Longrightarrow> dh_wf (add_sample x t h)"
  by (simp add: add_sample_def dh_wf_init_base dh_wf_lower_base dh_wf_record_delay
      dh_wf_rotate_base)

lemma base_in_window: "base_is_min orig h \<Longrightarrow> dh_wf h \<Longrightarrow> off orig (delay_base h) < 2 ^ 31"
proof -
  assume a: "base_is_min orig h" "dh_wf h"
  then have "delay_base_hist h \<noteq> []"
    by (auto simp: dh_wf_def kDelayBaseHistory_def)
  then have "off orig (delay_base h) \<in> off orig ` set (delay_base_hist h)"
    using a Min_in [of "off orig ` set (delay_base_hist h)"] by (simp add: base_is_min_def)
  with a show ?thesis
    by (auto simp: base_is_min_def in_window_def)
qed

lemma base_is_min_init_base:
  "off orig x < 2 ^ 31 \<Longrightarrow> (delay_base_initialized h \<Longrightarrow> base_is_min orig h) \<Longrightarrow>
   base_is_min orig (init_base x h) \<and> delay_base_initialized (init_base x h)"
  by (simp add: init_base_def base_is_min_def in_window_replicate kDelayBaseHistory_def)

lemma Min_update_min:
  fixes f :: "'a \<Rightarrow> nat"
  assumes "i < length xs" and "f x < f (xs ! i)"
  shows "Min (f ` set (xs[i := x])) = min (f x) (Min (f ` set xs))"
proof -
  define R where "R = f ` (set (take i xs) \<union> set (drop (Suc i) xs))"
  have xs: "f ` set xs = insert (f (xs ! i)) R"
    using assms(1) unfolding R_def
    by (metis Un_insert_right id_take_nth_drop image_insert list.simps(15) set_append)
  have up: "f ` set (xs[i := x]) = insert (f x) R"
    using assms(1) unfolding R_def by (simp add: upd_conv_take_nth_drop)
  have "finite R" by (simp add: R_def)
  moreover have "min (f x) (min (f (xs ! i)) m) = min (f x) m" for m
    using assms(2) by simp
  ultimately show ?thesis
    unfolding xs up using assms(2) by (cases "R = {}") simp_all
qed

lemma base_is_min_lower_base:
  assumes wf: "dh_wf h" and b: "base_is_min orig h" and x: "off orig x < 2 ^ 31"
  shows "base_is_min orig (lower_base x h) \<and>
         off orig (delay_base (lower_base x h)) = min (off orig x) (off orig (delay_base h))"
proof -
  let ?i = "delay_base_idx h" and ?hs = "delay_base_hist h"
  have i: "?i < length ?hs" using wf by (simp add: dh_wf_def)
  have win: "in_window orig ?hs" using b by (simp add: base_is_min_def)
  then have hi: "off orig (?hs ! ?i) < 2 ^ 31" using i by (simp add: in_window_def)
  have le: "off orig (delay_base h) \<le> off orig (?hs ! ?i)"
    using b i by (simp add: base_is_min_def)
  note cmp = wcl_off [OF x hi] wcl_off [OF x base_in_window [OF b wf]]
  show ?thesis
  proof (cases "off orig x < off orig (?hs ! ?i)")
    case True
    have "Min (off orig ` set (?hs[?i := x])) = min (off orig x) (off orig (delay_base h))"
      using Min_update_min [OF i True] b by (simp add: base_is_min_def)
    then show ?thesis
      using True cmp in_window_update [OF win x]
      by (simp add: lower_base_def base_is_min_def min_def Let_def)
  next
    case False
    with le have "\<not> off orig x < off orig (delay_base h)" by simp
    with False cmp b show ?thesis
      by (simp add: lower_base_def min_def Let_def)
  qed
qed

lemma fold_min_Min: "fold min xs (b :: nat) = Min (set (b # xs))"
proof (induction xs arbitrary: b)
  case (Cons x xs)
  then show ?case
    by (cases "xs = []") (simp_all add: min.assoc min.left_commute)
qed simp

lemma base_is_min_rotate_base:
  assumes wf: "dh_wf h" and b: "base_is_min orig h" and x: "off orig x < 2 ^ 31"
  shows "base_is_min orig (rotate_base x t h)"
proof -
  let ?hs = "(delay_base_hist h)[(delay_base_idx h + 1) mod kDelayBaseHistory := x]"
  have win: "in_window orig ?hs"
    using in_window_update b x by (simp add: base_is_min_def)
  have mem: "?hs ! 0 \<in> set ?hs"
    using wf by (intro nth_mem) (simp add: dh_wf_def kDelayBaseHistory_def)
  then have h0: "off orig (?hs ! 0) < 2 ^ 31"
    using win by (simp add: in_window_def)
  have "off orig (min_base ?hs (?hs ! 0)) = Min (off orig ` set ?hs)"
    unfolding min_base_off(1) [OF h0 win] fold_min_Min
    using mem by (simp add: insert_absorb)
  with win b show ?thesis
    by (simp add: rotate_base_def base_is_min_def Let_def)
qed

section \<open>Recorded delays\<close>

lemma add_sample_delays:
  "cur_delay_hist (add_sample x t h) =
     (cur_delay_hist h)[cur_delay_idx h := x - delay_base (lower_base x (init_base x h))]"
  by (simp add: add_sample_def rotate_base_def record_delay_def lower_base_def init_base_def Let_def)

lemma init_base_fields [simp]:
  "cur_delay_hist (init_base x h) = cur_delay_hist h"
  "cur_delay_idx (init_base x h) = cur_delay_idx h"
  by (simp_all add: init_base_def)

lemma base_after_lower:
  assumes wf: "dh_wf h" and b: "delay_base_initialized h \<Longrightarrow> base_is_min orig h"
    and x: "off orig x < 2 ^ 31"
  shows "base_is_min orig (lower_base x (init_base x h))"
    and "off orig (delay_base (lower_base x (init_base x h))) =
         (if delay_base_initialized h then min (off orig x) (off orig (delay_base h)) else off orig x)"
  using base_is_min_lower_base [OF dh_wf_init_base [OF wf] _ x]
    base_is_min_init_base [OF x b]
  by (auto simp: init_base_def)

lemma lower_base_initialized:
  "delay_base_initialized (lower_base x h) = delay_base_initialized h"
  by (simp add: lower_base_def Let_def)

lemma record_delay_base [simp]:
  "base_is_min orig (record_delay x h) = base_is_min orig h"
  "delay_base_initialized (record_delay x h) = delay_base_initialized h"
  by (simp_all add: record_delay_def base_is_min_def Let_def)

lemma sub_unat_off:
  "off orig b \<le> off orig a \<Longrightarrow> unat (a - b) = off orig a - off orig b"
  using unat_sub32 [of "a - orig" "b - orig"] by (simp add: off_def)

section \<open>Shifting\<close>

lemma wcl_shift [simp]:
  "wrapping_compare_less (a + k) (b + k) m = wrapping_compare_less a b m"
  by (simp add: wrapping_compare_less_def)

lemma min_base_shift: "min_base (map (\<lambda>x. x + k) hist) (b + k) = min_base hist b + k"
  by (induction hist arbitrary: b) (simp_all add: min_base_def if_distrib [of "\<lambda>b. b + k", symmetric])

lemma init_base_shift: "init_base (x + k) (shift k h) = shift k (init_base x h)"
  by (simp add: init_base_def shift_def)

lemma lower_base_shift:
  "dh_wf h \<Longrightarrow> lower_base (x + k) (shift k h) = shift k (lower_base x h)"
  by (simp add: lower_base_def shift_def dh_wf_def map_update Let_def)

lemma record_delay_shift: "record_delay (x + k) (shift k h) = shift k (record_delay x h)"
  by (simp add: record_delay_def shift_def Let_def)

lemma rotate_base_shift:
  "dh_wf h \<Longrightarrow> rotate_base (x + k) t (shift k h) = shift k (rotate_base x t h)"
proof -
  assume wf: "dh_wf h"
  let ?hs = "(delay_base_hist h)[(delay_base_idx h + 1) mod kDelayBaseHistory := x]"
  have upd: "(map (\<lambda>x. x + k) (delay_base_hist h))
      [(delay_base_idx h + 1) mod kDelayBaseHistory := x + k] = map (\<lambda>x. x + k) ?hs"
    by (simp add: map_update)
  have "map (\<lambda>x. x + k) ?hs ! 0 = ?hs ! 0 + k"
    using wf by (intro nth_map) (simp add: dh_wf_def kDelayBaseHistory_def)
  then show ?thesis
    unfolding rotate_base_def shift_def Let_def
    by (simp add: upd [simplified] min_base_shift del: map_update)
qed

section \<open>Properties\<close>

text \<open>On positions of an unbounded sequence that lie less than half of the number space
  apart, the masked wrap-around comparison is the order of the positions.\<close>

theorem wrapping_compare_less_order:
  assumes "n \<le> 32" and "a \<le> b" and "2 * (b - a) < 2 ^ n"
  shows "(wrapping_compare_less (of_nat a) (of_nat b) (mask n) \<longleftrightarrow> a < b) \<and>
         \<not> wrapping_compare_less (of_nat b) (of_nat a) (mask n)"
proof -
  define d where "d = b - a"
  have eq: "(of_nat b :: u32) - of_nat a = of_nat d"
    using assms(2) by (simp add: d_def of_nat_diff)
  have "(2 :: nat) ^ n \<le> 2 ^ 32" using assms(1) by (rule power_increasing) simp
  then have "unat ((of_nat d :: u32) AND mask n) = d"
    using assms(3) by (simp add: unat_and_mask unat_of_nat d_def)
  then have up: "unat ((of_nat b - of_nat a :: u32) AND mask n) = d"
    by (simp only: eq)
  moreover have "unat ((of_nat a - of_nat b :: u32) AND mask n) = (if d = 0 then 0 else 2 ^ n - d)"
    using unat_dist_and_mask [OF assms(1), of "of_nat a" "of_nat b"] up by (simp add: Let_def)
  ultimately show ?thesis
    using assms(2,3) unfolding wrapping_compare_less_iff [OF assms(1)] Let_def d_def by auto
qed

lemma wrapping_compare_less_order_witness:
  "wrapping_compare_less (of_nat 65530) (of_nat 65541) (mask 16) \<and>
   \<not> wrapping_compare_less (of_nat 65541) (of_nat 65530) (mask 16)"
  using wrapping_compare_less_order [of 16 65530 65541] by simp

text \<open>C30: a sample keeps both rings well formed, leaves the base initialised, and keeps the
  base the minimum of the recorded history as seen from any origin of the clock.\<close>

theorem add_sample_base_is_min:
  assumes wf: "dh_wf h" and b: "delay_base_initialized h \<Longrightarrow> base_is_min orig h"
    and x: "off orig x < 2 ^ 31"
  shows "dh_wf (add_sample x t h) \<and> delay_base_initialized (add_sample x t h) \<and>
         base_is_min orig (add_sample x t h)"
proof -
  let ?h = "record_delay x (lower_base x (init_base x h))"
  have "base_is_min orig ?h" and "dh_wf ?h" and "delay_base_initialized ?h"
    using base_after_lower(1) [OF wf b x] base_is_min_init_base [OF x b] wf
    by (simp_all add: dh_wf_record_delay dh_wf_lower_base dh_wf_init_base lower_base_initialized)
  then show ?thesis
    using base_is_min_rotate_base [OF _ _ x] dh_wf_rotate_base
    by (simp add: add_sample_def) (simp add: rotate_base_def Let_def)
qed

lemma add_sample_base_is_min_witness:
  "base_is_min 0 (add_sample 500 7 (add_sample 800 5 (clear 3 new_DelayHistory)))"
proof -
  have "dh_wf (add_sample 800 5 (clear 3 new_DelayHistory)) \<and>
      base_is_min 0 (add_sample 800 5 (clear 3 new_DelayHistory))"
    using add_sample_base_is_min [of "clear 3 new_DelayHistory" 0 800 5]
    by (simp add: off_def)
  then show ?thesis
    using add_sample_base_is_min [of "add_sample 800 5 (clear 3 new_DelayHistory)" 0 500 7]
    by (simp add: off_def)
qed

text \<open>The delay recorded for a sample is its distance above the smaller of the sample and
  the previous base, so a sample below the base is recorded as no queueing delay.\<close>

theorem add_sample_queueing_delay:
  assumes wf: "dh_wf h" and i: "delay_base_initialized h" and b: "base_is_min orig h"
    and x: "off orig x < 2 ^ 31"
  shows "unat (cur_delay_hist (add_sample x t h) ! cur_delay_idx h) =
         off orig x - min (off orig x) (off orig (delay_base h))"
proof -
  let ?b = "delay_base (lower_base x (init_base x h))"
  have "off orig ?b = min (off orig x) (off orig (delay_base h))"
    using base_after_lower(2) [OF wf _ x] b i by simp
  moreover from this have "unat (x - ?b) = off orig x - off orig ?b"
    by (intro sub_unat_off) simp
  ultimately show ?thesis
    using wf by (simp add: add_sample_delays dh_wf_def)
qed

definition sample_history :: DelayHistory where
  "sample_history = new_DelayHistory
     \<lparr>delay_base_initialized := True, delay_base := 400,
      delay_base_hist := replicate kDelayBaseHistory 400\<rparr>"

lemma add_sample_queueing_delay_witness:
  "unat (cur_delay_hist (add_sample 900 7 sample_history) ! cur_delay_idx sample_history) = 500"
  using add_sample_queueing_delay [of sample_history 0 900 7]
  by (simp add: sample_history_def base_is_min_def off_def dh_wf_def new_DelayHistory_def
      in_window_def dh_size_defs)

text \<open>Adding the same clock offset to the history and to a sample changes nothing but the
  offset itself, so \<open>shift\<close> compensates a drift of the peer's clock exactly.\<close>

theorem add_sample_shift:
  assumes "dh_wf h"
  shows "add_sample (x + k) t (shift k h) = shift k (add_sample x t h) \<and>
         get_value (shift k h) = get_value h"
  using assms
  by (simp add: add_sample_def init_base_shift lower_base_shift record_delay_shift
      rotate_base_shift dh_wf_init_base dh_wf_lower_base dh_wf_record_delay)
     (simp add: get_value_def shift_def)

lemma add_sample_shift_witness:
  "add_sample (900 + 5) 7 (shift 5 sample_history) = shift 5 (add_sample 900 7 sample_history)"
  using add_sample_shift [of sample_history 900 5 7]
  by (simp add: sample_history_def dh_wf_def new_DelayHistory_def dh_size_defs)

end
