(* ===== verification/Ieee_Double.thy ===== *)
theory Ieee_Double
  imports Complex_Main "HOL-Library.Log_Nat"
begin

text \<open>
  The \<open>double\<close> arithmetic of the congestion controller. A finite double is the rational number it
  stands for; each operation is the exact one followed by \<open>dbl\<close>, rounding to 53 significant bits,
  ties to even. The controller's values lie between \<open>2^-96\<close> and \<open>2^98\<close> in magnitude, so
  subnormals, infinities and NaN do not arise and the exponent range is left unbounded.
  What the controller needs of rounding is the locale \<open>rounding\<close>, interpreted on \<open>dbl\<close>.
\<close>

section \<open>Rounding\<close>

definition rne :: "rat \<Rightarrow> int" where
  "rne r = (let f = \<lfloor>r\<rfloor>; d = r - of_int f
            in if d < 1 / 2 then f else if 1 / 2 < d then f + 1
               else if even f then f else f + 1)"

text \<open>The binary exponent: \<open>2 powi expo x \<le> x < 2 powi (expo x + 1)\<close> for positive \<open>x\<close>.\<close>

definition expo :: "rat \<Rightarrow> int" where
  "expo x = (if 1 \<le> x then bitlen \<lfloor>x\<rfloor> - 1 else - bitlen (\<lceil>1 / x\<rceil> - 1))"

definition dbl_pos :: "rat \<Rightarrow> rat" where
  "dbl_pos x = (let u = 2 powi (expo x - 52) in u * of_int (rne (x / u)))"

definition dbl :: "rat \<Rightarrow> rat" where
  "dbl x = (if x = 0 then 0 else if 0 < x then dbl_pos x else - dbl_pos (- x))"

text \<open>Conversion to an integer discards the fraction.\<close>

definition trunc :: "rat \<Rightarrow> int" where
  "trunc x = (if 0 \<le> x then \<lfloor>x\<rfloor> else \<lceil>x\<rceil>)"

section \<open>Lemmas on rounding to an integer\<close>

lemma rne_bounds: "\<lfloor>r\<rfloor> \<le> rne r" "rne r \<le> \<lfloor>r\<rfloor> + 1"
  by (simp_all add: rne_def Let_def)

lemma rne_of_int [simp]: "rne (of_int i) = i"
  by (simp add: rne_def)

lemma rne_mono:
  assumes "r \<le> s"
  shows "rne r \<le> rne s"
proof (cases "\<lfloor>r\<rfloor> = \<lfloor>s\<rfloor>")
  case True
  then show ?thesis using assms by (auto simp: rne_def Let_def)
next
  case False
  then have "\<lfloor>r\<rfloor> + 1 \<le> \<lfloor>s\<rfloor>"
    using floor_mono [OF assms] by linarith
  with rne_bounds [of r] rne_bounds [of s] show ?thesis by linarith
qed

lemma rne_error: "\<bar>of_int (rne r) - r\<bar> \<le> 1 / 2"
proof -
  define d where "d = r - of_int \<lfloor>r\<rfloor>"
  have r: "r = of_int \<lfloor>r\<rfloor> + d" by (simp add: d_def)
  have "0 \<le> d" and "d < 1" unfolding d_def by linarith+
  then have "\<bar>(if d < 1 / 2 then of_int \<lfloor>r\<rfloor> else if 1 / 2 < d then of_int \<lfloor>r\<rfloor> + 1
      else if even \<lfloor>r\<rfloor> then of_int \<lfloor>r\<rfloor> else of_int \<lfloor>r\<rfloor> + 1) - (of_int \<lfloor>r\<rfloor> + d)\<bar> \<le> 1 / 2"
    by (auto simp: abs_if)
  then show ?thesis
    using r by (simp add: rne_def Let_def flip: d_def split: if_splits)
qed

section \<open>The exponent\<close>

lemma bitlen_range:
  assumes "0 < n"
  shows "2 ^ nat (bitlen n - 1) \<le> n" and "n < 2 ^ nat (bitlen n)"
  using bitlen_bounds [OF assms] by simp_all

lemma bitlen_pos: "0 < n \<Longrightarrow> 1 \<le> bitlen n"
  using bitlen_eq_zero_iff [of n] bitlen_nonneg [of n] by linarith

lemma powi_nat: "0 \<le> i \<Longrightarrow> (2 :: rat) powi i = of_int (2 ^ nat i)"
  by (simp add: power_int_def)

lemma expo_bounds_large:
  assumes x: "1 \<le> x"
  shows "2 powi expo x \<le> x" and "x < 2 powi (expo x + 1)"
proof -
  define n where "n = \<lfloor>x\<rfloor>"
  have n: "0 < n" "of_int n \<le> x" "x < of_int (n + 1)"
    using x unfolding n_def by linarith+
  have e: "expo x = bitlen n - 1" using x by (simp add: expo_def n_def)
  have "(of_int (2 ^ nat (bitlen n - 1)) :: rat) \<le> of_int n"
    unfolding of_int_le_iff by (rule bitlen_range(1) [OF n(1)])
  then show "2 powi expo x \<le> x"
    unfolding e using bitlen_pos [OF n(1)] n(2) by (subst powi_nat) linarith+
  have "(of_int (n + 1) :: rat) \<le> of_int (2 ^ nat (bitlen n))"
    unfolding of_int_le_iff using bitlen_range(2) [OF n(1)] by linarith
  then have "x < of_int (2 ^ nat (bitlen n))" using n(3) by linarith
  then show "x < 2 powi (expo x + 1)"
    unfolding e using bitlen_pos [OF n(1)] by (simp only: diff_add_cancel powi_nat bitlen_nonneg)
qed

lemma expo_bounds_small:
  assumes x: "0 < x" and lt: "x < 1"
  shows "2 powi expo x \<le> x" and "x < 2 powi (expo x + 1)"
proof -
  define n where "n = \<lceil>1 / x\<rceil> - 1"
  have "1 < 1 / x" using x lt by simp
  then have n: "0 < n" "1 / x \<le> of_int (n + 1)" "of_int n < 1 / x"
    unfolding n_def by linarith+
  have e: "expo x = - bitlen n" using lt by (simp add: expo_def n_def)
  have "(of_int (n + 1) :: rat) \<le> of_int (2 ^ nat (bitlen n))"
    unfolding of_int_le_iff using bitlen_range(2) [OF n(1)] by linarith
  then have up: "1 / x \<le> 2 powi bitlen n"
    using n(2) by (subst powi_nat [OF bitlen_nonneg]) linarith
  have "(of_int (2 ^ nat (bitlen n - 1)) :: rat) \<le> of_int n"
    unfolding of_int_le_iff by (rule bitlen_range(1) [OF n(1)])
  then have lo: "2 powi (bitlen n - 1) < 1 / x"
    using n(3) bitlen_pos [OF n(1)] by (subst powi_nat) linarith+
  have inv: "(2 :: rat) powi (- i) = 1 / 2 powi i" for i
    by (simp add: power_int_minus divide_inverse)
  have pos: "(0 :: rat) < 2 powi i" for i by simp
  show "2 powi expo x \<le> x"
    unfolding e inv using up x pos [of "bitlen n"] by (simp add: divide_le_eq mult.commute)
  have "expo x + 1 = - (bitlen n - 1)" by (simp add: e)
  then show "x < 2 powi (expo x + 1)"
    using lo x pos [of "bitlen n - 1"] by (simp only: inv) (simp add: less_divide_eq mult.commute)
qed

lemma expo_bounds:
  assumes "0 < x"
  shows "2 powi expo x \<le> x" and "x < 2 powi (expo x + 1)"
  using assms expo_bounds_large [of x] expo_bounds_small [of x] by (simp_all only: not_le [symmetric]) blast+

lemma powi_two_le: "i \<le> j \<Longrightarrow> (2 :: rat) powi i \<le> 2 powi j"
  by (rule power_int_increasing) simp_all

lemma expo_unique:
  assumes "2 powi e \<le> x" and "x < 2 powi (e + 1)"
  shows "expo x = e"
proof -
  have x: "0 < x" using assms(1) by (rule less_le_trans [rotated]) simp
  have "\<not> expo x + 1 \<le> e"
    using expo_bounds(2) [OF x] assms(1) powi_two_le [of "expo x + 1" e] by linarith
  moreover have "\<not> e + 1 \<le> expo x"
    using expo_bounds(1) [OF x] assms(2) powi_two_le [of "e + 1" "expo x"] by linarith
  ultimately show ?thesis by linarith
qed

lemma expo_mono: "0 < x \<Longrightarrow> x \<le> y \<Longrightarrow> expo x \<le> expo y"
proof -
  assume x: "0 < x" and xy: "x \<le> y"
  show ?thesis
  proof (rule ccontr)
    assume "\<not> expo x \<le> expo y"
    then have "(2 :: rat) powi (expo y + 1) \<le> 2 powi expo x" by (intro powi_two_le) simp
    with expo_bounds(1) [OF x] expo_bounds(2) [of y] x xy show False by linarith
  qed
qed

section \<open>Rounding a positive number\<close>

lemma scaled_range:
  assumes "0 < x"
  shows "2 ^ 52 \<le> x / 2 powi (expo x - 52)" and "x / 2 powi (expo x - 52) < 2 ^ 53"
proof -
  have "(2 :: rat) powi expo x = 2 ^ 52 * 2 powi (expo x - 52)"
    by (simp add: power_int_diff)
  then show "2 ^ 52 \<le> x / 2 powi (expo x - 52)"
    using expo_bounds(1) [OF assms] by (simp add: pos_le_divide_eq)
  have "(2 :: rat) powi (expo x + 1) = 2 ^ 53 * 2 powi (expo x - 52)"
    by (simp add: power_int_diff power_int_add)
  then show "x / 2 powi (expo x - 52) < 2 ^ 53"
    using expo_bounds(2) [OF assms] by (simp add: pos_divide_less_eq)
qed

lemma dbl_pos_range:
  assumes x: "0 < x"
  shows "2 powi expo x \<le> dbl_pos x" and "dbl_pos x \<le> 2 powi (expo x + 1)"
proof -
  let ?u = "2 powi (expo x - 52) :: rat"
  have u: "0 \<le> ?u" by simp
  have "rne (of_int (2 ^ 52)) \<le> rne (x / ?u)"
    by (rule rne_mono) (use scaled_range(1) [OF x] in simp)
  then have "(of_int (2 ^ 52) :: rat) \<le> of_int (rne (x / ?u))"
    unfolding rne_of_int of_int_le_iff .
  from mult_left_mono [OF this u] show "2 powi expo x \<le> dbl_pos x"
    by (simp add: dbl_pos_def Let_def power_int_diff)
  have "rne (x / ?u) \<le> rne (of_int (2 ^ 53))"
    by (rule rne_mono) (use scaled_range(2) [OF x] in simp)
  then have "of_int (rne (x / ?u)) \<le> (of_int (2 ^ 53) :: rat)"
    unfolding rne_of_int of_int_le_iff .
  from mult_left_mono [OF this u] show "dbl_pos x \<le> 2 powi (expo x + 1)"
    by (simp add: dbl_pos_def Let_def power_int_diff power_int_add)
qed

lemma dbl_pos_mono:
  assumes x: "0 < x" and xy: "x \<le> y"
  shows "dbl_pos x \<le> dbl_pos y"
proof (cases "expo x = expo y")
  case True
  have "rne (x / 2 powi (expo y - 52)) \<le> rne (y / 2 powi (expo y - 52))"
    by (intro rne_mono divide_right_mono xy) simp
  then show ?thesis
    unfolding dbl_pos_def Let_def True
    by (intro mult_left_mono) simp_all
next
  case False
  with expo_mono [OF x xy] have "(2 :: rat) powi (expo x + 1) \<le> 2 powi expo y"
    by (intro powi_two_le) simp
  with dbl_pos_range(2) [OF x] dbl_pos_range(1) [of y] x xy show ?thesis by linarith
qed

lemma dbl_pos_exact:
  assumes "x / 2 powi (expo x - 52) = of_int k"
  shows "dbl_pos x = x"
proof -
  have "dbl_pos x = 2 powi (expo x - 52) * of_int k"
    by (simp add: dbl_pos_def assms Let_def)
  also have "\<dots> = x" by (simp flip: assms)
  finally show ?thesis .
qed

lemma expo_powi: "expo (2 powi e) = e"
  by (rule expo_unique) (simp_all add: power_int_add)

lemma dbl_pos_powi: "dbl_pos (2 powi e) = 2 powi e"
  by (rule dbl_pos_exact [where k = "2 ^ 52"]) (simp add: expo_powi power_int_diff)

lemma dbl_pos_int:
  assumes "0 < n" and "n \<le> 2 ^ 53"
  shows "dbl_pos (of_int n) = of_int n"
proof (cases "n = 2 ^ 53")
  case True
  then have "(of_int n :: rat) = 2 powi 53" by simp
  then show ?thesis by (simp only: dbl_pos_powi)
next
  case False
  have "expo (of_int n) < 53"
  proof (rule ccontr)
    assume "\<not> expo (of_int n) < 53"
    then have "(2 :: rat) powi 53 \<le> 2 powi expo (of_int n)" by (intro powi_two_le) simp
    also have "\<dots> \<le> of_int n" using assms(1) by (intro expo_bounds) simp
    finally have "(of_int (2 ^ 53) :: rat) \<le> of_int n" by simp
    then have "2 ^ 53 \<le> n" unfolding of_int_le_iff .
    with False assms(2) show False by linarith
  qed
  then have "0 \<le> 52 - expo (of_int n)" by simp
  define j where "j = nat (52 - expo (of_int n))"
  then have j: "expo (of_int n) - 52 = - int j"
    using \<open>0 \<le> 52 - expo (of_int n)\<close> by linarith
  have "of_int n / (2 :: rat) powi (- int j) = of_int (n * 2 ^ j)"
    by (simp add: power_int_minus divide_inverse)
  then show ?thesis
    by (intro dbl_pos_exact [where k = "n * 2 ^ j"]) (simp only: j)
qed

lemma dbl_pos_error:
  assumes x: "0 < x"
  shows "\<bar>dbl_pos x - x\<bar> \<le> x / 2 ^ 53"
proof -
  let ?u = "2 powi (expo x - 52) :: rat"
  have "dbl_pos x - x = ?u * (of_int (rne (x / ?u)) - x / ?u)"
    by (simp add: dbl_pos_def Let_def right_diff_distrib)
  then have "\<bar>dbl_pos x - x\<bar> = ?u * \<bar>of_int (rne (x / ?u)) - x / ?u\<bar>"
    by (simp add: abs_mult)
  also have "\<dots> \<le> ?u * (1 / 2)"
    by (intro mult_left_mono rne_error) simp
  also have "\<dots> = 2 powi expo x / 2 ^ 53"
    by (simp add: power_int_diff)
  also have "\<dots> \<le> x / 2 ^ 53"
    using expo_bounds(1) [OF x] by (intro divide_right_mono) simp_all
  finally show ?thesis .
qed

lemma dbl_pos_idem:
  assumes x: "0 < x"
  shows "dbl_pos (dbl_pos x) = dbl_pos x"
proof (cases "dbl_pos x = 2 powi (expo x + 1)")
  case True
  show ?thesis unfolding True by (rule dbl_pos_powi)
next
  case False
  then have "expo (dbl_pos x) = expo x"
    using dbl_pos_range [OF x] by (intro expo_unique) simp_all
  moreover have "dbl_pos x / 2 powi (expo x - 52) = of_int (rne (x / 2 powi (expo x - 52)))"
    by (simp add: dbl_pos_def Let_def)
  ultimately show ?thesis by (intro dbl_pos_exact) simp
qed

lemma dbl_pos_pos: "0 < x \<Longrightarrow> 0 < dbl_pos x"
  using dbl_pos_range(1) [of x] by (rule less_le_trans [rotated]) simp_all

section \<open>Rounding in general\<close>

lemma dbl_simps [simp]:
  "dbl 0 = 0"
  "0 < x \<Longrightarrow> dbl x = dbl_pos x"
  "x < 0 \<Longrightarrow> dbl x = - dbl_pos (- x)"
  by (simp_all add: dbl_def)

lemma dbl_mono: "x \<le> y \<Longrightarrow> dbl x \<le> dbl y"
proof -
  assume xy: "x \<le> y"
  consider "0 < x" | "x \<le> 0" "0 \<le> y" | "y < 0" by linarith
  then show ?thesis
  proof cases
    case 1
    then show ?thesis using xy by (simp add: dbl_pos_mono)
  next
    case 2
    have "dbl x \<le> 0" using 2(1) dbl_pos_pos [of "- x"] by (cases "x = 0") simp_all
    moreover have "0 \<le> dbl y" using 2(2) dbl_pos_pos [of y] by (cases "y = 0") simp_all
    ultimately show ?thesis by linarith
  next
    case 3
    then show ?thesis using xy dbl_pos_mono [of "- y" "- x"] by simp
  qed
qed

lemma dbl_exact:
  assumes "\<bar>k\<bar> \<le> 2 ^ 53"
  shows "dbl (of_int k) = of_int k"
proof -
  consider "k = 0" | "0 < k" | "k < 0" by linarith
  then show ?thesis
  proof cases
    case 2
    then show ?thesis using assms dbl_pos_int [of k] by simp
  next
    case 3
    then show ?thesis using assms dbl_pos_int [of "- k"] by simp
  qed simp
qed

lemma dbl_error: "\<bar>dbl x - x\<bar> \<le> \<bar>x\<bar> / 2 ^ 53"
proof -
  consider "x = 0" | "0 < x" | "x < 0" by linarith
  then show ?thesis
  proof cases
    case 2
    then show ?thesis using dbl_pos_error [of x] by simp
  next
    case 3
    have "\<bar>dbl x - x\<bar> = \<bar>dbl_pos (- x) - (- x)\<bar>" using 3 by (simp add: abs_minus_commute)
    then show ?thesis using 3 dbl_pos_error [of "- x"] by simp
  qed simp
qed

lemma dbl_idem: "dbl (dbl x) = dbl x"
proof -
  consider "x = 0" | "0 < x" | "x < 0" by linarith
  then show ?thesis
    by cases (simp_all add: dbl_pos_pos dbl_pos_idem)
qed

section \<open>What a client of rounding relies on\<close>

locale rounding =
  fixes fl :: "rat \<Rightarrow> rat"
  assumes fl_mono: "x \<le> y \<Longrightarrow> fl x \<le> fl y"
    and fl_exact: "\<bar>k\<bar> \<le> 2 ^ 53 \<Longrightarrow> fl (of_int k) = of_int k"
    and fl_error: "\<bar>fl x - x\<bar> \<le> \<bar>x\<bar> / 2 ^ 53"
    and fl_idem: "fl (fl x) = fl x"
begin

lemma fl_le_int: "x \<le> of_int k \<Longrightarrow> \<bar>k\<bar> \<le> 2 ^ 53 \<Longrightarrow> fl x \<le> of_int k"
  using fl_mono [of x "of_int k"] fl_exact [of k] by simp

lemma fl_ge_int: "of_int k \<le> x \<Longrightarrow> \<bar>k\<bar> \<le> 2 ^ 53 \<Longrightarrow> of_int k \<le> fl x"
  using fl_mono [of "of_int k" x] fl_exact [of k] by simp

lemma fl_nonneg: "0 \<le> x \<Longrightarrow> 0 \<le> fl x"
  using fl_ge_int [of 0 x] by simp

lemma fl_nonpos: "x \<le> 0 \<Longrightarrow> fl x \<le> 0"
  using fl_le_int [of x 0] by simp

lemma fl_le_one: "x \<le> 1 \<Longrightarrow> fl x \<le> 1"
  using fl_le_int [of x 1] by simp

text \<open>The quotient of two rounded integers, the smaller over the larger, is in the unit interval.\<close>

lemma fl_pos: "1 \<le> x \<Longrightarrow> 1 \<le> fl x"
  using fl_ge_int [of 1 x] by simp

lemma ratio_unit:
  assumes "0 \<le> a" and "a \<le> b" and "1 \<le> b"
  shows "0 \<le> fl (fl a / fl b)" and "fl (fl a / fl b) \<le> 1"
proof -
  have "fl a / fl b \<le> 1" and "0 \<le> fl a / fl b"
    using fl_mono [OF assms(2)] fl_nonneg [OF assms(1)] fl_pos [OF assms(3)] by simp_all
  then show "0 \<le> fl (fl a / fl b)" and "fl (fl a / fl b) \<le> 1"
    by (simp_all add: fl_nonneg fl_le_one)
qed

lemma share_of_one:
  assumes "x \<le> y" and "0 < y"
  shows "fl (x / y) \<le> 1"
  using assms by (intro fl_le_one) simp

text \<open>Scaling a rounded non-negative number by a factor of at most one does not raise it.\<close>

lemma fl_scale_le:
  assumes "0 \<le> g" and "d \<le> 1"
  shows "fl (fl g * d) \<le> fl g"
proof -
  have "fl g * d \<le> fl g * 1"
    using fl_nonneg [OF assms(1)] assms(2) by (intro mult_left_mono)
  then have "fl (fl g * d) \<le> fl (fl g)" by (intro fl_mono) simp
  then show ?thesis by (simp add: fl_idem)
qed

lemma fl_scale_neg:
  assumes "0 \<le> g" and "d \<le> 0"
  shows "fl (fl g * d) \<le> 0"
  using fl_nonneg [OF assms(1)] assms(2) by (intro fl_nonpos) (simp add: mult_nonneg_nonpos)

lemma fl_upper: "0 \<le> x \<Longrightarrow> fl x \<le> x + x / 2 ^ 53"
  using fl_error [of x] unfolding abs_le_iff by linarith

lemma fl_lower: "0 \<le> x \<Longrightarrow> x - x / 2 ^ 53 \<le> fl x"
  using fl_error [of x] unfolding abs_le_iff by linarith

text \<open>Adding an increase of at most \<open>k\<close> to an integer window adds at most \<open>k\<close>.\<close>

lemma fl_add_le:
  assumes "0 \<le> w" and "0 \<le> k" and "w + k \<le> 2 ^ 53" and "g \<le> of_int k"
  shows "fl (fl (of_int w) + g) \<le> of_int (w + k)"
proof -
  have "fl (of_int w) = of_int w" using assms(1-3) by (intro fl_exact) linarith
  then show ?thesis using assms by (intro fl_le_int) simp_all
qed

text \<open>
  Rounding a product of a share \<open>q = m / d\<close> and a cap \<open>k\<close> in two different orders: the results
  differ by less than one as long as the cap is small against the precision.
\<close>

lemma fl_near:
  assumes "0 \<le> x" and "x \<le> 2 ^ 21"
  shows "fl x \<le> x + 1 / 8" and "x - 1 / 8 \<le> fl x"
  using fl_upper [OF assms(1)] fl_lower [OF assms(1)] assms(2) by simp_all

lemma share_orders:
  assumes m: "0 \<le> m" "m \<le> d" "1 \<le> d" and k: "0 \<le> k" "k \<le> 2 ^ 20"
  shows "fl (k * fl (m / d)) \<le> fl (1 + fl (fl (k * m) / d))"
proof -
  define q where "q = m / d"
  have q: "0 \<le> q" "q \<le> 1" using m by (simp_all add: q_def)
  have kq: "0 \<le> k * q" "k * q \<le> 2 ^ 20"
    using q k mult_mono [of k "2 ^ 20" q 1] by simp_all
  have "fl q \<le> q + q / 2 ^ 53" by (rule fl_upper [OF q(1)])
  then have "k * fl q \<le> k * (q + q / 2 ^ 53)" using k(1) by (rule mult_left_mono)
  also have "\<dots> = k * q + k * q / 2 ^ 53" by (simp add: distrib_left)
  also have "\<dots> \<le> k * q + 1 / 8" using kq by simp
  finally have a: "k * fl q \<le> k * q + 1 / 8" .
  have "0 \<le> k * fl q" using k(1) fl_nonneg [OF q(1)] by simp
  then have "fl (k * fl q) \<le> k * fl q + 1 / 8" using a kq by (intro fl_near) simp_all
  then have up: "fl (k * fl q) \<le> k * q + 1 / 4" using a by simp
  have "k * m - k * m / 2 ^ 53 \<le> fl (k * m)" by (rule fl_lower) (use k m in simp)
  then have "(k * m - k * m / 2 ^ 53) / d \<le> fl (k * m) / d" by (rule divide_right_mono) (use m in simp)
  moreover have "(k * m - k * m / 2 ^ 53) / d = k * q - k * q / 2 ^ 53"
    by (simp add: q_def diff_divide_distrib)
  ultimately have b: "k * q - 1 / 8 \<le> fl (k * m) / d" using kq by simp
  have "fl (k * q - 1 / 8) \<le> fl (fl (k * m) / d)" by (rule fl_mono [OF b])
  moreover have "k * q - 1 / 2 \<le> fl (k * q - 1 / 8)"
  proof (cases "1 / 8 \<le> k * q")
    case True
    then show ?thesis using fl_near(2) [of "k * q - 1 / 8"] kq by simp
  next
    case False
    have "- 1 \<le> k * q - 1 / 8" using kq by simp
    then have "fl (- (1 / 8)) \<le> fl (k * q - 1 / 8)" using kq by (intro fl_mono) simp
    moreover have "- (1 / 4) \<le> fl (- (1 / 8))" using fl_error [of "- (1 / 8)"] by (simp add: abs_if split: if_splits)
    ultimately show ?thesis using False by simp
  qed
  ultimately have "k * q + 1 / 2 \<le> 1 + fl (fl (k * m) / d)" by linarith
  then have "fl (k * q + 1 / 2) \<le> fl (1 + fl (fl (k * m) / d))" by (rule fl_mono)
  moreover have "k * q + 1 / 2 - 1 / 8 \<le> fl (k * q + 1 / 2)" by (rule fl_near(2)) (use kq in simp_all)
  ultimately show ?thesis using up by (simp flip: q_def)
qed

end

interpretation dbl: rounding dbl
  by unfold_locales (fact dbl_mono dbl_exact dbl_error dbl_idem)+

section \<open>Truncation\<close>

lemma trunc_mono: "x \<le> y \<Longrightarrow> trunc x \<le> trunc y"
proof -
  assume xy: "x \<le> y"
  consider "0 \<le> x" | "x < 0" "0 \<le> y" | "y < 0" by linarith
  then show ?thesis
  proof cases
    case 1
    then show ?thesis using xy by (simp add: trunc_def floor_mono)
  next
    case 2
    then have "\<lceil>x\<rceil> \<le> 0" and "0 \<le> \<lfloor>y\<rfloor>" by (simp_all add: ceiling_le_iff le_floor_iff)
    then have "\<lceil>x\<rceil> \<le> \<lfloor>y\<rfloor>" by (rule order_trans)
    then show ?thesis using 2 by (simp add: trunc_def)
  next
    case 3
    then show ?thesis using xy by (simp add: trunc_def ceiling_mono)
  qed
qed

lemma trunc_of_int [simp]: "trunc (of_int k) = k"
  by (simp add: trunc_def)

end
