(* ===== verification/Ledbat.thy ===== *)
theory Ledbat
  imports Delay_History Ieee_Double
begin

text \<open>
  \<^verbatim>\<open>src/utp/ledbat.cpp\<close> and \<^verbatim>\<open>src/utp/ledbat.hpp\<close>: the LEDBAT congestion controller.
  Unsigned fields are words; signed fields are integers, and every signed addition,
  subtraction and multiplication whose result may leave the type's range is undefined
  behaviour there. A double out of the range of \<open>size_t\<close> is converted by
  \<open>oor_to_size\<close>, a parameter: C++ leaves the result undefined, and the processors differ.
\<close>

section \<open>Conversions\<close>

record build =
  ndebug :: bool
  oor_to_size :: "rat \<Rightarrow> u64"

definition in_i32 :: "int \<Rightarrow> bool" where
  "in_i32 v \<longleftrightarrow> - (2 ^ 31) \<le> v \<and> v < 2 ^ 31"

definition in_i64 :: "int \<Rightarrow> bool" where
  "in_i64 v \<longleftrightarrow> - (2 ^ 63) \<le> v \<and> v < 2 ^ 63"

definition INT_MAX :: int where "INT_MAX = 2 ^ 31 - 1"

text \<open>Conversions that wrap, as the implementations define them.\<close>

definition to_i32 :: "int \<Rightarrow> int" where
  "to_i32 v = signed_take_bit 31 v"

definition size_of_double :: "build \<Rightarrow> rat \<Rightarrow> u64" where
  "size_of_double B x =
     (if 0 \<le> trunc x \<and> trunc x < 2 ^ 64 then of_int (trunc x) else oor_to_size B x)"

definition double_of_size :: "u64 \<Rightarrow> rat" where
  "double_of_size w = dbl (of_int (uint w))"

text \<open>
  What two common targets do with a value out of range: \<^verbatim>\<open>cvttsd2si\<close> on x86-64 yields the
  low 64 bits of a negative value, AArch64 saturates.
\<close>

definition x86_to_size :: "rat \<Rightarrow> u64" where
  "x86_to_size x = (if 0 \<le> trunc x then 0 else if - (2 ^ 63) \<le> trunc x then of_int (trunc x) else 2 ^ 63)"

definition arm_to_size :: "rat \<Rightarrow> u64" where
  "arm_to_size x = (if x < 0 then 0 else - 1)"

section \<open>State\<close>

definition MIN_WINDOW_SIZE :: u64 where "MIN_WINDOW_SIZE = 10"
definition MAX_WINDOW_DECAY :: int where "MAX_WINDOW_DECAY = 100"

record LedbatController =
  max_window :: u64
  cur_window :: u64
  slow_start :: bool
  ssthresh :: u64
  rtt :: u32
  rtt_var :: u32
  rto :: u32
  rtt_hist :: DelayHistory
  retransmit_timeout :: u32
  retransmit_count :: u16
  rto_timeout :: u64
  zerowindow_time :: u64
  our_hist :: DelayHistory
  their_hist :: DelayHistory
  average_delay :: int
  current_delay_sum :: int
  current_delay_samples :: int
  average_delay_base :: u32
  average_sample_time :: u64
  clock_drift :: int
  clock_drift_raw :: int
  last_maxed_out_window :: u64
  last_rwin_decay :: int

definition new_LedbatController :: LedbatController where
  "new_LedbatController =
     \<lparr>max_window = 0, cur_window = 0, slow_start = True, ssthresh = 0,
      rtt = 0, rtt_var = 800, rto = 3000, rtt_hist = new_DelayHistory,
      retransmit_timeout = 0, retransmit_count = 0, rto_timeout = 0, zerowindow_time = 0,
      our_hist = new_DelayHistory, their_hist = new_DelayHistory,
      average_delay = 0, current_delay_sum = 0, current_delay_samples = 0,
      average_delay_base = 0, average_sample_time = 0, clock_drift = 0, clock_drift_raw = 0,
      last_maxed_out_window = 0, last_rwin_decay = 0\<rparr>"

section \<open>The window\<close>

text \<open>The delay \<open>apply_ccontrol\<close> works with: the smaller of the queueing delay and the RTT.\<close>

definition base_delay :: "build \<Rightarrow> int \<Rightarrow> LedbatController \<Rightarrow> int option" where
  "base_delay B min_rtt c =
     do {
       c_assert (ndebug B) (0 \<le> min_rtt);
       let our_delay = sint (min (get_value (our_hist c)) (word_of_int min_rtt :: u32));
       c_assert (ndebug B) (our_delay \<noteq> INT_MAX);
       c_assert (ndebug B) (0 \<le> our_delay);
       Some our_delay
     }"

definition drift_penalty :: "int \<Rightarrow> LedbatController \<Rightarrow> int option" where
  "drift_penalty our_delay c =
     (if clock_drift c < - 200000
      then do {
        ub_unless (in_i32 (- clock_drift c));
        let penalty = (- clock_drift c - 200000) sdiv 7;
        ub_unless (in_i32 (our_delay + penalty));
        Some (our_delay + penalty)
      }
      else Some our_delay)"

definition window_factor :: "u64 \<Rightarrow> LedbatController \<Rightarrow> rat" where
  "window_factor bytes_acked c =
     dbl (double_of_size (min bytes_acked (max_window c)) /
          double_of_size (max (max_window c) bytes_acked))"

definition scaled_gain :: "u64 \<Rightarrow> int \<Rightarrow> int \<Rightarrow> LedbatController \<Rightarrow> rat" where
  "scaled_gain bytes_acked target our_delay c =
     (let off_target = dbl (of_int (target - our_delay));
          delay_factor = dbl (off_target / dbl (of_int target))
      in dbl (dbl (of_int (uint MAX_CWND_INCREASE_BYTES_PER_RTT) * window_factor bytes_acked c)
              * delay_factor))"

definition gain_limit :: "u64 \<Rightarrow> LedbatController \<Rightarrow> rat" where
  "gain_limit bytes_acked c =
     dbl (1 + dbl (dbl (of_int (uint MAX_CWND_INCREASE_BYTES_PER_RTT) *
                        double_of_size (min bytes_acked (max_window c))) /
                   double_of_size (max (max_window c) bytes_acked)))"

definition ledbat_cwnd :: "build \<Rightarrow> rat \<Rightarrow> LedbatController \<Rightarrow> u64" where
  "ledbat_cwnd B gain c =
     (if max_window c + size_of_double B gain < MIN_WINDOW_SIZE then MIN_WINDOW_SIZE
      else size_of_double B (dbl (double_of_size (max_window c) + gain)))"

text \<open>Slow start, or congestion avoidance; the window before it is clamped.\<close>

definition grow_window ::
  "build \<Rightarrow> u64 \<Rightarrow> u64 \<Rightarrow> int \<Rightarrow> int \<Rightarrow> u64 \<Rightarrow> LedbatController \<Rightarrow> LedbatController" where
  "grow_window B bytes_acked packet_size target our_delay cwnd c =
     (if slow_start c
      then let ss_cwnd = max_window c +
                 size_of_double B (dbl (window_factor bytes_acked c * double_of_size packet_size))
           in if ss_cwnd > ssthresh c then c\<lparr>slow_start := False\<rparr>
              else if our_delay > trunc (dbl (of_int target * dbl (9 / 10)))
              then c\<lparr>slow_start := False, ssthresh := max_window c\<rparr>
              else c\<lparr>max_window := max ss_cwnd cwnd\<rparr>
      else c\<lparr>max_window := cwnd\<rparr>)"

definition std_clamp :: "'a::linorder \<Rightarrow> 'a \<Rightarrow> 'a \<Rightarrow> 'a option" where
  "std_clamp v lo hi =
     do {
       ub_unless (lo \<le> hi);
       Some (if v < lo then lo else if hi < v then hi else v)
     }"

definition cc_target :: "u64 \<Rightarrow> int" where
  "cc_target target_delay =
     (let target = sint (ucast target_delay :: i32) in if target \<le> 0 then 100000 else target)"

definition apply_ccontrol ::
  "build \<Rightarrow> u64 \<Rightarrow> u32 \<Rightarrow> int \<Rightarrow> u64 \<Rightarrow> u64 \<Rightarrow> u64 \<Rightarrow> u64 \<Rightarrow> LedbatController \<Rightarrow>
     (int \<times> LedbatController) option" where
  "apply_ccontrol B bytes_acked actual_delay min_rtt current_ms opt_sndbuf target_delay packet_size c =
     do {
       our_delay \<leftarrow> base_delay B min_rtt c;
       let target = cc_target target_delay;
       our_delay \<leftarrow> drift_penalty our_delay c;
       ub_unless (in_i32 (target - our_delay));
       c_assert (ndebug B) (0 < bytes_acked);
       ub_unless (max (max_window c) bytes_acked \<noteq> 0);
       let gain = scaled_gain bytes_acked target our_delay c;
       c_assert (ndebug B) (gain \<le> gain_limit bytes_acked c);
       let gain = (if 0 < gain \<and> 1000 < sint (current_ms - last_maxed_out_window c)
                   then 0 else gain);
       let c = grow_window B bytes_acked packet_size target our_delay (ledbat_cwnd B gain c) c;
       w \<leftarrow> std_clamp (max_window c) MIN_WINDOW_SIZE opt_sndbuf;
       Some (our_delay, c\<lparr>max_window := w\<rparr>)
     }"

definition can_decay_win :: "int \<Rightarrow> LedbatController \<Rightarrow> bool option" where
  "can_decay_win msec c =
     do {
       ub_unless (in_i64 (msec - last_rwin_decay c));
       Some (MAX_WINDOW_DECAY \<le> msec - last_rwin_decay c)
     }"

definition maybe_decay_win :: "build \<Rightarrow> u64 \<Rightarrow> LedbatController \<Rightarrow> LedbatController option" where
  "maybe_decay_win B current_ms c =
     do {
       d \<leftarrow> can_decay_win (sint current_ms) c;
       Some (if d
         then let c = c\<lparr>max_window := size_of_double B (dbl (double_of_size (max_window c) * dbl (1 / 2)))\<rparr>;
                  c = c\<lparr>last_rwin_decay := sint current_ms\<rparr>;
                  c = (if max_window c < MIN_WINDOW_SIZE then c\<lparr>max_window := MIN_WINDOW_SIZE\<rparr> else c)
              in c\<lparr>slow_start := False, ssthresh := max_window c\<rparr>
         else c)
     }"

definition can_send :: "u64 \<Rightarrow> u64 \<Rightarrow> u64 \<Rightarrow> LedbatController \<Rightarrow> bool" where
  "can_send n max_window_user opt_sndbuf c =
     (let max_send = min (min (max_window c) opt_sndbuf) max_window_user
      in cur_window c + n \<le> max_send)"

definition on_rto_timeout ::
  "u64 \<Rightarrow> u64 \<Rightarrow> u16 \<Rightarrow> LedbatController \<Rightarrow> LedbatController" where
  "on_rto_timeout current_ms packet_size cur_window_packets c =
     (if cur_window_packets = 0 \<and> sint packet_size < sint (max_window c)
      then c\<lparr>max_window := max (max_window c * 2 div 3) packet_size\<rparr>
      else c\<lparr>max_window := packet_size, slow_start := True\<rparr>)"

definition add_in_flight :: "u64 \<Rightarrow> LedbatController \<Rightarrow> LedbatController" where
  "add_in_flight n c = c\<lparr>cur_window := cur_window c + n\<rparr>"

definition remove_in_flight :: "build \<Rightarrow> u64 \<Rightarrow> LedbatController \<Rightarrow> LedbatController option" where
  "remove_in_flight B n c =
     do {
       c_assert (ndebug B) (n \<le> cur_window c);
       Some (c\<lparr>cur_window := cur_window c - n\<rparr>)
     }"

definition mark_window_full :: "u64 \<Rightarrow> LedbatController \<Rightarrow> LedbatController" where
  "mark_window_full current_ms c = c\<lparr>last_maxed_out_window := current_ms\<rparr>"

section \<open>Round-trip time and timers\<close>

definition update_rtt :: "u32 \<Rightarrow> u64 \<Rightarrow> LedbatController \<Rightarrow> LedbatController option" where
  "update_rtt ertt current_ms c =
     do {
       c \<leftarrow> (if rtt c = 0
             then Some (c\<lparr>rtt := ertt, rtt_var := ertt div 2\<rparr>)
             else do {
               let delta = sint (rtt c) - sint ertt;
               ub_unless (in_i32 delta \<and> in_i32 \<bar>delta\<bar>);
               ub_unless (in_i32 (\<bar>delta\<bar> - sint (rtt_var c)));
               let c = c\<lparr>rtt_var := rtt_var c + word_of_int ((\<bar>delta\<bar> - sint (rtt_var c)) sdiv 4)\<rparr>;
               let c = c\<lparr>rtt := rtt c - rtt c div 8 + ertt div 8\<rparr>;
               Some (c\<lparr>rtt_hist := add_sample ertt current_ms (rtt_hist c)\<rparr>)
             });
       let c = c\<lparr>rto := max (rtt c + rtt_var c * 4) 1000\<rparr>;
       let c = c\<lparr>retransmit_timeout := rto c\<rparr>;
       Some (c\<lparr>rto_timeout := current_ms + ucast (rto c)\<rparr>)
     }"

definition set_initial_rto :: "u64 \<Rightarrow> LedbatController \<Rightarrow> LedbatController" where
  "set_initial_rto current_ms c =
     c\<lparr>retransmit_timeout := rto c, rto_timeout := current_ms + ucast (rto c)\<rparr>"

definition is_rto_expired :: "u64 \<Rightarrow> LedbatController \<Rightarrow> bool" where
  "is_rto_expired current_ms c \<longleftrightarrow>
     0 < rto_timeout c \<and> 0 \<le> sint (current_ms - rto_timeout c)"

definition init_delay_histories :: "u64 \<Rightarrow> LedbatController \<Rightarrow> LedbatController" where
  "init_delay_histories current_ms c =
     c\<lparr>our_hist := clear current_ms (our_hist c), their_hist := clear current_ms (their_hist c),
       rtt_hist := clear current_ms (rtt_hist c)\<rparr>"

definition init_timing :: "u64 \<Rightarrow> LedbatController \<Rightarrow> LedbatController option" where
  "init_timing current_ms c =
     do {
       ub_unless (in_i64 (sint current_ms - MAX_WINDOW_DECAY));
       Some (c\<lparr>average_sample_time := current_ms + 5000,
               last_rwin_decay := sint current_ms - MAX_WINDOW_DECAY\<rparr>)
     }"

section \<open>Long-term delay average and clock drift\<close>

definition delay_distance :: "u32 \<Rightarrow> u32 \<Rightarrow> int" where
  "delay_distance base actual_delay =
     (let dist_down = base - actual_delay; dist_up = actual_delay - base
      in if dist_down > dist_up then uint dist_up else - uint dist_down)"

definition close_slot :: "build \<Rightarrow> LedbatController \<Rightarrow> LedbatController option" where
  "close_slot B c =
     do {
       let prev_average_delay = average_delay c;
       let mean = current_delay_sum c sdiv current_delay_samples c;
       c_assert (ndebug B) (mean < INT_MAX);
       c_assert (ndebug B) (- INT_MAX < mean);
       let c = c\<lparr>average_delay := to_i32 mean,
                 average_sample_time := average_sample_time c + 5000,
                 current_delay_sum := 0, current_delay_samples := 0\<rparr>;
       let min_sample = min prev_average_delay (average_delay c);
       let max_sample = max prev_average_delay (average_delay c);
       let adjust = (if 0 < min_sample then - min_sample
                     else if max_sample < 0 then - max_sample else 0);
       ub_unless (in_i32 adjust \<and> in_i32 (average_delay c + adjust)
                  \<and> in_i32 (prev_average_delay + adjust));
       let c = c\<lparr>average_delay_base := average_delay_base c - word_of_int adjust,
                 average_delay := average_delay c + adjust\<rparr>;
       let drift = average_delay c - (prev_average_delay + adjust);
       ub_unless (in_i32 drift);
       Some (c\<lparr>clock_drift := to_i32 ((clock_drift c * 7 + drift) sdiv 8), clock_drift_raw := drift\<rparr>)
     }"

definition update_delay_average ::
  "build \<Rightarrow> u32 \<Rightarrow> u64 \<Rightarrow> LedbatController \<Rightarrow> LedbatController option" where
  "update_delay_average B actual_delay current_ms c =
     do {
       let c = (if average_delay_base c = 0 then c\<lparr>average_delay_base := actual_delay\<rparr> else c);
       let s = current_delay_sum c + delay_distance (average_delay_base c) actual_delay;
       ub_unless (in_i64 s \<and> in_i32 (current_delay_samples c + 1));
       let c = c\<lparr>current_delay_sum := s, current_delay_samples := current_delay_samples c + 1\<rparr>;
       if sint (average_sample_time c) < sint current_ms then close_slot B c else Some c
     }"

section \<open>Values of the window\<close>

lemma std_clamp_Some_iff:
  "std_clamp v lo hi = Some w \<longleftrightarrow> lo \<le> hi \<and> w = (if v < lo then lo else if hi < v then hi else v)"
  unfolding std_clamp_def by (cases "lo \<le> hi") auto

lemma std_clamp_range: "std_clamp v lo hi = Some w \<Longrightarrow> lo \<le> w \<and> w \<le> hi"
  unfolding std_clamp_Some_iff by (auto simp: not_less)

lemma uint_max_word: "uint (max a b :: u64) = max (uint a) (uint b)"
  by (simp add: max_def word_le_def)

lemma uint_min_word: "uint (min a b :: u64) = min (uint a) (uint b)"
  by (simp add: min_def word_le_def)

lemma window_factor_unit:
  assumes "0 < n"
  shows "0 \<le> window_factor n c" and "window_factor n c \<le> 1"
proof -
  have "1 \<le> uint (max (max_window c) n)"
    using assms by (simp add: uint_max_word word_less_def)
  then have "(0 :: rat) \<le> of_int (uint (min n (max_window c)))"
    and "(of_int (uint (min n (max_window c))) :: rat) \<le> of_int (uint (max (max_window c) n))"
    and "(1 :: rat) \<le> of_int (uint (max (max_window c) n))"
    by (simp_all add: uint_max_word uint_min_word)
  then show "0 \<le> window_factor n c" and "window_factor n c \<le> 1"
    unfolding window_factor_def double_of_size_def by (simp_all only: dbl.ratio_unit)
qed

definition delay_factor :: "int \<Rightarrow> int \<Rightarrow> rat" where
  "delay_factor target our_delay = dbl (dbl (of_int (target - our_delay)) / dbl (of_int target))"

lemma delay_factor_le_one:
  assumes "0 < target" and "0 \<le> our_delay"
  shows "delay_factor target our_delay \<le> 1"
proof -
  have "dbl (of_int (target - our_delay)) \<le> dbl (of_int target)"
    using assms(2) by (intro dbl_mono) simp
  moreover have "0 < dbl (of_int target)" using assms(1) dbl_pos_pos by simp
  ultimately show ?thesis
    unfolding delay_factor_def by (rule dbl.share_of_one)
qed

lemma delay_factor_nonpos:
  assumes "0 < target" and "target \<le> our_delay"
  shows "delay_factor target our_delay \<le> 0"
proof -
  have "dbl (of_int (target - our_delay)) \<le> 0" using assms(2) by (intro dbl.fl_nonpos) simp
  moreover have "0 < dbl (of_int target)" using assms(1) dbl_pos_pos by simp
  ultimately show ?thesis
    unfolding delay_factor_def by (intro dbl.fl_nonpos) (simp add: divide_nonpos_pos)
qed

lemma delay_factor_nonneg:
  assumes "0 < target" and "our_delay \<le> target"
  shows "0 \<le> delay_factor target our_delay"
proof -
  have "0 \<le> dbl (of_int (target - our_delay))" using assms(2) by (intro dbl.fl_nonneg) simp
  moreover have "0 < dbl (of_int target)" using assms(1) dbl_pos_pos by simp
  ultimately show ?thesis
    unfolding delay_factor_def by (intro dbl.fl_nonneg) simp
qed

lemma scaled_gain_eq:
  "scaled_gain n target our_delay c = dbl (dbl (3000 * window_factor n c) * delay_factor target our_delay)"
  by (simp add: scaled_gain_def delay_factor_def MAX_CWND_INCREASE_BYTES_PER_RTT_def Let_def)

lemma capped_factor:
  assumes "0 < n"
  shows "0 \<le> 3000 * window_factor n c" and "dbl (3000 * window_factor n c) \<le> 3000"
  using window_factor_unit [OF assms, of c] dbl.fl_le_int [of "3000 * window_factor n c" 3000]
  by simp_all

lemma scaled_gain_le:
  assumes "0 < n" and "0 < target" and "0 \<le> our_delay"
  shows "scaled_gain n target our_delay c \<le> dbl (3000 * window_factor n c)"
    and "scaled_gain n target our_delay c \<le> 3000"
proof -
  show le: "scaled_gain n target our_delay c \<le> dbl (3000 * window_factor n c)"
    unfolding scaled_gain_eq
    by (rule dbl.fl_scale_le [OF capped_factor(1) [OF assms(1)] delay_factor_le_one [OF assms(2,3)]])
  then show "scaled_gain n target our_delay c \<le> 3000"
    using capped_factor(2) [OF assms(1), of c] by simp
qed

lemma scaled_gain_nonpos:
  assumes "0 < n" and "0 < target" and "target \<le> our_delay"
  shows "scaled_gain n target our_delay c \<le> 0"
  unfolding scaled_gain_eq
  by (rule dbl.fl_scale_neg [OF capped_factor(1) [OF assms(1)] delay_factor_nonpos [OF assms(2,3)]])

lemma scaled_gain_nonneg:
  assumes "0 < n" and "0 < target" and "our_delay \<le> target"
  shows "0 \<le> scaled_gain n target our_delay c"
  unfolding scaled_gain_eq
  by (rule dbl.fl_nonneg, rule mult_nonneg_nonneg,
      rule dbl.fl_nonneg [OF capped_factor(1) [OF assms(1)]],
      rule delay_factor_nonneg [OF assms(2,3)])

text \<open>The assertion that the gain respects its cap, in the arithmetic that checks it.\<close>

lemma gain_within_limit:
  assumes n: "0 < n" and "0 < target" and "0 \<le> our_delay"
  shows "scaled_gain n target our_delay c \<le> gain_limit n c"
proof -
  let ?m = "double_of_size (min n (max_window c))" and ?d = "double_of_size (max (max_window c) n)"
  have "1 \<le> uint (max (max_window c) n)"
    using n by (simp add: uint_max_word word_less_def)
  then have d: "1 \<le> ?d" unfolding double_of_size_def by (intro dbl.fl_pos) (simp only: of_int_1_le_iff)
  have m: "0 \<le> ?m" unfolding double_of_size_def
    by (intro dbl.fl_nonneg) (simp only: of_int_0_le_iff unsigned_greater_eq)
  have md: "?m \<le> ?d" unfolding double_of_size_def
    by (intro dbl_mono) (simp add: uint_max_word uint_min_word)
  have "dbl (3000 * dbl (?m / ?d)) \<le> dbl (1 + dbl (dbl (3000 * ?m) / ?d))"
    by (rule dbl.share_orders [OF m md d]) simp_all
  with scaled_gain_le(1) [OF assms, of c] show ?thesis
    by (simp add: window_factor_def gain_limit_def MAX_CWND_INCREASE_BYTES_PER_RTT_def)
qed

section \<open>The size of a step\<close>

lemma size_of_double_int: "0 \<le> trunc x \<Longrightarrow> trunc x < 2 ^ 64 \<Longrightarrow> uint (size_of_double B x) = trunc x"
  by (simp add: size_of_double_def uint_word_of_int)

lemma trunc_nonneg: "0 \<le> x \<Longrightarrow> 0 \<le> trunc x"
  using trunc_mono [of 0 x] trunc_of_int [of 0] by simp

lemma trunc_le_int: "x \<le> of_int k \<Longrightarrow> trunc x \<le> k"
  using trunc_mono [of x "of_int k"] by simp

lemma trunc_ge_int: "of_int k \<le> x \<Longrightarrow> k \<le> trunc x"
  using trunc_mono [of "of_int k" x] by simp

lemma double_of_size_exact: "uint w \<le> 2 ^ 53 \<Longrightarrow> double_of_size w = of_int (uint w)"
  unfolding double_of_size_def by (rule dbl_exact) simp

lemma uint_plus_small: "uint (a :: u64) + uint b < 2 ^ 64 \<Longrightarrow> uint (a + b) = uint a + uint b"
  by (simp add: uint_plus_if_size word_size)

text \<open>A gain between nothing and the cap: the window grows by at most the cap.\<close>

lemma ledbat_cwnd_grows:
  assumes w: "uint (max_window c) + 3000 \<le> 2 ^ 53" and g: "0 \<le> g" "g \<le> 3000"
  shows "uint (max_window c) \<le> uint (ledbat_cwnd B g c)"
    and "uint (ledbat_cwnd B g c) \<le> max 10 (uint (max_window c) + 3000)"
proof -
  let ?w = "uint (max_window c)"
  let ?s = "dbl (double_of_size (max_window c) + g)"
  have d: "double_of_size (max_window c) = of_int ?w"
    using w by (intro double_of_size_exact) simp
  have "dbl (dbl (of_int ?w) + g) \<le> of_int (?w + 3000)"
    using w g by (intro dbl.fl_add_le) simp_all
  then have up: "?s \<le> of_int (?w + 3000)" by (simp only: double_of_size_def)
  have lo: "of_int ?w \<le> ?s"
    unfolding d by (rule dbl.fl_ge_int) (use w g in simp_all)
  have "0 \<le> ?w" by simp
  with trunc_ge_int [OF lo] trunc_le_int [OF up] w
  have "0 \<le> trunc ?s" and "trunc ?s < 2 ^ 64" by (linarith, simp)
  then have "uint (size_of_double B ?s) = trunc ?s" by (rule size_of_double_int)
  then have s: "?w \<le> uint (size_of_double B ?s)" "uint (size_of_double B ?s) \<le> ?w + 3000"
    using trunc_ge_int [OF lo] trunc_le_int [OF up] by simp_all
  have small: "?w \<le> 10" if "max_window c + size_of_double B g < MIN_WINDOW_SIZE"
  proof -
    have t: "trunc g \<le> 3000" "0 \<le> trunc g"
      using g trunc_le_int [of g 3000] trunc_nonneg by simp_all
    then have "uint (size_of_double B g) = trunc g" by (intro size_of_double_int) simp_all
    then have "uint (max_window c + size_of_double B g) = ?w + trunc g"
      using w t by (subst uint_plus_small) simp_all
    then show ?thesis using that t by (simp add: word_less_def MIN_WINDOW_SIZE_def)
  qed
  have ten: "uint MIN_WINDOW_SIZE = 10" by (simp add: MIN_WINDOW_SIZE_def)
  show "?w \<le> uint (ledbat_cwnd B g c)"
    using small s(1) ten by (auto simp: ledbat_cwnd_def)
  show "uint (ledbat_cwnd B g c) \<le> max 10 (?w + 3000)"
    using s(2) ten by (auto simp: ledbat_cwnd_def)
qed

text \<open>
  A negative gain on x86-64. When the window absorbs it, the window shrinks; when the gain is
  larger than the window, the converted sum has wrapped.
\<close>

lemma x86_negative:
  assumes "oor_to_size B = x86_to_size" and "trunc x < 0" and "- (2 ^ 63) \<le> trunc x"
  shows "size_of_double B x = of_int (trunc x)"
  using assms by (simp add: size_of_double_def x86_to_size_def)

lemma uint_of_negative: "- (2 ^ 64) \<le> k \<Longrightarrow> k < 0 \<Longrightarrow> uint (of_int k :: u64) = 2 ^ 64 + k"
proof -
  assume k: "- (2 ^ 64) \<le> k" "k < 0"
  have "uint (of_int k :: u64) = (k + 2 ^ 64) mod 2 ^ 64" by (simp add: uint_word_of_int)
  also have "\<dots> = k + 2 ^ 64" using k by (intro mod_pos_pos_trivial) simp_all
  finally show ?thesis by simp
qed

lemma uint_of_nonneg: "0 \<le> k \<Longrightarrow> k < 2 ^ 64 \<Longrightarrow> uint (of_int k :: u64) = k"
  by (simp add: uint_word_of_int)

lemma x86_sum:
  assumes "oor_to_size B = x86_to_size" and "trunc g \<le> 0" and "- (2 ^ 63) \<le> trunc g"
  shows "max_window c + size_of_double B g = of_int (uint (max_window c) + trunc g)"
proof (cases "trunc g = 0")
  case True
  then show ?thesis by (simp add: size_of_double_def)
next
  case False
  with assms have "size_of_double B g = of_int (trunc g)" by (intro x86_negative) simp_all
  then show ?thesis by simp
qed

lemma trunc_nonpos:
  assumes "g \<le> 0"
  shows "trunc g \<le> 0" and "g \<le> of_int (trunc g)" and "of_int (trunc g) - 1 < g"
proof -
  have "trunc g = \<lceil>g\<rceil>" using assms by (cases "g = 0") (simp_all add: trunc_def)
  then show "trunc g \<le> 0" and "g \<le> of_int (trunc g)" and "of_int (trunc g) - 1 < g"
    using assms by (simp_all add: ceiling_le_iff) linarith
qed

lemma ledbat_cwnd_shrinks:
  assumes B: "oor_to_size B = x86_to_size" and w: "uint (max_window c) \<le> 2 ^ 53"
    and g: "g \<le> 0" and fit: "0 \<le> uint (max_window c) + trunc g"
  shows "uint (ledbat_cwnd B g c) \<le> max 10 (uint (max_window c))"
proof -
  let ?w = "uint (max_window c)" and ?s = "dbl (double_of_size (max_window c) + g)"
  note t = trunc_nonpos [OF g]
  have "max_window c + size_of_double B g = of_int (?w + trunc g)"
    by (rule x86_sum [OF B t(1)]) (use fit w in simp)
  moreover have "uint (of_int (?w + trunc g) :: u64) = ?w + trunc g"
    by (rule uint_of_nonneg) (use fit w t(1) in simp_all)
  ultimately have sum: "uint (max_window c + size_of_double B g) = ?w + trunc g"
    by (simp only:)
  show ?thesis
  proof (cases "max_window c + size_of_double B g < MIN_WINDOW_SIZE")
    case True
    then show ?thesis by (simp add: ledbat_cwnd_def MIN_WINDOW_SIZE_def)
  next
    case False
    then have "10 \<le> ?w + trunc g"
      using sum by (simp add: word_less_def MIN_WINDOW_SIZE_def)
    then have "(of_int 10 :: rat) \<le> of_int (?w + trunc g)" unfolding of_int_le_iff .
    then have "0 \<le> of_int ?w + g" using t(3) by simp
    then have lo: "0 \<le> ?s"
      unfolding double_of_size_exact [OF w] by (rule dbl.fl_nonneg)
    have "?s \<le> of_int ?w"
      unfolding double_of_size_exact [OF w] by (rule dbl.fl_le_int) (use g w in simp_all)
    then have up: "trunc ?s \<le> ?w" by (rule trunc_le_int)
    have "uint (size_of_double B ?s) = trunc ?s"
      by (rule size_of_double_int) (use trunc_nonneg [OF lo] up w in simp_all)
    then show ?thesis using False up by (simp add: ledbat_cwnd_def)
  qed
qed

lemma ledbat_cwnd_wraps:
  assumes B: "oor_to_size B = x86_to_size" and w: "uint (max_window c) \<le> 2 ^ 53"
    and g: "- (2 ^ 53) \<le> g" and over: "uint (max_window c) + trunc g < 0"
  shows "2 ^ 63 \<le> uint (ledbat_cwnd B g c)"
proof -
  let ?w = "uint (max_window c)" and ?s = "dbl (double_of_size (max_window c) + g)"
  have w0: "0 \<le> ?w" by simp
  have g0: "g \<le> 0"
  proof (rule ccontr)
    assume "\<not> g \<le> 0"
    then have "0 \<le> trunc g" by (intro trunc_nonneg) simp
    with over w0 show False by linarith
  qed
  note t = trunc_nonpos [OF g0]
  have tl: "- (2 ^ 53) \<le> trunc g" by (rule trunc_ge_int) (use g in simp)
  have "max_window c + size_of_double B g = of_int (?w + trunc g)"
    by (rule x86_sum [OF B t(1)]) (use tl in simp)
  moreover have sl: "- (2 ^ 53) \<le> ?w + trunc g" using tl w0 by linarith
  then have "uint (of_int (?w + trunc g) :: u64) = 2 ^ 64 + (?w + trunc g)"
    by (intro uint_of_negative over) simp
  ultimately have "uint (max_window c + size_of_double B g) = 2 ^ 64 + (?w + trunc g)"
    by (simp only:)
  then have big: "\<not> max_window c + size_of_double B g < MIN_WINDOW_SIZE"
    using sl by (simp add: word_less_def MIN_WINDOW_SIZE_def)
  have "of_int (?w + trunc g) \<le> (of_int (- 1) :: rat)" unfolding of_int_le_iff using over by linarith
  then have "of_int ?w + g \<le> of_int (- 1)" using t(2) by simp
  then have "?s \<le> of_int (- 1)"
    unfolding double_of_size_exact [OF w] by (rule dbl.fl_le_int) simp
  then have up: "trunc ?s \<le> - 1" by (rule trunc_le_int)
  have "(of_int (- (2 ^ 53)) :: rat) \<le> of_int ?w + g"
    using g of_int_0_le_iff [of ?w, where 'a = rat] by simp
  then have "of_int (- (2 ^ 53)) \<le> ?s"
    unfolding double_of_size_exact [OF w] by (rule dbl.fl_ge_int) simp
  then have lo: "- (2 ^ 53) \<le> trunc ?s" by (rule trunc_ge_int)
  have "size_of_double B ?s = of_int (trunc ?s)"
    by (rule x86_negative [OF B]) (use up lo in simp_all)
  moreover have "uint (of_int (trunc ?s) :: u64) = 2 ^ 64 + trunc ?s"
    by (rule uint_of_negative) (use up lo in simp_all)
  ultimately show ?thesis using big lo by (simp add: ledbat_cwnd_def)
qed

lemma scaled_gain_lower:
  assumes n: "0 < n" and t: "0 < target" "target < 2 ^ 31" and d: "0 \<le> d" "d < 2 ^ 31"
  shows "- (2 ^ 53) \<le> scaled_gain n target d c"
proof -
  let ?f = "dbl (of_int (target - d)) / dbl (of_int target)"
  have "of_int (- (2 ^ 31)) \<le> dbl (of_int (target - d))"
    by (rule dbl.fl_ge_int) (use t d in simp_all)
  moreover have tt: "1 \<le> dbl (of_int target)" by (rule dbl.fl_pos) (use t in simp)
  moreover have "- (2 ^ 31) * dbl (of_int target) \<le> - (2 ^ 31) * 1"
    using tt by (intro mult_left_mono_neg) simp_all
  ultimately have "of_int (- (2 ^ 31)) \<le> ?f" by (simp add: pos_le_divide_eq)
  then have "of_int (- (2 ^ 31)) \<le> delay_factor target d"
    unfolding delay_factor_def by (rule dbl.fl_ge_int) simp
  then have "dbl (3000 * window_factor n c) * (- (2 ^ 31)) \<le>
      dbl (3000 * window_factor n c) * delay_factor target d"
    using dbl.fl_nonneg [OF capped_factor(1) [OF n]] by (intro mult_left_mono) simp_all
  moreover have "3000 * (- (2 ^ 31)) \<le> dbl (3000 * window_factor n c) * (- (2 ^ 31))"
    using capped_factor(2) [OF n, of c] by simp
  ultimately have "of_int (- (2 ^ 53)) \<le> dbl (3000 * window_factor n c) * delay_factor target d"
    by simp
  then show ?thesis
    unfolding scaled_gain_eq using dbl.fl_ge_int [of "- (2 ^ 53)"] by simp
qed

section \<open>Properties\<close>

text \<open>A delay measurement the controller accepts: below a thousand seconds, with a clock drift
  that can be negated.\<close>

definition sane_delay :: "int \<Rightarrow> LedbatController \<Rightarrow> bool" where
  "sane_delay min_rtt c \<longleftrightarrow> 0 \<le> min_rtt \<and> min_rtt \<le> 1000000000 \<and> - (2 ^ 31) < clock_drift c"

lemma sint_small: "uint (x :: u32) < 2 ^ 31 \<Longrightarrow> sint x = uint x"
  using signed_take_bit_int_eq_self [of 31 "uint x"] unsigned_greater_eq [of x, where 'a = int]
  by (simp add: sint_uint)

lemma base_delay_defined:
  assumes "sane_delay min_rtt c"
  obtains d where "base_delay B min_rtt c = Some d" and "0 \<le> d" and "d \<le> min_rtt"
    and "d \<le> uint (get_value (our_hist c))"
proof -
  let ?m = "min (get_value (our_hist c)) (word_of_int min_rtt :: u32)"
  have r: "0 \<le> min_rtt" "min_rtt \<le> 1000000000" using assms by (simp_all add: sane_delay_def)
  then have "uint (word_of_int min_rtt :: u32) = min_rtt"
    by (simp add: uint_word_of_int)
  then have u: "uint ?m = min (uint (get_value (our_hist c))) min_rtt"
    by (simp add: min_def word_le_def)
  then have s: "sint ?m = uint ?m" using r by (intro sint_small) simp
  show thesis
    by (rule that [of "uint ?m"]) (use r u s in \<open>auto simp: base_delay_def INT_MAX_def Let_def min_def\<close>)
qed

lemma cc_target_range: "0 < cc_target td" "cc_target td < 2 ^ 31"
  using sint_lt [of "ucast td :: i32"] by (auto simp: cc_target_def Let_def)

lemma drift_penalty_defined:
  assumes "0 \<le> d" and "d \<le> 1000000000" and "- (2 ^ 31) < clock_drift c"
  obtains d' where "drift_penalty d c = Some d'" and "d \<le> d'" and "d' < 2 ^ 31"
proof (cases "clock_drift c < - 200000")
  case True
  define p where "p = (- clock_drift c - 200000) sdiv 7"
  have "p = (- clock_drift c - 200000) div 7"
    using True by (simp add: p_def signed_divide_int_def)
  then have p: "0 \<le> p" "p \<le> 306754926" using True assms(3) by simp_all
  show thesis
    by (rule that [of "d + p"])
      (use True p assms in \<open>simp_all add: drift_penalty_def in_i32_def flip: p_def\<close>)
next
  case False
  then show thesis using that [of d] assms by (simp add: drift_penalty_def)
qed

lemma grow_window_fields [simp]:
  "cur_window (grow_window B n ps target d cwnd c) = cur_window c"
  "clock_drift (grow_window B n ps target d cwnd c) = clock_drift c"
  by (simp_all add: grow_window_def Let_def)

text \<open>A call on a sane measurement returns.\<close>

lemma apply_ccontrol_defined:
  assumes sane: "sane_delay min_rtt c" and n: "0 < n" and buf: "MIN_WINDOW_SIZE \<le> opt_sndbuf"
  obtains d c' where "apply_ccontrol B n actual_delay min_rtt t opt_sndbuf td ps c = Some (d, c')" and "0 \<le> d"
    and "MIN_WINDOW_SIZE \<le> max_window c'" and "max_window c' \<le> opt_sndbuf" and "cur_window c' = cur_window c"
proof -
  obtain d where d: "base_delay B min_rtt c = Some d" "0 \<le> d" "d \<le> min_rtt"
    by (rule base_delay_defined [OF sane])
  obtain d' where d': "drift_penalty d c = Some d'" "d \<le> d'" "d' < 2 ^ 31"
    by (rule drift_penalty_defined [of d c]) (use sane d in \<open>simp_all add: sane_delay_def\<close>)
  have "in_i32 (cc_target td - d')"
    using cc_target_range [of td] d d' by (simp add: in_i32_def)
  moreover have "max (max_window c) n \<noteq> 0"
    using n by (metis max.cobounded2 word_le_0_iff word_neq_0_conv)
  moreover have "scaled_gain n (cc_target td) d' c \<le> gain_limit n c"
    using n cc_target_range(1) d d' by (intro gain_within_limit) simp_all
  ultimately have "\<exists>c'. apply_ccontrol B n actual_delay min_rtt t opt_sndbuf td ps c = Some (d', c') \<and>
      MIN_WINDOW_SIZE \<le> max_window c' \<and> max_window c' \<le> opt_sndbuf \<and> cur_window c' = cur_window c"
    using d d' n buf by (simp add: apply_ccontrol_def std_clamp_def Let_def not_less)
  then show thesis using that d d' by (meson order_trans)
qed

text \<open>
  C20: the controller always answers, and its window is always between the minimum window and
  the send buffer. On any sane measurement no assertion of \<open>apply_ccontrol\<close> fails, the one on
  the floating-point gain included, no signed operation overflows, and whatever the processor
  makes of an out-of-range conversion the new window is within the bounds; the bytes in flight
  are untouched.
\<close>

theorem apply_ccontrol_window_range:
  assumes sane: "sane_delay min_rtt c" and n: "0 < n" and buf: "MIN_WINDOW_SIZE \<le> opt_sndbuf"
  shows "\<exists>d c'. apply_ccontrol B n actual_delay min_rtt t opt_sndbuf td ps c = Some (d, c') \<and>
    0 \<le> d \<and> MIN_WINDOW_SIZE \<le> max_window c' \<and> max_window c' \<le> opt_sndbuf \<and>
    cur_window c' = cur_window c"
  by (rule apply_ccontrol_defined [OF assms, of B actual_delay t td ps]) blast

definition sample_build :: build where
  "sample_build = \<lparr>ndebug = False, oor_to_size = x86_to_size\<rparr>"

definition delayed :: "u32 \<Rightarrow> u64 \<Rightarrow> LedbatController" where
  "delayed delay window = new_LedbatController
     \<lparr>max_window := window, slow_start := False,
      our_hist := new_DelayHistory\<lparr>cur_delay_hist := [delay, delay, delay]\<rparr>\<rparr>"

theorem apply_ccontrol_window_range_witness:
  "\<exists>d c'. apply_ccontrol sample_build 1400 5 1100000 7 1000000 100000 1400 (delayed 1100000 1400) = Some (d, c') \<and>
    0 \<le> d \<and> MIN_WINDOW_SIZE \<le> max_window c' \<and> max_window c' \<le> 1000000 \<and>
    cur_window c' = cur_window (delayed 1100000 1400)"
  by (rule apply_ccontrol_window_range)
    (simp_all add: sane_delay_def delayed_def new_LedbatController_def MIN_WINDOW_SIZE_def)

text \<open>What a call that returned has done, with the clamp written out.\<close>

definition clamped :: "u64 \<Rightarrow> u64 \<Rightarrow> u64" where
  "clamped hi w = (if w < MIN_WINDOW_SIZE then MIN_WINDOW_SIZE else if hi < w then hi else w)"

lemma apply_ccontrol_Some:
  assumes "apply_ccontrol B n a min_rtt t opt_sndbuf td ps c = Some (d, c')"
  obtains g where "g = scaled_gain n (cc_target td) d c \<or> g = 0 \<and> 0 < scaled_gain n (cc_target td) d c"
    and "MIN_WINDOW_SIZE \<le> opt_sndbuf" and "in_i32 (cc_target td - d)"
    and "max_window c' = clamped opt_sndbuf
           (max_window (grow_window B n ps (cc_target td) d (ledbat_cwnd B g c) c))"
    and "slow_start c' = slow_start (grow_window B n ps (cc_target td) d (ledbat_cwnd B g c) c)"
proof -
  let ?g = "\<lambda>d. if 0 < scaled_gain n (cc_target td) d c \<and> 1000 < sint (t - last_maxed_out_window c)
       then 0 else scaled_gain n (cc_target td) d c"
  from assms obtain w where "in_i32 (cc_target td - d)"
    and "std_clamp (max_window (grow_window B n ps (cc_target td) d (ledbat_cwnd B (?g d) c) c))
           MIN_WINDOW_SIZE opt_sndbuf = Some w"
    and "c' = (grow_window B n ps (cc_target td) d (ledbat_cwnd B (?g d) c) c)\<lparr>max_window := w\<rparr>"
    unfolding apply_ccontrol_def Let_def bind_eq_Some_conv ub_unless_Some_iff
    by (auto simp only: option.inject prod.inject)
  then show thesis
    by (intro that [of "?g d"]) (auto simp: std_clamp_Some_iff clamped_def)
qed

lemma clamped_le: "MIN_WINDOW_SIZE \<le> hi \<Longrightarrow> uint (clamped hi w) \<le> max 10 (uint w)"
  by (auto simp: clamped_def MIN_WINDOW_SIZE_def word_less_def word_le_def)

lemma clamped_ge: "MIN_WINDOW_SIZE \<le> hi \<Longrightarrow> min (uint w) (uint hi) \<le> uint (clamped hi w)"
  by (auto simp: clamped_def MIN_WINDOW_SIZE_def word_less_def word_le_def)

lemma ss_step:
  assumes n: "0 < n" and w: "uint (max_window c) + uint ps \<le> 2 ^ 53"
  shows "uint (max_window c + size_of_double B (dbl (window_factor n c * double_of_size ps)))
         \<le> uint (max_window c) + uint ps"
    and "uint (max_window c) \<le> uint (max_window c +
           size_of_double B (dbl (window_factor n c * double_of_size ps)))"
proof -
  let ?x = "dbl (window_factor n c * double_of_size ps)"
  have w0: "0 \<le> uint (max_window c)" by simp
  have ps: "uint ps \<le> 2 ^ 53" using w w0 by linarith
  then have p: "double_of_size ps = of_int (uint ps)" by (rule double_of_size_exact)
  have pp: "(0 :: rat) \<le> of_int (uint ps)" by (simp only: of_int_0_le_iff unsigned_greater_eq)
  note f = window_factor_unit [OF n, of c]
  have "window_factor n c * of_int (uint ps) \<le> of_int (uint ps)"
    using mult_right_mono [OF f(2) pp] by (simp only: mult_1_left)
  then have "?x \<le> of_int (uint ps)"
    unfolding p by (rule dbl.fl_le_int) (use ps in simp)
  then have up: "trunc ?x \<le> uint ps" by (rule trunc_le_int)
  have lo: "0 \<le> trunc ?x" unfolding p
    by (intro trunc_nonneg dbl.fl_nonneg mult_nonneg_nonneg f(1) pp)
  have "uint (size_of_double B ?x) = trunc ?x"
  proof (rule size_of_double_int [OF lo])
    have "trunc ?x \<le> 2 ^ 53" using up w w0 by linarith
    then show "trunc ?x < 2 ^ 64" by simp
  qed
  moreover have "uint (max_window c) + trunc ?x < 2 ^ 64" using up w by simp
  ultimately have "uint (max_window c + size_of_double B ?x) = uint (max_window c) + trunc ?x"
    using uint_plus_small [of "max_window c" "size_of_double B ?x"] by (simp only:)
  then show "uint (max_window c + size_of_double B ?x) \<le> uint (max_window c) + uint ps"
    and "uint (max_window c) \<le> uint (max_window c + size_of_double B ?x)"
    using up lo by linarith+
qed

text \<open>
  Below the target delay the window does not shrink and grows by at most the larger of the
  cap of 3000 bytes and, in slow start, one packet, up to the clamp.
\<close>

theorem growth_capped:
  assumes ok: "apply_ccontrol B n a min_rtt t opt_sndbuf td ps c = Some (d, c')"
    and n: "0 < n" and d: "0 \<le> d" "d \<le> cc_target td"
    and w: "uint (max_window c) + max 3000 (uint ps) \<le> 2 ^ 53"
  shows "uint (max_window c') \<le> max 10 (uint (max_window c) + (if slow_start c then max 3000 (uint ps) else 3000))
    \<and> min (uint (max_window c)) (uint opt_sndbuf) \<le> uint (max_window c')"
proof -
  obtain g where g: "g = scaled_gain n (cc_target td) d c \<or> g = 0 \<and> 0 < scaled_gain n (cc_target td) d c"
    and buf: "MIN_WINDOW_SIZE \<le> opt_sndbuf"
    and c': "max_window c' = clamped opt_sndbuf
           (max_window (grow_window B n ps (cc_target td) d (ledbat_cwnd B g c) c))"
    by (rule apply_ccontrol_Some [OF ok])
  have g3: "0 \<le> g" "g \<le> 3000"
    using g scaled_gain_le(2) [OF n cc_target_range(1) d(1), of td c]
      scaled_gain_nonneg [OF n cc_target_range(1) d(2), of c] by auto
  have w3: "uint (max_window c) + 3000 \<le> 2 ^ 53" "uint (max_window c) + uint ps \<le> 2 ^ 53"
    using w by linarith+
  note cw = ledbat_cwnd_grows [OF w3(1) g3, of B]
  note ss = ss_step [OF n w3(2), of B]
  let ?c1 = "grow_window B n ps (cc_target td) d (ledbat_cwnd B g c) c"
  have "uint (max_window ?c1) \<le> max 10 (uint (max_window c) + (if slow_start c then max 3000 (uint ps) else 3000))
      \<and> uint (max_window c) \<le> uint (max_window ?c1)"
    using cw ss by (auto simp: grow_window_def Let_def uint_max_word)
  then show ?thesis
    using clamped_le [OF buf, of "max_window ?c1"] clamped_ge [OF buf, of "max_window ?c1"]
    unfolding c' by linarith
qed

lemma growth_capped_witness:
  "\<exists>d c'. apply_ccontrol sample_build 1400 5 90000 7 1000000 100000 1400 (delayed 90000 14000) = Some (d, c') \<and>
    uint (max_window c') \<le> 17000 \<and> 14000 \<le> uint (max_window c')"
proof -
  have "map_option fst (apply_ccontrol sample_build 1400 5 90000 7 1000000 100000 1400
      (delayed 90000 14000)) = Some 90000"
    by code_simp
  then obtain c' where r: "apply_ccontrol sample_build 1400 5 90000 7 1000000 100000 1400
      (delayed 90000 14000) = Some (90000, c')"
    by auto
  have "uint (max_window c') \<le> max 10 (uint (max_window (delayed 90000 14000)) +
      (if slow_start (delayed 90000 14000) then max 3000 (uint (1400 :: u64)) else 3000)) \<and>
    min (uint (max_window (delayed 90000 14000))) (uint (1000000 :: u64)) \<le> uint (max_window c')"
    by (rule growth_capped [OF r]) (simp_all add: delayed_def cc_target_def)
  with r show ?thesis by (simp add: delayed_def)
qed

text \<open>
  Above the target delay, on a processor that converts a negative double to its low 64 bits,
  the window does not grow as long as it can absorb the (negative) gain.
\<close>

theorem overshoot_shrinks:
  assumes B: "oor_to_size B = x86_to_size"
    and ok: "apply_ccontrol B n a min_rtt t opt_sndbuf td ps c = Some (d, c')"
    and n: "0 < n" and d: "cc_target td \<le> d" and ca: "\<not> slow_start c"
    and w: "uint (max_window c) \<le> 2 ^ 53"
    and fit: "0 \<le> uint (max_window c) + trunc (scaled_gain n (cc_target td) d c)"
  shows "uint (max_window c') \<le> max 10 (uint (max_window c))"
proof -
  obtain g where g: "g = scaled_gain n (cc_target td) d c \<or> g = 0 \<and> 0 < scaled_gain n (cc_target td) d c"
    and buf: "MIN_WINDOW_SIZE \<le> opt_sndbuf"
    and c': "max_window c' = clamped opt_sndbuf
           (max_window (grow_window B n ps (cc_target td) d (ledbat_cwnd B g c) c))"
    by (rule apply_ccontrol_Some [OF ok])
  have np: "scaled_gain n (cc_target td) d c \<le> 0"
    by (rule scaled_gain_nonpos [OF n cc_target_range(1) d])
  with g have "g = scaled_gain n (cc_target td) d c" by auto
  with np fit ledbat_cwnd_shrinks [OF B w, of g]
  have "uint (ledbat_cwnd B g c) \<le> max 10 (uint (max_window c))" by simp
  then show ?thesis
    using clamped_le [OF buf, of "ledbat_cwnd B g c"] ca by (simp add: c' grow_window_def)
qed

lemma overshoot_shrinks_witness:
  "\<exists>c'. apply_ccontrol sample_build 1400 5 200000 7 1000000 100000 1400 (delayed 200000 14000) = Some (200000, c')
    \<and> uint (max_window c') \<le> 14000"
proof -
  have "map_option fst (apply_ccontrol sample_build 1400 5 200000 7 1000000 100000 1400
      (delayed 200000 14000)) = Some 200000"
    by code_simp
  then obtain c' where r: "apply_ccontrol sample_build 1400 5 200000 7 1000000 100000 1400
      (delayed 200000 14000) = Some (200000, c')"
    by auto
  have gain: "trunc (scaled_gain 1400 100000 200000 (delayed 200000 14000)) = - 300"
    by code_simp
  have "uint (max_window c') \<le> max 10 (uint (max_window (delayed 200000 14000)))"
    by (rule overshoot_shrinks [OF _ r])
      (simp_all add: sample_build_def delayed_def cc_target_def gain [unfolded delayed_def])
  with r show ?thesis by (simp add: delayed_def)
qed



section \<open>Properties of the timers and the drift\<close>

lemma u32_of_int: "0 \<le> k \<Longrightarrow> k < 2 ^ 32 \<Longrightarrow> uint (of_int k :: u32) = k"
  by (simp add: uint_word_of_int)

lemma smoothed_rtt:
  fixes x e :: u32
  assumes "uint x \<le> M" and "uint e \<le> M" and "M < 2 ^ 29"
  shows "uint (x - x div 8 + e div 8) = uint x - uint x div 8 + uint e div 8"
    and "uint x - uint x div 8 + uint e div 8 \<le> M"
proof -
  let ?k = "uint x - uint x div 8 + uint e div 8"
  have x0: "0 \<le> uint x" and e0: "0 \<le> uint e" by simp_all
  have "x - x div 8 + e div 8 = of_int ?k"
    by (simp add: word_of_int_eq_iff) (simp add: word_div_def)
  moreover show le: "?k \<le> M"
    using assms zdiv_mono1 [OF assms(1), of 8] x0 e0 by linarith
  moreover have "0 \<le> ?k" using x0 e0 by linarith
  ultimately show "uint (x - x div 8 + e div 8) = ?k"
    using assms(3) by (simp only:) (rule u32_of_int, simp_all)
qed

lemma smoothed_var:
  fixes v :: u32
  assumes "uint v \<le> M" and "0 \<le> a" and "a \<le> M" and "M < 2 ^ 29"
  shows "uint (v + word_of_int ((a - uint v) sdiv 4)) = uint v + (a - uint v) sdiv 4"
    and "0 \<le> uint v + (a - uint v) sdiv 4" and "uint v + (a - uint v) sdiv 4 \<le> M"
proof -
  have v0: "0 \<le> uint v" by simp
  show lo: "0 \<le> uint v + (a - uint v) sdiv 4" and hi: "uint v + (a - uint v) sdiv 4 \<le> M"
    using assms v0 by (auto simp: signed_divide_int_def sgn_if)
  have "v + word_of_int ((a - uint v) sdiv 4) = word_of_int (uint v + (a - uint v) sdiv 4)"
    by simp
  then show "uint (v + word_of_int ((a - uint v) sdiv 4)) = uint v + (a - uint v) sdiv 4"
    using u32_of_int [OF lo] hi assms(4) by simp
qed

text \<open>
  The round-trip estimate stays within the samples. From an estimate, a variance and a
  sample of at most \<open>M\<close> milliseconds the update does not overflow, gives an estimate and a
  variance of at most \<open>M\<close>, a retransmission timeout of the estimate plus four variances but
  never below a second, and arms the timer with it.
\<close>

theorem update_rtt_bounded:
  assumes r: "uint (rtt c) \<le> M" and v: "uint (rtt_var c) \<le> M" and e: "uint ertt \<le> M"
    and M: "M < 2 ^ 29"
  shows "\<exists>c'. update_rtt ertt t c = Some c' \<and> uint (rtt c') \<le> M \<and> uint (rtt_var c') \<le> M \<and>
    uint (rto c') = max (uint (rtt c') + 4 * uint (rtt_var c')) 1000 \<and>
    retransmit_timeout c' = rto c' \<and> rto_timeout c' = t + ucast (rto c')"
proof -
  have M31: "M < 2 ^ 31" using M by simp
  have s: "sint x = uint x" if "uint x \<le> M" for x :: u32
    using that M31 by (intro sint_small) linarith
  have rto: "uint (max (x + w * 4) 1000) = max (uint x + 4 * uint w) 1000"
    if "uint x \<le> M" "uint w \<le> M" for x w :: u32
  proof -
    have "x + w * 4 = of_int (uint x + 4 * uint w)" by simp
    moreover have "0 \<le> uint x + 4 * uint w" "uint x + 4 * uint w < 2 ^ 32" using that M by simp_all
    ultimately have "uint (x + w * 4) = uint x + 4 * uint w" by (metis u32_of_int)
    then show ?thesis by (simp add: max_def word_le_def)
  qed
  show ?thesis
  proof (cases "rtt c = 0")
    case True
    have half: "uint (ertt div 2) \<le> M"
    proof -
      have "uint (ertt div 2) = uint ertt div 2" and "0 \<le> uint ertt" by (simp_all add: uint_div)
      then show ?thesis using e by linarith
    qed
    show ?thesis
      using True e half rto [OF e half] by (simp add: update_rtt_def Let_def)
  next
    case False
    let ?d = "\<bar>uint (rtt c) - uint ertt\<bar>"
    have r0: "0 \<le> uint (rtt c)" "0 \<le> uint ertt" "0 \<le> uint (rtt_var c)" by simp_all
    have d: "0 \<le> ?d" "?d \<le> M" using r e r0 by linarith+
    have ok: "in_i32 (uint (rtt c) - uint ertt)" "in_i32 ?d" "in_i32 (?d - uint (rtt_var c))"
      unfolding in_i32_def using r e v r0 d M31 by linarith+
    note x = smoothed_rtt [OF r e M] and w = smoothed_var [OF v d M]
    have x': "uint (rtt c - rtt c div 8 + ertt div 8) \<le> M" using x by simp
    have w': "uint (rtt_var c + word_of_int ((?d - uint (rtt_var c)) sdiv 4)) \<le> M" using w by simp
    show ?thesis
      using False ok x' w' rto [OF x' w']
      by (simp add: update_rtt_def s [OF r] s [OF e] s [OF v] Let_def)
  qed
qed

lemma update_rtt_bounded_witness:
  "\<exists>c'. update_rtt 200 7 (new_LedbatController\<lparr>rtt := 100, rtt_var := 50\<rparr>) = Some c' \<and>
    uint (rtt c') \<le> 6000 \<and> uint (rtt_var c') \<le> 6000 \<and>
    uint (rto c') = max (uint (rtt c') + 4 * uint (rtt_var c')) 1000 \<and>
    retransmit_timeout c' = rto c' \<and> rto_timeout c' = 7 + ucast (rto c')"
  by (rule update_rtt_bounded) (simp_all add: new_LedbatController_def)

lemma dbl_pos_half:
  assumes x: "0 < x"
  shows "dbl_pos (x / 2) = dbl_pos x / 2"
proof -
  have "expo (x / 2) = expo x - 1"
    using expo_bounds [OF x] by (intro expo_unique) (simp_all add: power_int_diff power_int_add)
  then have u: "2 powi (expo (x / 2) - 52) = (2 powi (expo x - 52) / 2 :: rat)"
    by (simp add: power_int_diff)
  show ?thesis unfolding dbl_pos_def u Let_def by simp
qed

lemma half_window:
  assumes "uint w \<le> 2 ^ 53"
  shows "size_of_double B (dbl (double_of_size w * dbl (1 / 2))) = w div 2"
proof -
  have w0: "0 \<le> uint w" by simp
  have h: "dbl (1 / 2) = 1 / 2" using dbl_pos_half [of 1] dbl_pos_int [of 1] by simp
  have "dbl (of_int (uint w) * (1 / 2)) = of_int (uint w) / 2"
  proof (cases "uint w = 0")
    case False
    then have p: "0 < uint w" using w0 by linarith
    then have "(0 :: rat) < of_int (uint w)" by (simp only: of_int_0_less_iff)
    then have "dbl_pos (of_int (uint w) / 2) = of_int (uint w) / 2"
      using dbl_pos_half dbl_pos_int [OF p assms] by simp
    with \<open>0 < of_int (uint w)\<close> show ?thesis by simp
  qed simp
  moreover have "trunc (of_int (uint w) / 2) = uint w div 2"
  proof -
    have "(0 :: rat) \<le> of_int (uint w)" using w0 by (simp only: of_int_0_le_iff)
    moreover have "\<lfloor>of_int (uint w) / of_int 2 :: rat\<rfloor> = uint w div 2" by (rule floor_divide_of_int_eq)
    ultimately show ?thesis unfolding trunc_def by simp
  qed
  ultimately have "trunc (dbl (double_of_size w * dbl (1 / 2))) = uint w div 2"
    by (simp only: double_of_size_exact [OF assms] h)
  moreover have "uint w div 2 < 2 ^ 64" using assms w0 by simp
  moreover have "0 \<le> uint w div 2" using w0 by simp
  ultimately have "size_of_double B (dbl (double_of_size w * dbl (1 / 2))) = of_int (uint w div 2)"
    by (simp only: size_of_double_def simp_thms if_True)
  then show ?thesis by (simp add: word_div_def)
qed

text \<open>
  Losses halve the window at most once per 100 ms. A decay sets the window to the larger of
  its half and the minimum, leaves slow start and records the threshold; within the interval
  nothing changes.
\<close>

theorem maybe_decay_win_halves:
  assumes w: "uint (max_window c) \<le> 2 ^ 53" and i: "in_i64 (sint t - last_rwin_decay c)"
  shows "maybe_decay_win B t c = Some
    (if sint t - last_rwin_decay c < 100 then c
     else c\<lparr>max_window := max (max_window c div 2) MIN_WINDOW_SIZE, last_rwin_decay := sint t,
            slow_start := False, ssthresh := max (max_window c div 2) MIN_WINDOW_SIZE\<rparr>)"
  using i unfolding maybe_decay_win_def half_window [OF w] can_decay_win_def MAX_WINDOW_DECAY_def
  by (auto simp: Let_def max_def not_le)

lemma maybe_decay_win_halves_witness:
  "maybe_decay_win sample_build 1000 (new_LedbatController\<lparr>max_window := 8000\<rparr>) =
   Some (new_LedbatController\<lparr>max_window := 4000, last_rwin_decay := 1000, slow_start := False,
     ssthresh := 4000\<rparr>)"
  using maybe_decay_win_halves [of "new_LedbatController\<lparr>max_window := 8000\<rparr>" 1000 sample_build]
  by (simp add: new_LedbatController_def in_i64_def MIN_WINDOW_SIZE_def)

text \<open>
  Closing a five-second slot. When no signed operation overflows, the recorded drift is the
  slot's mean delay minus the previous mean, whatever normalisation was applied; the
  normalisation moves the mean and its base in opposite directions, so their sum on the
  wrapped clock is the unnormalised one; and the next slot starts empty, five seconds later.
\<close>

theorem close_slot_drift:
  assumes ok: "close_slot B c = Some c'"
    and r: "in_i32 (current_delay_sum c sdiv current_delay_samples c)"
  defines "mean \<equiv> current_delay_sum c sdiv current_delay_samples c"
  shows "clock_drift_raw c' = mean - average_delay c \<and>
    average_delay_base c' + of_int (average_delay c') = average_delay_base c + of_int mean \<and>
    (average_delay c' = 0 \<or> (average_delay c' < 0 \<longleftrightarrow> mean < average_delay c)) \<and>
    current_delay_sum c' = 0 \<and> current_delay_samples c' = 0 \<and>
    average_sample_time c' = average_sample_time c + 5000"
proof -
  have m: "to_i32 mean = mean"
    using r signed_take_bit_int_eq_self [of 31 mean] by (simp add: to_i32_def in_i32_def mean_def)
  from ok m show ?thesis
    unfolding close_slot_def mean_def [symmetric]
    by (auto simp: Let_def bind_eq_Some_conv ub_unless_Some_iff c_assert_Some_iff min_def max_def
        split: if_splits)
qed

definition sample_slot :: LedbatController where
  "sample_slot = new_LedbatController
     \<lparr>average_delay := 40, current_delay_sum := 900, current_delay_samples := 10,
      average_delay_base := 1000\<rparr>"

lemma close_slot_drift_witness:
  "\<exists>c'. close_slot sample_build sample_slot = Some c' \<and> clock_drift_raw c' = 50 \<and>
    average_delay_base c' + of_int (average_delay c') = 1090"
proof -
  obtain c' where c': "close_slot sample_build sample_slot = Some c'"
    by (simp add: close_slot_def sample_slot_def new_LedbatController_def sample_build_def INT_MAX_def
        to_i32_def signed_divide_int_def in_i32_def Let_def signed_take_bit_int_eq_self)
  show ?thesis
    using close_slot_drift [OF c'] c'
    by (simp add: sample_slot_def new_LedbatController_def signed_divide_int_def in_i32_def)
qed

end
