(* ===== verification/Utp_Host.thy ===== *)
theory Utp_Host
  imports Address Ledbat
begin

text \<open>
  The context (\<^verbatim>\<open>struct UtpContext\<close> of \<^verbatim>\<open>src/utp_internal.h\<close>) and the services it gives to a
  socket (\<^verbatim>\<open>ISocketHost\<close>): the cached clock, the deferred-ACK list, the registry of
  connections, the statistics and the only exit for datagrams.

  The application's callbacks are a parameter, the record \<open>env\<close>: every query is a function of
  the number of queries made before it, so that clocks, random numbers and buffer sizes may
  take any values; every event is appended to \<open>events\<close> in the order in which the code makes
  the calls. A callback that calls back into the library is not modelled. Sockets are named by
  numbers, the addresses the pointers hold; the index a socket keeps of its place in the ACK
  list (\<open>ida_\<close>) is stored with the list. Logging only formats, and is left out.
\<close>

section \<open>Callbacks\<close>

record env =
  bld :: build
  endian :: endianness
  cb_milliseconds :: "nat \<Rightarrow> u64"
  cb_microseconds :: "nat \<Rightarrow> u64"
  cb_random :: "nat \<Rightarrow> u32"
  cb_udp_mtu :: "nat \<Rightarrow> sockaddr \<Rightarrow> u16"
  cb_udp_overhead :: "nat \<Rightarrow> sockaddr \<Rightarrow> u16"
  cb_read_buffer_size :: "nat \<Rightarrow> u64"
  cb_firewall :: "nat \<Rightarrow> sockaddr \<Rightarrow> bool"

datatype BandwidthType =
    payload_bandwidth
  | connect_overhead
  | close_overhead
  | ack_overhead
  | header_overhead
  | retransmit_overhead

datatype utp_state = UTP_STATE_CONNECT | UTP_STATE_WRITABLE | UTP_STATE_EOF | UTP_STATE_DESTROYING

datatype utp_error = UTP_ECONNREFUSED | UTP_ECONNRESET | UTP_ETIMEDOUT

definition UTP_UDP_DONTFRAG :: u32 where "UTP_UDP_DONTFRAG = 2"

datatype event =
    Ev_sendto bytes sockaddr u32
  | Ev_on_overhead_statistics nat bool u64 BandwidthType
  | Ev_on_read nat bytes
  | Ev_on_state_change nat utp_state
  | Ev_on_connect nat
  | Ev_on_error nat utp_error
  | Ev_on_delay_sample nat int
  | Ev_on_accept nat sockaddr

section \<open>The context\<close>

record RstInfo =
  rst_addr :: Address
  rst_connid :: u32
  rst_ack_nr :: u16
  rst_timestamp :: u64

record UtpContext =
  tick :: nat
  events :: "event list"
  current_ms :: u64
  nraw_recv :: "u32 list"
  nraw_send :: "u32 list"
  last_utp_socket :: "nat option"
  ack_sockets :: "nat list"
  ack_index :: "nat \<Rightarrow> int"
  rst_info :: "RstInfo list"
  sockets :: "(UtpSocketKey \<times> nat) list"
  target_delay :: u64
  ctx_sndbuf :: u64
  ctx_rcvbuf :: u64
  last_check :: u64
  log_normal :: bool
  log_mtu :: bool
  log_debug :: bool

definition new_UtpContext :: UtpContext where
  "new_UtpContext =
     \<lparr>tick = 0, events = [], current_ms = 0, nraw_recv = replicate 5 0, nraw_send = replicate 5 0,
      last_utp_socket = None, ack_sockets = [], ack_index = (\<lambda>_. - 1), rst_info = [], sockets = [],
      target_delay = ucast CCONTROL_TARGET, ctx_sndbuf = 1024 * 1024, ctx_rcvbuf = 1024 * 1024,
      last_check = 0, log_normal = False, log_mtu = False, log_debug = False\<rparr>"

section \<open>Calls to the application\<close>

definition query :: "(nat \<Rightarrow> 'a) \<Rightarrow> UtpContext \<Rightarrow> 'a \<times> UtpContext" where
  "query f h = (f (tick h), h\<lparr>tick := tick h + 1\<rparr>)"

definition emit :: "event \<Rightarrow> UtpContext \<Rightarrow> UtpContext" where
  "emit ev h = h\<lparr>events := events h @ [ev]\<rparr>"

definition call_get_milliseconds :: "env \<Rightarrow> UtpContext \<Rightarrow> u64 \<times> UtpContext" where
  "call_get_milliseconds E h = query (cb_milliseconds E) h"

definition call_get_microseconds :: "env \<Rightarrow> UtpContext \<Rightarrow> u64 \<times> UtpContext" where
  "call_get_microseconds E h = query (cb_microseconds E) h"

definition call_get_random :: "env \<Rightarrow> UtpContext \<Rightarrow> u32 \<times> UtpContext" where
  "call_get_random E h = query (cb_random E) h"

definition call_get_read_buffer_size :: "env \<Rightarrow> UtpContext \<Rightarrow> u64 \<times> UtpContext" where
  "call_get_read_buffer_size E h = query (cb_read_buffer_size E) h"

definition call_get_udp_mtu :: "env \<Rightarrow> sockaddr \<Rightarrow> UtpContext \<Rightarrow> u16 \<times> UtpContext" where
  "call_get_udp_mtu E sa h = query (\<lambda>n. cb_udp_mtu E n sa) h"

definition call_get_udp_overhead :: "env \<Rightarrow> sockaddr \<Rightarrow> UtpContext \<Rightarrow> u16 \<times> UtpContext" where
  "call_get_udp_overhead E sa h = query (\<lambda>n. cb_udp_overhead E n sa) h"

definition call_on_firewall :: "env \<Rightarrow> sockaddr \<Rightarrow> UtpContext \<Rightarrow> bool \<times> UtpContext" where
  "call_on_firewall E sa h = query (\<lambda>n. cb_firewall E n sa) h"

section \<open>Clock, datagrams and statistics\<close>

definition refresh_clock :: "env \<Rightarrow> UtpContext \<Rightarrow> UtpContext" where
  "refresh_clock E h = (let (ms, h) = call_get_milliseconds E h in h\<lparr>current_ms := ms\<rparr>)"

definition register_sent_packet :: "u64 \<Rightarrow> UtpContext \<Rightarrow> UtpContext" where
  "register_sent_packet n h =
     (let b = bucket_index (packet_size_bucket n)
      in h\<lparr>nraw_send := (nraw_send h)[b := nraw_send h ! b + 1]\<rparr>)"

definition record_raw_recv :: "u64 \<Rightarrow> UtpContext \<Rightarrow> UtpContext" where
  "record_raw_recv n h =
     (let b = bucket_index (packet_size_bucket n)
      in h\<lparr>nraw_recv := (nraw_recv h)[b := nraw_recv h ! b + 1]\<rparr>)"

text \<open>The datagram is the first \<open>n\<close> bytes of the buffer, which must hold them.\<close>

definition send_to_addr_impl ::
  "env \<Rightarrow> bytes \<Rightarrow> u64 \<Rightarrow> Address \<Rightarrow> u32 \<Rightarrow> UtpContext \<Rightarrow> UtpContext option" where
  "send_to_addr_impl E p n addr flags h =
     do {
       let (to, tolen) = get_sockaddr_storage (endian E) addr;
       let h = register_sent_packet n h;
       ub_unless (unat n \<le> length p);
       Some (emit (Ev_sendto (take (unat n) p) to flags) h)
     }"

section \<open>The deferred-ACK list\<close>

definition host_schedule_ack :: "nat \<Rightarrow> UtpContext \<Rightarrow> UtpContext" where
  "host_schedule_ack s h =
     (if ack_index h s = - 1
      then let h = h\<lparr>ack_sockets := ack_sockets h @ [s]\<rparr>
           in h\<lparr>ack_index := (ack_index h)(s := to_i32 (int (length (ack_sockets h))) - 1)\<rparr>
      else h)"

definition host_remove_ack :: "env \<Rightarrow> nat \<Rightarrow> UtpContext \<Rightarrow> UtpContext option" where
  "host_remove_ack E s h =
     (let idx = ack_index h s
      in if idx < 0 then Some h
         else do {
           ub_unless (ack_sockets h \<noteq> []);
           let lst = last (ack_sockets h);
           c_assert (ndebug (bld E)) (ack_index h lst < to_i32 (int (length (ack_sockets h))));
           c_assert (ndebug (bld E))
             (0 \<le> ack_index h lst \<and> nat (ack_index h lst) < length (ack_sockets h) \<and>
              ack_sockets h ! nat (ack_index h lst) = lst);
           let h = h\<lparr>ack_index := (ack_index h)(lst := idx)\<rparr>;
           ub_unless (nat idx < length (ack_sockets h));
           let h = h\<lparr>ack_sockets := (ack_sockets h)[nat idx := lst]\<rparr>;
           let h = h\<lparr>ack_index := (ack_index h)(s := - 1)\<rparr>;
           Some (h\<lparr>ack_sockets := butlast (ack_sockets h)\<rparr>)
         })"

section \<open>The registry\<close>

definition has_socket :: "Address \<Rightarrow> u32 \<Rightarrow> UtpContext \<Rightarrow> bool" where
  "has_socket addr recv_id h \<longleftrightarrow>
     map_of (sockets h) \<lparr>key_addr = addr, key_recv_id = recv_id\<rparr> \<noteq> None"

definition on_socket_destroyed :: "nat \<Rightarrow> UtpContext \<Rightarrow> UtpContext" where
  "on_socket_destroyed s h =
     (if last_utp_socket h = Some s then h\<lparr>last_utp_socket := None\<rparr> else h)"

section \<open>What a client of the ACK list relies on\<close>

text \<open>
  The list is a set of sockets waiting for an acknowledgement: scheduling adds a socket once,
  removing takes it out, and neither touches the others.
\<close>

locale deferred_acks =
  fixes ok :: "'h \<Rightarrow> bool" and pending :: "'h \<Rightarrow> nat set"
    and schedule :: "nat \<Rightarrow> 'h \<Rightarrow> 'h" and cancel :: "nat \<Rightarrow> 'h \<Rightarrow> 'h option"
    and room :: "'h \<Rightarrow> bool"
  assumes pending_finite: "ok h \<Longrightarrow> finite (pending h)"
    and schedule_law: "ok h \<Longrightarrow> room h \<Longrightarrow> ok (schedule s h) \<and> pending (schedule s h) = insert s (pending h)"
    and cancel_law: "ok h \<Longrightarrow> \<exists>h'. cancel s h = Some h' \<and> ok h' \<and> pending h' = pending h - {s}"
begin

primrec cancel_all :: "nat list \<Rightarrow> 'h \<Rightarrow> 'h option" where
  "cancel_all [] h = Some h"
| "cancel_all (s # ss) h = cancel s h \<bind> cancel_all ss"

lemma cancel_all_pending:
  "ok h \<Longrightarrow> \<exists>h'. cancel_all ss h = Some h' \<and> ok h' \<and> pending h' = pending h - set ss"
proof (induction ss arbitrary: h)
  case (Cons s ss)
  obtain h1 where h1: "cancel s h = Some h1" "ok h1" "pending h1 = pending h - {s}"
    using cancel_law [OF Cons.prems, of s] by (elim exE conjE) (rule that)
  obtain h2 where h2: "cancel_all ss h1 = Some h2" "ok h2" "pending h2 = pending h1 - set ss"
    using Cons.IH [OF h1(2)] by (elim exE conjE) (rule that)
  have "pending h2 = pending h - set (s # ss)" unfolding h2(3) h1(3) by auto
  moreover have "cancel_all (s # ss) h = Some h2" by (simp add: h1(1) h2(1))
  ultimately show ?case using h2(2) by (intro exI conjI)
qed simp

lemma cancel_decreases:
  assumes "ok h" and "s \<in> pending h" and "cancel s h = Some h'"
  shows "card (pending h') < card (pending h)"
proof -
  have "pending h' = pending h - {s}" using cancel_law [OF assms(1), of s] assms(3) by auto
  then show ?thesis
    using card_Diff1_less [OF pending_finite [OF assms(1)] assms(2)] by simp
qed

lemma cancel_idle: "ok h \<Longrightarrow> s \<notin> pending h \<Longrightarrow> cancel s h = Some h' \<Longrightarrow> pending h' = pending h"
  using cancel_law [of h s] by auto

end

text \<open>The index of each listed socket is its position; every other socket has none.\<close>

definition ack_list_ok :: "UtpContext \<Rightarrow> bool" where
  "ack_list_ok h \<longleftrightarrow> length (ack_sockets h) < 2 ^ 31 \<and>
     (\<forall>i < length (ack_sockets h). ack_index h (ack_sockets h ! i) = int i) \<and>
     (\<forall>s. s \<notin> set (ack_sockets h) \<longrightarrow> ack_index h s = - 1)"

definition ack_pending :: "UtpContext \<Rightarrow> nat set" where
  "ack_pending h = set (ack_sockets h)"

definition ack_room :: "UtpContext \<Rightarrow> bool" where
  "ack_room h \<longleftrightarrow> length (ack_sockets h) + 1 < 2 ^ 31"

lemma ack_index_iff:
  assumes "ack_list_ok h"
  shows "ack_index h s = - 1 \<longleftrightarrow> s \<notin> ack_pending h"
    and "ack_index h s < 0 \<longleftrightarrow> s \<notin> ack_pending h"
  using assms by (auto simp: ack_list_ok_def ack_pending_def in_set_conv_nth)

lemma ack_list_distinct: "ack_list_ok h \<Longrightarrow> distinct (ack_sockets h)"
  by (auto simp: ack_list_ok_def distinct_conv_nth) (metis of_nat_eq_iff)

lemma to_i32_small: "0 \<le> n \<Longrightarrow> n < 2 ^ 31 \<Longrightarrow> to_i32 n = n"
  using signed_take_bit_int_eq_self [of 31 n] by (simp add: to_i32_def)

lemma schedule_ack_ok:
  assumes ok: "ack_list_ok h" and room: "ack_room h"
  shows "ack_list_ok (host_schedule_ack s h)"
    and "ack_pending (host_schedule_ack s h) = insert s (ack_pending h)"
proof -
  have "ack_list_ok (host_schedule_ack s h) \<and>
    ack_pending (host_schedule_ack s h) = insert s (ack_pending h)"
  proof (cases "s \<in> ack_pending h")
    case True
    then show ?thesis using ok ack_index_iff [OF ok, of s] by (auto simp: host_schedule_ack_def)
  next
    case False
    have len: "to_i32 (int (length (ack_sockets h)) + 1) = int (length (ack_sockets h)) + 1"
      using room by (intro to_i32_small) (simp_all add: ack_room_def)
    have "host_schedule_ack s h = h\<lparr>ack_sockets := ack_sockets h @ [s],
        ack_index := (ack_index h)(s := int (length (ack_sockets h)))\<rparr>"
      using False ack_index_iff [OF ok, of s] len by (simp add: host_schedule_ack_def add.commute)
    then show ?thesis
      using ok room False
      by (auto simp: ack_list_ok_def ack_pending_def ack_room_def nth_append less_Suc_eq)
  qed
  then show "ack_list_ok (host_schedule_ack s h)"
    and "ack_pending (host_schedule_ack s h) = insert s (ack_pending h)" by simp_all
qed

lemma remove_ack_listed:
  assumes ok: "ack_list_ok h" and i: "i < length (ack_sockets h)" and s: "s = ack_sockets h ! i"
  shows "host_remove_ack E s h =
    Some (h\<lparr>ack_sockets := butlast ((ack_sockets h)[i := last (ack_sockets h)]),
            ack_index := (ack_index h)(last (ack_sockets h) := int i, s := - 1)\<rparr>)"
proof -
  let ?xs = "ack_sockets h" and ?l = "length (ack_sockets h) - 1"
  have ne: "?xs \<noteq> []" using i by auto
  have lst: "last ?xs = ?xs ! ?l" using ne by (rule last_conv_nth)
  have l: "?l < length ?xs" using i by simp
  have si: "ack_index h s = int i" using ok i s by (simp add: ack_list_ok_def)
  have sl: "ack_index h (last ?xs) = int ?l" using ok l unfolding lst by (simp add: ack_list_ok_def)
  have len: "to_i32 (int (length ?xs)) = int (length ?xs)"
    using ok by (intro to_i32_small) (simp_all add: ack_list_ok_def)
  have lst2: "?xs ! (length ?xs - Suc 0) = last ?xs" using lst by simp
  have p: "nat (int (length ?xs) - 1) = ?l" by simp
  show ?thesis
    using ne l i by (simp add: host_remove_ack_def si sl len p lst2 Let_def)
qed

lemma remove_ack_ok:
  assumes ok: "ack_list_ok h"
  shows "\<exists>h'. host_remove_ack E s h = Some h' \<and> ack_list_ok h' \<and> ack_pending h' = ack_pending h - {s}"
proof (cases "s \<in> ack_pending h")
  case False
  then have "ack_index h s < 0" using ack_index_iff(2) [OF ok] by simp
  then have "host_remove_ack E s h = Some h" by (simp add: host_remove_ack_def Let_def)
  with False ok show ?thesis by auto
next
  case True
  let ?xs = "ack_sockets h" and ?l = "length (ack_sockets h) - 1"
  obtain i where i: "i < length ?xs" "s = ?xs ! i"
    using True by (auto simp: ack_pending_def in_set_conv_nth)
  have d: "distinct ?xs" by (rule ack_list_distinct [OF ok])
  have ne: "?xs \<noteq> []" using i by auto
  let ?ys = "butlast (?xs[i := last ?xs])"
  have ys: "?ys ! j = (if j = i then ?xs ! ?l else ?xs ! j)" if "j < ?l" for j
    using that i ne by (simp add: nth_butlast last_conv_nth nth_list_update)
  have st: "set ?ys = set ?xs - {s}"
  proof (intro equalityI subsetI)
    fix x assume "x \<in> set ?ys"
    then obtain j where j: "j < ?l" "x = ?ys ! j" by (auto simp: in_set_conv_nth)
    with ys [OF j(1)] d i show "x \<in> set ?xs - {s}"
      by (auto simp: nth_eq_iff_index_eq split: if_splits)
  next
    fix x assume "x \<in> set ?xs - {s}"
    then obtain j where j: "j < length ?xs" "x = ?xs ! j" "j \<noteq> i"
      using i by (auto simp: in_set_conv_nth)
    show "x \<in> set ?ys"
    proof (cases "j = ?l")
      case True
      then have "i < ?l" using i j by simp
      then have "?ys ! i = x" using ys j True by simp
      with \<open>i < ?l\<close> show ?thesis using nth_mem [of i ?ys] by simp
    next
      case False
      then have "j < ?l" using j by simp
      then have "?ys ! j = x" using ys j by simp
      with \<open>j < ?l\<close> show ?thesis using nth_mem [of j ?ys] by simp
    qed
  qed
  let ?h = "h\<lparr>ack_sockets := ?ys, ack_index := (ack_index h)(last ?xs := int i, s := - 1)\<rparr>"
  have "ack_list_ok ?h"
    unfolding ack_list_ok_def
  proof (intro conjI allI impI)
    have "length (ack_sockets h) < 2 ^ 31" using ok by (simp add: ack_list_ok_def)
    then show "length (ack_sockets ?h) < 2 ^ 31" by (simp add: less_imp_diff_less)
    show "ack_index ?h (ack_sockets ?h ! j) = int j" if "j < length (ack_sockets ?h)" for j
    proof -
      have j: "j < ?l" using that by simp
      have "?ys ! j \<in> set ?ys" using j by simp
      then have ns: "?ys ! j \<noteq> s" using st by blast
      have "?xs ! j = last ?xs \<longleftrightarrow> j = ?l"
        using d j ne by (simp add: last_conv_nth nth_eq_iff_index_eq)
      then show ?thesis
        using ns ys [OF j] ok j i ne by (auto simp: ack_list_ok_def last_conv_nth split: if_splits)
    qed
    show "ack_index ?h x = - 1" if "x \<notin> set (ack_sockets ?h)" for x
      using that st ok i ne by (auto simp: ack_list_ok_def)
  qed
  then show ?thesis
    using remove_ack_listed [OF ok i(1) refl, of E] i st by (simp add: ack_pending_def)
qed

interpretation acks: deferred_acks ack_list_ok ack_pending host_schedule_ack "host_remove_ack E" ack_room
  for E
proof unfold_locales
  show "finite (ack_pending h)" if "ack_list_ok h" for h by (simp add: ack_pending_def)
  show "ack_list_ok (host_schedule_ack s h) \<and> ack_pending (host_schedule_ack s h) = insert s (ack_pending h)"
    if "ack_list_ok h" "ack_room h" for h s
    using schedule_ack_ok [OF that] by simp
  show "\<exists>h'. host_remove_ack E s h = Some h' \<and> ack_list_ok h' \<and> ack_pending h' = ack_pending h - {s}"
    if "ack_list_ok h" for h s
    using that by (rule remove_ack_ok)
qed

end
