(* ===== verification/Mtu_Discovery.thy ===== *)
theory Mtu_Discovery
  imports Utp_Config
begin

text \<open>
  \<^verbatim>\<open>src/utp/mtu_discovery.hpp\<close>: the binary search for the path MTU between \<open>mtu_floor_\<close> and
  \<open>mtu_ceiling_\<close>, driven by acknowledged and lost probe packets, probe timeouts and ICMP
  messages. The logger calls have no effect on the state and are left out. Every method that
  asserts takes the build flag and returns an option.
\<close>

section \<open>Model\<close>

record MtuDiscovery =
  mtu_discover_time :: u64
  mtu_ceiling :: u32
  mtu_floor :: u32
  mtu_last :: u32
  mtu_probe_seq :: u32
  mtu_probe_size :: u32

definition new_MtuDiscovery :: MtuDiscovery where
  "new_MtuDiscovery = \<lparr>mtu_discover_time = 0, mtu_ceiling = 0, mtu_floor = 0, mtu_last = 0,
     mtu_probe_seq = 0, mtu_probe_size = 0\<rparr>"

definition mtu_reset :: "bool \<Rightarrow> u32 \<Rightarrow> u64 \<Rightarrow> MtuDiscovery \<Rightarrow> MtuDiscovery option" where
  "mtu_reset nd udp_mtu current_ms m =
     do {
       let m = m\<lparr>mtu_ceiling := udp_mtu, mtu_floor := 576\<rparr>;
       c_assert nd (mtu_floor m \<le> mtu_ceiling m);
       Some (m\<lparr>mtu_discover_time := current_ms + 30 * 60 * 1000\<rparr>)
     }"

definition search_update :: "bool \<Rightarrow> u64 \<Rightarrow> MtuDiscovery \<Rightarrow> MtuDiscovery option" where
  "search_update nd current_ms m =
     do {
       c_assert nd (mtu_floor m \<le> mtu_ceiling m);
       let m = m\<lparr>mtu_last := (mtu_floor m + mtu_ceiling m) div 2\<rparr>;
       let m = m\<lparr>mtu_probe_seq := 0, mtu_probe_size := 0\<rparr>;
       if mtu_ceiling m - mtu_floor m \<le> 16
       then do {
         let m = m\<lparr>mtu_last := mtu_floor m\<rparr>;
         let m = m\<lparr>mtu_ceiling := mtu_floor m\<rparr>;
         c_assert nd (mtu_floor m \<le> mtu_ceiling m);
         Some (m\<lparr>mtu_discover_time := current_ms + 30 * 60 * 1000\<rparr>)
       }
       else Some m
     }"

definition raw_mtu :: "MtuDiscovery \<Rightarrow> u32" where
  "raw_mtu m = (if mtu_last m \<noteq> 0 then mtu_last m else mtu_ceiling m)"

definition effective_mtu :: "u64 \<Rightarrow> MtuDiscovery \<Rightarrow> u64" where
  "effective_mtu header_size m =
     ucast (if mtu_last m \<noteq> 0 then mtu_last m else mtu_ceiling m) - header_size"

definition set_probe :: "u32 \<Rightarrow> u32 \<Rightarrow> MtuDiscovery \<Rightarrow> MtuDiscovery" where
  "set_probe sq sz m = m\<lparr>mtu_probe_seq := sq, mtu_probe_size := sz\<rparr>"

definition is_probe :: "u32 \<Rightarrow> MtuDiscovery \<Rightarrow> bool" where
  "is_probe sq m \<longleftrightarrow> mtu_probe_seq m \<noteq> 0 \<and> sq = mtu_probe_seq m"

definition clear_probe :: "MtuDiscovery \<Rightarrow> MtuDiscovery" where
  "clear_probe m = m\<lparr>mtu_probe_seq := 0, mtu_probe_size := 0\<rparr>"

definition handle_probe_ack ::
  "bool \<Rightarrow> u32 \<Rightarrow> u64 \<Rightarrow> MtuDiscovery \<Rightarrow> (bool \<times> MtuDiscovery) option" where
  "handle_probe_ack nd sq current_ms m =
     (if is_probe sq m
      then do {
        m \<leftarrow> search_update nd current_ms (m\<lparr>mtu_floor := mtu_probe_size m\<rparr>);
        Some (True, m)
      }
      else Some (False, m))"

definition handle_probe_timeout ::
  "bool \<Rightarrow> u32 \<Rightarrow> u32 \<Rightarrow> u64 \<Rightarrow> MtuDiscovery \<Rightarrow> (bool \<times> MtuDiscovery) option" where
  "handle_probe_timeout nd outstanding_seq cur_window_packets current_ms m =
     do {
       (ignore_loss, m) \<leftarrow>
         (if cur_window_packets = 1 \<and> is_probe outstanding_seq m
          then do {
            m \<leftarrow> search_update nd current_ms (m\<lparr>mtu_ceiling := mtu_probe_size m - 1\<rparr>);
            Some (True, m)
          }
          else Some (False, m));
       Some (ignore_loss, clear_probe m)
     }"

definition handle_probe_loss :: "bool \<Rightarrow> u64 \<Rightarrow> MtuDiscovery \<Rightarrow> MtuDiscovery option" where
  "handle_probe_loss nd current_ms m =
     do {
       m \<leftarrow> search_update nd current_ms (m\<lparr>mtu_ceiling := mtu_probe_size m - 1\<rparr>);
       Some (clear_probe m)
     }"

definition handle_icmp_fragmentation ::
  "bool \<Rightarrow> u16 \<Rightarrow> u64 \<Rightarrow> MtuDiscovery \<Rightarrow> MtuDiscovery option" where
  "handle_icmp_fragmentation nd next_hop_mtu current_ms m =
     do {
       m \<leftarrow> search_update nd current_ms (m\<lparr>mtu_ceiling := min (ucast next_hop_mtu) (mtu_ceiling m)\<rparr>);
       Some (m\<lparr>mtu_last := mtu_ceiling m\<rparr>)
     }"

definition handle_icmp_unknown :: "bool \<Rightarrow> u64 \<Rightarrow> MtuDiscovery \<Rightarrow> MtuDiscovery option" where
  "handle_icmp_unknown nd current_ms m =
     search_update nd current_ms (m\<lparr>mtu_ceiling := (mtu_floor m + mtu_ceiling m) div 2\<rparr>)"

definition should_rediscover :: "u64 \<Rightarrow> MtuDiscovery \<Rightarrow> bool" where
  "should_rediscover current_ms m \<longleftrightarrow> mtu_discover_time m < current_ms"

definition set_last_to_ceiling :: "MtuDiscovery \<Rightarrow> MtuDiscovery" where
  "set_last_to_ceiling m = m\<lparr>mtu_last := mtu_ceiling m\<rparr>"

section \<open>One step of the search\<close>

lemma search_update_ok:
  assumes "mtu_floor m \<le> mtu_ceiling m"
  shows "search_update nd t m = Some
    (if mtu_ceiling m - mtu_floor m \<le> 16
     then m\<lparr>mtu_last := mtu_floor m, mtu_probe_seq := 0, mtu_probe_size := 0,
            mtu_ceiling := mtu_floor m, mtu_discover_time := t + 30 * 60 * 1000\<rparr>
     else m\<lparr>mtu_last := (mtu_floor m + mtu_ceiling m) div 2, mtu_probe_seq := 0,
            mtu_probe_size := 0\<rparr>)"
  using assms by (simp add: search_update_def)

lemma search_update_None: "search_update False t m = None \<longleftrightarrow> mtu_ceiling m < mtu_floor m"
proof (cases "mtu_floor m \<le> mtu_ceiling m")
  case True
  then show ?thesis
    using search_update_ok [OF True, of False t] by (auto simp: not_less)
next
  case False
  then have "search_update False t m = None"
    unfolding search_update_def by (simp only: c_assert_simps bind.bind_lzero)
  with False show ?thesis by (simp add: not_le)
qed

text \<open>
  The range is ordered, small enough that the midpoint does not wrap, and a probe in flight is
  larger than the floor and within the ceiling, as \<open>send_packet\<close> chooses it.
\<close>

definition mtu_wf :: "MtuDiscovery \<Rightarrow> bool" where
  "mtu_wf m \<longleftrightarrow> mtu_floor m \<le> mtu_ceiling m \<and> unat (mtu_ceiling m) < 2 ^ 31 \<and>
     (mtu_probe_seq m \<noteq> 0 \<longrightarrow> mtu_floor m < mtu_probe_size m \<and> mtu_probe_size m \<le> mtu_ceiling m)"

definition mtu_width :: "MtuDiscovery \<Rightarrow> nat" where
  "mtu_width m = unat (mtu_ceiling m) - unat (mtu_floor m)"

lemma unat_midpoint:
  fixes a b :: u32
  assumes "a \<le> b" and "unat b < 2 ^ 31"
  shows "unat ((a + b) div 2) = (unat a + unat b) div 2"
proof -
  have "unat (a + b) = unat a + unat b"
    using assms by (simp add: unat_word_ariths word_le_nat_alt)
  then show ?thesis by (simp add: unat_div)
qed

lemma unat_width:
  fixes a b :: u32
  assumes "a \<le> b"
  shows "unat (b - a) = unat b - unat a"
  using assms by (simp add: unat_sub)

lemma search_update_wf:
  assumes le: "mtu_floor m \<le> mtu_ceiling m" and bound: "unat (mtu_ceiling m) < 2 ^ 31"
    and su: "search_update nd t m = Some m'"
  shows "mtu_wf m' \<and> mtu_probe_seq m' = 0 \<and> mtu_floor m' = mtu_floor m \<and>
    mtu_ceiling m' \<le> mtu_ceiling m \<and> mtu_width m' \<le> mtu_width m \<and>
    (if mtu_width m \<le> 16 then mtu_width m' = 0 \<and> mtu_last m' = mtu_floor m
     else mtu_ceiling m' = mtu_ceiling m \<and>
       unat (mtu_last m') = (unat (mtu_floor m) + unat (mtu_ceiling m)) div 2)"
proof -
  have w: "mtu_ceiling m - mtu_floor m \<le> 16 \<longleftrightarrow> mtu_width m \<le> 16"
    using unat_width [OF le] by (simp add: word_le_nat_alt mtu_width_def)
  have m': "m' = (if mtu_width m \<le> 16
     then m\<lparr>mtu_last := mtu_floor m, mtu_probe_seq := 0, mtu_probe_size := 0,
            mtu_ceiling := mtu_floor m, mtu_discover_time := t + 30 * 60 * 1000\<rparr>
     else m\<lparr>mtu_last := (mtu_floor m + mtu_ceiling m) div 2, mtu_probe_seq := 0,
            mtu_probe_size := 0\<rparr>)"
    using su unfolding search_update_ok [OF le] w by simp
  show ?thesis
  proof (cases "mtu_width m \<le> 16")
    case True
    with m' le bound show ?thesis
      by (simp add: mtu_wf_def mtu_width_def word_le_nat_alt)
  next
    case False
    with m' le bound unat_midpoint [OF le bound] show ?thesis
      by (simp add: mtu_wf_def mtu_width_def)
  qed
qed

lemma search_update_defined: "mtu_floor m \<le> mtu_ceiling m \<Longrightarrow> \<exists>m'. search_update nd t m = Some m'"
  by (simp add: search_update_ok)

lemma probe_size_minus_one:
  fixes f s :: u32
  assumes "f < s"
  shows "f \<le> s - 1" and "unat (s - 1) = unat s - 1" and "s - 1 \<le> s"
proof -
  have "1 \<le> s" using assms by (simp add: word_le_nat_alt word_less_nat_alt)
  then show u: "unat (s - 1) = unat s - 1" by (simp add: unat_sub)
  then show "f \<le> s - 1" and "s - 1 \<le> s"
    using assms by (simp_all add: word_le_nat_alt word_less_nat_alt)
qed

text \<open>Acknowledged and lost probes: the search goes on in the part of the range they leave.\<close>

lemma probe_ack_step:
  assumes wf: "mtu_wf m" and p: "is_probe sq m"
  obtains m' where "handle_probe_ack nd sq t m = Some (True, m')" and "mtu_wf m'"
    and "mtu_floor m' = mtu_probe_size m" and "mtu_width m' \<le> unat (mtu_ceiling m) - unat (mtu_probe_size m)"
    and "search_update nd t (m\<lparr>mtu_floor := mtu_probe_size m\<rparr>) = Some m'"
proof -
  let ?m = "m\<lparr>mtu_floor := mtu_probe_size m\<rparr>"
  have le: "mtu_floor ?m \<le> mtu_ceiling ?m" and b: "unat (mtu_ceiling ?m) < 2 ^ 31"
    using wf p by (auto simp: mtu_wf_def is_probe_def)
  obtain m' where su: "search_update nd t ?m = Some m'"
    using search_update_defined [OF le] by blast
  from search_update_wf [OF le b su] that su p show thesis
    by (auto simp: handle_probe_ack_def mtu_width_def)
qed

lemma probe_loss_range:
  assumes wf: "mtu_wf m" and p: "mtu_probe_seq m \<noteq> 0"
  shows "mtu_floor m \<le> mtu_probe_size m - 1" and "unat (mtu_probe_size m - 1) < 2 ^ 31"
    and "unat (mtu_probe_size m - 1) < unat (mtu_ceiling m)"
  using wf p probe_size_minus_one [of "mtu_floor m" "mtu_probe_size m"]
  by (auto simp: mtu_wf_def word_le_nat_alt word_less_nat_alt)

lemma clear_probe_wf: "mtu_wf m \<Longrightarrow> mtu_wf (clear_probe m)"
  by (simp add: mtu_wf_def clear_probe_def)

lemma clear_probe_fields [simp]:
  "mtu_floor (clear_probe m) = mtu_floor m"
  "mtu_ceiling (clear_probe m) = mtu_ceiling m"
  "mtu_last (clear_probe m) = mtu_last m"
  "mtu_probe_seq (clear_probe m) = 0"
  "mtu_width (clear_probe m) = mtu_width m"
  by (simp_all add: clear_probe_def mtu_width_def)

lemma probe_loss_step:
  assumes wf: "mtu_wf m" and p: "mtu_probe_seq m \<noteq> 0"
  obtains m' where "handle_probe_loss nd t m = Some m'" and "mtu_wf m'"
    and "mtu_floor m' = mtu_floor m" and "mtu_width m' < mtu_width m"
    and "search_update nd t (m\<lparr>mtu_ceiling := mtu_probe_size m - 1\<rparr>) = Some m'"
proof -
  let ?m = "m\<lparr>mtu_ceiling := mtu_probe_size m - 1\<rparr>"
  have le: "mtu_floor ?m \<le> mtu_ceiling ?m" and b: "unat (mtu_ceiling ?m) < 2 ^ 31"
    using probe_loss_range [OF wf p] by simp_all
  obtain m' where su: "search_update nd t ?m = Some m'"
    using search_update_defined [OF le] by blast
  have p0: "clear_probe m' = m'"
    using su unfolding search_update_ok [OF le] by (auto simp: clear_probe_def)
  have fl: "unat (mtu_floor m) < unat (mtu_ceiling m)"
    using probe_loss_range [OF wf p] by (simp add: word_le_nat_alt)
  have "mtu_width m' < mtu_width m"
    using search_update_wf [OF le b su] probe_loss_range [OF wf p] fl
    by (auto simp: mtu_width_def word_le_nat_alt)
  with search_update_wf [OF le b su] su p0 that show thesis
    by (auto simp: handle_probe_loss_def)
qed

text \<open>A probe that times out is handled like a lost one when it is the only packet in flight.\<close>

lemma probe_timeout_lost:
  assumes "n = 1" and "is_probe sq m"
  shows "handle_probe_timeout nd sq n t m =
    map_option (\<lambda>m. (True, m)) (handle_probe_loss nd t m)"
  using assms by (simp add: handle_probe_timeout_def handle_probe_loss_def map_option_case
      split: Option.bind_splits)

lemma probe_timeout_other:
  assumes "\<not> (n = 1 \<and> is_probe sq m)"
  shows "handle_probe_timeout nd sq n t m = Some (False, clear_probe m)"
  using assms by (auto simp: handle_probe_timeout_def)

lemma set_probe_wf:
  assumes "mtu_floor m < sz" and "sz \<le> mtu_ceiling m" and "unat (mtu_ceiling m) < 2 ^ 31"
  shows "mtu_wf (set_probe sq sz m)"
  using assms by (auto simp: mtu_wf_def set_probe_def)

section \<open>Probing a path\<close>

text \<open>
  One round of the search as the sender drives it: the next full packet is as large as the
  current MTU and is taken as the probe; a path whose MTU is \<open>P\<close> delivers it when it fits and
  loses it otherwise (\<^verbatim>\<open>tests/test_mtu_discovery.cpp\<close> runs the same loop on one path).
\<close>

definition probe_round :: "bool \<Rightarrow> u64 \<Rightarrow> u32 \<Rightarrow> u32 \<Rightarrow> MtuDiscovery \<Rightarrow> MtuDiscovery option" where
  "probe_round nd t P sq m =
     (let m = set_probe sq (raw_mtu m) m
      in if mtu_probe_size m \<le> P then map_option snd (handle_probe_ack nd sq t m)
         else handle_probe_loss nd t m)"

primrec probe_rounds :: "bool \<Rightarrow> u64 \<Rightarrow> u32 \<Rightarrow> u32 \<Rightarrow> nat \<Rightarrow> MtuDiscovery \<Rightarrow> MtuDiscovery option" where
  "probe_rounds nd t P sq 0 m = Some m"
| "probe_rounds nd t P sq (Suc n) m =
     (if mtu_floor m = mtu_ceiling m then Some m
      else probe_round nd t P sq m \<bind> probe_rounds nd t P sq n)"

definition probing :: "u32 \<Rightarrow> MtuDiscovery \<Rightarrow> bool" where
  "probing P m \<longleftrightarrow> mtu_floor m \<le> P \<and> P \<le> mtu_ceiling m \<and> unat (mtu_ceiling m) < 2 ^ 31 \<and>
     mtu_floor m < mtu_last m \<and> mtu_last m \<le> mtu_ceiling m"

definition found :: "u32 \<Rightarrow> MtuDiscovery \<Rightarrow> bool" where
  "found P m \<longleftrightarrow> mtu_ceiling m = mtu_floor m \<and> mtu_last m = mtu_floor m \<and>
     mtu_last m \<le> P \<and> unat P \<le> unat (mtu_last m) + 16"

lemma search_update_probing:
  assumes le: "mtu_floor m \<le> P" "P \<le> mtu_ceiling m" and b: "unat (mtu_ceiling m) < 2 ^ 31"
  obtains m' where "search_update nd t m = Some m'"
    and "found P m' \<or>
         probing P m' \<and> mtu_floor m' = mtu_floor m \<and> mtu_ceiling m' = mtu_ceiling m \<and>
         16 < mtu_width m \<and> unat (mtu_last m') = (unat (mtu_floor m) + unat (mtu_ceiling m)) div 2"
proof -
  have o: "mtu_floor m \<le> mtu_ceiling m" using le by (rule order_trans)
  then obtain m' where su: "search_update nd t m = Some m'"
    using search_update_defined by blast
  note s = search_update_wf [OF o b su]
  show thesis
  proof (rule that [OF su], cases "mtu_width m \<le> 16")
    case True
    then have "found P m'"
      using s le unfolding found_def mtu_wf_def mtu_width_def word_le_nat_alt
      by (auto simp: word_unat_eq_iff)
    then show "found P m' \<or> probing P m' \<and> mtu_floor m' = mtu_floor m \<and>
        mtu_ceiling m' = mtu_ceiling m \<and> 16 < mtu_width m \<and>
        unat (mtu_last m') = (unat (mtu_floor m) + unat (mtu_ceiling m)) div 2" ..
  next
    case False
    then have "probing P m'"
      using s le b unfolding probing_def mtu_width_def word_le_nat_alt word_less_nat_alt by auto
    then show "found P m' \<or> probing P m' \<and> mtu_floor m' = mtu_floor m \<and>
        mtu_ceiling m' = mtu_ceiling m \<and> 16 < mtu_width m \<and>
        unat (mtu_last m') = (unat (mtu_floor m) + unat (mtu_ceiling m)) div 2"
      using s False by simp
  qed
qed

definition at_midpoint :: "MtuDiscovery \<Rightarrow> bool" where
  "at_midpoint m \<longleftrightarrow> 16 < mtu_width m \<and>
     unat (mtu_last m) = (unat (mtu_floor m) + unat (mtu_ceiling m)) div 2"

lemma half_above: "(a::nat) \<le> b \<Longrightarrow> b - (a + b) div 2 \<le> Suc (b - a) div 2"
  by arith

lemma half_below: "(a + b) div 2 - Suc a \<le> Suc (b - a) div (2::nat)"
  by arith

lemma below_narrows: "s \<le> c \<Longrightarrow> f < s \<Longrightarrow> s - Suc f < c - (f::nat)"
  by arith

lemma probe_round_step:
  assumes p: "probing P m" and sq: "sq \<noteq> 0"
  obtains m' where "probe_round nd t P sq m = Some m'"
    and "found P m' \<or> probing P m' \<and> at_midpoint m' \<and> mtu_width m' < mtu_width m \<and>
           (at_midpoint m \<longrightarrow> mtu_width m' \<le> (mtu_width m + 1) div 2)"
proof -
  have last: "mtu_last m \<noteq> 0"
    using p by (auto simp: probing_def word_less_nat_alt)
  let ?s = "mtu_last m"
  let ?m = "set_probe sq ?s m"
  have raw: "raw_mtu m = ?s" using last by (simp add: raw_mtu_def)
  have wf: "mtu_wf ?m"
    by (rule set_probe_wf) (use p in \<open>simp_all add: probing_def\<close>)
  have ps: "mtu_probe_size ?m = ?s" "mtu_probe_seq ?m \<noteq> 0" "is_probe sq ?m"
    using sq by (simp_all add: set_probe_def is_probe_def)
  have fl: "mtu_floor ?m = mtu_floor m" "mtu_ceiling ?m = mtu_ceiling m"
    by (simp_all add: set_probe_def)
  show thesis
  proof (cases "?s \<le> P")
    case True
    let ?a = "?m\<lparr>mtu_floor := mtu_probe_size ?m\<rparr>"
    obtain m' where su: "search_update nd t ?a = Some m'"
      and r: "found P m' \<or> probing P m' \<and> mtu_floor m' = mtu_floor ?a \<and>
         mtu_ceiling m' = mtu_ceiling ?a \<and> 16 < mtu_width ?a \<and>
         unat (mtu_last m') = (unat (mtu_floor ?a) + unat (mtu_ceiling ?a)) div 2"
      by (rule search_update_probing [of ?a P nd t]) (use True p ps fl in \<open>auto simp: probing_def\<close>)
    have rd: "probe_round nd t P sq m = Some m'"
      using True su ps by (simp add: probe_round_def raw handle_probe_ack_def)
    show thesis
      by (rule that [OF rd])
        (use r p ps fl in \<open>auto simp: probing_def at_midpoint_def mtu_width_def word_less_nat_alt
           word_le_nat_alt half_above half_below below_narrows\<close>)
  next
    case False
    let ?l = "?m\<lparr>mtu_ceiling := mtu_probe_size ?m - 1\<rparr>"
    have s1: "unat (?s - 1) = unat ?s - 1"
      using probe_size_minus_one [of "mtu_floor m" ?s] p by (simp add: probing_def)
    have P: "P \<le> ?s - 1" using False s1 by (simp add: word_le_nat_alt)
    obtain m' where su: "search_update nd t ?l = Some m'"
      and r: "found P m' \<or> probing P m' \<and> mtu_floor m' = mtu_floor ?l \<and>
         mtu_ceiling m' = mtu_ceiling ?l \<and> 16 < mtu_width ?l \<and>
         unat (mtu_last m') = (unat (mtu_floor ?l) + unat (mtu_ceiling ?l)) div 2"
      by (rule search_update_probing [of ?l P nd t])
        (use P p ps fl s1 in \<open>auto simp: probing_def word_le_nat_alt\<close>)
    have cl: "mtu_probe_seq m' = 0" "mtu_probe_size m' = 0"
      using su by (auto simp: search_update_def Let_def split: Option.bind_splits if_splits)
    then have rd: "probe_round nd t P sq m = Some m'"
      using False su ps by (simp add: probe_round_def raw handle_probe_loss_def clear_probe_def)
    show thesis
      by (rule that [OF rd])
        (use r p ps fl s1 in \<open>auto simp: probing_def at_midpoint_def mtu_width_def word_less_nat_alt
           word_le_nat_alt half_above half_below below_narrows\<close>)
  qed
qed

lemma found_stops: "found P m \<Longrightarrow> probe_rounds nd t P sq n m = Some m"
  by (cases n) (simp_all add: found_def)

lemma probing_moves: "probing P m \<Longrightarrow> mtu_floor m \<noteq> mtu_ceiling m"
  by (auto simp: probing_def)

lemma probe_rounds_midpoint:
  assumes "probing P m" and "at_midpoint m" and "mtu_width m \<le> 1 + 15 * 2 ^ n" and sq: "sq \<noteq> 0"
  shows "\<exists>m'. probe_rounds nd t P sq n m = Some m' \<and> found P m'"
  using assms(1-3)
proof (induction n arbitrary: m)
  case 0
  then show ?case by (simp add: at_midpoint_def)
next
  case (Suc n)
  obtain m' where r: "probe_round nd t P sq m = Some m'"
    and d: "found P m' \<or> probing P m' \<and> at_midpoint m' \<and> mtu_width m' < mtu_width m \<and>
           (at_midpoint m \<longrightarrow> mtu_width m' \<le> (mtu_width m + 1) div 2)"
    by (rule probe_round_step [OF Suc.prems(1) sq])
  have w: "mtu_width m' \<le> 1 + 15 * 2 ^ n" if "mtu_width m' \<le> (mtu_width m + 1) div 2"
    using that Suc.prems(3) by simp
  have "\<exists>m''. probe_rounds nd t P sq n m' = Some m'' \<and> found P m''"
    using d Suc.IH [of m'] Suc.prems(2) w found_stops by blast
  with r probing_moves [OF Suc.prems(1)] show ?case by simp
qed

section \<open>Properties\<close>

text \<open>
  C14: the search finds the path MTU. From any ordered range below \<open>2^16\<close> that contains it,
  fourteen probes end with floor, ceiling and current MTU equal, at most sixteen bytes below
  the path MTU \<open>P\<close> and never above it; no assertion fails on the way.
\<close>

theorem probe_rounds_converge:
  assumes "probing P m" and "unat (mtu_ceiling m) < 2 ^ 16" and "sq \<noteq> 0"
  shows "\<exists>m'. probe_rounds False t P sq 14 m = Some m' \<and> mtu_floor m' = mtu_ceiling m' \<and>
    raw_mtu m' = mtu_last m' \<and> mtu_last m' = mtu_floor m' \<and> mtu_last m' \<le> P \<and>
    unat P \<le> unat (mtu_last m') + 16"
proof -
  obtain m1 where r: "probe_round False t P sq m = Some m1"
    and d: "found P m1 \<or> probing P m1 \<and> at_midpoint m1 \<and> mtu_width m1 < mtu_width m \<and>
           (at_midpoint m \<longrightarrow> mtu_width m1 \<le> (mtu_width m + 1) div 2)"
    by (rule probe_round_step [OF assms(1,3)])
  have w: "mtu_width m \<le> 1 + 15 * 2 ^ 13" using assms(2) by (simp add: mtu_width_def)
  have "\<exists>m'. probe_rounds False t P sq 13 m1 = Some m' \<and> found P m'"
    using d w probe_rounds_midpoint [of P m1 13 sq False t] assms(3) found_stops [of P m1]
    by fastforce
  then obtain m' where m': "probe_rounds False t P sq 13 m1 = Some m'" and f: "found P m'"
    by blast
  have "probe_rounds False t P sq (Suc 13) m = Some m'"
    using r m' probing_moves [OF assms(1)] by (simp only: probe_rounds.simps) simp
  moreover have "Suc 13 = 14" by simp
  ultimately show ?thesis
    using f by (auto simp: found_def raw_mtu_def)
qed

definition sample_mtu :: MtuDiscovery where
  "sample_mtu = \<lparr>mtu_discover_time = 0, mtu_ceiling = 1500, mtu_floor = 576, mtu_last = 1500,
     mtu_probe_seq = 0, mtu_probe_size = 0\<rparr>"

theorem probe_rounds_converge_witness:
  "\<exists>m'. probe_rounds False 7 1104 5 14 sample_mtu = Some m' \<and> mtu_floor m' = mtu_ceiling m' \<and>
    raw_mtu m' = mtu_last m' \<and> mtu_last m' = mtu_floor m' \<and> mtu_last m' \<le> 1104 \<and>
    unat (1104 :: u32) \<le> unat (mtu_last m') + 16"
  by (rule probe_rounds_converge) (simp_all add: probing_def sample_mtu_def)

text \<open>
  Every probe outcome keeps the search well formed and never fails an assertion: an
  acknowledgement, a loss seen through duplicate acknowledgements, and a retransmission timeout.
\<close>

theorem probe_outcomes_wf:
  assumes wf: "mtu_wf m" and p: "mtu_probe_seq m \<noteq> 0"
  shows "(\<exists>b m'. handle_probe_ack False sq t m = Some (b, m') \<and> mtu_wf m' \<and>
      mtu_width m' \<le> mtu_width m) \<and>
    (\<exists>m'. handle_probe_loss False t m = Some m' \<and> mtu_wf m' \<and> mtu_width m' < mtu_width m) \<and>
    (\<exists>b m'. handle_probe_timeout False sq n t m = Some (b, m') \<and> mtu_wf m' \<and>
      mtu_probe_seq m' = 0 \<and> mtu_width m' \<le> mtu_width m)"
proof (intro conjI)
  show "\<exists>b m'. handle_probe_ack False sq t m = Some (b, m') \<and> mtu_wf m' \<and>
      mtu_width m' \<le> mtu_width m"
  proof (cases "is_probe sq m")
    case True
    from probe_ack_step [OF wf True, of False t] show ?thesis
      using wf p by (metis (no_types, lifting) diff_le_mono2 mtu_width_def mtu_wf_def
          nat_less_le order_trans word_less_nat_alt)
  next
    case False
    then show ?thesis using wf by (auto simp: handle_probe_ack_def)
  qed
next
  show loss: "\<exists>m'. handle_probe_loss False t m = Some m' \<and> mtu_wf m' \<and> mtu_width m' < mtu_width m"
    using probe_loss_step [OF wf p, of False t] by blast
  then obtain m' where m': "handle_probe_loss False t m = Some m'" "mtu_wf m'"
    "mtu_width m' < mtu_width m" by blast
  moreover from m'(1) have "mtu_probe_seq m' = 0"
    by (auto simp: handle_probe_loss_def split: Option.bind_splits)
  ultimately show "\<exists>b m'. handle_probe_timeout False sq n t m = Some (b, m') \<and> mtu_wf m' \<and>
      mtu_probe_seq m' = 0 \<and> mtu_width m' \<le> mtu_width m"
    using probe_timeout_lost [of n sq m False t] probe_timeout_other [of n sq m False t]
      clear_probe_wf [OF wf]
    by (cases "n = 1 \<and> is_probe sq m") auto
qed

theorem probe_outcomes_wf_witness:
  "(\<exists>b m'. handle_probe_ack False 5 7 (set_probe 5 1038 sample_mtu) = Some (b, m') \<and> mtu_wf m' \<and>
      mtu_width m' \<le> mtu_width (set_probe 5 1038 sample_mtu)) \<and>
    (\<exists>m'. handle_probe_loss False 7 (set_probe 5 1038 sample_mtu) = Some m' \<and> mtu_wf m' \<and>
      mtu_width m' < mtu_width (set_probe 5 1038 sample_mtu)) \<and>
    (\<exists>b m'. handle_probe_timeout False 5 1 7 (set_probe 5 1038 sample_mtu) = Some (b, m') \<and>
      mtu_wf m' \<and> mtu_probe_seq m' = 0 \<and> mtu_width m' \<le> mtu_width (set_probe 5 1038 sample_mtu))"
  by (rule probe_outcomes_wf) (simp_all add: mtu_wf_def set_probe_def sample_mtu_def)



end
