(* ===== verification/Sequence_Buffer.thy ===== *)
theory Sequence_Buffer
  imports Utp_Config
begin

text \<open>
  \<^verbatim>\<open>src/utp/sequence_buffer.hpp\<close>: the ring buffer that maps sequence numbers to packets, one slot
  per residue of the number modulo a power of two. An empty \<open>unique_ptr\<close> is \<open>None\<close>. Reading a
  slot outside the vector, which \<open>get\<close> does for no buffer that \<open>initialize\<close> and \<open>grow\<close> build
  (\<open>sb_wf\<close>), is answered with an empty slot; writing one is undefined behaviour. The promise
  to the socket, that slots behave like a map on any window of consecutive numbers that fits
  and that growing keeps the window, is the locale \<open>number_window\<close>.
\<close>

section \<open>Model\<close>

record 'a SequenceBuffer =
  sb_buf :: "'a option list"
  sb_mask :: u64

definition new_SequenceBuffer :: "'a SequenceBuffer" where
  "new_SequenceBuffer = \<lparr>sb_buf = [], sb_mask = 0\<rparr>"

definition sb_index :: "u64 \<Rightarrow> 'a SequenceBuffer \<Rightarrow> nat" where
  "sb_index sq b = unat (sq AND sb_mask b)"

definition sb_get :: "u64 \<Rightarrow> 'a SequenceBuffer \<Rightarrow> 'a option" where
  "sb_get sq b =
     (if sb_mask b = 0 then None
      else if sb_index sq b < length (sb_buf b) then sb_buf b ! sb_index sq b else None)"

definition sb_put :: "bool \<Rightarrow> u64 \<Rightarrow> 'a \<Rightarrow> 'a SequenceBuffer \<Rightarrow> 'a SequenceBuffer option" where
  "sb_put nd sq data b =
     do {
       c_assert nd (sb_buf b \<noteq> []);
       ub_unless (sb_index sq b < length (sb_buf b));
       Some (b\<lparr>sb_buf := (sb_buf b)[sb_index sq b := Some data]\<rparr>)
     }"

definition sb_take :: "u64 \<Rightarrow> 'a SequenceBuffer \<Rightarrow> 'a option \<times> 'a SequenceBuffer" where
  "sb_take sq b =
     (if sb_mask b = 0 then (None, b)
      else (sb_get sq b, b\<lparr>sb_buf := (sb_buf b)[sb_index sq b := None]\<rparr>))"

definition sb_size :: "'a SequenceBuffer \<Rightarrow> u64" where
  "sb_size b = sb_mask b + 1"

text \<open>\<open>do new_size *= 2; while (index >= new_size);\<close> need not end: the size may wrap to 0.\<close>

partial_function (option) double_size :: "u64 \<Rightarrow> u64 \<Rightarrow> u64 option" where
  "double_size index new_size =
     (let new_size = new_size * 2
      in if new_size \<le> index then double_size index new_size else Some new_size)"

definition move_slots :: "u64 \<Rightarrow> u64 \<Rightarrow> 'a SequenceBuffer \<Rightarrow> 'a option list \<Rightarrow> 'a option list" where
  "move_slots start new_mask b new_buf =
     fold (\<lambda>i nb. nb[unat ((start + of_nat i) AND new_mask) :=
             sb_buf b ! unat ((start + of_nat i) AND sb_mask b)])
       [0..<unat (sb_mask b) + 1] new_buf"

definition sb_grow :: "u64 \<Rightarrow> u64 \<Rightarrow> 'a SequenceBuffer \<Rightarrow> 'a SequenceBuffer option" where
  "sb_grow item index b =
     do {
       let new_size = sb_mask b + 1;
       let new_size = (if new_size = 0 then 1 else new_size);
       new_size \<leftarrow> double_size index new_size;
       let new_buf = replicate (unat new_size) None;
       let new_mask = new_size - 1;
       ub_unless (sb_buf b = [] \<or> unat (sb_mask b) < length (sb_buf b));
       let new_buf = (if 0 < sb_mask b \<or> sb_buf b \<noteq> []
                      then move_slots (item - index) new_mask b new_buf else new_buf);
       Some \<lparr>sb_buf = new_buf, sb_mask = new_mask\<rparr>
     }"

definition sb_ensure_size :: "u64 \<Rightarrow> u64 \<Rightarrow> 'a SequenceBuffer \<Rightarrow> 'a SequenceBuffer option" where
  "sb_ensure_size item index b = (if sb_mask b < index then sb_grow item index b else Some b)"

definition sb_initialize :: "u64 \<Rightarrow> 'a SequenceBuffer" where
  "sb_initialize n = \<lparr>sb_buf = replicate (unat n) None, sb_mask = n - 1\<rparr>"

section \<open>Well-formed buffers\<close>

text \<open>
  The vector has \<open>2 ^ k\<close> slots and the mask selects the low \<open>k\<close> bits. The sizes that occur are
  16 to \<open>2 ^ 16\<close>; up to there a 16-bit number and any 64-bit number congruent to it select the
  same slot.
\<close>

definition sb_wf_at :: "nat \<Rightarrow> 'a SequenceBuffer \<Rightarrow> bool" where
  "sb_wf_at k b \<longleftrightarrow> 0 < k \<and> k \<le> 16 \<and> sb_mask b = mask k \<and> length (sb_buf b) = 2 ^ k"

definition sb_wf :: "'a SequenceBuffer \<Rightarrow> bool" where
  "sb_wf b \<longleftrightarrow> (\<exists>k. sb_wf_at k b)"

definition sb_slots :: "'a SequenceBuffer \<Rightarrow> nat" where
  "sb_slots b = length (sb_buf b)"

lemma sb_index_mod: "sb_wf_at k b \<Longrightarrow> sb_index x b = unat x mod 2 ^ k"
  by (simp add: sb_wf_at_def sb_index_def unat_and_mask)

lemma unat_mask_small: "k \<le> 64 \<Longrightarrow> unat (mask k :: u64) = 2 ^ k - 1"
  unfolding unat_eq_nat_uint uint_mask_eq by (simp add: mask_eq_exp_minus_1 min_def nat_diff_distrib' nat_power_eq)

lemma sb_wf_mask: "sb_wf_at k b \<Longrightarrow> unat (sb_mask b) + 1 = 2 ^ k"
  using unat_mask_small [of k] by (simp add: sb_wf_at_def)

lemma sb_wf_mask_nonzero: "sb_wf_at k b \<Longrightarrow> sb_mask b \<noteq> 0"
  using sb_wf_mask [of k b] by (auto simp: sb_wf_at_def)

lemma sb_get_nth: "sb_wf_at k b \<Longrightarrow> sb_get x b = sb_buf b ! (unat x mod 2 ^ k)"
  using sb_wf_mask_nonzero [of k b] by (simp add: sb_get_def sb_index_mod) (simp add: sb_wf_at_def)

lemma sb_in_range: "sb_wf_at k b \<Longrightarrow> sb_index x b < length (sb_buf b)"
  by (simp add: sb_index_mod) (simp add: sb_wf_at_def)

lemma sb_put_eq:
  assumes "sb_wf_at k b"
  shows "sb_put nd x v b = Some (b\<lparr>sb_buf := (sb_buf b)[unat x mod 2 ^ k := Some v]\<rparr>)"
proof -
  have "sb_buf b \<noteq> []" using assms by (auto simp: sb_wf_at_def)
  then show ?thesis
    using sb_in_range [OF assms, of x] by (simp add: sb_put_def sb_index_mod [OF assms])
qed

lemma sb_take_eq:
  assumes "sb_wf_at k b"
  shows "sb_take x b = (sb_get x b, b\<lparr>sb_buf := (sb_buf b)[unat x mod 2 ^ k := None]\<rparr>)"
  using sb_wf_mask_nonzero [OF assms] by (simp add: sb_take_def sb_index_mod [OF assms])

lemma wf_update: "sb_wf_at k b \<Longrightarrow> sb_wf_at k (b\<lparr>sb_buf := (sb_buf b)[i := v]\<rparr>)"
  by (simp add: sb_wf_at_def)

lemma wf_initialize: "sb_wf_at 4 (sb_initialize 16)"
  by (simp add: sb_wf_at_def sb_initialize_def mask_eq_exp_minus_1)

lemma get_initialize: "sb_get x (sb_initialize 16) = None"
  using sb_in_range [OF wf_initialize] by (simp add: sb_get_def) (simp add: sb_initialize_def)

section \<open>Growing\<close>

text \<open>The first doubling at or above the index, from a power of two.\<close>

lemma unat_pow2: "k < 64 \<Longrightarrow> unat (2 ^ k :: u64) = 2 ^ k"
proof -
  assume "k < 64"
  then have "(2 :: nat) ^ k < 2 ^ 64" by (intro power_strict_increasing) simp_all
  then show ?thesis by (intro of_nat_inverse) simp_all
qed

lemma double_size_returns:
  assumes "k < m" and "m < 64" and "unat index < 2 ^ m" and "m = Suc k \<or> 2 ^ (m - 1) \<le> unat index"
  shows "double_size index (2 ^ k) = Some (2 ^ m)"
  using assms
proof (induction "m - k" arbitrary: k)
  case 0
  then show ?case by simp
next
  case (Suc d)
  have dbl: "(2 ^ k * 2 :: u64) = 2 ^ Suc k" by simp
  have u: "unat (2 ^ Suc k :: u64) = 2 ^ Suc k" using Suc.prems by (intro unat_pow2) simp
  show ?case
  proof (cases "m = Suc k")
    case True
    then have "\<not> (2 ^ Suc k :: u64) \<le> index"
      using Suc.prems(3) u by (simp add: word_le_nat_alt del: power_Suc)
    then show ?thesis
      using True by (subst double_size.simps) (simp only: Let_def dbl if_False)
  next
    case False
    then have "Suc k \<le> m - 1" using Suc.prems(1) by simp
    then have "(2 :: nat) ^ Suc k \<le> 2 ^ (m - 1)" by (rule power_increasing) simp
    then have "2 ^ Suc k \<le> unat index" using Suc.prems(4) False by linarith
    then have "(2 ^ Suc k :: u64) \<le> index"
      using u by (simp add: word_le_nat_alt del: power_Suc)
    moreover have "double_size index (2 ^ Suc k) = Some (2 ^ m)"
      using Suc.hyps(2) Suc.prems False by (intro Suc.hyps(1)) simp_all
    ultimately show ?thesis
      by (subst double_size.simps) (simp only: Let_def dbl if_True)
  qed
qed

lemma unat_plus_mod: "k \<le> 64 \<Longrightarrow> unat (a + b :: u64) mod 2 ^ k = (unat a + unat b) mod 2 ^ k"
proof -
  assume "k \<le> 64"
  then have "(2 :: nat) ^ k dvd 2 ^ 64" by (rule le_imp_power_dvd)
  then show ?thesis by (simp add: unat_word_ariths mod_mod_cancel)
qed

lemma index_of_nat: "k \<le> 64 \<Longrightarrow> unat (s + of_nat i :: u64) mod 2 ^ k = (unat s + i) mod 2 ^ k"
proof -
  assume k: "k \<le> 64"
  then have d: "(2 :: nat) ^ k dvd 2 ^ 64" by (rule le_imp_power_dvd)
  have "unat (of_nat i :: u64) mod 2 ^ k = i mod 2 ^ 64 mod 2 ^ k"
    by (simp add: unsigned_of_nat take_bit_eq_mod)
  also have "\<dots> = i mod 2 ^ k" using d by (rule mod_mod_cancel)
  finally have "(unat s + unat (of_nat i :: u64)) mod 2 ^ k = (unat s + i) mod 2 ^ k"
    by (intro mod_add_cong) simp_all
  then show ?thesis by (simp only: unat_plus_mod [OF k])
qed

lemma mod_inj_window_le:
  assumes "(a + i) mod n = (a + j) mod n" and "i \<le> j" and "j < (n :: nat)"
  shows "i = j"
proof -
  have "n dvd (a + j) - (a + i)"
    using assms by (intro mod_eq_dvd_iff_nat [THEN iffD1]) simp_all
  then show ?thesis using assms(2,3) by (auto dest: dvd_imp_le)
qed

lemma mod_inj_window:
  assumes "(a + i) mod n = (a + j) mod n" and "i < n" and "j < (n :: nat)"
  shows "i = j"
  using assms mod_inj_window_le [of a i n j] mod_inj_window_le [of a j n i] by (cases "i \<le> j") simp_all

text \<open>Filling slots one after the other along an injective enumeration.\<close>

lemma fold_update_nth:
  assumes "inj_on f (set xs)" and "distinct xs" and "\<And>i. i \<in> set xs \<Longrightarrow> f i < length nb"
  shows "length (fold (\<lambda>i nb. nb[f i := g i]) xs nb) = length nb \<and>
    (\<forall>i \<in> set xs. fold (\<lambda>i nb. nb[f i := g i]) xs nb ! f i = g i) \<and>
    (\<forall>p. p \<notin> f ` set xs \<longrightarrow> fold (\<lambda>i nb. nb[f i := g i]) xs nb ! p = nb ! p)"
  using assms
proof (induction xs arbitrary: nb)
  case (Cons x xs)
  let ?nb = "nb[f x := g x]"
  have IH: "length (fold (\<lambda>i nb. nb[f i := g i]) xs ?nb) = length ?nb \<and>
    (\<forall>i \<in> set xs. fold (\<lambda>i nb. nb[f i := g i]) xs ?nb ! f i = g i) \<and>
    (\<forall>p. p \<notin> f ` set xs \<longrightarrow> fold (\<lambda>i nb. nb[f i := g i]) xs ?nb ! p = ?nb ! p)"
    by (rule Cons.IH) (use Cons.prems in \<open>auto simp: inj_on_def\<close>)
  have "f x \<notin> f ` set xs" using Cons.prems(1,2) by (auto simp: inj_on_def)
  then show ?case using IH Cons.prems(3) by (auto simp: nth_list_update)
qed simp

lemma sb_grow_window:
  assumes wf: "sb_wf_at k b" and big: "2 ^ k \<le> unat index" and lim: "unat index < 2 ^ 16"
  obtains b' m where "sb_grow item index b = Some b'" and "sb_wf_at m b'" and "k < m"
    and "unat index < 2 ^ m" and "2 ^ (m - 1) \<le> unat index"
    and "\<And>i. i < 2 ^ k \<Longrightarrow> sb_get (item - index + of_nat i) b' = sb_get (item - index + of_nat i) b"
    and "\<And>i. 2 ^ k \<le> i \<Longrightarrow> i < 2 ^ m \<Longrightarrow> sb_get (item - index + of_nat i) b' = None"
proof -
  have k: "0 < k" "k \<le> 16" and mk: "sb_mask b = mask k" and len: "length (sb_buf b) = 2 ^ k"
    using wf by (simp_all add: sb_wf_at_def)
  have "1 \<le> unat index" using big by (rule order_trans [rotated]) simp
  then obtain n where n: "2 ^ n \<le> unat index" "unat index < 2 ^ (n + 1)"
    using ex_power_ivl1 [of 2 "unat index"] by auto
  define m where "m = n + 1"
  have km: "k < m"
    unfolding m_def using le_less_trans [OF big n(2)] by (rule power_less_imp_less_exp [rotated]) simp
  have "n < 16" using le_less_trans [OF n(1) lim] by (rule power_less_imp_less_exp [rotated]) simp
  then have m16: "m \<le> 16" by (simp add: m_def)
  let ?s = "item - index" and ?new = "replicate (2 ^ m) (None :: 'a option)"
  let ?f = "\<lambda>i. unat ((?s + of_nat i) AND mask m)"
  let ?g = "\<lambda>i. sb_buf b ! unat ((?s + of_nat i) AND sb_mask b)"
  have f: "?f i = (unat ?s + i) mod 2 ^ m" for i
    using m16 by (simp only: unat_and_mask) (rule index_of_nat, simp)
  have g: "?g i = sb_buf b ! ((unat ?s + i) mod 2 ^ k)" for i
    using k by (simp only: unat_and_mask mk) (subst index_of_nat, simp_all)
  have km2: "(2 :: nat) ^ k \<le> 2 ^ m" using km by (intro power_increasing) simp_all
  have inj: "i = j" if "?f i = ?f j" "i < 2 ^ m" "j < 2 ^ m" for i j
    using that mod_inj_window by (simp only: f)
  have sz: "unat (sb_mask b) + 1 = 2 ^ k" by (rule sb_wf_mask [OF wf])
  have mv: "length (move_slots ?s (mask m) b ?new) = length ?new \<and>
      (\<forall>i \<in> set [0..<2 ^ k]. move_slots ?s (mask m) b ?new ! ?f i = ?g i) \<and>
      (\<forall>p. p \<notin> ?f ` set [0..<2 ^ k] \<longrightarrow> move_slots ?s (mask m) b ?new ! p = ?new ! p)"
    unfolding move_slots_def sz
  proof (rule fold_update_nth)
    show "inj_on ?f (set [0..<2 ^ k])"
    proof (rule inj_onI)
      fix i j assume "i \<in> set [0..<2 ^ k]" "j \<in> set [0..<2 ^ k]" and e: "?f i = ?f j"
      then have "i < 2 ^ m" "j < 2 ^ m" by (auto intro: less_le_trans [OF _ km2])
      with e show "i = j" by (rule inj)
    qed
    show "?f i < length ?new" for i by (simp only: f length_replicate) simp
  qed simp
  let ?b' = "\<lparr>sb_buf = move_slots ?s (mask m) b ?new, sb_mask = mask m\<rparr>"
  have wf': "sb_wf_at m ?b'" using mv m16 km by (simp add: sb_wf_at_def)
  have ds: "double_size index (2 ^ k) = Some (2 ^ m)"
    by (rule double_size_returns) (use km m16 n in \<open>auto simp: m_def\<close>)
  have sz1: "sb_mask b + 1 = 2 ^ k" by (simp add: mk mask_eq_exp_minus_1)
  have nz: "(2 ^ k :: u64) \<noteq> 0" using unat_pow2 [of k] k by auto
  have szm: "unat (2 ^ m :: u64) = 2 ^ m" using m16 by (intro unat_pow2) simp
  have mm: "(2 ^ m :: u64) - 1 = mask m" by (simp add: mask_eq_exp_minus_1)
  have ne: "sb_buf b \<noteq> []" using len by auto
  have rng: "unat (sb_mask b) < length (sb_buf b)" using sz len by simp
  have "sb_grow item index b = Some ?b'"
    unfolding sb_grow_def Let_def sz1 by (simp only: nz if_False ds bind.bind_lunit szm mm)
      (simp only: ne rng simp_thms ub_unless_simps bind.bind_lunit if_True)
  moreover have "sb_get (?s + of_nat i) ?b' = sb_get (?s + of_nat i) b" if "i < 2 ^ k" for i
  proof -
    have "sb_get (?s + of_nat i) ?b' = move_slots ?s (mask m) b ?new ! ?f i"
      using m16 by (subst sb_get_nth [OF wf']) (simp only: unat_and_mask SequenceBuffer.simps)
    also have "\<dots> = sb_buf b ! ((unat ?s + i) mod 2 ^ k)" using mv that g by simp
    also have "\<dots> = sb_get (?s + of_nat i) b"
      using k by (subst sb_get_nth [OF wf]) (subst index_of_nat, simp_all)
    finally show ?thesis .
  qed
  moreover have "sb_get (?s + of_nat i) ?b' = None" if "2 ^ k \<le> i" "i < 2 ^ m" for i
  proof -
    have "?f i \<notin> ?f ` set [0..<2 ^ k]"
    proof
      assume "?f i \<in> ?f ` set [0..<2 ^ k]"
      then obtain j where j: "?f i = ?f j" "j < 2 ^ k" by (auto simp only: image_iff set_upt atLeastLessThan_iff)
      have "i = j" by (rule inj [OF j(1) that(2) less_le_trans [OF j(2) km2]])
      then show False using j(2) that(1) by simp
    qed
    then have "move_slots ?s (mask m) b ?new ! ?f i = ?new ! ?f i" using mv by blast
    moreover have "?f i < 2 ^ m" by (simp only: f) simp
    ultimately have "move_slots ?s (mask m) b ?new ! ?f i = None" by simp
    then show ?thesis
      using m16 by (subst sb_get_nth [OF wf']) (simp only: unat_and_mask SequenceBuffer.simps)
  qed
  moreover have "2 ^ (m - 1) \<le> unat index" "unat index < 2 ^ m" using n by (simp_all add: m_def)
  ultimately show thesis using that wf' km by blast
qed

section \<open>What the socket relies on\<close>

text \<open>
  \<open>put\<close>, \<open>take\<close> and \<open>ensure_size\<close> seen through the \<open>n\<close> slots from a number \<open>start\<close> on: on a window
  no wider than the buffer they are list update and extension with empty slots.
\<close>

locale number_window =
  fixes ok :: "'b \<Rightarrow> bool" and slots :: "'b \<Rightarrow> nat"
    and get :: "u64 \<Rightarrow> 'b \<Rightarrow> 'a option" and put :: "u64 \<Rightarrow> 'a \<Rightarrow> 'b \<Rightarrow> 'b option"
    and take_out :: "u64 \<Rightarrow> 'b \<Rightarrow> 'a option \<times> 'b"
  assumes slots_dvd: "ok b \<Longrightarrow> slots b dvd 2 ^ 64"
    and put_defined: "ok b \<Longrightarrow> \<exists>b'. put x v b = Some b' \<and> ok b' \<and> slots b' = slots b"
    and get_put: "ok b \<Longrightarrow> put x v b = Some b' \<Longrightarrow>
      get y b' = (if unat x mod slots b = unat y mod slots b then Some v else get y b)"
    and take_defined: "ok b \<Longrightarrow> fst (take_out x b) = get x b \<and> ok (snd (take_out x b)) \<and>
      slots (snd (take_out x b)) = slots b"
    and get_take: "ok b \<Longrightarrow>
      get y (snd (take_out x b)) = (if unat x mod slots b = unat y mod slots b then None else get y b)"
begin

definition view :: "u64 \<Rightarrow> nat \<Rightarrow> 'b \<Rightarrow> 'a option list" where
  "view start n b = map (\<lambda>i. get (start + of_nat i) b) [0..<n]"

lemma view_length [simp]: "length (view start n b) = n"
  by (simp add: view_def)

lemma view_nth [simp]: "i < n \<Longrightarrow> view start n b ! i = get (start + of_nat i) b"
  by (simp add: view_def)

lemma slot_of: "ok b \<Longrightarrow> unat (start + of_nat i :: u64) mod slots b = (unat start + i) mod slots b"
proof -
  assume b: "ok b"
  have "unat (start + of_nat i :: u64) mod slots b = (unat start + unat (of_nat i :: u64)) mod 2 ^ 64 mod slots b"
    by (simp add: unat_word_ariths)
  also have "\<dots> = (unat start + i) mod 2 ^ 64 mod slots b"
    by (simp add: unsigned_of_nat take_bit_eq_mod mod_add_right_eq)
  also have "\<dots> = (unat start + i) mod slots b" by (rule mod_mod_cancel [OF slots_dvd [OF b]])
  finally show ?thesis .
qed

lemma same_slot:
  fixes start :: u64
  assumes "ok b" and "n \<le> slots b" and "i < n" and "j < n"
  shows "unat (start + of_nat i) mod slots b = unat (start + of_nat j) mod slots b \<longleftrightarrow> i = j"
  using assms mod_inj_window [of "unat start" i "slots b" j] by (auto simp: slot_of)

lemma view_put:
  assumes b: "ok b" and n: "n \<le> slots b" "i < n" and p: "put (start + of_nat i) v b = Some b'"
  shows "view start n b' = (view start n b)[i := Some v]"
  by (rule nth_equalityI)
    (use n in \<open>auto simp: get_put [OF b p] same_slot [OF b] nth_list_update\<close>)

lemma view_take:
  assumes b: "ok b" and n: "n \<le> slots b" "i < n"
  shows "view start n (snd (take_out (start + of_nat i) b)) = (view start n b)[i := None]"
    and "fst (take_out (start + of_nat i) b) = view start n b ! i"
  using take_defined [OF b] n
  by (auto intro!: nth_equalityI simp: get_take [OF b] same_slot [OF b] nth_list_update)

end

lemma pow2_dvd: "k \<le> 16 \<Longrightarrow> (2 :: nat) ^ k dvd 2 ^ 64"
  by (rule le_imp_power_dvd) simp

interpretation ring: number_window sb_wf sb_slots sb_get "sb_put nd" sb_take for nd
proof unfold_locales
  fix b :: "'a SequenceBuffer" and b' x y v
  assume "sb_wf b"
  then obtain k where k: "sb_wf_at k b" unfolding sb_wf_def by blast
  then have sl: "sb_slots b = 2 ^ k" and k16: "k \<le> 16" by (simp_all add: sb_slots_def sb_wf_at_def)
  note up = wf_update [OF k]
  have sl': "sb_slots (b\<lparr>sb_buf := (sb_buf b)[i := w]\<rparr>) = sb_slots b" for i w
    by (simp add: sb_slots_def)
  have wf': "sb_wf (b\<lparr>sb_buf := (sb_buf b)[i := w]\<rparr>)" for i w
    unfolding sb_wf_def using up by blast
  have len: "unat z mod 2 ^ k < length (sb_buf b)" for z :: u64
    using k by (simp add: sb_wf_at_def)
  show "sb_slots b dvd 2 ^ 64" unfolding sl by (rule pow2_dvd [OF k16])
  show "\<exists>b'. sb_put nd x v b = Some b' \<and> sb_wf b' \<and> sb_slots b' = sb_slots b"
    using wf' sl' by (simp add: sb_put_eq [OF k])
  show "sb_get y b' = (if unat x mod sb_slots b = unat y mod sb_slots b then Some v else sb_get y b)"
    if "sb_put nd x v b = Some b'"
    using that len by (auto simp: sb_put_eq [OF k] sb_get_nth [OF up] sb_get_nth [OF k] sl nth_list_update)
  show "fst (sb_take x b) = sb_get x b \<and> sb_wf (snd (sb_take x b)) \<and> sb_slots (snd (sb_take x b)) = sb_slots b"
    using wf' sl' by (simp add: sb_take_eq [OF k])
  show "sb_get y (snd (sb_take x b)) =
      (if unat x mod sb_slots b = unat y mod sb_slots b then None else sb_get y b)"
    using len by (auto simp: sb_take_eq [OF k] sb_get_nth [OF up] sb_get_nth [OF k] sl nth_list_update)
qed

section \<open>Properties\<close>

definition sb_view :: "u64 \<Rightarrow> nat \<Rightarrow> 'a SequenceBuffer \<Rightarrow> 'a option list" where
  "sb_view start n b = map (\<lambda>i. sb_get (start + of_nat i) b) [0..<n]"

lemma sb_view_ring: "sb_view start n b = ring.view start n b"
  by (simp add: sb_view_def ring.view_def)

text \<open>
  C22: on any window no wider than the buffer, wherever it lies on the wrapped number line,
  \<open>put\<close> and \<open>take\<close> are assignment to the addressed position alone and \<open>take\<close> returns what was
  there: packets with different numbers of one window never share a slot.
\<close>

theorem ring_is_window:
  assumes "sb_wf b" and "n \<le> sb_slots b" and "i < n"
  shows "\<exists>b'. sb_put nd (start + of_nat i) v b = Some b' \<and> sb_wf b' \<and>
      sb_view start n b' = (sb_view start n b)[i := Some v] \<and>
    fst (sb_take (start + of_nat i) b) = sb_view start n b ! i \<and>
    sb_wf (snd (sb_take (start + of_nat i) b)) \<and>
    sb_view start n (snd (sb_take (start + of_nat i) b)) = (sb_view start n b)[i := None]"
  using ring.put_defined [OF assms(1), of nd "start + of_nat i" v] ring.view_put [OF assms, of nd start v]
    ring.view_take [OF assms, of start] ring.take_defined [OF assms(1), of "start + of_nat i"]
  unfolding sb_view_ring by blast

definition sample_ring :: "nat SequenceBuffer" where
  "sample_ring = \<lparr>sb_buf = (replicate 16 None)[3 := Some 7], sb_mask = 15\<rparr>"

lemma sample_ring_wf: "sb_wf_at 4 sample_ring"
  by (simp add: sb_wf_at_def sample_ring_def mask_eq_exp_minus_1)

lemma ring_is_window_witness:
  "\<exists>b'. sb_put False (65530 + of_nat 6) 9 sample_ring = Some b' \<and> sb_wf b' \<and>
      sb_view 65530 16 b' = (sb_view 65530 16 sample_ring)[6 := Some 9] \<and>
    fst (sb_take (65530 + of_nat 6) sample_ring) = sb_view 65530 16 sample_ring ! 6 \<and>
    sb_wf (snd (sb_take (65530 + of_nat 6) sample_ring)) \<and>
    sb_view 65530 16 (snd (sb_take (65530 + of_nat 6) sample_ring)) =
      (sb_view 65530 16 sample_ring)[6 := None]"
proof (rule ring_is_window)
  show "sb_wf sample_ring" unfolding sb_wf_def using sample_ring_wf by blast
qed (simp_all add: sb_slots_def sample_ring_def)

lemma ensure_size_view:
  assumes "sb_wf b" and "unat index < 2 ^ 16"
  shows "\<exists>b'. sb_ensure_size item index b = Some b' \<and> sb_wf b' \<and>
    unat index < sb_slots b' \<and> sb_slots b \<le> sb_slots b' \<and>
    sb_view (item - index) (sb_slots b') b' =
      sb_view (item - index) (sb_slots b) b @ replicate (sb_slots b' - sb_slots b) None"
proof (cases "sb_mask b < index")
  case False
  obtain k where k: "sb_wf_at k b" using assms(1) unfolding sb_wf_def by blast
  then have "sb_slots b = unat (sb_mask b) + 1"
    using sb_wf_mask [OF k] by (simp add: sb_slots_def sb_wf_at_def)
  then show ?thesis
    using False assms(1) by (simp add: sb_ensure_size_def word_less_nat_alt)
next
  case True
  obtain k where k: "sb_wf_at k b" using assms(1) unfolding sb_wf_def by blast
  have sl: "sb_slots b = 2 ^ k" using k by (simp add: sb_slots_def sb_wf_at_def)
  have "2 ^ k \<le> unat index" using True sb_wf_mask [OF k] by (simp add: word_less_nat_alt)
  then obtain b' m where g: "sb_grow item index b = Some b'" "sb_wf_at m b'" "k < m"
    and ix: "unat index < 2 ^ m"
    and old: "\<And>i. i < 2 ^ k \<Longrightarrow> sb_get (item - index + of_nat i) b' = sb_get (item - index + of_nat i) b"
    and new: "\<And>i. 2 ^ k \<le> i \<Longrightarrow> i < 2 ^ m \<Longrightarrow> sb_get (item - index + of_nat i) b' = None"
    by (rule sb_grow_window [OF k _ assms(2)]) blast
  have sl': "sb_slots b' = 2 ^ m" using g(2) by (simp add: sb_slots_def sb_wf_at_def)
  have le: "(2 :: nat) ^ k \<le> 2 ^ m" using g(3) by (intro power_increasing) simp_all
  have "sb_view (item - index) (2 ^ m) b' =
      sb_view (item - index) (2 ^ k) b @ replicate (2 ^ m - 2 ^ k) None"
    by (rule nth_equalityI) (use le old new in \<open>auto simp: sb_view_def nth_append\<close>)
  then show ?thesis
    using True g ix sl sl' le by (auto simp: sb_ensure_size_def sb_wf_def)
qed

text \<open>
  C23: \<open>ensure_size\<close> returns for every index below \<open>2^16\<close> with a power of two of slots that
  includes the index, and growing loses and moves nothing: the window from \<open>item - index\<close> on
  reads as before, followed by empty slots.
\<close>

theorem ensure_size_keeps_window:
  assumes "sb_wf b" and "unat index < 2 ^ 16"
  shows "\<exists>b'. sb_ensure_size item index b = Some b' \<and> sb_wf b' \<and>
    unat index < sb_slots b' \<and> sb_slots b \<le> sb_slots b' \<and>
    sb_view (item - index) (sb_slots b') b' =
      sb_view (item - index) (sb_slots b) b @ replicate (sb_slots b' - sb_slots b) None"
  using assms by (rule ensure_size_view)

lemma ensure_size_keeps_window_witness:
  "\<exists>b'. sb_ensure_size 65560 40 sample_ring = Some b' \<and> sb_wf b' \<and>
    unat (40 :: u64) < sb_slots b' \<and> sb_slots sample_ring \<le> sb_slots b' \<and>
    sb_view (65560 - 40) (sb_slots b') b' =
      sb_view (65560 - 40) (sb_slots sample_ring) sample_ring @
      replicate (sb_slots b' - sb_slots sample_ring) None"
proof (rule ensure_size_keeps_window)
  show "sb_wf sample_ring" unfolding sb_wf_def using sample_ring_wf by blast
qed simp

end
