(* ===== verification/Socket_State.thy ===== *)
theory Socket_State
  imports Utp_Host Mtu_Discovery Sequence_Buffer
begin

text \<open>
  The state of a connection, \<^verbatim>\<open>struct UtpSocket\<close> of \<^verbatim>\<open>src/utp_socket.hpp\<close>, in its four groups of
  fields, with the small accessors the operations share. A packet owned by the outgoing ring
  is changed in place through a pointer; the model reads it from its slot and writes it back
  to the same slot (\<open>out_at\<close>, \<open>set_out\<close>). \<open>userdata\<close> and the \<open>_DEBUG\<close> statistics are left out.
\<close>

section \<open>Packets\<close>

record OutgoingPacket =
  opk_length :: u64
  opk_payload :: u64
  opk_time_sent :: u64
  opk_transmissions :: u32
  opk_need_resend :: bool
  opk_data :: bytes

definition new_OutgoingPacket :: OutgoingPacket where
  "new_OutgoingPacket = \<lparr>opk_length = 0, opk_payload = 0, opk_time_sent = 0,
     opk_transmissions = 0, opk_need_resend = False, opk_data = []\<rparr>"

record InboundPacket =
  ipk_size :: u32
  ipk_data :: bytes

text \<open>The transmission counter is a bit field of 31 bits.\<close>

definition inc_transmissions :: "OutgoingPacket \<Rightarrow> OutgoingPacket" where
  "inc_transmissions p = p\<lparr>opk_transmissions := (opk_transmissions p + 1) AND mask 31\<rparr>"

section \<open>The connection\<close>

datatype CONN_STATE =
    CS_UNINITIALIZED
  | CS_IDLE
  | CS_SYN_SENT
  | CS_SYN_RECV
  | CS_CONNECTED
  | CS_CONNECTED_FULL
  | CS_RESET
  | CS_DESTROY

fun state_number :: "CONN_STATE \<Rightarrow> nat" where
  "state_number CS_UNINITIALIZED = 0"
| "state_number CS_IDLE = 1"
| "state_number CS_SYN_SENT = 2"
| "state_number CS_SYN_RECV = 3"
| "state_number CS_CONNECTED = 4"
| "state_number CS_CONNECTED_FULL = 5"
| "state_number CS_RESET = 6"
| "state_number CS_DESTROY = 7"

record ConnectionId =
  addr :: Address
  conn_seed :: u32
  conn_id_recv :: u32
  conn_id_send :: u32
  state :: CONN_STATE
  conn_target_delay :: u64
  extensions :: bytes

record ReceiveState =
  ack_nr :: u16
  reorder_count :: u16
  eof_pkt :: u16
  got_fin :: bool
  got_fin_reached :: bool
  read_shutdown :: bool
  opt_rcvbuf :: u64
  last_rcv_win :: u64
  inbuf :: "InboundPacket SequenceBuffer"

record SendState =
  seq_nr :: u16
  cur_window_packets :: u16
  fin_sent :: bool
  fin_sent_acked :: bool
  close_requested :: bool
  opt_sndbuf :: u64
  max_window_user :: u64
  flush_scan_start :: u16
  outbuf :: "OutgoingPacket SequenceBuffer"

record TimingState =
  reply_micro :: u32
  last_measured_delay :: u64
  last_got_packet :: u64
  last_sent_packet :: u64
  fast_timeout :: bool
  timeout_seq_nr :: u16
  fast_resend_seq_nr :: u16

record UtpSocket =
  self :: nat
  conn :: ConnectionId
  recv :: ReceiveState
  send :: SendState
  timing :: TimingState
  duplicate_ack :: u8
  mtu :: MtuDiscovery
  cc :: LedbatController

definition new_UtpSocket :: "nat \<Rightarrow> UtpContext \<Rightarrow> UtpSocket" where
  "new_UtpSocket me h =
     \<lparr>self = me,
      conn = \<lparr>addr = empty_Address, conn_seed = 0, conn_id_recv = 0, conn_id_send = 0,
              state = CS_UNINITIALIZED, conn_target_delay = target_delay h,
              extensions = replicate 8 0\<rparr>,
      recv = \<lparr>ack_nr = 0, reorder_count = 0, eof_pkt = 0, got_fin = False, got_fin_reached = False,
              read_shutdown = False, opt_rcvbuf = ctx_rcvbuf h, last_rcv_win = 0,
              inbuf = sb_initialize 16\<rparr>,
      send = \<lparr>seq_nr = 1, cur_window_packets = 0, fin_sent = False, fin_sent_acked = False,
              close_requested = False, opt_sndbuf = ctx_sndbuf h,
              max_window_user = 255 * PACKET_SIZE, flush_scan_start = 1,
              outbuf = sb_initialize 16\<rparr>,
      timing = \<lparr>reply_micro = 0, last_measured_delay = 0, last_got_packet = 0,
                last_sent_packet = 0, fast_timeout = False, timeout_seq_nr = 0,
                fast_resend_seq_nr = 1\<rparr>,
      duplicate_ack = 0, mtu = new_MtuDiscovery,
      cc = new_LedbatController\<lparr>ssthresh := ctx_sndbuf h\<rparr>\<rparr>"

section \<open>Updates\<close>

definition set_state :: "CONN_STATE \<Rightarrow> UtpSocket \<Rightarrow> UtpSocket" where
  "set_state c s = s\<lparr>conn := (conn s)\<lparr>state := c\<rparr>\<rparr>"

definition set_recv :: "(ReceiveState \<Rightarrow> ReceiveState) \<Rightarrow> UtpSocket \<Rightarrow> UtpSocket" where
  "set_recv f s = s\<lparr>recv := f (recv s)\<rparr>"

definition set_send :: "(SendState \<Rightarrow> SendState) \<Rightarrow> UtpSocket \<Rightarrow> UtpSocket" where
  "set_send f s = s\<lparr>send := f (send s)\<rparr>"

definition set_timing :: "(TimingState \<Rightarrow> TimingState) \<Rightarrow> UtpSocket \<Rightarrow> UtpSocket" where
  "set_timing f s = s\<lparr>timing := f (timing s)\<rparr>"

definition set_cc :: "(LedbatController \<Rightarrow> LedbatController) \<Rightarrow> UtpSocket \<Rightarrow> UtpSocket" where
  "set_cc f s = s\<lparr>cc := f (cc s)\<rparr>"

lemmas set_defs = set_state_def set_recv_def set_send_def set_timing_def set_cc_def

text \<open>
  A slot of the outgoing ring by number. \<open>int\<close> expressions in the source are converted to
  \<open>size_t\<close> when they index the ring, so the arithmetic is that of 64-bit words.
\<close>

definition out_at :: "u64 \<Rightarrow> UtpSocket \<Rightarrow> OutgoingPacket option" where
  "out_at v s = sb_get v (outbuf (send s))"

definition set_out :: "u64 \<Rightarrow> OutgoingPacket \<Rightarrow> UtpSocket \<Rightarrow> UtpSocket" where
  "set_out v p s = set_send (\<lambda>d. d\<lparr>outbuf := (outbuf d)
     \<lparr>sb_buf := (sb_buf (outbuf d))[sb_index v (outbuf d) := Some p]\<rparr>\<rparr>) s"

definition seq64 :: "UtpSocket \<Rightarrow> u64" where
  "seq64 s = ucast (seq_nr (send s))"

definition window64 :: "UtpSocket \<Rightarrow> u64" where
  "window64 s = ucast (cur_window_packets (send s))"

section \<open>Accessors\<close>

definition HEADER_SIZE :: u64 where "HEADER_SIZE = of_nat PF_SIZE"

definition get_packet_size :: "UtpSocket \<Rightarrow> u64" where
  "get_packet_size s = effective_mtu HEADER_SIZE (mtu s)"

definition peer :: "env \<Rightarrow> UtpSocket \<Rightarrow> sockaddr" where
  "peer E s = fst (get_sockaddr_storage (endian E) (addr (conn s)))"

definition get_rcv_window :: "env \<Rightarrow> UtpContext \<Rightarrow> UtpSocket \<Rightarrow> (u64 \<times> UtpContext) option" where
  "get_rcv_window E h s =
     do {
       let (numbuf, h) = call_get_read_buffer_size E h;
       c_assert (ndebug (bld E)) (0 \<le> to_i32 (uint numbuf));
       Some (if opt_rcvbuf (recv s) > numbuf then opt_rcvbuf (recv s) - numbuf else 0, h)
     }"

definition get_udp_mtu :: "env \<Rightarrow> UtpContext \<Rightarrow> UtpSocket \<Rightarrow> u64 \<times> UtpContext" where
  "get_udp_mtu E h s = (let (m, h) = call_get_udp_mtu E (peer E s) h in (ucast m, h))"

definition get_udp_overhead :: "env \<Rightarrow> UtpContext \<Rightarrow> UtpSocket \<Rightarrow> u64 \<times> UtpContext" where
  "get_udp_overhead E h s = (let (m, h) = call_get_udp_overhead E (peer E s) h in (ucast m, h))"

definition get_overhead :: "env \<Rightarrow> UtpContext \<Rightarrow> UtpSocket \<Rightarrow> u64 \<times> UtpContext" where
  "get_overhead E h s = (let (m, h) = get_udp_overhead E h s in (m + HEADER_SIZE, h))"

definition remove_from_ack_list :: "env \<Rightarrow> UtpContext \<Rightarrow> UtpSocket \<Rightarrow> UtpContext option" where
  "remove_from_ack_list E h s = host_remove_ack E (self s) h"

definition schedule_ack :: "UtpContext \<Rightarrow> UtpSocket \<Rightarrow> UtpContext" where
  "schedule_ack h s = host_schedule_ack (self s) h"

definition cc_remove_in_flight :: "env \<Rightarrow> u64 \<Rightarrow> UtpSocket \<Rightarrow> UtpSocket option" where
  "cc_remove_in_flight E n s =
     do {
       c \<leftarrow> remove_in_flight (bld E) n (cc s);
       Some (s\<lparr>cc := c\<rparr>)
     }"

end
