(* ===== verification/Socket_Send.thy ===== *)
theory Socket_Send
  imports Socket_State
begin

text \<open>
  The sending half of \<^verbatim>\<open>src/utp_socket.cpp\<close>: headers and their transmission, acknowledgements with
  the selective-ACK bitmap, keep-alive and reset packets, the send-window test, and the
  packetisation of written data. An operation takes the context and the socket and returns
  both, or \<open>None\<close> where an assertion fails or the behaviour is undefined.
\<close>

section \<open>Model\<close>

definition send_data ::
  "env \<Rightarrow> bytes \<Rightarrow> u64 \<Rightarrow> BandwidthType \<Rightarrow> u32 \<Rightarrow> UtpContext \<Rightarrow> UtpSocket \<Rightarrow>
     (bytes \<times> UtpContext \<times> UtpSocket) option" where
  "send_data E b n type flags h s =
     do {
       let (time, h) = call_get_microseconds E h;
       b \<leftarrow> update_pf (\<lambda>pf. pf\<lparr>pf_tv_usec := ucast time, pf_reply_micro := reply_micro (timing s)\<rparr>) b;
       let s = set_timing (\<lambda>t. t\<lparr>last_sent_packet := current_ms h\<rparr>) s;
       let (type, size, h) =
         (if type = payload_bandwidth
          then let (v, h) = get_overhead E h s in (header_overhead, v, h)
          else let (v, h) = get_udp_overhead E h s in (type, n + v, h));
       let h = emit (Ev_on_overhead_statistics (self s) True size type) h;
       h \<leftarrow> send_to_addr_impl E b n (addr (conn s)) flags h;
       h \<leftarrow> remove_from_ack_list E h s;
       Some (b, h, s)
     }"

text \<open>Bit \<open>i\<close> of the bitmap says whether packet \<open>ack_nr + 2 + i\<close> waits in the reorder ring.\<close>

definition eack_window :: "ReceiveState \<Rightarrow> nat" where
  "eack_window r = unat (min (14 + 16) (sb_size (inbuf r)))"

definition eack_mask :: "ReceiveState \<Rightarrow> u32" where
  "eack_mask r =
     fold (\<lambda>i m. if sb_get (ucast (ack_nr r) + of_nat i + 2) (inbuf r) \<noteq> None
                 then m OR push_bit i 1 else m)
       [0..<eack_window r] 0"

definition ack_header :: "UtpSocket \<Rightarrow> PacketFormatV1" where
  "ack_header s =
     (set_type ST_STATE (set_version 1 zero_pf))
       \<lparr>pf_ext := 0, pf_connid := ucast (conn_id_send (conn s)), pf_ack_nr := ack_nr (recv s),
        pf_seq_nr := seq_nr (send s), pf_windowsize := ucast (last_rcv_win (recv s))\<rparr>"

definition send_ack :: "env \<Rightarrow> bool \<Rightarrow> UtpContext \<Rightarrow> UtpSocket \<Rightarrow> (UtpContext \<times> UtpSocket) option" where
  "send_ack E synack h s =
     do {
       (win, h) \<leftarrow> get_rcv_window E h s;
       let s = set_recv (\<lambda>r. r\<lparr>last_rcv_win := win\<rparr>) s;
       let pfa = \<lparr>pfa_pf = ack_header s, pfa_ext_next = 0, pfa_ext_len = 0, pfa_acks = [0, 0, 0, 0]\<rparr>;
       (pfa, n) \<leftarrow>
         (if reorder_count (recv s) \<noteq> 0 \<and> \<not> got_fin_reached (recv s)
          then do {
            c_assert (ndebug (bld E)) (\<not> synack);
            let pfa = pfa\<lparr>pfa_pf := (pfa_pf pfa)\<lparr>pf_ext := 1\<rparr>, pfa_ext_next := 0, pfa_ext_len := 4\<rparr>;
            c_assert (ndebug (bld E)) (sb_get (ucast (ack_nr (recv s)) + 1) (inbuf (recv s)) = None);
            let m = eack_mask (recv s);
            let pfa = pfa\<lparr>pfa_acks := [ucast m, ucast (drop_bit 8 m), ucast (drop_bit 16 m),
                                     ucast (drop_bit 24 m)]\<rparr>;
            Some (pfa, HEADER_SIZE + 4 + 2)
          }
          else Some (pfa, HEADER_SIZE));
       (b, h, s) \<leftarrow> send_data E (encode_pfa pfa) n ack_overhead 0 h s;
       h \<leftarrow> remove_from_ack_list E h s;
       Some (h, s)
     }"

definition send_keep_alive :: "env \<Rightarrow> UtpContext \<Rightarrow> UtpSocket \<Rightarrow> (UtpContext \<times> UtpSocket) option" where
  "send_keep_alive E h s =
     do {
       let s = set_recv (\<lambda>r. r\<lparr>ack_nr := ack_nr r - 1\<rparr>) s;
       (h, s) \<leftarrow> send_ack E False h s;
       Some (h, set_recv (\<lambda>r. r\<lparr>ack_nr := ack_nr r + 1\<rparr>) s)
     }"

definition send_rst ::
  "env \<Rightarrow> Address \<Rightarrow> u32 \<Rightarrow> u16 \<Rightarrow> u16 \<Rightarrow> UtpContext \<Rightarrow> UtpContext option" where
  "send_rst E to connid acknr seqnr h =
     send_to_addr_impl E
       (encode_pf ((set_type ST_RESET (set_version 1 zero_pf))
          \<lparr>pf_ext := 0, pf_connid := ucast connid, pf_ack_nr := acknr, pf_seq_nr := seqnr,
           pf_windowsize := 0\<rparr>))
       HEADER_SIZE to 0 h"

text \<open>\<open>send_packet\<close> on the packet in slot \<open>v\<close>; a null pointer has no behaviour.\<close>

definition probe_candidate :: "UtpSocket \<Rightarrow> OutgoingPacket \<Rightarrow> bool" where
  "probe_candidate s p \<longleftrightarrow>
     mtu_floor (mtu s) < mtu_ceiling (mtu s)
     \<and> ucast (mtu_floor (mtu s)) < opk_length p
     \<and> opk_length p \<le> ucast (mtu_ceiling (mtu s))
     \<and> mtu_probe_seq (mtu s) = 0
     \<and> seq_nr (send s) \<noteq> 1
     \<and> opk_transmissions p = 0"

definition packet_bandwidth :: "UtpSocket \<Rightarrow> OutgoingPacket \<Rightarrow> BandwidthType" where
  "packet_bandwidth s p =
     (if state (conn s) = CS_SYN_SENT then connect_overhead
      else if opk_transmissions p = 1 then payload_bandwidth
      else retransmit_overhead)"

definition rediscover_mtu :: "env \<Rightarrow> u64 \<Rightarrow> UtpContext \<Rightarrow> UtpSocket \<Rightarrow> (UtpContext \<times> UtpSocket) option" where
  "rediscover_mtu E cur_time h s =
     (if should_rediscover cur_time (mtu s)
      then do {
        let (m, h) = get_udp_mtu E h s;
        d \<leftarrow> mtu_reset (ndebug (bld E)) (ucast m) cur_time (mtu s);
        Some (h, s\<lparr>mtu := d\<rparr>)
      }
      else Some (h, s))"

definition choose_probe :: "env \<Rightarrow> OutgoingPacket \<Rightarrow> UtpSocket \<Rightarrow> (bool \<times> UtpSocket) option" where
  "choose_probe E p s =
     (if probe_candidate s p
      then do {
        let s = s\<lparr>mtu := set_probe (ucast (seq_nr (send s) - 1)) (ucast (opk_length p)) (mtu s)\<rparr>;
        c_assert (ndebug (bld E)) (ucast (mtu_floor (mtu s)) \<le> opk_length p);
        c_assert (ndebug (bld E)) (opk_length p \<le> ucast (mtu_ceiling (mtu s)));
        Some (True, s)
      }
      else Some (False, s))"

text \<open>The part of \<open>send_packet\<close> before the transmission; the boolean says that it is an MTU probe.\<close>

definition begin_transmission ::
  "env \<Rightarrow> u64 \<Rightarrow> UtpContext \<Rightarrow> UtpSocket \<Rightarrow> (OutgoingPacket \<times> bool \<times> UtpContext \<times> UtpSocket) option" where
  "begin_transmission E v h s =
     do {
       let (cur_time, h) = call_get_milliseconds E h;
       p \<leftarrow> out_at v s;
       let s = (if opk_transmissions p = 0 \<or> opk_need_resend p
                then set_cc (add_in_flight (opk_payload p)) s else s);
       let p = p\<lparr>opk_need_resend := False\<rparr>;
       b \<leftarrow> update_pf (\<lambda>pf. pf\<lparr>pf_ack_nr := ack_nr (recv s)\<rparr>) (opk_data p);
       let (time_sent, h) = call_get_microseconds E h;
       let p = p\<lparr>opk_data := b, opk_time_sent := time_sent\<rparr>;
       (h, s) \<leftarrow> rediscover_mtu E cur_time h s;
       (use_as_mtu_probe, s) \<leftarrow> choose_probe E p s;
       Some (inc_transmissions p, use_as_mtu_probe, h, s)
     }"

definition send_packet :: "env \<Rightarrow> u64 \<Rightarrow> UtpContext \<Rightarrow> UtpSocket \<Rightarrow> (UtpContext \<times> UtpSocket) option" where
  "send_packet E v h s =
     do {
       (p, use_as_mtu_probe, h, s) \<leftarrow> begin_transmission E v h s;
       (b, h, s) \<leftarrow> send_data E (opk_data p) (opk_length p) (packet_bandwidth s p)
         (if use_as_mtu_probe then UTP_UDP_DONTFRAG else 0) h s;
       Some (h, set_out v (p\<lparr>opk_data := b\<rparr>) s)
     }"

text \<open>\<open>is_full(bytes)\<close>; the default argument is \<open>-1\<close>.\<close>

definition send_limit :: "UtpSocket \<Rightarrow> u64" where
  "send_limit s = min (min (max_window (cc s)) (opt_sndbuf (send s))) (max_window_user (send s))"

definition full_bytes :: "int \<Rightarrow> UtpSocket \<Rightarrow> int" where
  "full_bytes n s =
     (let packet_size = to_i32 (uint (get_packet_size s))
      in if n < 0 then packet_size else if packet_size < n then packet_size else n)"

definition is_full :: "int \<Rightarrow> UtpContext \<Rightarrow> UtpSocket \<Rightarrow> bool \<times> UtpSocket" where
  "is_full n h s =
     (if OUTGOING_BUFFER_MAX_SIZE - 1 \<le> window64 s
      then (True, set_cc (mark_window_full (current_ms h)) s)
      else if send_limit s < cur_window (cc s) + word_of_int (full_bytes n s)
      then (True, set_cc (mark_window_full (current_ms h)) s)
      else (False, s))"

text \<open>
  The loop of \<open>flush_packets\<close>, with the number of steps left to \<open>seq_nr\<close>; neither the sequence
  number nor the size of the window changes while it runs.
\<close>

primrec flush_loop ::
  "env \<Rightarrow> u64 \<Rightarrow> nat \<Rightarrow> u16 \<Rightarrow> bool \<Rightarrow> UtpContext \<Rightarrow> UtpSocket \<Rightarrow>
     (bool \<times> UtpContext \<times> UtpSocket) option" where
  "flush_loop E packet_size 0 i in_prefix h s = Some (False, h, s)"
| "flush_loop E packet_size (Suc n) i in_prefix h s =
     (let advance = set_send (\<lambda>d. if in_prefix then d\<lparr>flush_scan_start := i + 1\<rparr> else d)
      in case out_at (ucast i) s of
           None \<Rightarrow> flush_loop E packet_size n (i + 1) in_prefix h (advance s)
         | Some p \<Rightarrow>
             if 0 < opk_transmissions p \<and> \<not> opk_need_resend p
             then flush_loop E packet_size n (i + 1) in_prefix h (advance s)
             else (let (full, s) = is_full (- 1) h s
                   in if full then Some (True, h, s)
                      else if i \<noteq> seq_nr (send s) - 1 \<or> cur_window_packets (send s) = 1 \<or>
                        packet_size \<le> opk_payload p
                      then do {
                        (h, s) \<leftarrow> send_packet E (ucast i) h s;
                        flush_loop E packet_size n (i + 1) in_prefix h (advance s)
                      }
                      else flush_loop E packet_size n (i + 1) False h s))"

definition flush_begin :: "UtpSocket \<Rightarrow> u16" where
  "flush_begin s =
     (let window_start = seq_nr (send s) - cur_window_packets (send s);
          begin = flush_scan_start (send s)
      in if cur_window_packets (send s) < begin - window_start then window_start else begin)"

definition flush_packets :: "env \<Rightarrow> UtpContext \<Rightarrow> UtpSocket \<Rightarrow> (bool \<times> UtpContext \<times> UtpSocket) option" where
  "flush_packets E h s =
     flush_loop E (get_packet_size s) (unat (seq_nr (send s) - flush_begin s)) (flush_begin s) True h s"

text \<open>
  The bytes taken from the I/O vectors and what is left of them, for \<open>needed\<close> bytes. The third
  component is the number of bytes the vectors could not supply.
\<close>

fun take_iovec :: "nat \<Rightarrow> bytes list \<Rightarrow> bytes \<times> bytes list \<times> nat" where
  "take_iovec needed [] = ([], [], needed)"
| "take_iovec needed (v # vs) =
     (if needed = 0 then ([], v # vs, 0)
      else let num = min needed (length v);
               (bs, vs', rest) = take_iovec (needed - num) vs
           in (take num v @ bs, drop num v # vs', rest))"

definition resize :: "nat \<Rightarrow> bytes \<Rightarrow> bytes" where
  "resize n b = take n b @ replicate (n - length b) 0"

text \<open>The header fields every written packet gets, whether new or appended to.\<close>

definition fill_header :: "u8 \<Rightarrow> UtpSocket \<Rightarrow> PacketFormatV1 \<Rightarrow> PacketFormatV1" where
  "fill_header flags s pf =
     (set_type flags (set_version 1 pf))
       \<lparr>pf_ext := 0, pf_connid := ucast (conn_id_send (conn s)),
        pf_windowsize := ucast (last_rcv_win (recv s)), pf_ack_nr := ack_nr (recv s)\<rparr>"

text \<open>The last packet of the window, when written data may be appended to it.\<close>

definition append_target :: "u64 \<Rightarrow> u64 \<Rightarrow> UtpSocket \<Rightarrow> OutgoingPacket option" where
  "append_target payload packet_size s =
     (if cur_window_packets (send s) = 0 then None
      else case out_at (seq64 s - 1) s of
        None \<Rightarrow> None
      | Some p \<Rightarrow> if payload \<noteq> 0 \<and> opk_transmissions p = 0 \<and> opk_payload p < packet_size
                  then Some p else None)"

text \<open>Copy \<open>added\<close> bytes behind the payload of a packet and complete its header.\<close>

definition fill_packet ::
  "env \<Rightarrow> u64 \<Rightarrow> u8 \<Rightarrow> bytes list \<Rightarrow> OutgoingPacket \<Rightarrow> UtpContext \<Rightarrow> UtpSocket \<Rightarrow>
     (OutgoingPacket \<times> bytes list \<times> UtpContext \<times> UtpSocket) option" where
  "fill_packet E added flags iovec p h s =
     do {
       let p = p\<lparr>opk_data := resize (unat (HEADER_SIZE + opk_payload p + added)) (opk_data p)\<rparr>;
       (p, iovec) \<leftarrow>
         (if added \<noteq> 0
          then do {
            c_assert (ndebug (bld E)) (flags = ST_DATA);
            let (bs, iovec, needed) = take_iovec (unat added) iovec;
            b \<leftarrow> write_bytes (unat (HEADER_SIZE + opk_payload p)) bs (opk_data p);
            c_assert (ndebug (bld E)) (needed = 0);
            Some (p\<lparr>opk_data := b\<rparr>, iovec)
          }
          else Some (p, iovec));
       let p = p\<lparr>opk_payload := opk_payload p + added\<rparr>;
       let p = p\<lparr>opk_length := HEADER_SIZE + opk_payload p\<rparr>;
       (win, h) \<leftarrow> get_rcv_window E h s;
       let s = set_recv (\<lambda>r. r\<lparr>last_rcv_win := win\<rparr>) s;
       b \<leftarrow> update_pf (fill_header flags s) (opk_data p);
       Some (p\<lparr>opk_data := b\<rparr>, iovec, h, s)
     }"

text \<open>A new packet takes the next sequence number.\<close>

definition enqueue_packet :: "env \<Rightarrow> OutgoingPacket \<Rightarrow> UtpSocket \<Rightarrow> UtpSocket option" where
  "enqueue_packet E p s =
     do {
       ob \<leftarrow> sb_ensure_size (seq64 s) (window64 s) (outbuf (send s));
       b \<leftarrow> update_pf (\<lambda>pf. pf\<lparr>pf_seq_nr := seq_nr (send s)\<rparr>) (opk_data p);
       ob \<leftarrow> sb_put (ndebug (bld E)) (seq64 s) (p\<lparr>opk_data := b\<rparr>) ob;
       Some (set_send (\<lambda>d. d\<lparr>outbuf := ob, seq_nr := seq_nr d + 1,
               cur_window_packets := cur_window_packets d + 1\<rparr>) s)
     }"

text \<open>\<open>do ... while (payload);\<close> of \<open>write_outgoing_packet\<close>.\<close>

partial_function (option) write_loop ::
  "env \<Rightarrow> u64 \<Rightarrow> u64 \<Rightarrow> u8 \<Rightarrow> bytes list \<Rightarrow> UtpContext \<Rightarrow> UtpSocket \<Rightarrow>
     (bytes list \<times> UtpContext \<times> UtpSocket) option" where
  "write_loop E packet_size payload flags iovec h s =
     do {
       c_assert (ndebug (bld E)) (window64 s < OUTGOING_BUFFER_MAX_SIZE);
       c_assert (ndebug (bld E)) (flags = ST_DATA \<or> flags = ST_FIN);
       (added, iovec, h, s) \<leftarrow>
         (case append_target payload packet_size s of
            Some p \<Rightarrow> do {
              let added = min (payload + opk_payload p) (max packet_size (opk_payload p)) - opk_payload p;
              c_assert (ndebug (bld E)) (\<not> opk_need_resend p);
              (p, iovec, h, s) \<leftarrow> fill_packet E added flags iovec p h s;
              Some (added, iovec, h, set_out (seq64 s - 1) p s)
            }
          | None \<Rightarrow> do {
              (p, iovec, h, s) \<leftarrow> fill_packet E payload flags iovec new_OutgoingPacket h s;
              s \<leftarrow> enqueue_packet E p s;
              Some (payload, iovec, h, s)
            });
       let payload = payload - added;
       if payload \<noteq> 0 then write_loop E packet_size payload flags iovec h s
       else Some (iovec, h, s)
     }"

definition write_outgoing_packet ::
  "env \<Rightarrow> u64 \<Rightarrow> u8 \<Rightarrow> bytes list \<Rightarrow> UtpContext \<Rightarrow> UtpSocket \<Rightarrow>
     (bytes list \<times> UtpContext \<times> UtpSocket) option" where
  "write_outgoing_packet E payload flags iovec h s =
     do {
       s \<leftarrow> (if cur_window_packets (send s) = 0
             then do {
               let s = set_cc (set_initial_rto (current_ms h)) s;
               c_assert (ndebug (bld E)) (cur_window (cc s) = 0);
               Some s
             }
             else Some s);
       (iovec, h, s) \<leftarrow> write_loop E (get_packet_size s) payload flags iovec h s;
       (full, h, s) \<leftarrow> flush_packets E h s;
       Some (iovec, h, s)
     }"

definition send_fin :: "env \<Rightarrow> UtpContext \<Rightarrow> UtpSocket \<Rightarrow> (UtpContext \<times> UtpSocket) option" where
  "send_fin E h s =
     do {
       (iovec, h, s) \<leftarrow> write_outgoing_packet E 0 ST_FIN [] h (set_send (\<lambda>d. d\<lparr>fin_sent := True\<rparr>) s);
       Some (h, s)
     }"

definition backoff_rto_for_close :: "env \<Rightarrow> UtpContext \<Rightarrow> UtpSocket \<Rightarrow> UtpContext \<times> UtpSocket" where
  "backoff_rto_for_close E h s =
     (let (ms, h) = call_get_milliseconds E h
      in (h, set_cc (\<lambda>c. c\<lparr>rto_timeout := ms + ucast (min (rto c * 2) 60)\<rparr>) s))"

end
