(* ===== verification/Socket_Ack.thy ===== *)
theory Socket_Ack
  imports Socket_Send
begin

text \<open>
  Acknowledgements at the sender: \<open>ack_packet\<close>, \<open>selective_ack_bytes\<close> and \<open>selective_ack\<close> of
  \<^verbatim>\<open>src/utp_socket.cpp\<close>, \<open>process_acks\<close> and \<open>advance_send_window\<close> of \<^verbatim>\<open>src/utp_process.cpp\<close>, and
  the fields of a received packet. A pointer into the packet is the offset from its start.
\<close>

section \<open>A parsed packet\<close>

record ParsedPacket =
  pp_bytes :: bytes
  pp_payload :: nat
  pp_end :: nat
  pp_selack :: "nat option"
  pp_seq_nr :: u16
  pp_ack_nr :: u16
  pp_type :: u8
  pp_timestamp :: u32
  pp_reply_micro :: u32
  pp_windowsize :: u32

text \<open>The selective-ACK bitmap: its bytes up to the end of the packet, and its length byte.\<close>

definition selack_mask :: "nat \<Rightarrow> ParsedPacket \<Rightarrow> bytes" where
  "selack_mask pos pp = drop pos (pp_bytes pp)"

definition selack_len :: "nat \<Rightarrow> ParsedPacket \<Rightarrow> u8 option" where
  "selack_len pos pp =
     (if 0 < pos \<and> pos - 1 < length (pp_bytes pp) then Some (pp_bytes pp ! (pos - 1)) else None)"

definition mask_bit :: "bytes \<Rightarrow> nat \<Rightarrow> bool option" where
  "mask_bit bm bits =
     (if bits div 8 < length bm then Some (bit (bm ! (bits div 8)) (bits mod 8)) else None)"

section \<open>One acknowledged packet\<close>

text \<open>A packet sent once gives a round-trip sample; after a retransmission the timer restarts.\<close>

definition ack_timing :: "env \<Rightarrow> OutgoingPacket \<Rightarrow> UtpContext \<Rightarrow> UtpSocket \<Rightarrow> (UtpContext \<times> UtpSocket) option" where
  "ack_timing E p h s =
     (if opk_transmissions p = 1
      then do {
        let (now, h) = call_get_microseconds E h;
        let ertt = ucast ((now - opk_time_sent p) div 1000);
        c \<leftarrow> update_rtt ertt (current_ms h) (cc s);
        Some (h, s\<lparr>cc := c\<rparr>)
      }
      else Some (h, set_cc (\<lambda>c. c\<lparr>retransmit_timeout := rto c,
                                 rto_timeout := current_ms h + ucast (rto c)\<rparr>) s))"

definition ack_packet :: "env \<Rightarrow> u16 \<Rightarrow> UtpContext \<Rightarrow> UtpSocket \<Rightarrow> (nat \<times> UtpContext \<times> UtpSocket) option" where
  "ack_packet E sq h s =
     (case out_at (ucast sq) s of
        None \<Rightarrow> Some (1, h, s)
      | Some p \<Rightarrow>
          if opk_transmissions p = 0 then Some (2, h, s)
          else do {
            let s = set_send (\<lambda>d. d\<lparr>outbuf := snd (sb_take (ucast sq) (outbuf d))\<rparr>) s;
            (h, s) \<leftarrow> ack_timing E p h s;
            s \<leftarrow> (if opk_need_resend p then Some s else cc_remove_in_flight E (opk_payload p) s);
            Some (0, h, set_cc (\<lambda>c. c\<lparr>retransmit_count := 0\<rparr>) s)
          })"

section \<open>Selective acknowledgement\<close>

text \<open>
  \<open>v\<close> is the sequence number of bit \<open>bits\<close>; bits whose number is not in the window behind the
  oldest packet are skipped. The loops go down from the top bit to \<open>-1\<close>: step \<open>n\<close> treats bit
  \<open>n - 1\<close>.
\<close>

definition selack_seq :: "u32 \<Rightarrow> nat \<Rightarrow> u32" where
  "selack_seq base n = base + of_nat n - 1"

definition outside_window :: "u32 \<Rightarrow> UtpSocket \<Rightarrow> bool" where
  "outside_window v s \<longleftrightarrow>
     ucast (cur_window_packets (send s) - 1) \<le> (ucast (seq_nr (send s)) - v - 1) AND ucast ACK_NR_MASK"

definition sample_rtt :: "u64 \<Rightarrow> OutgoingPacket \<Rightarrow> int \<Rightarrow> int" where
  "sample_rtt now p min_rtt =
     (if opk_time_sent p < now then min min_rtt (sint (now - opk_time_sent p)) else min min_rtt 50000)"

definition sab_step ::
  "env \<Rightarrow> u64 \<Rightarrow> u32 \<Rightarrow> bytes \<Rightarrow> u8 \<Rightarrow> nat \<Rightarrow> UtpSocket \<Rightarrow> u64 \<times> int \<Rightarrow> (u64 \<times> int) option" where
  "sab_step E now base bm len n s acc =
     (let v = selack_seq base n
      in if outside_window v s then Some acc
         else case out_at (ucast v) s of
           None \<Rightarrow> Some acc
         | Some p \<Rightarrow>
             if opk_transmissions p = 0 then Some acc
             else do {
               b \<leftarrow> (if 0 < n \<and> n - 1 < unat len * 8 then mask_bit bm (n - 1) else Some False);
               if b
               then do {
                 c_assert (ndebug (bld E)) (0 \<le> to_i32 (uint (opk_payload p)));
                 Some (fst acc + opk_payload p, sample_rtt now p (snd acc))
               }
               else Some acc
             })"

primrec sab_loop ::
  "env \<Rightarrow> u64 \<Rightarrow> u32 \<Rightarrow> bytes \<Rightarrow> u8 \<Rightarrow> nat \<Rightarrow> UtpSocket \<Rightarrow> u64 \<times> int \<Rightarrow> (u64 \<times> int) option" where
  "sab_loop E now base bm len 0 s acc = sab_step E now base bm len 0 s acc"
| "sab_loop E now base bm len (Suc n) s acc =
     sab_step E now base bm len (Suc n) s acc \<bind> sab_loop E now base bm len n s"

definition selective_ack_bytes ::
  "env \<Rightarrow> u32 \<Rightarrow> bytes \<Rightarrow> u8 \<Rightarrow> int \<Rightarrow> UtpContext \<Rightarrow> UtpSocket \<Rightarrow> (u64 \<times> int \<times> UtpContext) option" where
  "selective_ack_bytes E base bm len min_rtt h s =
     (if cur_window_packets (send s) = 0 then Some (0, min_rtt, h)
      else do {
        let (now, h) = call_get_microseconds E h;
        (acked, min_rtt) \<leftarrow> sab_loop E now base bm len (unat len * 8 + 1) s (0, min_rtt);
        Some (acked, min_rtt, h)
      })"

definition MAX_EACK :: nat where "MAX_EACK = 128"

text \<open>The filled part of the array \<open>resends\<close>; writing past its end is undefined behaviour.\<close>

definition push_resend :: "u32 \<Rightarrow> u32 list \<Rightarrow> u32 list option" where
  "push_resend v rs =
     (let rs = (if MAX_EACK - 2 \<le> length rs then drop (MAX_EACK div 2) rs else rs)
      in if length rs < MAX_EACK then Some (rs @ [v]) else None)"

definition may_resend :: "u32 \<Rightarrow> nat \<Rightarrow> UtpSocket \<Rightarrow> bool" where
  "may_resend v count s \<longleftrightarrow>
     ucast ((v - ucast (fast_resend_seq_nr (timing s))) AND ucast ACK_NR_MASK) \<le> OUTGOING_BUFFER_MAX_SIZE
     \<and> unat DUPLICATE_ACKS_BEFORE_RESEND \<le> count"

definition sack_step ::
  "env \<Rightarrow> u32 \<Rightarrow> bytes \<Rightarrow> nat \<Rightarrow> nat \<times> u32 list \<times> UtpContext \<times> UtpSocket \<Rightarrow>
     (nat \<times> u32 list \<times> UtpContext \<times> UtpSocket) option" where
  "sack_step E base bm n st =
     (case st of (count, resends, h, s) \<Rightarrow>
        let v = selack_seq base n
        in if outside_window v s then Some st
           else do {
             bit_set \<leftarrow> (if 0 < n then mask_bit bm (n - 1) else Some False);
             let count = (if bit_set then count + 1 else count);
             case out_at (ucast v) s of
               None \<Rightarrow> Some (count, resends, h, s)
             | Some p \<Rightarrow>
                 if opk_transmissions p = 0 then Some (count, resends, h, s)
                 else if bit_set
                 then do {
                   c_assert (ndebug (bld E))
                     (ucast v AND sb_mask (outbuf (send s)) \<noteq>
                      (seq64 s - window64 s) AND sb_mask (outbuf (send s)));
                   (_, h, s) \<leftarrow> ack_packet E (ucast v) h s;
                   Some (count, resends, h, s)
                 }
                 else if may_resend v count s
                 then do {
                   resends \<leftarrow> push_resend v resends;
                   Some (count, resends, h, s)
                 }
                 else Some (count, resends, h, s)
           })"

primrec sack_loop ::
  "env \<Rightarrow> u32 \<Rightarrow> bytes \<Rightarrow> nat \<Rightarrow> nat \<times> u32 list \<times> UtpContext \<times> UtpSocket \<Rightarrow>
     (nat \<times> u32 list \<times> UtpContext \<times> UtpSocket) option" where
  "sack_loop E base bm 0 st = sack_step E base bm 0 st"
| "sack_loop E base bm (Suc n) st =
     sack_step E base bm (Suc n) st \<bind> sack_loop E base bm n"

text \<open>
  Retransmit at most four of the recorded packets, the last recorded (the oldest) first. The
  list is in the order in which they are taken; the boolean says whether one was sent.
\<close>

primrec resend_loop ::
  "env \<Rightarrow> u32 list \<Rightarrow> nat \<Rightarrow> bool \<Rightarrow> UtpContext \<Rightarrow> UtpSocket \<Rightarrow> (bool \<times> UtpContext \<times> UtpSocket) option" where
  "resend_loop E [] i back_off h s = Some (back_off, h, s)"
| "resend_loop E (v # vs) i back_off h s =
     (case out_at (ucast v) s of
        None \<Rightarrow> resend_loop E vs i back_off h s
      | Some p \<Rightarrow> do {
          (h, s) \<leftarrow> send_packet E (ucast v) h s;
          let s = set_timing (\<lambda>t. t\<lparr>fast_resend_seq_nr := ucast v + 1\<rparr>) s;
          if 4 \<le> i + 1 then Some (True, h, s) else resend_loop E vs (i + 1) True h s
        })"

definition selective_ack ::
  "env \<Rightarrow> u32 \<Rightarrow> bytes \<Rightarrow> u8 \<Rightarrow> UtpContext \<Rightarrow> UtpSocket \<Rightarrow> (UtpContext \<times> UtpSocket) option" where
  "selective_ack E base bm len h s =
     (if cur_window_packets (send s) = 0 then Some (h, s)
      else do {
        (count, resends, h, s) \<leftarrow> sack_loop E base bm (unat len * 8) (0, [], h, s);
        resends \<leftarrow>
          (if may_resend (base - 1) count s
           then (if length resends < MAX_EACK
                 then Some (resends @ [(base - 1) AND ucast ACK_NR_MASK]) else None)
           else Some resends);
        (back_off, h, s) \<leftarrow> resend_loop E (rev resends) 0 False h s;
        s \<leftarrow> (if back_off
              then do {
                c \<leftarrow> maybe_decay_win (bld E) (current_ms h) (cc s);
                Some (s\<lparr>cc := c\<rparr>)
              }
              else Some s);
        Some (h, s\<lparr>duplicate_ack := of_nat count\<rparr>)
      })"

section \<open>Measuring what was acknowledged\<close>

definition oldest64 :: "UtpSocket \<Rightarrow> u64" where
  "oldest64 s = seq64 s - window64 s"

definition oldest16 :: "UtpSocket \<Rightarrow> u16" where
  "oldest16 s = seq_nr (send s) - cur_window_packets (send s)"

primrec acked_loop ::
  "env \<Rightarrow> u64 \<Rightarrow> nat \<Rightarrow> nat \<Rightarrow> u64 \<times> int \<Rightarrow> UtpContext \<Rightarrow> UtpSocket \<Rightarrow> (u64 \<times> int \<times> UtpSocket) option" where
  "acked_loop E now 0 i acc h s = Some (fst acc, snd acc, s)"
| "acked_loop E now (Suc n) i acc h s =
     (let sq = oldest16 s + of_nat i
      in case out_at (ucast sq) s of
           None \<Rightarrow> acked_loop E now n (i + 1) acc h s
         | Some p \<Rightarrow>
             if opk_transmissions p = 0 then acked_loop E now n (i + 1) acc h s
             else do {
               c_assert (ndebug (bld E)) (0 \<le> to_i32 (uint (opk_payload p)));
               (_, d) \<leftarrow> handle_probe_ack (ndebug (bld E)) (ucast sq) (current_ms h) (mtu s);
               acked_loop E now n (i + 1) (fst acc + opk_payload p, sample_rtt now p (snd acc)) h (s\<lparr>mtu := d\<rparr>)
             })"

definition INT64_MAX :: int where "INT64_MAX = 2 ^ 63 - 1"

text \<open>The delay the peer measured against our clock, and the shift its drift calls for.\<close>

definition their_sample :: "u32 \<Rightarrow> u64 \<Rightarrow> UtpContext \<Rightarrow> UtpSocket \<Rightarrow> UtpSocket" where
  "their_sample their_delay time h s =
     (let prev_delay_base = delay_base (their_hist (cc s));
          s = (if their_delay \<noteq> 0
               then set_cc (\<lambda>c. c\<lparr>their_hist := add_sample their_delay (current_ms h) (their_hist c)\<rparr>) s
               else s);
          base = delay_base (their_hist (cc s))
      in if prev_delay_base \<noteq> 0 \<and> wrapping_compare_less base prev_delay_base TIMESTAMP_MASK
            \<and> prev_delay_base - base \<le> 10000
         then set_cc (\<lambda>c. c\<lparr>our_hist := shift (prev_delay_base - base) (our_hist c)\<rparr>) s
         else s)"

definition our_sample :: "env \<Rightarrow> u32 \<Rightarrow> UtpContext \<Rightarrow> UtpSocket \<Rightarrow> UtpSocket option" where
  "our_sample E actual_delay h s =
     (if actual_delay \<noteq> 0
      then do {
        let s = set_cc (\<lambda>c. c\<lparr>our_hist := add_sample actual_delay (current_ms h) (our_hist c)\<rparr>) s;
        c \<leftarrow> update_delay_average (bld E) actual_delay (current_ms h) (cc s);
        Some (s\<lparr>cc := c\<rparr>)
      }
      else Some s)"

definition cap_our_delay :: "int \<Rightarrow> UtpSocket \<Rightarrow> UtpSocket" where
  "cap_our_delay min_rtt s =
     (let v = get_value (our_hist (cc s))
      in if min_rtt < uint v
         then set_cc (\<lambda>c. c\<lparr>our_hist := shift (word_of_int (uint v - min_rtt)) (our_hist c)\<rparr>) s
         else s)"

definition process_acks ::
  "env \<Rightarrow> ParsedPacket \<Rightarrow> nat \<Rightarrow> u64 \<Rightarrow> UtpContext \<Rightarrow> UtpSocket \<Rightarrow> (u64 \<times> UtpContext \<times> UtpSocket) option" where
  "process_acks E pp acks time h s =
     do {
       let (now, h) = call_get_microseconds E h;
       (acked_bytes, min_rtt, s) \<leftarrow> acked_loop E now acks 0 (0, INT64_MAX) h s;
       (acked_bytes, min_rtt, h) \<leftarrow>
         (case pp_selack pp of
            None \<Rightarrow> Some (acked_bytes, min_rtt, h)
          | Some pos \<Rightarrow> do {
              len \<leftarrow> selack_len pos pp;
              (b, min_rtt, h) \<leftarrow> selective_ack_bytes E (ucast (pp_ack_nr pp + 2)) (selack_mask pos pp)
                 len min_rtt h s;
              Some (acked_bytes + b, min_rtt, h)
            });
       let s = set_timing (\<lambda>t. t\<lparr>last_measured_delay := current_ms h\<rparr>) s;
       let their_delay = (if pp_timestamp pp = 0 then 0 else ucast (time - ucast (pp_timestamp pp)));
       let s = set_timing (\<lambda>t. t\<lparr>reply_micro := their_delay\<rparr>) s;
       let s = their_sample their_delay time h s;
       let actual_delay = (if uint (pp_reply_micro pp) = INT_MAX then 0 else pp_reply_micro pp);
       s \<leftarrow> our_sample E actual_delay h s;
       c_assert (ndebug (bld E)) (0 \<le> min_rtt);
       let s = cap_our_delay min_rtt s;
       if actual_delay \<noteq> 0 \<and> 1 \<le> acked_bytes
       then do {
         (our_delay, c) \<leftarrow> apply_ccontrol (bld E) acked_bytes actual_delay min_rtt (current_ms h)
            (opt_sndbuf (send s)) (conn_target_delay (conn s)) (get_packet_size s) (cc s);
         let s = s\<lparr>cc := c\<rparr>;
         let h = emit (Ev_on_delay_sample (self s) (our_delay sdiv 1000)) h;
         let (_, h) = call_get_microseconds E h;
         Some (acked_bytes, h, s)
       }
       else Some (acked_bytes, h, s)
     }"

section \<open>Advancing the send window\<close>

primrec ack_loop :: "env \<Rightarrow> nat \<Rightarrow> UtpContext \<Rightarrow> UtpSocket \<Rightarrow> (UtpContext \<times> UtpSocket) option" where
  "ack_loop E 0 h s = Some (h, s)"
| "ack_loop E (Suc n) h s =
     do {
       (ack_status, h, s) \<leftarrow> ack_packet E (oldest16 s) h s;
       if ack_status = 2 then Some (h, s)
       else ack_loop E n h (set_send (\<lambda>d. d\<lparr>cur_window_packets := cur_window_packets d - 1\<rparr>) s)
     }"

text \<open>Slots emptied by selective acknowledgements leave the front of the window.\<close>

function skip_acked :: "UtpSocket \<Rightarrow> UtpSocket" where
  "skip_acked s =
     (if 0 < cur_window_packets (send s) \<and> out_at (oldest64 s) s = None
      then skip_acked (set_send (\<lambda>d. d\<lparr>cur_window_packets := cur_window_packets d - 1\<rparr>) s)
      else s)"
  by pat_completeness auto
termination
  by (relation "measure (\<lambda>s. unat (cur_window_packets (send s)))")
    (auto simp: set_send_def measure_unat)

definition ack_state_change :: "ParsedPacket \<Rightarrow> nat \<Rightarrow> UtpContext \<Rightarrow> UtpSocket \<Rightarrow> UtpContext \<times> UtpSocket" where
  "ack_state_change pp acks h s =
     (let s = (if pp_type pp = ST_DATA \<and> state (conn s) = CS_SYN_RECV then set_state CS_CONNECTED s else s)
      in if pp_type pp = ST_STATE \<and> state (conn s) = CS_SYN_SENT
         then (let s = set_state CS_CONNECTED s in (emit (Ev_on_connect (self s)) h, s))
         else if fin_sent (send s) \<and> unat (cur_window_packets (send s)) = acks
         then (let s = set_send (\<lambda>d. d\<lparr>fin_sent_acked := True\<rparr>) s
               in (h, if close_requested (send s) then set_state CS_DESTROY s else s))
         else (h, s))"

definition fast_retry :: "env \<Rightarrow> UtpContext \<Rightarrow> UtpSocket \<Rightarrow> (UtpContext \<times> UtpSocket) option" where
  "fast_retry E h s =
     (if fast_timeout (timing s)
      then if oldest16 s \<noteq> fast_resend_seq_nr (timing s)
           then Some (h, set_timing (\<lambda>t. t\<lparr>fast_timeout := False\<rparr>) s)
           else case out_at (oldest64 s) s of
                None \<Rightarrow> Some (h, s)
              | Some p \<Rightarrow>
                  if 0 < opk_transmissions p
                  then send_packet E (oldest64 s) h
                         (set_timing (\<lambda>t. t\<lparr>fast_resend_seq_nr := fast_resend_seq_nr t + 1\<rparr>) s)
                  else Some (h, s)
      else Some (h, s))"

definition advance_send_window ::
  "env \<Rightarrow> ParsedPacket \<Rightarrow> nat \<Rightarrow> UtpContext \<Rightarrow> UtpSocket \<Rightarrow> (UtpContext \<times> UtpSocket) option" where
  "advance_send_window E pp acks h s =
     (if acks \<le> unat (cur_window_packets (send s))
      then do {
        let s = set_send (\<lambda>d. d\<lparr>max_window_user := ucast (pp_windowsize pp)\<rparr>) s;
        let s = (if max_window_user (send s) = 0
                 then set_cc (\<lambda>c. c\<lparr>zerowindow_time := current_ms h + 15000\<rparr>) s else s);
        let (h, s) = ack_state_change pp acks h s;
        let s = (if wrapping_compare_less (ucast (fast_resend_seq_nr (timing s)))
                      (ucast (pp_ack_nr pp + 1)) (ucast ACK_NR_MASK)
                 then set_timing (\<lambda>t. t\<lparr>fast_resend_seq_nr := pp_ack_nr pp + 1\<rparr>) s else s);
        (h, s) \<leftarrow> ack_loop E acks h s;
        let s = skip_acked s;
        c_assert (ndebug (bld E)) (cur_window_packets (send s) = 0 \<or> out_at (oldest64 s) s \<noteq> None);
        (h, s) \<leftarrow>
          (if cur_window_packets (send s) = 1
           then do {
             p \<leftarrow> out_at (seq64 s - 1) s;
             if opk_transmissions p = 0 then send_packet E (seq64 s - 1) h s else Some (h, s)
           }
           else Some (h, s));
        fast_retry E h s
      }
      else Some (h, s))"

end
