(* ===== verification/Socket_Recv.thy ===== *)
theory Socket_Recv
  imports Socket_Ack
begin

text \<open>
  Received packets: \<open>parse_packet\<close>, \<open>deliver_data\<close> and \<open>process_incoming\<close> of
  \<^verbatim>\<open>src/utp_process.cpp\<close>. A packet is the list of its bytes, a pointer into it the offset from
  its start, and reading outside it is undefined behaviour (\<open>None\<close>), so that a parser that
  returns has read only bytes of the packet.
\<close>

section \<open>Parsing\<close>

definition byte_at :: "nat \<Rightarrow> bytes \<Rightarrow> u8 option" where
  "byte_at i bs = (if i < length bs then Some (bs ! i) else None)"

text \<open>
  The chain of extensions. The payload pointer is \<open>p\<close>, \<open>ext\<close> the type of the extension that
  starts there, \<open>sel\<close> the bitmap found so far. The result is the final payload pointer and
  bitmap, or nothing when the packet is refused, with the extension bits of the socket.
\<close>

function ext_loop ::
  "bytes \<Rightarrow> nat \<Rightarrow> u8 \<Rightarrow> nat option \<Rightarrow> bytes \<Rightarrow> ((nat \<times> nat option) option \<times> bytes) option" where
  "ext_loop packet p ext sel exts =
     (let payload = p + 2;
          left = to_i32 (int (length packet) - int payload)
      in if left < 0 then Some (None, exts)
         else case byte_at (payload - 1) packet of
           None \<Rightarrow> None
         | Some len \<Rightarrow>
             if left < uint len then Some (None, exts)
             else if ext = 2 \<and> len \<noteq> 8 then Some (None, exts)
             else case (if ext = 2 then read_bytes payload 8 packet else Some exts) of
               None \<Rightarrow> None
             | Some exts' \<Rightarrow>
                 let sel' = (if ext = 1 then Some payload else sel)
                 in case byte_at (payload - 2) packet of
                      None \<Rightarrow> None
                    | Some ext' \<Rightarrow>
                        if ext' \<noteq> 0 then ext_loop packet (payload + unat len) ext' sel' exts'
                        else Some (Some (payload + unat len, sel'), exts'))"
  by pat_completeness auto
termination
  by (relation "measure (\<lambda>(packet, p, ext, sel, exts). length packet + 2 - p)")
    (auto simp: byte_at_def split: if_splits)

declare ext_loop.simps [simp del]

definition parse_packet :: "bytes \<Rightarrow> UtpSocket \<Rightarrow> (ParsedPacket option \<times> UtpSocket) option" where
  "parse_packet packet s =
     do {
       pf \<leftarrow> decode_pf packet;
       if ST_NUM_STATES \<le> pf_type pf then Some (None, s)
       else if length packet < unat HEADER_SIZE then Some (None, s)
       else do {
         (r, exts) \<leftarrow>
           (if pf_ext pf \<noteq> 0
            then ext_loop packet (unat HEADER_SIZE) (pf_ext pf) None (extensions (conn s))
            else Some (Some (unat HEADER_SIZE, None), extensions (conn s)));
         let s = s\<lparr>conn := (conn s)\<lparr>extensions := exts\<rparr>\<rparr>;
         Some (map_option (\<lambda>(payload, sel).
           \<lparr>pp_bytes = packet, pp_payload = payload, pp_end = length packet, pp_selack = sel,
            pp_seq_nr = pf_seq_nr pf, pp_ack_nr = pf_ack_nr pf, pp_type = pf_type pf,
            pp_timestamp = pf_tv_usec pf, pp_reply_micro = pf_reply_micro pf,
            pp_windowsize = pf_windowsize pf\<rparr>) r, s)
       }
     }"

section \<open>Delivering data\<close>

definition pp_data :: "ParsedPacket \<Rightarrow> bytes" where
  "pp_data pp = take (pp_end pp - pp_payload pp) (drop (pp_payload pp) (pp_bytes pp))"

definition give_data :: "bytes \<Rightarrow> UtpContext \<Rightarrow> UtpSocket \<Rightarrow> UtpContext" where
  "give_data b h s =
     (if b \<noteq> [] \<and> \<not> read_shutdown (recv s) then emit (Ev_on_read (self s) b) h else h)"

definition at_eof :: "ReceiveState \<Rightarrow> bool" where
  "at_eof r \<longleftrightarrow> \<not> got_fin_reached r \<and> got_fin r \<and> eof_pkt r = ack_nr r"

definition post_eof :: "env \<Rightarrow> UtpContext \<Rightarrow> UtpSocket \<Rightarrow> (UtpContext \<times> UtpSocket) option" where
  "post_eof E h s =
     (if at_eof (recv s)
      then do {
        let s = set_recv (\<lambda>r. r\<lparr>got_fin_reached := True\<rparr>) s;
        let s = set_cc (\<lambda>c. c\<lparr>rto_timeout := current_ms h + ucast (min (rto c * 3) 60)\<rparr>) s;
        let h = emit (Ev_on_state_change (self s) UTP_STATE_EOF) h;
        (h, s) \<leftarrow> send_ack E False h s;
        Some (h, set_recv (\<lambda>r. r\<lparr>reorder_count := 0\<rparr>) s)
      }
      else Some (h, s))"

definition take_reordered :: "UtpSocket \<Rightarrow> InboundPacket option \<times> UtpSocket" where
  "take_reordered s =
     (let (p, b) = sb_take (ucast (ack_nr (recv s)) + 1) (inbuf (recv s))
      in (p, set_recv (\<lambda>r. r\<lparr>inbuf := b\<rparr>) s))"

definition ipk_bytes :: "InboundPacket \<Rightarrow> bytes" where
  "ipk_bytes p = take (unat (ipk_size p)) (ipk_data p)"

lemma post_eof_recv:
  assumes "post_eof E h s = Some (h1, s1)" and "reorder_count (recv s1) \<noteq> 0"
  shows "s1 = s \<and> h1 = h"
proof (cases "at_eof (recv s)")
  case True
  then have "reorder_count (recv s1) = 0"
    using assms(1) by (auto simp: post_eof_def set_defs bind_eq_Some_conv Let_def)
  with assms(2) show ?thesis by simp
next
  case False
  then show ?thesis using assms(1) by (simp add: post_eof_def)
qed

lemma take_reordered_recv:
  "recv (snd (take_reordered s)) = (recv s)\<lparr>inbuf := snd (sb_take (ucast (ack_nr (recv s)) + 1) (inbuf (recv s)))\<rparr>"
  by (simp add: take_reordered_def set_defs split: prod.split)

lemma unat_dec: "(x :: 'a::len word) \<noteq> 0 \<Longrightarrow> unat (x - 1) < unat x"
  by (metis diff_less less_numeral_extra(1) measure_unat unat_gt_0 word_neq_0_conv)

function deliver_loop :: "env \<Rightarrow> UtpContext \<Rightarrow> UtpSocket \<Rightarrow> (UtpContext \<times> UtpSocket) option" where
  "deliver_loop E h s =
     (case post_eof E h s of
        None \<Rightarrow> None
      | Some (h1, s1) \<Rightarrow>
          if reorder_count (recv s1) = 0 then Some (h1, s1)
          else case take_reordered s1 of
            (None, s2) \<Rightarrow> Some (h1, s2)
          | (Some p, s2) \<Rightarrow>
              deliver_loop E (give_data (ipk_bytes p) h1 s2)
                (set_recv (\<lambda>r. r\<lparr>ack_nr := ack_nr r + 1, reorder_count := reorder_count r - 1\<rparr>) s2))"
  by pat_completeness auto
termination
proof (relation "measure (\<lambda>(E, h, s). unat (reorder_count (recv s)))")
  fix E h s r h1 s1 o2 s2 p
  assume "post_eof E h s = Some r" and "(h1, s1) = r" and nz: "reorder_count (recv s1) \<noteq> 0"
    and tk: "(o2, s2) = take_reordered s1" and "o2 = Some p"
  then have s1: "s1 = s" using post_eof_recv by metis
  have "s2 = snd (take_reordered s1)" using tk by (metis snd_conv)
  then have "reorder_count (recv s2) = reorder_count (recv s)" by (simp add: take_reordered_recv s1)
  with unat_dec [OF nz] show "((E, give_data (ipk_bytes p) h1 s2,
      set_recv (\<lambda>r. r\<lparr>ack_nr := ack_nr r + 1, reorder_count := reorder_count r - 1\<rparr>) s2), E, h, s)
      \<in> measure (\<lambda>(E, h, s). unat (reorder_count (recv s)))"
    by (simp add: set_defs s1)
qed simp

declare deliver_loop.simps [simp del]

definition deliver_in_order :: "env \<Rightarrow> ParsedPacket \<Rightarrow> UtpContext \<Rightarrow> UtpSocket \<Rightarrow> (UtpContext \<times> UtpSocket) option" where
  "deliver_in_order E pp h s =
     do {
       let h = give_data (pp_data pp) h s;
       let s = set_recv (\<lambda>r. r\<lparr>ack_nr := ack_nr r + 1\<rparr>) s;
       (h, s) \<leftarrow> deliver_loop E h s;
       Some (schedule_ack h s, s)
     }"

definition fin_seen :: "ParsedPacket \<Rightarrow> UtpSocket \<Rightarrow> UtpSocket" where
  "fin_seen pp s =
     (if pp_type pp = ST_FIN \<and> \<not> got_fin (recv s)
      then set_recv (\<lambda>r. r\<lparr>got_fin := True, eof_pkt := pp_seq_nr pp\<rparr>) s else s)"

definition past_eof :: "u16 \<Rightarrow> ReceiveState \<Rightarrow> bool" where
  "past_eof seqnr r \<longleftrightarrow> got_fin r \<and> eof_pkt r - ack_nr r - 1 < seqnr"

definition deliver_data ::
  "env \<Rightarrow> ParsedPacket \<Rightarrow> u16 \<Rightarrow> UtpContext \<Rightarrow> UtpSocket \<Rightarrow> (u64 \<times> UtpContext \<times> UtpSocket) option" where
  "deliver_data E pp seqnr h s =
     do {
       let s = fin_seen pp s;
       let count = of_nat (pp_end pp - pp_payload pp);
       if seqnr = 0
       then do {
         (h, s) \<leftarrow> deliver_in_order E pp h s;
         Some (count, h, s)
       }
       else if past_eof seqnr (recv s) then Some (0, h, s)
       else if 0x3ff < seqnr then Some (0, h, s)
       else do {
         b \<leftarrow> sb_ensure_size (ucast (pp_seq_nr pp) + 1) (ucast seqnr + 1) (inbuf (recv s));
         let s = set_recv (\<lambda>r. r\<lparr>inbuf := b\<rparr>) s;
         if sb_get (ucast (pp_seq_nr pp)) b \<noteq> None then Some (0, h, s)
         else do {
           c_assert (ndebug (bld E))
             (ucast (pp_seq_nr pp) AND sb_mask b \<noteq> (ucast (ack_nr (recv s)) + 1) AND sb_mask b);
           b \<leftarrow> sb_put (ndebug (bld E)) (ucast (pp_seq_nr pp))
             \<lparr>ipk_size = of_nat (pp_end pp - pp_payload pp), ipk_data = pp_data pp\<rparr> b;
           let s = set_recv (\<lambda>r. r\<lparr>inbuf := b, reorder_count := reorder_count r + 1\<rparr>) s;
           Some (count, schedule_ack h s, s)
         }
       }
     }"

section \<open>A packet for a connection\<close>

text \<open>The window of acknowledgement numbers a packet may carry.\<close>

definition curr_window :: "UtpSocket \<Rightarrow> u16" where
  "curr_window s =
     max (cur_window_packets (send s) + ucast ACK_NR_ALLOWED_WINDOW) (ucast ACK_NR_ALLOWED_WINDOW)"

definition invalid_ack :: "ParsedPacket \<Rightarrow> UtpSocket \<Rightarrow> bool" where
  "invalid_ack pp s \<longleftrightarrow>
     (pp_type pp \<noteq> ST_SYN \<or> state (conn s) \<noteq> CS_SYN_RECV) \<and>
     (wrapping_compare_less (ucast (seq_nr (send s)) - 1) (ucast (pp_ack_nr pp)) (ucast ACK_NR_MASK) \<or>
      wrapping_compare_less (ucast (pp_ack_nr pp))
        (ucast (seq_nr (send s)) - 1 - ucast (curr_window s)) (ucast ACK_NR_MASK))"

definition seq_distance :: "ParsedPacket \<Rightarrow> UtpSocket \<Rightarrow> u16" where
  "seq_distance pp s = pp_seq_nr pp - ack_nr (recv s) - 1"

definition count_acks :: "ParsedPacket \<Rightarrow> UtpSocket \<Rightarrow> nat" where
  "count_acks pp s =
     (let acks = pp_ack_nr pp - (seq_nr (send s) - 1 - cur_window_packets (send s))
      in if cur_window_packets (send s) < acks then 0 else unat acks)"

definition count_duplicate_ack :: "env \<Rightarrow> ParsedPacket \<Rightarrow> UtpContext \<Rightarrow> UtpSocket \<Rightarrow> UtpSocket option" where
  "count_duplicate_ack E pp h s =
     (if 0 < cur_window_packets (send s)
      then if pp_ack_nr pp = oldest16 s - 1 \<and> 0 < cur_window_packets (send s) \<and> pp_type pp = ST_STATE
           then do {
             let s = s\<lparr>duplicate_ack := duplicate_ack s + 1\<rparr>;
             if ucast (duplicate_ack s) = DUPLICATE_ACKS_BEFORE_RESEND \<and> mtu_probe_seq (mtu s) \<noteq> 0
             then if ucast (pp_ack_nr pp) = (mtu_probe_seq (mtu s) - 1) AND ucast ACK_NR_MASK
                  then do {
                    d \<leftarrow> handle_probe_loss (ndebug (bld E)) (current_ms h) (mtu s);
                    Some (s\<lparr>mtu := d\<rparr>)
                  }
                  else Some (s\<lparr>mtu := clear_probe (mtu s)\<rparr>)
             else Some s
           }
           else Some (s\<lparr>duplicate_ack := 0\<rparr>)
      else Some s)"

definition leave_full :: "UtpContext \<Rightarrow> UtpSocket \<Rightarrow> UtpContext \<times> UtpSocket" where
  "leave_full h s =
     (if state (conn s) = CS_CONNECTED_FULL
      then let (full, s) = is_full (- 1) h s
           in if full then (h, s)
              else (emit (Ev_on_state_change (self s) UTP_STATE_WRITABLE) h, set_state CS_CONNECTED s)
      else (h, s))"

text \<open>Acknowledgements and data of a packet whose sequence number is in the reorder window.\<close>

definition process_window_packet ::
  "env \<Rightarrow> ParsedPacket \<Rightarrow> u64 \<Rightarrow> u16 \<Rightarrow> UtpContext \<Rightarrow> UtpSocket \<Rightarrow>
     (u64 \<times> UtpContext \<times> UtpSocket) option" where
  "process_window_packet E pp time seqnr h s =
     do {
       let acks = count_acks pp s;
       s \<leftarrow> count_duplicate_ack E pp h s;
       (acked_bytes, h, s) \<leftarrow> process_acks E pp acks time h s;
       (h, s) \<leftarrow> advance_send_window E pp acks h s;
       (h, s) \<leftarrow>
         (case pp_selack pp of
            None \<Rightarrow> Some (h, s)
          | Some pos \<Rightarrow> do {
              len \<leftarrow> selack_len pos pp;
              selective_ack E (ucast (pp_ack_nr pp) + 2) (selack_mask pos pp) len h s
            });
       c_assert (ndebug (bld E)) (cur_window_packets (send s) = 0 \<or> out_at (oldest64 s) s \<noteq> None);
       let (h, s) = leave_full h s;
       if pp_type pp = ST_STATE then Some (0, h, s)
       else if state (conn s) \<noteq> CS_CONNECTED \<and> state (conn s) \<noteq> CS_CONNECTED_FULL then Some (0, h, s)
       else deliver_data E pp seqnr h s
     }"

definition process_incoming ::
  "env \<Rightarrow> bytes \<Rightarrow> bool \<Rightarrow> UtpContext \<Rightarrow> UtpSocket \<Rightarrow> (u64 \<times> UtpContext \<times> UtpSocket) option" where
  "process_incoming E packet syn h s =
     do {
       let h = record_raw_recv (of_nat (length packet)) h;
       let h = refresh_clock E h;
       (r, s) \<leftarrow> parse_packet packet s;
       case r of
         None \<Rightarrow> Some (0, h, s)
       | Some pp \<Rightarrow> do {
           let (time, h) = call_get_microseconds E h;
           if invalid_ack pp s then Some (0, h, s)
           else do {
             c_assert (ndebug (bld E)) (pp_type pp \<noteq> ST_RESET);
             let s = (if state (conn s) = CS_SYN_SENT
                      then set_recv (\<lambda>r. r\<lparr>ack_nr := pp_seq_nr pp - 1\<rparr>) s else s);
             let s = set_timing (\<lambda>t. t\<lparr>last_got_packet := current_ms h\<rparr>) s;
             if syn then Some (0, h, s)
             else do {
               let seqnr = seq_distance pp s;
               if REORDER_BUFFER_MAX_SIZE \<le> ucast seqnr
               then let h = (if 0x10000 - REORDER_BUFFER_MAX_SIZE \<le> ucast seqnr \<and> pp_type pp \<noteq> ST_STATE
                             then schedule_ack h s else h)
                    in Some (0, h, s)
               else process_window_packet E pp time seqnr h s
             }
           }
         }
     }"

end
