(* ===== verification/Socket_Api.thy ===== *)
theory Socket_Api
  imports Socket_Recv
begin

text \<open>
  The operations on a connection that the application, the timer and the context call: the
  rest of \<^verbatim>\<open>src/utp_socket.cpp\<close> (initialisation, connecting, writing, closing, timeouts, options)
  and the inline operations of \<^verbatim>\<open>src/utp_socket.hpp\<close>. The virtual calls of the state objects are
  functions by cases on the connection state.
\<close>

section \<open>The state objects\<close>

datatype shutdown_how = SHUT_RD | SHUT_WR | SHUT_RDWR

definition mark_read_shutdown :: "UtpSocket \<Rightarrow> UtpSocket" where
  "mark_read_shutdown s = set_recv (\<lambda>r. r\<lparr>read_shutdown := True\<rparr>) s"

definition request_close :: "UtpSocket \<Rightarrow> UtpSocket" where
  "request_close s = set_send (\<lambda>d. d\<lparr>close_requested := True\<rparr>) s"

fun writable :: "CONN_STATE \<Rightarrow> bool" where
  "writable CS_CONNECTED = True"
| "writable _ = False"

fun timeout_active :: "CONN_STATE \<Rightarrow> bool" where
  "timeout_active CS_SYN_SENT = True"
| "timeout_active CS_SYN_RECV = True"
| "timeout_active CS_CONNECTED = True"
| "timeout_active CS_CONNECTED_FULL = True"
| "timeout_active _ = False"

definition connected_close :: "env \<Rightarrow> UtpContext \<Rightarrow> UtpSocket \<Rightarrow> (UtpContext \<times> UtpSocket) option" where
  "connected_close E h s =
     (let s = request_close (mark_read_shutdown s)
      in if \<not> fin_sent (send s) then send_fin E h s
         else if fin_sent_acked (send s) then Some (h, set_state CS_DESTROY s)
         else Some (h, s))"

definition state_close :: "env \<Rightarrow> UtpContext \<Rightarrow> UtpSocket \<Rightarrow> (UtpContext \<times> UtpSocket) option" where
  "state_close E h s =
     (case state (conn s) of
        CS_SYN_SENT \<Rightarrow>
          (let (h, s) = backoff_rto_for_close E h s in Some (h, set_state CS_DESTROY s))
      | CS_CONNECTED \<Rightarrow> connected_close E h s
      | CS_CONNECTED_FULL \<Rightarrow> connected_close E h s
      | _ \<Rightarrow> Some (h, set_state CS_DESTROY s))"

definition state_shutdown ::
  "env \<Rightarrow> shutdown_how \<Rightarrow> UtpContext \<Rightarrow> UtpSocket \<Rightarrow> (UtpContext \<times> UtpSocket) option" where
  "state_shutdown E how h s =
     (let s = (if how \<noteq> SHUT_WR then mark_read_shutdown s else s)
      in case state (conn s) of
           CS_SYN_SENT \<Rightarrow> Some (if how \<noteq> SHUT_RD then backoff_rto_for_close E h s else (h, s))
         | CS_CONNECTED \<Rightarrow>
             if how \<noteq> SHUT_RD \<and> \<not> fin_sent (send s) then send_fin E h s else Some (h, s)
         | CS_CONNECTED_FULL \<Rightarrow>
             if how \<noteq> SHUT_RD \<and> \<not> fin_sent (send s) then send_fin E h s else Some (h, s)
         | _ \<Rightarrow> Some (h, s))"

definition socket_close :: "env \<Rightarrow> UtpContext \<Rightarrow> UtpSocket \<Rightarrow> (UtpContext \<times> UtpSocket) option" where
  "socket_close E h s =
     do {
       c_assert (ndebug (bld E)) (state (conn s) \<noteq> CS_UNINITIALIZED \<and> state (conn s) \<noteq> CS_DESTROY);
       state_close E h s
     }"

definition socket_shutdown ::
  "env \<Rightarrow> shutdown_how \<Rightarrow> UtpContext \<Rightarrow> UtpSocket \<Rightarrow> (UtpContext \<times> UtpSocket) option" where
  "socket_shutdown E how h s =
     do {
       c_assert (ndebug (bld E)) (state (conn s) \<noteq> CS_UNINITIALIZED \<and> state (conn s) \<noteq> CS_DESTROY);
       state_shutdown E how h s
     }"

section \<open>Setting up a connection\<close>

text \<open>The loop that looks for a free connection id need not end.\<close>

partial_function (option) choose_seed :: "env \<Rightarrow> Address \<Rightarrow> UtpContext \<Rightarrow> (u32 \<times> UtpContext) option" where
  "choose_seed E psaddr h =
     (let (seed, h) = call_get_random E h; seed = seed AND 0xffff
      in if has_socket psaddr seed h then choose_seed E psaddr h else Some (seed, h))"

text \<open>
  Registering under a key that is taken fails an assertion; without assertions it would
  destroy the socket registered before, which is left without a result.
\<close>

definition register_socket :: "UtpSocket \<Rightarrow> UtpContext \<Rightarrow> UtpContext option" where
  "register_socket s h =
     (let key = \<lparr>key_addr = addr (conn s), key_recv_id = conn_id_recv (conn s)\<rparr>
      in do {
        ub_unless (map_of (sockets h) key = None);
        Some (h\<lparr>sockets := sockets h @ [(key, self s)]\<rparr>)
      })"

definition socket_initialize ::
  "env \<Rightarrow> sockaddr \<Rightarrow> u32 \<Rightarrow> bool \<Rightarrow> u32 \<Rightarrow> u32 \<Rightarrow> u32 \<Rightarrow> UtpContext \<Rightarrow> UtpSocket \<Rightarrow>
     (UtpContext \<times> UtpSocket) option" where
  "socket_initialize E sa salen need_seed_gen seed id_recv id_send h s =
     do {
       psaddr \<leftarrow> Address_set (endian E) (ndebug (bld E)) sa salen;
       (seed, id_recv, id_send, h) \<leftarrow>
         (if need_seed_gen
          then do {
            (seed, h) \<leftarrow> choose_seed E psaddr h;
            Some (seed, id_recv + seed, id_send + seed, h)
          }
          else Some (seed, id_recv, id_send, h));
       let s = s\<lparr>conn := (conn s)\<lparr>state := CS_IDLE, conn_seed := seed, conn_id_recv := id_recv,
                                   conn_id_send := id_send, addr := psaddr\<rparr>\<rparr>;
       let h = refresh_clock E h;
       let s = set_timing (\<lambda>t. t\<lparr>last_got_packet := current_ms h, last_sent_packet := current_ms h,
                                 last_measured_delay := current_ms h + 0x70000000\<rparr>) s;
       c \<leftarrow> init_timing (current_ms h) (cc s);
       let s = s\<lparr>cc := init_delay_histories (current_ms h) c\<rparr>;
       let (m, h) = get_udp_mtu E h s;
       d \<leftarrow> mtu_reset (ndebug (bld E)) (ucast m) (current_ms h) (mtu s);
       let s = s\<lparr>mtu := set_last_to_ceiling d\<rparr>;
       h \<leftarrow> register_socket s h;
       Some (h, set_cc (\<lambda>c. c\<lparr>max_window := get_packet_size s\<rparr>) s)
     }"

definition syn_header :: "UtpSocket \<Rightarrow> PacketFormatV1" where
  "syn_header s =
     (set_type ST_SYN (set_version 1 zero_pf))
       \<lparr>pf_ext := 0, pf_connid := ucast (conn_id_recv (conn s)),
        pf_windowsize := ucast (last_rcv_win (recv s)), pf_seq_nr := seq_nr (send s)\<rparr>"

definition socket_connect ::
  "env \<Rightarrow> sockaddr \<Rightarrow> u32 \<Rightarrow> UtpContext \<Rightarrow> UtpSocket \<Rightarrow> (int \<times> UtpContext \<times> UtpSocket) option" where
  "socket_connect E sa salen h s =
     do {
       c_assert (ndebug (bld E)) (state (conn s) = CS_UNINITIALIZED);
       if state (conn s) \<noteq> CS_UNINITIALIZED then Some (- 1, h, set_state CS_DESTROY s)
       else do {
         (h, s) \<leftarrow> socket_initialize E sa salen True 0 0 1 h s;
         c_assert (ndebug (bld E)) (cur_window_packets (send s) = 0);
         c_assert (ndebug (bld E)) (out_at (seq64 s) s = None);
         let s = set_state CS_SYN_SENT s;
         let h = refresh_clock E h;
         let s = set_cc (\<lambda>c. c\<lparr>retransmit_timeout := 3000\<rparr>) s;
         let s = set_cc (\<lambda>c. c\<lparr>rto_timeout := current_ms h + ucast (retransmit_timeout c)\<rparr>) s;
         (win, h) \<leftarrow> get_rcv_window E h s;
         let s = set_recv (\<lambda>r. r\<lparr>last_rcv_win := win\<rparr>) s;
         let (rnd, h) = call_get_random E h;
         let s = set_send (\<lambda>d. d\<lparr>seq_nr := ucast rnd\<rparr>) s;
         let pkt = new_OutgoingPacket\<lparr>opk_data := encode_pf (syn_header s), opk_transmissions := 0,
                                      opk_length := HEADER_SIZE, opk_payload := 0\<rparr>;
         ob \<leftarrow> sb_ensure_size (seq64 s) (window64 s) (outbuf (send s));
         ob \<leftarrow> sb_put (ndebug (bld E)) (seq64 s) pkt ob;
         let slot = seq64 s;
         let s = set_send (\<lambda>d. d\<lparr>outbuf := ob, seq_nr := seq_nr d + 1,
                                 cur_window_packets := cur_window_packets d + 1\<rparr>) s;
         (h, s) \<leftarrow> send_packet E slot h s;
         Some (0, h, s)
       }
     }"

definition accept_syn :: "env \<Rightarrow> u16 \<Rightarrow> UtpContext \<Rightarrow> UtpSocket \<Rightarrow> UtpContext \<times> UtpSocket" where
  "accept_syn E peer_seq h s =
     (let s = set_recv (\<lambda>r. r\<lparr>ack_nr := peer_seq\<rparr>) s;
          (rnd, h) = call_get_random E h;
          s = set_send (\<lambda>d. d\<lparr>seq_nr := ucast rnd\<rparr>) s;
          s = set_timing (\<lambda>t. t\<lparr>fast_resend_seq_nr := seq_nr (send s)\<rparr>) s
      in (h, set_state CS_SYN_RECV s))"

section \<open>Events from the network\<close>

definition on_reset :: "env \<Rightarrow> u64 \<Rightarrow> UtpContext \<Rightarrow> UtpSocket \<Rightarrow> UtpContext \<times> UtpSocket" where
  "on_reset E recv_len h s =
     (let s = set_state (if close_requested (send s) then CS_DESTROY else CS_RESET) s;
          (n, h) = get_udp_overhead E h s;
          h = emit (Ev_on_overhead_statistics (self s) False (recv_len + n) close_overhead) h;
          err = (if state (conn s) = CS_SYN_SENT then UTP_ECONNREFUSED else UTP_ECONNRESET)
      in (emit (Ev_on_error (self s) err) h, s))"

definition on_icmp_fragmentation :: "env \<Rightarrow> u16 \<Rightarrow> UtpContext \<Rightarrow> UtpSocket \<Rightarrow> UtpSocket option" where
  "on_icmp_fragmentation E next_hop_mtu h s =
     do {
       d \<leftarrow> (if 576 \<le> next_hop_mtu \<and> next_hop_mtu < 0x2000
             then handle_icmp_fragmentation (ndebug (bld E)) next_hop_mtu (current_ms h) (mtu s)
             else handle_icmp_unknown (ndebug (bld E)) (current_ms h) (mtu s));
       Some (s\<lparr>mtu := d\<rparr>)
     }"

definition on_icmp_error :: "UtpContext \<Rightarrow> UtpSocket \<Rightarrow> UtpContext \<times> UtpSocket" where
  "on_icmp_error h s =
     (if state (conn s) = CS_IDLE then (h, s)
      else let err = (if state (conn s) = CS_SYN_SENT then UTP_ECONNREFUSED else UTP_ECONNRESET);
               s = set_state (if close_requested (send s) then CS_DESTROY else CS_RESET) s
           in (emit (Ev_on_error (self s) err) h, s))"

section \<open>Writing and reading\<close>

definition UTP_IOV_MAX :: nat where "UTP_IOV_MAX = 1024"

definition int_of_size :: "u64 \<Rightarrow> int" where
  "int_of_size n = to_i32 (uint n)"

partial_function (option) writev_loop ::
  "env \<Rightarrow> u64 \<Rightarrow> u64 \<Rightarrow> u64 \<Rightarrow> u64 \<Rightarrow> bytes list \<Rightarrow> UtpContext \<Rightarrow> UtpSocket \<Rightarrow>
     (u64 \<times> UtpContext \<times> UtpSocket) option" where
  "writev_loop E packet_size bs sent num_to_send iovec h s =
     (let (full, s) = is_full (int_of_size num_to_send) h s
      in if full
         then (let (full, s) = is_full (- 1) h s
               in Some (sent, h, if full then set_state CS_CONNECTED_FULL s else s))
         else do {
           let bs = bs - num_to_send;
           let sent = sent + num_to_send;
           (iovec, h, s) \<leftarrow> write_outgoing_packet E num_to_send ST_DATA iovec h s;
           let num_to_send = min bs packet_size;
           if num_to_send = 0 then Some (sent, h, s)
           else writev_loop E packet_size bs sent num_to_send iovec h s
         })"

definition writev :: "env \<Rightarrow> bytes list \<Rightarrow> UtpContext \<Rightarrow> UtpSocket \<Rightarrow> (u64 \<times> UtpContext \<times> UtpSocket) option" where
  "writev E iovec_input h s =
     (let iovec = take UTP_IOV_MAX iovec_input;
          bs = of_nat (sum_list (map length iovec))
      in if \<not> writable (state (conn s)) then Some (0, h, s)
         else if fin_sent (send s) then Some (0, h, s)
         else let h = refresh_clock E h;
                  packet_size = get_packet_size s
              in writev_loop E packet_size bs 0 (min bs packet_size) iovec h s)"

definition read_drained :: "env \<Rightarrow> UtpContext \<Rightarrow> UtpSocket \<Rightarrow> (UtpContext \<times> UtpSocket) option" where
  "read_drained E h s =
     do {
       c_assert (ndebug (bld E)) (state (conn s) \<noteq> CS_UNINITIALIZED);
       if state (conn s) = CS_UNINITIALIZED then Some (h, s)
       else do {
         (rcvwin, h) \<leftarrow> get_rcv_window E h s;
         if last_rcv_win (recv s) < rcvwin
         then if last_rcv_win (recv s) = 0 then send_ack E False h s
              else Some (schedule_ack (refresh_clock E h) s, s)
         else Some (h, s)
       }
     }"

section \<open>The self-check\<close>

text \<open>\<open>check_invariant\<close> of a \<open>_DEBUG\<close> build: the sum over the last \<open>n\<close> numbers, and the two assertions.\<close>

primrec outstanding_bytes :: "nat \<Rightarrow> UtpSocket \<Rightarrow> u64" where
  "outstanding_bytes 0 s = 0"
| "outstanding_bytes (Suc i) s =
     (case out_at (seq64 s - of_nat i - 1) s of
        None \<Rightarrow> outstanding_bytes i s
      | Some p \<Rightarrow> if opk_transmissions p = 0 \<or> opk_need_resend p then outstanding_bytes i s
                  else outstanding_bytes i s + opk_payload p)"

definition check_invariant :: "env \<Rightarrow> UtpSocket \<Rightarrow> unit option" where
  "check_invariant E s =
     do {
       (if 0 < reorder_count (recv s)
        then c_assert (ndebug (bld E)) (sb_get (ucast (ack_nr (recv s)) + 1) (inbuf (recv s)) = None)
        else Some ());
       c_assert (ndebug (bld E)) (outstanding_bytes (unat (cur_window_packets (send s))) s = cur_window (cc s))
     }"

section \<open>The timer\<close>

text \<open>Every packet in flight is to be sent again; it no longer counts as in flight.\<close>

primrec mark_resend :: "env \<Rightarrow> nat \<Rightarrow> nat \<Rightarrow> UtpSocket \<Rightarrow> UtpSocket option" where
  "mark_resend E 0 i s = Some s"
| "mark_resend E (Suc n) i s =
     (let v = seq64 s - of_nat i - 1
      in case out_at v s of
           None \<Rightarrow> mark_resend E n (i + 1) s
         | Some p \<Rightarrow>
             if opk_transmissions p = 0 \<or> opk_need_resend p then mark_resend E n (i + 1) s
             else do {
               s \<leftarrow> cc_remove_in_flight E (opk_payload p) (set_out v (p\<lparr>opk_need_resend := True\<rparr>) s);
               mark_resend E n (i + 1) s
             })"

definition gives_up :: "UtpSocket \<Rightarrow> bool" where
  "gives_up s \<longleftrightarrow> 4 \<le> retransmit_count (cc s) \<or>
     (state (conn s) = CS_SYN_SENT \<and> 2 \<le> retransmit_count (cc s))"

text \<open>
  The handler of an expired retransmission timer; the boolean says that the connection ended
  and the caller returns.
\<close>

definition resend_oldest :: "env \<Rightarrow> UtpContext \<Rightarrow> UtpSocket \<Rightarrow> (UtpContext \<times> UtpSocket) option" where
  "resend_oldest E h s =
     (if 0 < cur_window_packets (send s)
      then do {
        let s = set_cc (\<lambda>c. c\<lparr>retransmit_count := retransmit_count c + 1\<rparr>) s;
        let s = set_timing (\<lambda>t. t\<lparr>fast_timeout := True, timeout_seq_nr := seq_nr (send s)\<rparr>) s;
        c_assert (ndebug (bld E)) (out_at (oldest64 s) s \<noteq> None);
        send_packet E (oldest64 s) h s
      }
      else Some (h, s))"

definition on_rto :: "env \<Rightarrow> UtpContext \<Rightarrow> UtpSocket \<Rightarrow> (bool \<times> UtpContext \<times> UtpSocket) option" where
  "on_rto E h s =
     do {
       (ignore_loss, d) \<leftarrow> handle_probe_timeout (ndebug (bld E)) (ucast (seq_nr (send s) - 1))
         (ucast (cur_window_packets (send s))) (current_ms h) (mtu s);
       let s = s\<lparr>mtu := d\<rparr>;
       let new_timeout = (if ignore_loss then retransmit_timeout (cc s)
                          else retransmit_timeout (cc s) * 2);
       if state (conn s) = CS_SYN_RECV
       then Some (True, emit (Ev_on_error (self s) UTP_ETIMEDOUT) h, set_state CS_DESTROY s)
       else if gives_up s
       then Some (True, emit (Ev_on_error (self s) UTP_ETIMEDOUT) h,
                  set_state (if close_requested (send s) then CS_DESTROY else CS_RESET) s)
       else do {
         let s = set_cc (\<lambda>c. c\<lparr>retransmit_timeout := new_timeout,
                               rto_timeout := current_ms h + ucast new_timeout\<rparr>) s;
         let s = (if \<not> ignore_loss
                  then set_cc (on_rto_timeout (current_ms h)
                         (word_of_int (int_of_size (get_packet_size s))) (cur_window_packets (send s)))
                         (s\<lparr>duplicate_ack := 0\<rparr>)
                  else s);
         s \<leftarrow> mark_resend E (unat (cur_window_packets (send s))) 0 s;
         let s = set_send (\<lambda>d. d\<lparr>flush_scan_start := seq_nr d - cur_window_packets d\<rparr>) s;
         (h, s) \<leftarrow> resend_oldest E h s;
         Some (False, h, s)
       }
     }"

definition zero_window_probe :: "UtpContext \<Rightarrow> UtpSocket \<Rightarrow> UtpSocket" where
  "zero_window_probe h s =
     (if 0 \<le> to_i32 (uint (current_ms h - zerowindow_time (cc s))) \<and> max_window_user (send s) = 0
      then set_send (\<lambda>d. d\<lparr>max_window_user := PACKET_SIZE\<rparr>) s else s)"

text \<open>The comparison with the interval is one of unsigned integers.\<close>

definition keep_alive_due :: "UtpContext \<Rightarrow> UtpSocket \<Rightarrow> bool" where
  "keep_alive_due h s \<longleftrightarrow>
     4 \<le> state_number (state (conn s)) \<and> \<not> fin_sent (send s) \<and>
     KEEPALIVE_INTERVAL \<le> ucast (current_ms h - last_sent_packet (timing s))"

definition socket_check_timeouts :: "env \<Rightarrow> UtpContext \<Rightarrow> UtpSocket \<Rightarrow> (UtpContext \<times> UtpSocket) option" where
  "socket_check_timeouts E h s =
     do {
       c_assert (ndebug (bld E)) (cur_window_packets (send s) = 0 \<or> out_at (oldest64 s) s \<noteq> None);
       (h, s) \<leftarrow>
         (if state (conn s) \<noteq> CS_DESTROY
          then do {
            (full, h, s) \<leftarrow> flush_packets E h s;
            Some (h, s)
          }
          else Some (h, s));
       if \<not> timeout_active (state (conn s)) then Some (h, s)
       else do {
         let s = zero_window_probe h s;
         (ended, h, s) \<leftarrow> (if is_rto_expired (current_ms h) (cc s) then on_rto E h s else Some (False, h, s));
         if ended then Some (h, s)
         else do {
           let (h, s) = leave_full h s;
           if keep_alive_due h s then send_keep_alive E h s else Some (h, s)
         }
       }
     }"

section \<open>Options and queries\<close>

datatype utp_option =
    UTP_LOG_NORMAL
  | UTP_LOG_MTU
  | UTP_LOG_DEBUG
  | UTP_SNDBUF
  | UTP_RCVBUF
  | UTP_TARGET_DELAY
  | UTP_other_option int

definition socket_set_option ::
  "bool \<Rightarrow> utp_option \<Rightarrow> int \<Rightarrow> UtpSocket \<Rightarrow> (int \<times> UtpSocket) option" where
  "socket_set_option nd opt val s =
     (case opt of
        UTP_SNDBUF \<Rightarrow> do {
          c_assert nd (1 \<le> val);
          Some (0, set_send (\<lambda>d. d\<lparr>opt_sndbuf := word_of_int val\<rparr>) s)
        }
      | UTP_RCVBUF \<Rightarrow> do {
          c_assert nd (1 \<le> val);
          Some (0, set_recv (\<lambda>r. r\<lparr>opt_rcvbuf := word_of_int val\<rparr>) s)
        }
      | UTP_TARGET_DELAY \<Rightarrow> Some (0, s\<lparr>conn := (conn s)\<lparr>conn_target_delay := word_of_int val\<rparr>\<rparr>)
      | _ \<Rightarrow> Some (- 1, s))"

definition socket_get_option :: "utp_option \<Rightarrow> UtpSocket \<Rightarrow> int" where
  "socket_get_option opt s =
     (case opt of
        UTP_SNDBUF \<Rightarrow> int_of_size (opt_sndbuf (send s))
      | UTP_RCVBUF \<Rightarrow> int_of_size (opt_rcvbuf (recv s))
      | UTP_TARGET_DELAY \<Rightarrow> int_of_size (conn_target_delay (conn s))
      | _ \<Rightarrow> - 1)"

text \<open>The address of the peer and the length copied, or the error code with nothing copied.\<close>

definition get_peername :: "env \<Rightarrow> u32 \<Rightarrow> UtpSocket \<Rightarrow> (int \<times> (sockaddr \<times> u32) option) option" where
  "get_peername E addrlen s =
     do {
       c_assert (ndebug (bld E)) (state (conn s) \<noteq> CS_UNINITIALIZED);
       if state (conn s) = CS_UNINITIALIZED then Some (- 1, None)
       else let (sa, len) = get_sockaddr_storage (endian E) (addr (conn s))
            in Some (0, Some (sa, min len addrlen))
     }"

definition get_delays :: "env \<Rightarrow> UtpContext \<Rightarrow> UtpSocket \<Rightarrow> (int \<times> u32 \<times> u32 \<times> u32) option" where
  "get_delays E h s =
     do {
       c_assert (ndebug (bld E)) (state (conn s) \<noteq> CS_UNINITIALIZED);
       if state (conn s) = CS_UNINITIALIZED then Some (- 1, 0, 0, 0)
       else Some (0, get_value (our_hist (cc s)), get_value (their_hist (cc s)),
                  ucast (current_ms h - last_measured_delay (timing s)))
     }"

end
