(* ===== verification/Utp_Context.thy ===== *)
theory Utp_Context
  imports Socket_Api "HOL-Library.AList"
begin

text \<open>
  The context as a whole: the registry of sockets and their destruction, the routing of
  datagrams and ICMP messages (\<^verbatim>\<open>src/utp_process.cpp\<close>), the timer and the deferred
  acknowledgements (\<^verbatim>\<open>src/utp_context.cpp\<close>). A \<open>world\<close> is a context with the sockets that exist,
  by their numbers; following a pointer to a socket that does not exist has no result. The
  order in which an \<open>unordered_map\<close> is walked is an argument of the operations that walk it.
\<close>

section \<open>Sockets as heap objects\<close>

record world =
  ctx :: UtpContext
  heap :: "nat \<Rightarrow> UtpSocket option"
  next_socket :: nat

definition new_world :: world where
  "new_world = \<lparr>ctx = new_UtpContext, heap = (\<lambda>_. None), next_socket = 0\<rparr>"

definition upd_ctx :: "(UtpContext \<Rightarrow> UtpContext) \<Rightarrow> world \<Rightarrow> world" where
  "upd_ctx f w = w\<lparr>ctx := f (ctx w)\<rparr>"

text \<open>Run an operation of the socket with number \<open>n\<close>.\<close>

definition on_socket ::
  "nat \<Rightarrow> (UtpContext \<Rightarrow> UtpSocket \<Rightarrow> ('a \<times> UtpContext \<times> UtpSocket) option) \<Rightarrow> world \<Rightarrow> ('a \<times> world) option" where
  "on_socket n f w =
     do {
       s \<leftarrow> heap w n;
       (r, h, s) \<leftarrow> f (ctx w) s;
       Some (r, w\<lparr>ctx := h, heap := (heap w)(n \<mapsto> s)\<rparr>)
     }"

definition no_result :: "('h \<Rightarrow> 's \<Rightarrow> ('h \<times> 's) option) \<Rightarrow> 'h \<Rightarrow> 's \<Rightarrow> (unit \<times> 'h \<times> 's) option" where
  "no_result f h s = map_option (Pair ()) (f h s)"

definition create_socket :: "world \<Rightarrow> nat \<times> world" where
  "create_socket w =
     (let n = next_socket w;
          h = (ctx w)\<lparr>ack_index := (ack_index (ctx w))(n := - 1)\<rparr>
      in (n, \<lparr>ctx = h, heap = (heap w)(n \<mapsto> new_UtpSocket n h), next_socket = n + 1\<rparr>))"

text \<open>The destructor of a socket, after which its number names nothing.\<close>

definition delete_socket :: "env \<Rightarrow> nat \<Rightarrow> world \<Rightarrow> world option" where
  "delete_socket E n w =
     do {
       s \<leftarrow> heap w n;
       let h = emit (Ev_on_state_change n UTP_STATE_DESTROYING) (ctx w);
       let h = on_socket_destroyed n h;
       h \<leftarrow> remove_from_ack_list E h s;
       Some (w\<lparr>ctx := h, heap := (heap w)(n := None)\<rparr>)
     }"

definition socket_key :: "UtpSocket \<Rightarrow> UtpSocketKey" where
  "socket_key s = \<lparr>key_addr = addr (conn s), key_recv_id = conn_id_recv (conn s)\<rparr>"

definition destroy_socket :: "env \<Rightarrow> nat \<Rightarrow> world \<Rightarrow> world option" where
  "destroy_socket E n w =
     do {
       s \<leftarrow> heap w n;
       let it = map_of (sockets (ctx w)) (socket_key s);
       c_assert (ndebug (bld E)) (it = Some n);
       case it of
         None \<Rightarrow> Some w
       | Some dying \<Rightarrow>
           delete_socket E dying
             (upd_ctx (\<lambda>h. h\<lparr>sockets := AList.delete (socket_key s) (sockets h)\<rparr>) w)
     }"

text \<open>The destructor of the context deletes the registered sockets.\<close>

primrec delete_all :: "env \<Rightarrow> nat list \<Rightarrow> world \<Rightarrow> world option" where
  "delete_all E [] w = Some w"
| "delete_all E (n # ns) w = delete_socket E n w \<bind> delete_all E ns"

definition delete_context :: "env \<Rightarrow> (nat list \<Rightarrow> nat list) \<Rightarrow> world \<Rightarrow> world option" where
  "delete_context E order w =
     delete_all E (order (map snd (sockets (ctx w)))) (upd_ctx (\<lambda>h. h\<lparr>sockets := []\<rparr>) w)"

section \<open>Deferred acknowledgements\<close>

text \<open>\<open>send_ack\<close> takes the socket off the list, so the index is stepped back each time.\<close>

partial_function (option) issue_loop :: "env \<Rightarrow> u64 \<Rightarrow> world \<Rightarrow> world option" where
  "issue_loop E i w =
     (if i < of_nat (length (ack_sockets (ctx w)))
      then do {
        (_, w) \<leftarrow> on_socket (ack_sockets (ctx w) ! unat i) (no_result (send_ack E False)) w;
        let i = i - 1;
        issue_loop E (i + 1) w
      }
      else Some w)"

definition issue_deferred_acks :: "env \<Rightarrow> world \<Rightarrow> world option" where
  "issue_deferred_acks E w = issue_loop E 0 w"

section \<open>The timer\<close>

text \<open>The age is compared as an unsigned integer.\<close>

definition rst_expired :: "u64 \<Rightarrow> RstInfo \<Rightarrow> bool" where
  "rst_expired now r \<longleftrightarrow> RST_INFO_TIMEOUT \<le> ucast (now - rst_timestamp r)"

function expire_loop :: "u64 \<Rightarrow> nat \<Rightarrow> RstInfo list \<Rightarrow> RstInfo list" where
  "expire_loop now i rs =
     (if i < length rs
      then if rst_expired now (rs ! i) then expire_loop now i (butlast (rs[i := last rs]))
           else expire_loop now (i + 1) rs
      else rs)"
  by pat_completeness auto
termination
  by (relation "measure (\<lambda>(now, i, rs). length rs - i)") auto

declare expire_loop.simps [simp del]

primrec timeout_loop :: "env \<Rightarrow> nat list \<Rightarrow> world \<Rightarrow> world option" where
  "timeout_loop E [] w = Some w"
| "timeout_loop E (n # ns) w =
     do {
       (_, w) \<leftarrow> on_socket n (no_result (socket_check_timeouts E)) w;
       s \<leftarrow> heap w n;
       w \<leftarrow> (if state (conn s) = CS_DESTROY then destroy_socket E n w else Some w);
       timeout_loop E ns w
     }"

definition context_check_timeouts :: "env \<Rightarrow> (nat list \<Rightarrow> nat list) \<Rightarrow> world \<Rightarrow> world option" where
  "context_check_timeouts E order w =
     (let w = upd_ctx (refresh_clock E) w;
          now = current_ms (ctx w)
      in if now - last_check (ctx w) < ucast TIMEOUT_CHECK_INTERVAL then Some w
         else let w = upd_ctx (\<lambda>h. h\<lparr>last_check := now, rst_info := expire_loop now 0 (rst_info h)\<rparr>) w
              in timeout_loop E (order (map snd (sockets (ctx w)))) w)"

section \<open>Finding the socket of a packet\<close>

definition UTP_Version :: "PacketFormatV1 \<Rightarrow> u8" where
  "UTP_Version pf = (if pf_type pf < ST_NUM_STATES \<and> pf_ext pf < 3 then pf_version pf else 0)"

definition lookup_socket :: "Address \<Rightarrow> u32 \<Rightarrow> world \<Rightarrow> nat option" where
  "lookup_socket a cid w = map_of (sockets (ctx w)) \<lparr>key_addr = a, key_recv_id = cid\<rparr>"

text \<open>Whether the socket registered under an id sends with the id \<open>cid\<close>.\<close>

definition sends_with :: "Address \<Rightarrow> u32 \<Rightarrow> u32 \<Rightarrow> world \<Rightarrow> nat option option" where
  "sends_with a rid cid w =
     (case lookup_socket a rid w of
        None \<Rightarrow> Some None
      | Some n \<Rightarrow> do {
          s \<leftarrow> heap w n;
          Some (if conn_id_send (conn s) = cid then Some n else None)
        })"

definition find_socket_for_id :: "Address \<Rightarrow> u32 \<Rightarrow> world \<Rightarrow> nat option option" where
  "find_socket_for_id a cid w =
     (case lookup_socket a cid w of
        Some n \<Rightarrow> Some (Some n)
      | None \<Rightarrow> do {
          up \<leftarrow> sends_with a (cid + 1) cid w;
          case up of
            Some n \<Rightarrow> Some (Some n)
          | None \<Rightarrow> sends_with a (cid - 1) cid w
        })"

definition parse_icmp_payload :: "env \<Rightarrow> bytes \<Rightarrow> sockaddr \<Rightarrow> u32 \<Rightarrow> world \<Rightarrow> nat option option" where
  "parse_icmp_payload E buffer to tolen w =
     do {
       a \<leftarrow> Address_set (endian E) (ndebug (bld E)) to tolen;
       if length buffer < PF_SIZE then Some None
       else do {
         pf \<leftarrow> decode_pf buffer;
         if UTP_Version pf \<noteq> 1 then Some None
         else find_socket_for_id a (ucast (pf_connid pf)) w
       }
     }"

definition process_icmp_fragmentation ::
  "env \<Rightarrow> bytes \<Rightarrow> sockaddr \<Rightarrow> u32 \<Rightarrow> u16 \<Rightarrow> world \<Rightarrow> (int \<times> world) option" where
  "process_icmp_fragmentation E buffer to tolen next_hop_mtu w =
     do {
       c \<leftarrow> parse_icmp_payload E buffer to tolen w;
       case c of
         None \<Rightarrow> Some (0, w)
       | Some n \<Rightarrow> do {
           (_, w) \<leftarrow> on_socket n (no_result (\<lambda>h s. map_option (Pair h) (on_icmp_fragmentation E next_hop_mtu h s))) w;
           Some (1, w)
         }
     }"

definition process_icmp_error :: "env \<Rightarrow> bytes \<Rightarrow> sockaddr \<Rightarrow> u32 \<Rightarrow> world \<Rightarrow> (int \<times> world) option" where
  "process_icmp_error E buffer to tolen w =
     do {
       c \<leftarrow> parse_icmp_payload E buffer to tolen w;
       case c of
         None \<Rightarrow> Some (0, w)
       | Some n \<Rightarrow> do {
           (_, w) \<leftarrow> on_socket n (no_result (\<lambda>h s. Some (on_icmp_error h s))) w;
           Some (1, w)
         }
     }"

section \<open>Routing a datagram\<close>

text \<open>The cached socket when it matches, else the registered one, which is cached.\<close>

definition find_connection :: "Address \<Rightarrow> u32 \<Rightarrow> world \<Rightarrow> (nat option \<times> world) option" where
  "find_connection a cid w =
     do {
       cached \<leftarrow>
         (case last_utp_socket (ctx w) of
            None \<Rightarrow> Some None
          | Some n \<Rightarrow> do {
              s \<leftarrow> heap w n;
              Some (if addr (conn s) = a \<and> conn_id_recv (conn s) = cid then Some n else None)
            });
       Some (case cached of
               Some n \<Rightarrow> (Some n, w)
             | None \<Rightarrow>
                 (case lookup_socket a cid w of
                    None \<Rightarrow> (None, w)
                  | Some n \<Rightarrow> (Some n, upd_ctx (\<lambda>h. h\<lparr>last_utp_socket := Some n\<rparr>) w)))
     }"

text \<open>The bytes of a received packet that were not payload are overhead.\<close>

definition recv_overhead :: "env \<Rightarrow> u64 \<Rightarrow> u64 \<Rightarrow> UtpContext \<Rightarrow> UtpSocket \<Rightarrow> UtpContext" where
  "recv_overhead E len rd h s =
     (let (n, h) = get_udp_overhead E h s
      in emit (Ev_on_overhead_statistics (self s) False (len - rd + n) header_overhead) h)"

definition receive_on :: "env \<Rightarrow> bytes \<Rightarrow> UtpContext \<Rightarrow> UtpSocket \<Rightarrow> (UtpContext \<times> UtpSocket) option" where
  "receive_on E buffer h s =
     do {
       (rd, h, s) \<leftarrow> process_incoming E buffer False h s;
       Some (recv_overhead E (of_nat (length buffer)) rd h s, s)
     }"

text \<open>Refresh the first stored reset that answers the packet, when there is one.\<close>

definition rst_matches :: "Address \<Rightarrow> u32 \<Rightarrow> u16 \<Rightarrow> RstInfo \<Rightarrow> bool" where
  "rst_matches a cid sq r \<longleftrightarrow> rst_connid r = cid \<and> rst_addr r = a \<and> rst_ack_nr r = sq"

fun refresh_rst :: "(RstInfo \<Rightarrow> bool) \<Rightarrow> u64 \<Rightarrow> RstInfo list \<Rightarrow> RstInfo list option" where
  "refresh_rst p now [] = None"
| "refresh_rst p now (r # rs) =
     (if p r then Some (r\<lparr>rst_timestamp := now\<rparr> # rs)
      else map_option (Cons r) (refresh_rst p now rs))"

definition reject_unknown :: "env \<Rightarrow> Address \<Rightarrow> u32 \<Rightarrow> u16 \<Rightarrow> UtpContext \<Rightarrow> UtpContext option" where
  "reject_unknown E a cid sq h =
     (let h = refresh_clock E h
      in case refresh_rst (rst_matches a cid sq) (current_ms h) (rst_info h) of
           Some rs \<Rightarrow> Some (h\<lparr>rst_info := rs\<rparr>)
         | None \<Rightarrow>
             if unat RST_INFO_LIMIT < length (rst_info h) then Some h
             else let h = h\<lparr>rst_info := rst_info h @
                        [\<lparr>rst_addr = a, rst_connid = cid, rst_ack_nr = sq, rst_timestamp = current_ms h\<rparr>]\<rparr>;
                      (rnd, h) = call_get_random E h
                  in send_rst E a cid sq (ucast rnd) h)"

definition MAX_SOCKETS :: nat where "MAX_SOCKETS = 3000"

definition answer_syn ::
  "env \<Rightarrow> sockaddr \<Rightarrow> u32 \<Rightarrow> u32 \<Rightarrow> u16 \<Rightarrow> bytes \<Rightarrow> UtpContext \<Rightarrow> UtpSocket \<Rightarrow> (UtpContext \<times> UtpSocket) option" where
  "answer_syn E to tolen cid sq buffer h s =
     do {
       (h, s) \<leftarrow> socket_initialize E to tolen False cid (cid + 1) cid h s;
       let (h, s) = accept_syn E sq h s;
       (rd, h, s) \<leftarrow> process_incoming E buffer True h s;
       (h, s) \<leftarrow> send_ack E True h s;
       let h = emit (Ev_on_accept (self s) to) h;
       let h = recv_overhead E (of_nat (length buffer)) rd h s;
       let (n, h) = get_overhead E h s;
       Some (emit (Ev_on_overhead_statistics (self s) True n ack_overhead) h, s)
     }"

definition process_syn ::
  "env \<Rightarrow> sockaddr \<Rightarrow> u32 \<Rightarrow> Address \<Rightarrow> u32 \<Rightarrow> u16 \<Rightarrow> bytes \<Rightarrow> world \<Rightarrow> world option" where
  "process_syn E to tolen a cid sq buffer w =
     (if lookup_socket a (cid + 1) w \<noteq> None then Some w
      else if MAX_SOCKETS < length (sockets (ctx w)) then Some w
      else let (blocked, h) = call_on_firewall E to (ctx w);
               w = w\<lparr>ctx := h\<rparr>
           in if blocked then Some w
              else do {
                let (n, w) = create_socket w;
                (_, w) \<leftarrow> on_socket n (no_result (answer_syn E to tolen cid sq buffer)) w;
                Some w
              })"

definition process_reset :: "env \<Rightarrow> Address \<Rightarrow> u32 \<Rightarrow> u64 \<Rightarrow> world \<Rightarrow> world option" where
  "process_reset E a cid len w =
     do {
       c \<leftarrow> find_socket_for_id a cid w;
       case c of
         None \<Rightarrow> Some w
       | Some n \<Rightarrow> do {
           (_, w) \<leftarrow> on_socket n (no_result (\<lambda>h s. Some (on_reset E len h s))) w;
           Some w
         }
     }"

definition process_udp :: "env \<Rightarrow> bytes \<Rightarrow> sockaddr \<Rightarrow> u32 \<Rightarrow> world \<Rightarrow> (int \<times> world) option" where
  "process_udp E buffer to tolen w =
     do {
       a \<leftarrow> Address_set (endian E) (ndebug (bld E)) to tolen;
       if length buffer < PF_SIZE then Some (0, w)
       else do {
         pf \<leftarrow> decode_pf buffer;
         let cid = ucast (pf_connid pf);
         let sq = pf_seq_nr pf;
         if UTP_Version pf \<noteq> 1 then Some (0, w)
         else if pf_type pf = ST_RESET
         then do {
           w \<leftarrow> process_reset E a cid (of_nat (length buffer)) w;
           Some (1, w)
         }
         else if pf_type pf \<noteq> ST_SYN
         then do {
           (c, w) \<leftarrow> find_connection a cid w;
           case c of
             Some n \<Rightarrow> do {
               (_, w) \<leftarrow> on_socket n (no_result (receive_on E buffer)) w;
               Some (1, w)
             }
           | None \<Rightarrow> do {
               h \<leftarrow> reject_unknown E a cid sq (ctx w);
               Some (1, w\<lparr>ctx := h\<rparr>)
             }
         }
         else do {
           w \<leftarrow> process_syn E to tolen a cid sq buffer w;
           Some (1, w)
         }
       }
     }"

section \<open>Options\<close>

definition would_log :: "utp_option \<Rightarrow> UtpContext \<Rightarrow> bool" where
  "would_log level h =
     (case level of
        UTP_LOG_NORMAL \<Rightarrow> log_normal h
      | UTP_LOG_MTU \<Rightarrow> log_mtu h
      | UTP_LOG_DEBUG \<Rightarrow> log_debug h
      | _ \<Rightarrow> True)"

definition context_set_option ::
  "bool \<Rightarrow> utp_option \<Rightarrow> int \<Rightarrow> UtpContext \<Rightarrow> (int \<times> UtpContext) option" where
  "context_set_option nd opt val h =
     (case opt of
        UTP_LOG_NORMAL \<Rightarrow> Some (0, h\<lparr>log_normal := (val \<noteq> 0)\<rparr>)
      | UTP_LOG_MTU \<Rightarrow> Some (0, h\<lparr>log_mtu := (val \<noteq> 0)\<rparr>)
      | UTP_LOG_DEBUG \<Rightarrow> Some (0, h\<lparr>log_debug := (val \<noteq> 0)\<rparr>)
      | UTP_TARGET_DELAY \<Rightarrow> Some (0, h\<lparr>target_delay := word_of_int val\<rparr>)
      | UTP_SNDBUF \<Rightarrow> do {
          c_assert nd (1 \<le> val);
          Some (0, h\<lparr>ctx_sndbuf := word_of_int val\<rparr>)
        }
      | UTP_RCVBUF \<Rightarrow> do {
          c_assert nd (1 \<le> val);
          Some (0, h\<lparr>ctx_rcvbuf := word_of_int val\<rparr>)
        }
      | _ \<Rightarrow> Some (- 1, h))"

definition context_get_option :: "utp_option \<Rightarrow> UtpContext \<Rightarrow> int" where
  "context_get_option opt h =
     (case opt of
        UTP_LOG_NORMAL \<Rightarrow> (if log_normal h then 1 else 0)
      | UTP_LOG_MTU \<Rightarrow> (if log_mtu h then 1 else 0)
      | UTP_LOG_DEBUG \<Rightarrow> (if log_debug h then 1 else 0)
      | UTP_TARGET_DELAY \<Rightarrow> int_of_size (target_delay h)
      | UTP_SNDBUF \<Rightarrow> int_of_size (ctx_sndbuf h)
      | UTP_RCVBUF \<Rightarrow> int_of_size (ctx_rcvbuf h)
      | _ \<Rightarrow> - 1)"

end
