(* ===== verification/Parse_Correct.thy ===== *)
theory Parse_Correct
  imports Socket_Recv
begin

section \<open>Parsing stays in the packet\<close>

definition chain_ok :: "bytes \<Rightarrow> nat \<Rightarrow> nat option \<Rightarrow> bool" where
  "chain_ok packet payload sel \<longleftrightarrow> payload \<le> length packet \<and>
     (case sel of None \<Rightarrow> True
      | Some pos \<Rightarrow> 0 < pos \<and> pos - 1 < length packet \<and> pos + unat (packet ! (pos - 1)) \<le> payload)"

lemma bytes_left:
  "length packet < 2 ^ 31 \<Longrightarrow> p \<le> length packet + 2 \<Longrightarrow>
   to_i32 (int (length packet) - int p) = int (length packet) - int p"
  unfolding to_i32_def by (rule signed_take_bit_int_eq_self) simp_all

text \<open>One extension of the chain, when its header and its bytes are in the packet.\<close>

lemma ext_loop_step:
  assumes small: "length packet < 2 ^ 31" and p: "p \<le> length packet"
  shows "ext_loop packet p ext sel exts =
    (if length packet < p + 2 \<or> length packet < p + 2 + unat (packet ! (p + 1)) \<or>
        (ext = 2 \<and> packet ! (p + 1) \<noteq> 8)
     then Some (None, exts)
     else let payload = p + 2 + unat (packet ! (p + 1));
              exts = (if ext = 2 then take 8 (drop (p + 2) packet) else exts);
              sel = (if ext = 1 then Some (p + 2) else sel)
          in if packet ! p \<noteq> 0 then ext_loop packet payload (packet ! p) sel exts
             else Some (Some (payload, sel), exts))"
proof (cases "length packet < p + 2")
  case True
  then show ?thesis
    using bytes_left [OF small, of "p + 2"] p by (subst ext_loop.simps) (simp add: Let_def)
next
  case F: False
  define len where "len = packet ! (p + 1)"
  have b1: "byte_at (p + 2 - 1) packet = Some len" using F by (simp add: byte_at_def len_def)
  have b2: "byte_at (p + 2 - 2) packet = Some (packet ! p)" using F by (simp add: byte_at_def)
  have left: "to_i32 (int (length packet) - int (p + 2)) = int (length packet) - int (p + 2)"
    by (rule bytes_left [OF small]) (use p in simp)
  have lt: "int (length packet) - int (p + 2) < uint len \<longleftrightarrow> length packet < p + 2 + unat len"
    using F unfolding uint_nat by linarith
  have lt0: "\<not> int (length packet) - int (p + 2) < 0" using F by linarith
  have rd: "(if ext = 2 then read_bytes (p + 2) 8 packet else Some exts) =
      Some (if ext = 2 then take 8 (drop (p + 2) packet) else exts)"
    if "\<not> length packet < p + 2 + unat len" "\<not> (ext = 2 \<and> len \<noteq> 8)"
    using that by (cases "ext = 2") (simp_all add: read_bytes_def)
  note unfolds = Let_def left lt lt0 b1 option.case if_False if_True simp_thms len_def [symmetric]
  show ?thesis
  proof (cases "length packet < p + 2 + unat len \<or> (ext = 2 \<and> len \<noteq> 8)")
    case True
    then show ?thesis
      using F by (subst ext_loop.simps) (auto simp only: unfolds split: if_split)
  next
    case False
    then show ?thesis
      using F rd by (subst ext_loop.simps) (simp only: unfolds b2 de_Morgan_disj)
  qed
qed

lemma ext_loop_in_bounds:
  assumes "length packet < 2 ^ 31" and "chain_ok packet p sel" and "length exts = 8"
  shows "\<exists>r exts'. ext_loop packet p ext sel exts = Some (r, exts') \<and> length exts' = 8 \<and>
    (case r of None \<Rightarrow> True | Some (payload, sel') \<Rightarrow> p \<le> payload \<and> chain_ok packet payload sel')"
  using assms(2,3)
proof (induction "length packet - p" arbitrary: p ext sel exts rule: less_induct)
  case less
  have p: "p \<le> length packet" using less.prems(1) by (simp add: chain_ok_def)
  note step = ext_loop_step [OF assms(1) p, of ext sel exts]
  let ?len = "packet ! (p + 1)"
  show ?case
  proof (cases "length packet < p + 2 \<or> length packet < p + 2 + unat ?len \<or> (ext = 2 \<and> ?len \<noteq> 8)")
    case True
    then show ?thesis using step less.prems(2) by simp
  next
    case False
    let ?p = "p + 2 + unat ?len" and ?sel = "if ext = 1 then Some (p + 2) else sel"
      and ?exts = "if ext = 2 then take 8 (drop (p + 2) packet) else exts"
    have le: "?p \<le> length packet" using False by linarith
    have ok: "chain_ok packet ?p ?sel"
      using less.prems(1) le by (cases sel) (simp_all add: chain_ok_def)
    have "p + 2 + 8 \<le> length packet" if "ext = 2"
    proof -
      have "?len = 8" using False that by blast
      with le show ?thesis by simp
    qed
    then have l8: "length ?exts = 8" using less.prems(2) by (auto simp: min_def)
    show ?thesis
    proof (cases "packet ! p = 0")
      case True
      then have "ext_loop packet p ext sel exts = Some (Some (?p, ?sel), ?exts)"
        unfolding step Let_def using False by (simp only: if_False if_True simp_thms)
      then show ?thesis using ok l8 by auto
    next
      case nz: False
      have "\<exists>r exts'. ext_loop packet ?p (packet ! p) ?sel ?exts = Some (r, exts') \<and> length exts' = 8 \<and>
          (case r of None \<Rightarrow> True | Some (payload, sel') \<Rightarrow> ?p \<le> payload \<and> chain_ok packet payload sel')"
        by (rule less.hyps) (use le ok l8 in simp_all)
      then obtain r exts' where r: "ext_loop packet ?p (packet ! p) ?sel ?exts = Some (r, exts')"
        "length exts' = 8"
        "case r of None \<Rightarrow> True | Some (payload, sel') \<Rightarrow> ?p \<le> payload \<and> chain_ok packet payload sel'"
        by (elim exE conjE) (rule that)
      have "ext_loop packet p ext sel exts = Some (r, exts')"
        unfolding step Let_def using False nz r(1) by (simp only: if_False if_True simp_thms)
      with r(2,3) show ?thesis by (cases r) auto
    qed
  qed
qed


text \<open>A parsed packet points into the bytes it was parsed from, its bitmap included.\<close>

definition points_inside :: "bytes \<Rightarrow> ParsedPacket \<Rightarrow> bool" where
  "points_inside packet pp \<longleftrightarrow> pp_bytes pp = packet \<and> pp_end pp = length packet \<and>
     20 \<le> pp_payload pp \<and> pp_payload pp \<le> length packet \<and> pp_type pp < ST_NUM_STATES \<and>
     (\<forall>pos. pp_selack pp = Some pos \<longrightarrow> (\<exists>len. selack_len pos pp = Some len \<and>
        (\<forall>bits < 8 * unat len. mask_bit (selack_mask pos pp) bits \<noteq> None)))"

lemma parse_packet_returns:
  assumes "20 \<le> length packet" and "length packet < 2 ^ 31" and "length (extensions (conn s)) = 8"
  obtains r s' where "parse_packet packet s = Some (r, s')" and "length (extensions (conn s')) = 8"
    and "s' = s\<lparr>conn := (conn s)\<lparr>extensions := extensions (conn s')\<rparr>\<rparr>" and "\<And>pp. r = Some pp \<Longrightarrow> points_inside packet pp"
proof -
  obtain pf where pf: "decode_pf packet = Some pf"
    using assms(1) decode_pf_None_iff [of packet] by (cases "decode_pf packet") auto
  have hs: "unat HEADER_SIZE = 20" by (simp add: HEADER_SIZE_def PF_SIZE_def)
  have start: "chain_ok packet 20 None" using assms(1) by (simp add: chain_ok_def)
  obtain r exts where r: "(if pf_ext pf \<noteq> 0 then ext_loop packet 20 (pf_ext pf) None (extensions (conn s))
      else Some (Some (20, None), extensions (conn s))) = Some (r, exts)" and l8: "length exts = 8"
    and ok: "case r of None \<Rightarrow> True | Some (payload, sel) \<Rightarrow> 20 \<le> payload \<and> chain_ok packet payload sel"
    using ext_loop_in_bounds [OF assms(2) start assms(3), of "pf_ext pf"] start assms(3)
    by (cases "pf_ext pf = 0") auto
  show thesis
  proof (cases "ST_NUM_STATES \<le> pf_type pf")
    case True
    show thesis by (rule that [of None s]) (use True pf assms(3) in \<open>simp_all add: parse_packet_def\<close>)
  next
    case False
    let ?pp = "map_option (\<lambda>(payload, sel). \<lparr>pp_bytes = packet, pp_payload = payload, pp_end = length packet,
      pp_selack = sel, pp_seq_nr = pf_seq_nr pf, pp_ack_nr = pf_ack_nr pf, pp_type = pf_type pf,
      pp_timestamp = pf_tv_usec pf, pp_reply_micro = pf_reply_micro pf, pp_windowsize = pf_windowsize pf\<rparr>) r"
    have pk: "parse_packet packet s = Some (?pp, s\<lparr>conn := (conn s)\<lparr>extensions := exts\<rparr>\<rparr>)"
      unfolding parse_packet_def using pf False assms(1) r
      by (simp only: hs bind.bind_lunit if_False not_less [THEN iffD2] prod.case Let_def)
    have pi: "points_inside packet pp" if "?pp = Some pp" for pp
      using that ok False
      by (auto simp: points_inside_def chain_ok_def selack_len_def mask_bit_def selack_mask_def not_le)
    show thesis by (rule that [OF pk _ _ pi]) (simp_all add: l8)
  qed
qed

text \<open>C11: a received packet of any content is parsed without reading outside it.\<close>

theorem parse_packet_in_bounds:
  assumes "20 \<le> length packet" and "length packet < 2 ^ 31" and "length (extensions (conn s)) = 8"
  shows "\<exists>r s'. parse_packet packet s = Some (r, s') \<and> length (extensions (conn s')) = 8 \<and>
    s' = s\<lparr>conn := (conn s)\<lparr>extensions := extensions (conn s')\<rparr>\<rparr> \<and>
    (\<forall>pp. r = Some pp \<longrightarrow> pp_bytes pp = packet \<and> pp_end pp = length packet \<and>
       20 \<le> pp_payload pp \<and> pp_payload pp \<le> length packet \<and> pp_type pp < ST_NUM_STATES \<and>
       (\<forall>pos. pp_selack pp = Some pos \<longrightarrow>
          (\<exists>len. selack_len pos pp = Some len \<and>
             (\<forall>bits < 8 * unat len. mask_bit (selack_mask pos pp) bits \<noteq> None))))"
proof -
  obtain r s' where "parse_packet packet s = Some (r, s')" "length (extensions (conn s')) = 8"
    "s' = s\<lparr>conn := (conn s)\<lparr>extensions := extensions (conn s')\<rparr>\<rparr>" "\<And>pp. r = Some pp \<Longrightarrow> points_inside packet pp"
    by (rule parse_packet_returns [OF assms]) (rule that)
  then show ?thesis unfolding points_inside_def by (intro exI [of _ r] exI [of _ s'] conjI) auto
qed

lemma parse_packet_in_bounds_witness:
  "\<exists>r s'. parse_packet (encode_pf (zero_pf\<lparr>pf_ext := 1\<rparr>) @ [0, 1, 255]) (new_UtpSocket 0 new_UtpContext) = Some (r, s') \<and>
    length (extensions (conn s')) = 8 \<and>
    s' = (new_UtpSocket 0 new_UtpContext)\<lparr>conn := (conn (new_UtpSocket 0 new_UtpContext))
           \<lparr>extensions := extensions (conn s')\<rparr>\<rparr> \<and>
    (\<forall>pp. r = Some pp \<longrightarrow> pp_bytes pp = encode_pf (zero_pf\<lparr>pf_ext := 1\<rparr>) @ [0, 1, 255] \<and>
       pp_end pp = length (encode_pf (zero_pf\<lparr>pf_ext := 1\<rparr>) @ [0, 1, 255]) \<and>
       20 \<le> pp_payload pp \<and> pp_payload pp \<le> length (encode_pf (zero_pf\<lparr>pf_ext := 1\<rparr>) @ [0, 1, 255]) \<and>
       pp_type pp < ST_NUM_STATES \<and>
       (\<forall>pos. pp_selack pp = Some pos \<longrightarrow> (\<exists>len. selack_len pos pp = Some len \<and>
             (\<forall>bits < 8 * unat len. mask_bit (selack_mask pos pp) bits \<noteq> None))))"
  by (rule parse_packet_in_bounds) (simp_all add: new_UtpSocket_def)


section \<open>The selective-ACK bitmap\<close>

text \<open>Setting the bits of a list of distinct positions.\<close>

lemma bit_fold_or:
  "(\<forall>i \<in> set is. i < 32) \<Longrightarrow> j < 32 \<Longrightarrow>
   bit (fold (\<lambda>i m. if P i then m OR push_bit i 1 else m) is (m :: u32)) j \<longleftrightarrow>
     bit m j \<or> (j \<in> set is \<and> P j)"
proof (induction "is" arbitrary: m)
  case (Cons i "is")
  then have "bit (if P i then m OR push_bit i 1 else m) j \<longleftrightarrow> bit m j \<or> (i = j \<and> P j)"
    by (auto simp: bit_or_iff push_bit_of_1 bit_exp_iff)
  with Cons show ?case by auto
qed simp

lemma eack_mask_bit:
  assumes "j < 32"
  shows "bit (eack_mask r) j \<longleftrightarrow>
    j < eack_window r \<and> sb_get (ucast (ack_nr r) + of_nat j + 2) (inbuf r) \<noteq> None"
proof -
  have "eack_window r \<le> 30" by (cases "30 \<le> sb_size (inbuf r)") (simp_all add: eack_window_def min_def word_le_nat_alt)
  then have "\<forall>i \<in> set [0..<eack_window r]. i < 32" by auto
  from bit_fold_or [OF this assms, of "\<lambda>i. sb_get (ucast (ack_nr r) + of_nat i + 2) (inbuf r) \<noteq> None" 0]
  show ?thesis by (simp add: eack_mask_def)
qed

lemma split32_bit:
  "i < 32 \<Longrightarrow> bit ([ucast m, ucast (drop_bit 8 m), ucast (drop_bit 16 m), ucast (drop_bit 24 m)] ! (i div 8) :: u8)
     (i mod 8) = bit (m :: u32) i"
proof -
  assume i: "i < 32"
  define q r where "q = i div 8" and "r = i mod 8"
  have r: "r < 8" "i = 8 * q + r" by (simp_all add: q_def r_def)
  have q: "q = 0 \<or> q = 1 \<or> q = 2 \<or> q = 3" using i by (simp add: q_def) presburger
  have "bit ([ucast m, ucast (drop_bit 8 m), ucast (drop_bit 16 m), ucast (drop_bit 24 m)] ! q :: u8) r
      = bit m (8 * q + r)"
    using q r(1) by (elim disjE) (simp_all add: bit_ucast_iff bit_drop_bit_eq)
  then show ?thesis using r by (simp add: q_def [symmetric] r_def [symmetric])
qed

lemma update_pf_encode: "update_pf f (encode_pf pf @ rest) = Some (encode_pf (f pf) @ rest)"
  by (simp add: update_pf_def decode_encode_append PF_SIZE_def)

lemma remove_ack_events:
  "remove_from_ack_list E h s = Some h' \<Longrightarrow> events h' = events h"
  by (auto simp: remove_from_ack_list_def host_remove_ack_def Let_def bind_eq_Some_conv split: if_splits)

text \<open>What one transmission appends to the events: a statistic and the datagram.\<close>

lemma send_data_events:
  assumes "send_data E (encode_pf pf @ rest) n type flags h s = Some (b, h', s')"
    and "unat n = 20 + length rest"
  obtains v time type' where
    "b = encode_pf (pf\<lparr>pf_tv_usec := time, pf_reply_micro := reply_micro (timing s)\<rparr>) @ rest"
    "events h' = events h @ [Ev_on_overhead_statistics (self s) True v type', Ev_sendto b (peer E s) flags]"
    "recv s' = recv s"
  using assms(1)
  by (auto simp: send_data_def update_pf_encode Let_def call_get_microseconds_def query_def
      bind_eq_Some_conv send_to_addr_impl_def ub_unless_Some_iff emit_def register_sent_packet_def
      get_overhead_def get_udp_overhead_def call_get_udp_overhead_def peer_def set_timing_def assms(2)
      split: prod.splits if_splits dest!: remove_ack_events intro!: that)

lemma send_ack_eack:
  assumes "send_ack E False h s = Some (h', s')"
    and "reorder_count (recv s) \<noteq> 0" and "\<not> got_fin_reached (recv s)"
  obtains win h1 b h2 where "events h1 = events h" and "events h' = events h2" and
    "send_data E (encode_pf ((ack_header (set_recv (\<lambda>r. r\<lparr>last_rcv_win := win\<rparr>) s))\<lparr>pf_ext := 1\<rparr>) @ [0, 4] @
       [ucast (eack_mask (recv s)), ucast (drop_bit 8 (eack_mask (recv s))),
        ucast (drop_bit 16 (eack_mask (recv s))), ucast (drop_bit 24 (eack_mask (recv s)))])
       (HEADER_SIZE + 4 + 2) ack_overhead 0 h1 (set_recv (\<lambda>r. r\<lparr>last_rcv_win := win\<rparr>) s) = Some (b, h2, s')"
proof -
  obtain win h1 where w: "get_rcv_window E h s = Some (win, h1)"
    using assms(1) by (auto simp: send_ack_def bind_eq_Some_conv)
  have e1: "events h1 = events h"
    using w by (auto simp: get_rcv_window_def call_get_read_buffer_size_def query_def bind_eq_Some_conv Let_def)
  have m: "eack_mask ((recv s)\<lparr>last_rcv_win := win\<rparr>) = eack_mask (recv s)"
    by (simp add: eack_mask_def eack_window_def)
  show ?thesis
    using assms(1) w e1 assms(2,3)
    by (auto simp: send_ack_def bind_eq_Some_conv Let_def set_recv_def encode_pfa_def m
        dest!: remove_ack_events intro!: that)
qed

lemma ext_loop_eack:
  assumes "length acks = 4"
  shows "ext_loop (encode_pf pf @ [0, 4] @ acks) 20 1 None exts = Some (Some (26, Some 22), exts)"
  by (subst ext_loop_step) (simp_all add: assms nth_append)

lemma parse_eack:
  assumes "length acks = 4" and "pf_ext pf = 1" and "pf_type pf = ST_STATE"
  shows "parse_packet (encode_pf pf @ [0, 4] @ acks) t =
    Some (Some \<lparr>pp_bytes = encode_pf pf @ [0, 4] @ acks, pp_payload = 26, pp_end = 26, pp_selack = Some 22,
      pp_seq_nr = pf_seq_nr pf, pp_ack_nr = pf_ack_nr pf, pp_type = ST_STATE,
      pp_timestamp = pf_tv_usec pf, pp_reply_micro = pf_reply_micro pf,
      pp_windowsize = pf_windowsize pf\<rparr>, t)"
  using assms ext_loop_eack [OF assms(1), of pf "extensions (conn t)"] decode_encode_append [of pf "[0, 4] @ acks"]
  by (simp add: parse_packet_def HEADER_SIZE_def PF_SIZE_def st_defs)

text \<open>
  C10: an acknowledgement sent while packets wait in the reorder ring reaches the peer's parser
  with a bitmap whose bit \<open>i\<close> says exactly whether packet \<open>ack_nr + 2 + i\<close> is waiting, for the 30
  positions the sender looks at (fewer in a smaller ring).
\<close>

theorem eack_reaches_peer:
  assumes "send_ack E False h s = Some (h', s')"
    and "reorder_count (recv s) \<noteq> 0" and "\<not> got_fin_reached (recv s)"
  shows "\<exists>b stat pp. events h' = events h @ [stat, Ev_sendto b (peer E s) 0] \<and>
    parse_packet b t = Some (Some pp, t) \<and> pp_payload pp = pp_end pp \<and>
    pp_type pp = ST_STATE \<and> pp_ack_nr pp = ack_nr (recv s) \<and> pp_seq_nr pp = seq_nr (send s) \<and>
    pp_windowsize pp = ucast (last_rcv_win (recv s')) \<and>
    (\<exists>pos. pp_selack pp = Some pos \<and> selack_len pos pp = Some 4 \<and>
      (\<forall>i < 32. mask_bit (selack_mask pos pp) i =
         Some (i < eack_window (recv s) \<and> sb_get (ucast (ack_nr (recv s)) + of_nat i + 2) (inbuf (recv s)) \<noteq> None)))"
proof -
  let ?m = "eack_mask (recv s)"
  let ?acks = "[ucast ?m, ucast (drop_bit 8 ?m), ucast (drop_bit 16 ?m), ucast (drop_bit 24 ?m)] :: bytes"
  obtain win h1 b h2 where e: "events h1 = events h" "events h' = events h2"
    and sd: "send_data E (encode_pf ((ack_header (set_recv (\<lambda>r. r\<lparr>last_rcv_win := win\<rparr>) s))\<lparr>pf_ext := 1\<rparr>) @
       [0, 4] @ ?acks) (HEADER_SIZE + 4 + 2) ack_overhead 0 h1 (set_recv (\<lambda>r. r\<lparr>last_rcv_win := win\<rparr>) s)
       = Some (b, h2, s')"
    by (rule send_ack_eack [OF assms])
  let ?s = "set_recv (\<lambda>r. r\<lparr>last_rcv_win := win\<rparr>) s"
  have n: "unat (HEADER_SIZE + 4 + 2) = 20 + length ([0, 4] @ ?acks)"
    by (simp add: HEADER_SIZE_def PF_SIZE_def)
  obtain v time type' where b: "b = encode_pf ((ack_header ?s)\<lparr>pf_ext := 1, pf_tv_usec := time,
        pf_reply_micro := reply_micro (timing ?s)\<rparr>) @ [0, 4] @ ?acks"
    and ev: "events h2 = events h1 @ [Ev_on_overhead_statistics (self ?s) True v type', Ev_sendto b (peer E ?s) 0]"
    and rs: "recv s' = recv ?s"
    by (rule send_data_events [OF sd n]) simp
  have ty: "pf_type ((ack_header ?s)\<lparr>pf_ext := 1, pf_tv_usec := time,
        pf_reply_micro := reply_micro (timing ?s)\<rparr>) = ST_STATE"
    using version_type_accessors(3) [of ST_STATE "set_version 1 zero_pf"]
    by (simp add: ack_header_def pf_type_def ST_STATE_def)
  have bits: "mask_bit (drop 22 (encode_pf pf @ [0, 4] @ ?acks)) i = Some (bit ?m i)" if "i < 32" for i pf
    using that split32_bit [OF that, of ?m] by (simp add: mask_bit_def)
  have pr: "parse_packet b t = Some (Some \<lparr>pp_bytes = b, pp_payload = 26, pp_end = 26, pp_selack = Some 22,
      pp_seq_nr = seq_nr (send s), pp_ack_nr = ack_nr (recv s), pp_type = ST_STATE, pp_timestamp = time,
      pp_reply_micro = reply_micro (timing s), pp_windowsize = ucast win\<rparr>, t)"
    unfolding b by (subst parse_eack) (simp_all add: ty, simp add: ack_header_def set_recv_def set_type_def set_version_def)
  have len: "b ! 21 = 4" "length b = 26" unfolding b by (simp_all add: nth_append)
  have bm: "mask_bit (drop 22 b) i = Some (i < eack_window (recv s) \<and>
      sb_get (ucast (ack_nr (recv s)) + of_nat i + 2) (inbuf (recv s)) \<noteq> None)" if "i < 32" for i
    unfolding b using bits [OF that] eack_mask_bit [OF that, of "recv s"] by simp
  have pe: "peer E ?s = peer E s" by (simp add: peer_def set_recv_def)
  let ?pp = "\<lparr>pp_bytes = b, pp_payload = 26, pp_end = 26, pp_selack = Some 22,
      pp_seq_nr = seq_nr (send s), pp_ack_nr = ack_nr (recv s), pp_type = ST_STATE, pp_timestamp = time,
      pp_reply_micro = reply_micro (timing s), pp_windowsize = ucast win\<rparr>"
  have sl: "selack_len 22 ?pp = Some 4" using len by (simp add: selack_len_def)
  have mb: "mask_bit (selack_mask 22 ?pp) i = mask_bit (drop 22 b) i" for i
    by (simp add: selack_mask_def)
  show ?thesis
    by (rule exI [of _ b], rule exI [of _ "Ev_on_overhead_statistics (self ?s) True v type'"], rule exI [of _ ?pp],
        intro conjI exI [of _ 22])
      (use ev e pe pr rs sl bm in \<open>simp_all only: mb, simp_all add: set_recv_def\<close>)
qed

text \<open>A little-endian host whose callbacks answer with constants.\<close>

definition sample_env :: env where
  "sample_env = \<lparr>bld = sample_build, endian = Little, cb_milliseconds = (\<lambda>_. 5000),
     cb_microseconds = (\<lambda>_. 5000000), cb_random = (\<lambda>_. 7), cb_udp_mtu = (\<lambda>_ _. 1500),
     cb_udp_overhead = (\<lambda>_ _. 28), cb_read_buffer_size = (\<lambda>_. 100), cb_firewall = (\<lambda>_ _. False)\<rparr>"

text \<open>A receiver that expects packet 65534 and already holds packet 0.\<close>

definition gap_socket :: UtpSocket where
  "gap_socket = set_recv (\<lambda>r. r\<lparr>ack_nr := 65533, reorder_count := 1,
     inbuf := (inbuf r)\<lparr>sb_buf := (sb_buf (inbuf r))[0 := Some \<lparr>ipk_size = 1, ipk_data = [42]\<rparr>]\<rparr>\<rparr>)
     (new_UtpSocket 3 new_UtpContext)"

lemma eack_reaches_peer_witness:
  "\<exists>h' s'. send_ack sample_env False new_UtpContext gap_socket = Some (h', s') \<and>
   (\<exists>b stat pp. events h' = events new_UtpContext @ [stat, Ev_sendto b (peer sample_env gap_socket) 0] \<and>
    parse_packet b gap_socket = Some (Some pp, gap_socket) \<and> pp_payload pp = pp_end pp \<and>
    pp_type pp = ST_STATE \<and> pp_ack_nr pp = ack_nr (recv gap_socket) \<and>
    pp_seq_nr pp = seq_nr (send gap_socket) \<and>
    pp_windowsize pp = ucast (last_rcv_win (recv s')) \<and>
    (\<exists>pos. pp_selack pp = Some pos \<and> selack_len pos pp = Some 4 \<and>
      (\<forall>i < 32. mask_bit (selack_mask pos pp) i =
         Some (i < eack_window (recv gap_socket) \<and>
           sb_get (ucast (ack_nr (recv gap_socket)) + of_nat i + 2) (inbuf (recv gap_socket)) \<noteq> None))))"
proof -
  have "map_option (\<lambda>_. ()) (send_ack sample_env False new_UtpContext gap_socket) = Some ()"
    by code_simp
  then obtain h' s' where "send_ack sample_env False new_UtpContext gap_socket = Some (h', s')" by auto
  moreover have "reorder_count (recv gap_socket) \<noteq> 0" "\<not> got_fin_reached (recv gap_socket)"
    by (simp_all add: gap_socket_def set_recv_def new_UtpSocket_def)
  ultimately show ?thesis
    using eack_reaches_peer [of sample_env new_UtpContext gap_socket h' s' gap_socket] by blast
qed

end
