(* ===== verification/Socket_Frame.thy ===== *)
theory Socket_Frame
  imports Socket_Api
begin

text \<open>
  What the sending operations leave alone and when they return: the lemmas on \<open>send_data\<close>,
  \<open>send_ack\<close> and the context that the component proofs share.
\<close>

section \<open>The context\<close>

text \<open>What the application reads from one socket: the payloads, and the end of the stream.\<close>

datatype reading = Payload bytes | Eof

definition read_of :: "nat \<Rightarrow> event \<Rightarrow> reading list" where
  "read_of n ev = (case ev of
       Ev_on_read m b \<Rightarrow> if m = n then [Payload b] else []
     | Ev_on_state_change m st \<Rightarrow> if m = n \<and> st = UTP_STATE_EOF then [Eof] else []
     | _ \<Rightarrow> [])"

definition reads :: "nat \<Rightarrow> UtpContext \<Rightarrow> reading list" where
  "reads n h = concat (map (read_of n) (events h))"

lemma reads_emit [simp]: "reads n (emit ev h) = reads n h @ read_of n ev"
  by (simp add: reads_def emit_def)

lemma read_of_simps [simp]:
  "read_of n (Ev_on_read m b) = (if m = n then [Payload b] else [])"
  "read_of n (Ev_sendto p sa f) = []"
  "read_of n (Ev_on_overhead_statistics m d sz ty) = []"
  "read_of n (Ev_on_state_change m st) = (if m = n \<and> st = UTP_STATE_EOF then [Eof] else [])"
  "read_of n (Ev_on_connect m) = []"
  "read_of n (Ev_on_error m er) = []"
  "read_of n (Ev_on_delay_sample m dl) = []"
  "read_of n (Ev_on_accept m sa) = []"
  by (simp_all add: read_of_def)

text \<open>
  Two contexts that differ in what a transmission changes: events that are not reads, the
  number of queries, the statistics and the deferred-ACK list.
\<close>

definition same_host :: "UtpContext \<Rightarrow> UtpContext \<Rightarrow> bool" where
  "same_host h h' \<longleftrightarrow> (\<forall>n. reads n h' = reads n h) \<and> current_ms h' = current_ms h \<and>
     last_utp_socket h' = last_utp_socket h \<and> rst_info h' = rst_info h \<and> sockets h' = sockets h \<and>
     last_check h' = last_check h \<and>
     target_delay h' = target_delay h \<and> ctx_sndbuf h' = ctx_sndbuf h \<and> ctx_rcvbuf h' = ctx_rcvbuf h \<and>
     log_normal h' = log_normal h \<and> log_mtu h' = log_mtu h \<and> log_debug h' = log_debug h"

lemma same_host_refl [simp]: "same_host h h"
  by (simp add: same_host_def)

lemma same_host_trans: "same_host h h1 \<Longrightarrow> same_host h1 h2 \<Longrightarrow> same_host h h2"
  by (simp add: same_host_def)

lemma same_host_updates [simp]:
  "same_host h (h\<lparr>tick := n\<rparr>)"
  "same_host h (h\<lparr>nraw_send := l\<rparr>)"
  "same_host h (h\<lparr>nraw_recv := l\<rparr>)"
  "same_host h (h\<lparr>ack_sockets := a, ack_index := i\<rparr>)"
  by (simp_all add: same_host_def reads_def)

lemma same_host_emit: "(\<And>n. read_of n ev = []) \<Longrightarrow> same_host h (emit ev h)"
  unfolding same_host_def reads_emit by (simp add: emit_def)

lemma query_frame:
  "snd (query f h) = h\<lparr>tick := tick h + 1\<rparr>" "fst (query f h) = f (tick h)"
  by (simp_all add: query_def)

text \<open>The ACK list is consistent, and the application reports a buffer size that fits an \<open>int\<close>.\<close>

definition host_ok :: "env \<Rightarrow> UtpContext \<Rightarrow> bool" where
  "host_ok E h \<longleftrightarrow> ack_list_ok h \<and> (ndebug (bld E) \<or> (\<forall>n. 0 \<le> to_i32 (uint (cb_read_buffer_size E n))))"

text \<open>With room for one more socket in the list.\<close>

definition host_for :: "env \<Rightarrow> nat \<Rightarrow> UtpContext \<Rightarrow> bool" where
  "host_for E n h \<longleftrightarrow> host_ok E h \<and> card (insert n (ack_pending h)) < 2 ^ 31"

lemma schedule_ack_total:
  assumes "host_for E n h"
  shows "host_for E n (host_schedule_ack n h)" and "same_host h (host_schedule_ack n h)"
    and "ack_pending (host_schedule_ack n h) = insert n (ack_pending h)"
    and "events (host_schedule_ack n h) = events h" and "tick (host_schedule_ack n h) = tick h"
proof -
  have ok: "ack_list_ok h" and c: "card (insert n (ack_pending h)) < 2 ^ 31"
    using assms by (simp_all add: host_for_def host_ok_def)
  have "ack_list_ok (host_schedule_ack n h) \<and> ack_pending (host_schedule_ack n h) = insert n (ack_pending h)"
  proof (cases "n \<in> ack_pending h")
    case True
    then show ?thesis using ok ack_index_iff [OF ok, of n] by (auto simp: host_schedule_ack_def)
  next
    case False
    then have "ack_room h"
      using c distinct_card [OF ack_list_distinct [OF ok]] by (simp add: ack_room_def ack_pending_def)
    then show ?thesis using schedule_ack_ok [OF ok] by blast
  qed
  then show "host_for E n (host_schedule_ack n h)"
    and "ack_pending (host_schedule_ack n h) = insert n (ack_pending h)"
    using assms by (auto simp: host_for_def host_ok_def)
qed (simp_all add: host_schedule_ack_def same_host_def reads_def Let_def)

lemma host_for_minus:
  "host_for E n h \<Longrightarrow> host_ok E h' \<Longrightarrow> ack_pending h' = ack_pending h - {n} \<Longrightarrow> host_for E n h'"
  by (simp add: host_for_def)

lemma ack_list_ok_cong:
  "ack_sockets h' = ack_sockets h \<Longrightarrow> ack_index h' = ack_index h \<Longrightarrow> ack_list_ok h' = ack_list_ok h"
  "ack_sockets h' = ack_sockets h \<Longrightarrow> ack_pending h' = ack_pending h"
  by (simp_all add: ack_list_ok_def ack_pending_def)

lemma host_remove_ack_frame:
  "host_remove_ack E n h = Some h' \<Longrightarrow>
   h' = h\<lparr>ack_sockets := ack_sockets h', ack_index := ack_index h'\<rparr>"
  by (auto simp: host_remove_ack_def Let_def bind_eq_Some_conv split: if_splits)

lemma remove_ack_frame:
  "remove_from_ack_list E h s = Some h' \<Longrightarrow>
   h' = h\<lparr>ack_sockets := ack_sockets h', ack_index := ack_index h'\<rparr>"
  unfolding remove_from_ack_list_def by (rule host_remove_ack_frame)

lemma remove_ack_total:
  assumes "host_ok E h"
  obtains h' where "remove_from_ack_list E h s = Some h'" and "host_ok E h'" and "same_host h h'"
    and "ack_pending h' = ack_pending h - {self s}" and "events h' = events h"
proof -
  have ok: "ack_list_ok h" using assms by (simp add: host_ok_def)
  obtain h' where h': "host_remove_ack E (self s) h = Some h'" "ack_list_ok h'"
    "ack_pending h' = ack_pending h - {self s}"
    using acks.cancel_law [OF ok, of E "self s"] by (elim exE conjE) (rule that)
  note fr = host_remove_ack_frame [OF h'(1)]
  show ?thesis
  proof (rule that)
    show "remove_from_ack_list E h s = Some h'" by (simp add: remove_from_ack_list_def h'(1))
    show "host_ok E h'" using assms h'(2) by (simp add: host_ok_def)
    show "same_host h h'" by (subst fr) simp
    show "events h' = events h" by (subst fr) simp
  qed (rule h'(3))
qed

section \<open>Transmissions\<close>

lemma host_ok_cong:
  "ack_sockets h' = ack_sockets h \<Longrightarrow> ack_index h' = ack_index h \<Longrightarrow> host_ok E h' = host_ok E h"
  by (simp add: host_ok_def ack_list_ok_def)

lemma send_to_addr_total:
  assumes "unat n \<le> length p"
  shows "\<exists>h'. send_to_addr_impl E p n a flags h = Some h' \<and> same_host h h' \<and>
    events h' = events h @ [Ev_sendto (take (unat n) p) (fst (get_sockaddr_storage (endian E) a)) flags] \<and>
    ack_sockets h' = ack_sockets h \<and> ack_index h' = ack_index h"
  using assms
  by (auto simp: send_to_addr_impl_def Let_def register_sent_packet_def emit_def same_host_def reads_def
      split: prod.splits)

text \<open>The statistic that goes with a transmission.\<close>

lemma overhead_event:
  obtains v ty h' where "(if type = payload_bandwidth
          then let (v, h) = get_overhead E h s in (header_overhead, v, h)
          else let (v, h) = get_udp_overhead E h s in (type, n + v, h)) = (ty, v, h')"
    and "same_host h h'" and "events h' = events h" and "ack_sockets h' = ack_sockets h"
    and "ack_index h' = ack_index h"
  by (cases "type = payload_bandwidth")
    (auto simp: get_overhead_def get_udp_overhead_def call_get_udp_overhead_def query_def intro: that)

lemma send_data_total:
  assumes ok: "host_ok E h" and n: "unat n \<le> length b" and b: "20 \<le> length b"
  obtains b' h' s' v ty where "send_data E b n type flags h s = Some (b', h', s')"
    and "s' = s\<lparr>timing := (timing s)\<lparr>last_sent_packet := current_ms h\<rparr>\<rparr>"
    and "update_pf (\<lambda>pf. pf\<lparr>pf_tv_usec := ucast (cb_microseconds E (tick h)),
           pf_reply_micro := reply_micro (timing s)\<rparr>) b = Some b'"
    and "events h' = events h @ [Ev_on_overhead_statistics (self s) True v ty,
           Ev_sendto (take (unat n) b') (peer E s) flags]"
    and "host_ok E h'" and "same_host h h'" and "ack_pending h' = ack_pending h - {self s}"
proof -
  let ?h1 = "h\<lparr>tick := Suc (tick h)\<rparr>" and ?s = "s\<lparr>timing := (timing s)\<lparr>last_sent_packet := current_ms h\<rparr>\<rparr>"
  obtain b' where b': "update_pf (\<lambda>pf. pf\<lparr>pf_tv_usec := ucast (cb_microseconds E (tick h)),
      pf_reply_micro := reply_micro (timing s)\<rparr>) b = Some b'"
    using update_pf_defined [OF b] by blast
  have len: "unat n \<le> length b'" using n length_update_pf [OF b'] by simp
  obtain v ty h2 where o: "(if type = payload_bandwidth
          then let (v, h) = get_overhead E ?h1 ?s in (header_overhead, v, h)
          else let (v, h) = get_udp_overhead E ?h1 ?s in (type, n + v, h)) = (ty, v, h2)"
    and f2: "same_host ?h1 h2" "events h2 = events ?h1" "ack_sockets h2 = ack_sockets ?h1"
      "ack_index h2 = ack_index ?h1"
    by (rule overhead_event)
  let ?h3 = "emit (Ev_on_overhead_statistics (self s) True v ty) h2"
  obtain h4 where s4: "send_to_addr_impl E b' n (addr (conn s)) flags ?h3 = Some h4"
    and f4: "same_host ?h3 h4" "events h4 = events ?h3 @
        [Ev_sendto (take (unat n) b') (fst (get_sockaddr_storage (endian E) (addr (conn s)))) flags]"
      "ack_sockets h4 = ack_sockets ?h3" "ack_index h4 = ack_index ?h3"
    using send_to_addr_total [OF len, of E "addr (conn s)" flags ?h3] by (elim exE conjE) (rule that)
  have ok4: "host_ok E h4" using ok f2 f4 host_ok_cong [of h4 h E] by (simp add: emit_def)
  obtain h5 where r5: "remove_from_ack_list E h4 ?s = Some h5" "host_ok E h5" "same_host h4 h5"
    "ack_pending h5 = ack_pending h4 - {self ?s}" "events h5 = events h4"
    by (rule remove_ack_total [OF ok4])
  have sm: "same_host h h5"
    by (rule same_host_trans [OF same_host_trans [OF same_host_trans [OF same_host_updates(1) f2(1)]
          same_host_trans [OF same_host_emit f4(1)]] r5(3)]) simp
  show ?thesis
  proof (rule that)
    show "send_data E b n type flags h s = Some (b', h5, ?s)"
      unfolding send_data_def using o b' s4 r5(1)
      by (cases "type = payload_bandwidth")
        (auto simp: call_get_microseconds_def query_def set_timing_def Let_def split: prod.splits)
    show "events h5 = events h @ [Ev_on_overhead_statistics (self s) True v ty,
           Ev_sendto (take (unat n) b') (peer E s) flags]"
      using r5(5) f4(2) f2(2) by (simp add: emit_def peer_def)
    show "ack_pending h5 = ack_pending h - {self s}"
      using r5(4) f4(3) f2(3) by (simp add: ack_pending_def emit_def)
  qed (use b' sm r5(2) in simp_all)
qed

lemma get_rcv_window_total:
  assumes "host_ok E h"
  obtains win h' where "get_rcv_window E h s = Some (win, h')" and "h' = h\<lparr>tick := tick h + 1\<rparr>"
    and "host_ok E h'"
proof (rule that)
  let ?n = "cb_read_buffer_size E (tick h)"
  show "get_rcv_window E h s = Some (if opt_rcvbuf (recv s) > ?n then opt_rcvbuf (recv s) - ?n else 0,
      h\<lparr>tick := tick h + 1\<rparr>)"
    using assms by (auto simp: get_rcv_window_def call_get_read_buffer_size_def query_def host_ok_def c_assert_def)
  show "host_ok E (h\<lparr>tick := tick h + 1\<rparr>)" using assms by (simp add: host_ok_def ack_list_ok_def)
qed simp

text \<open>An acknowledgement is sent whenever the next packet is not in the ring.\<close>

lemma send_ack_total:
  assumes ok: "host_ok E h"
    and gap: "reorder_count (recv s) \<noteq> 0 \<Longrightarrow> \<not> got_fin_reached (recv s) \<Longrightarrow>
      \<not> synack \<and> sb_get (ucast (ack_nr (recv s)) + 1) (inbuf (recv s)) = None"
  obtains h' s' win v ty b where "send_ack E synack h s = Some (h', s')"
    and "s' = s\<lparr>recv := (recv s)\<lparr>last_rcv_win := win\<rparr>,
                timing := (timing s)\<lparr>last_sent_packet := current_ms h\<rparr>\<rparr>"
    and "events h' = events h @ [Ev_on_overhead_statistics (self s) True v ty, Ev_sendto b (peer E s) 0]"
    and "host_ok E h'" and "same_host h h'" and "ack_pending h' = ack_pending h - {self s}"
proof -
  obtain win h1 where w: "get_rcv_window E h s = Some (win, h1)" "h1 = h\<lparr>tick := tick h + 1\<rparr>" "host_ok E h1"
    by (rule get_rcv_window_total [OF ok])
  let ?s = "set_recv (\<lambda>r. r\<lparr>last_rcv_win := win\<rparr>) s"
  let ?eack = "reorder_count (recv s) \<noteq> 0 \<and> \<not> got_fin_reached (recv s)"
  let ?m = "eack_mask (recv ?s)"
  let ?pfa = "\<lparr>pfa_pf = ack_header ?s, pfa_ext_next = 0, pfa_ext_len = 0, pfa_acks = [0, 0, 0, 0]\<rparr>"
  define pfa where "pfa = (if ?eack then ?pfa\<lparr>pfa_pf := (ack_header ?s)\<lparr>pf_ext := 1\<rparr>, pfa_ext_next := 0,
      pfa_ext_len := 4, pfa_acks := [ucast ?m, ucast (drop_bit 8 ?m), ucast (drop_bit 16 ?m), ucast (drop_bit 24 ?m)]\<rparr>
    else ?pfa)"
  define n where "n = (if ?eack then HEADER_SIZE + 4 + 2 else HEADER_SIZE)"
  have len: "length (encode_pfa pfa) = 26" by (simp add: encode_pfa_def pfa_def)
  have n26: "unat n \<le> length (encode_pfa pfa)" by (simp add: len n_def HEADER_SIZE_def PF_SIZE_def)
  obtain b h2 s2 v ty where sd: "send_data E (encode_pfa pfa) n ack_overhead 0 h1 ?s = Some (b, h2, s2)"
    "s2 = ?s\<lparr>timing := (timing ?s)\<lparr>last_sent_packet := current_ms h1\<rparr>\<rparr>"
    "events h2 = events h1 @ [Ev_on_overhead_statistics (self ?s) True v ty,
           Ev_sendto (take (unat n) b) (peer E ?s) 0]"
    "host_ok E h2" "same_host h1 h2" "ack_pending h2 = ack_pending h1 - {self ?s}"
    by (rule send_data_total [OF w(3) n26]) (simp add: len)
  obtain h3 where r: "remove_from_ack_list E h2 s2 = Some h3" "host_ok E h3" "same_host h2 h3"
    "ack_pending h3 = ack_pending h2 - {self s2}" "events h3 = events h2"
    by (rule remove_ack_total [OF sd(4)])
  have sm: "same_host h h3"
    by (rule same_host_trans [OF _ same_host_trans [OF sd(5) r(3)]]) (simp add: w(2))
  show ?thesis
  proof (rule that)
    show "send_ack E synack h s = Some (h3, s2)"
      using w(1) sd(1) r(1) gap
      by (auto simp: send_ack_def pfa_def n_def set_recv_def Let_def split: if_splits)
    show "s2 = s\<lparr>recv := (recv s)\<lparr>last_rcv_win := win\<rparr>,
                timing := (timing s)\<lparr>last_sent_packet := current_ms h\<rparr>\<rparr>"
      using sd(2) w(2) by (simp add: set_recv_def)
    show "events h3 = events h @ [Ev_on_overhead_statistics (self s) True v ty,
        Ev_sendto (take (unat n) b) (peer E s) 0]"
      using sd(3) r(5) w(2) by (simp add: set_recv_def peer_def)
    show "ack_pending h3 = ack_pending h - {self s}"
      using sd(2,6) r(4) w(2) by (auto simp: set_recv_def ack_pending_def)
  qed (use sm r(2) in simp_all)
qed

end
