(* ===== verification/Receive_Correct.thy ===== *)
theory Receive_Correct
  imports Parse_Correct Socket_Frame
begin

text \<open>
  The receiver delivers a stream. The reorder ring is seen as the list of what waits for the
  numbers after \<open>ack_nr\<close> (\<open>waiting\<close>); an arriving packet is an assignment in that list, and
  delivery removes the packets in front of the first gap.
\<close>

section \<open>The reorder ring as a list\<close>

definition waiting :: "ReceiveState \<Rightarrow> InboundPacket option list" where
  "waiting r = sb_view (ucast (ack_nr r) + 1) (sb_slots (inbuf r)) (inbuf r)"

definition held :: "'a option list \<Rightarrow> nat" where
  "held xs = length (filter (\<lambda>x. x \<noteq> None) xs)"

text \<open>
  The next packet is never in the ring, nor one in the slot of the packet before it, and the count is that of
  the packets in the ring.
\<close>

definition recv_ok :: "ReceiveState \<Rightarrow> bool" where
  "recv_ok r \<longleftrightarrow> sb_wf (inbuf r) \<and> waiting r ! 0 = None \<and> last (waiting r) = None \<and>
     unat (reorder_count r) = held (waiting r)"

lemma slots_pos: "sb_wf b \<Longrightarrow> 2 \<le> sb_slots b"
proof -
  assume "sb_wf b"
  then obtain k where k: "0 < k" "sb_slots b = 2 ^ k"
    by (auto simp: sb_wf_def sb_wf_at_def sb_slots_def)
  have "(2 :: nat) ^ 1 \<le> 2 ^ k" using k(1) by (intro power_increasing) simp_all
  then show ?thesis using k(2) by simp
qed

lemma slots_dvd16: "sb_wf b \<Longrightarrow> sb_slots b dvd 2 ^ 16"
  unfolding sb_wf_def sb_wf_at_def sb_slots_def by (elim exE conjE, simp only: le_imp_power_dvd)

lemma slots_dvd64: "sb_wf b \<Longrightarrow> sb_slots b dvd 2 ^ 64"
  by (rule dvd_trans [OF slots_dvd16]) (simp_all add: le_imp_power_dvd)

lemma slots_le: "sb_wf b \<Longrightarrow> sb_slots b \<le> 65536"
  using dvd_imp_le [OF slots_dvd16, of b] by simp

lemma waiting_length [simp]: "length (waiting r) = sb_slots (inbuf r)"
  by (simp add: waiting_def sb_view_def)

text \<open>A slot depends on the number only modulo the size of the ring.\<close>

lemma get_cong:
  "sb_wf b \<Longrightarrow> unat x mod sb_slots b = unat y mod sb_slots b \<Longrightarrow> sb_get x b = sb_get y b"
  by (auto simp: sb_wf_def sb_slots_def dest: sb_get_nth) (metis sb_get_nth sb_wf_at_def)

lemma mod_add_of_nat:
  assumes "m dvd 2 ^ 64"
  shows "unat (x + of_nat i :: u64) mod m = (unat x + i) mod m"
proof -
  have "unat (x + of_nat i :: u64) mod m = (unat x + unat (of_nat i :: u64)) mod 2 ^ 64 mod m"
    by (simp add: unat_word_ariths)
  also have "\<dots> = (unat x + i) mod 2 ^ 64 mod m"
    by (simp add: unsigned_of_nat take_bit_eq_mod mod_add_right_eq)
  finally show ?thesis by (simp only: mod_mod_cancel [OF assms])
qed

lemma view_cong:
  assumes b: "sb_wf b" and e: "unat x mod sb_slots b = unat y mod sb_slots b"
  shows "sb_view x n b = sb_view y n b"
proof -
  have "sb_get (x + of_nat i) b = sb_get (y + of_nat i) b" for i
    by (rule get_cong [OF b]) (simp add: mod_add_of_nat [OF slots_dvd64 [OF b]] mod_add_cong [OF e refl])
  then show ?thesis by (simp add: sb_view_def)
qed

text \<open>Moving the window forward by one rotates the list.\<close>

lemma view_step:
  assumes b: "sb_wf b" and n: "n = sb_slots b"
  shows "sb_view (x + 1) n b = tl (sb_view x n b) @ [hd (sb_view x n b)]"
proof -
  have m: "n = Suc (n - 1)" using slots_pos [OF b] n by simp
  have last: "sb_get (x + of_nat n) b = sb_get x b"
    by (rule get_cong [OF b]) (simp add: mod_add_of_nat [OF slots_dvd64 [OF b]] n)
  have "sb_view (x + 1) n b = map (\<lambda>i. sb_get (x + of_nat (Suc i)) b) [0..<n]"
    by (simp add: sb_view_def ac_simps)
  also have "\<dots> = map (\<lambda>i. sb_get (x + of_nat i) b) [Suc 0..<Suc n]"
    by (simp only: map_Suc_upt [symmetric] map_map comp_def)
  also have "\<dots> = map (\<lambda>i. sb_get (x + of_nat i) b) [Suc 0..<n] @ [sb_get (x + of_nat n) b]"
    using m by simp
  also have "map (\<lambda>i. sb_get (x + of_nat i) b) [Suc 0..<n] = tl (sb_view x n b)"
    by (simp add: sb_view_def map_tl [symmetric] tl_upt)
  also have "sb_get (x + of_nat n) b = hd (sb_view x n b)"
    using m last by (simp add: sb_view_def hd_map upt_conv_Cons)
  finally show ?thesis .
qed

text \<open>The number of the next packet wraps at 16 bits, which the ring does not notice.\<close>

lemma ucast16_mod:
  assumes "m dvd 2 ^ 16"
  shows "unat (ucast (a + b :: u16) + c :: u64) mod m = (unat a + unat b + unat c) mod m"
proof -
  have d64: "m dvd 2 ^ 64" by (rule dvd_trans [OF assms]) (simp_all add: le_imp_power_dvd)
  have "unat (ucast (a + b :: u16) + c :: u64) mod m = (unat (a + b) + unat c) mod 2 ^ 64 mod m"
    by (simp add: unat_word_ariths unsigned_ucast_eq take_bit_eq_mod)
  also have "\<dots> = (unat (a + b) + unat c) mod m" by (rule mod_mod_cancel [OF d64])
  also have "\<dots> = (unat (a + b) mod m + unat c) mod m" by (simp add: mod_add_left_eq)
  also have "unat (a + b) mod m = (unat a + unat b) mod 2 ^ 16 mod m" by (simp add: unat_word_ariths)
  also have "\<dots> = (unat a + unat b) mod m" by (rule mod_mod_cancel [OF assms])
  finally show ?thesis by (simp add: mod_add_left_eq)
qed

lemma waiting_advance:
  assumes b: "sb_wf b" and w: "sb_view (ucast (ack_nr r) + 1) (sb_slots b) b = w"
  shows "waiting (r\<lparr>ack_nr := ack_nr r + 1, inbuf := b\<rparr>) = tl w @ [hd w]"
proof -
  have "unat (ucast (ack_nr r + 1) + 1 :: u64) mod sb_slots b = unat (ucast (ack_nr r) + 1 + 1 :: u64) mod sb_slots b"
    using ucast16_mod [OF slots_dvd16 [OF b], of "ack_nr r" 1 1] ucast16_mod [OF slots_dvd16 [OF b], of "ack_nr r" 0 "1 + 1"]
    by (simp add: ac_simps)
  from view_cong [OF b this, of "sb_slots b"] view_step [OF b refl, of "ucast (ack_nr r) + 1"]
  show ?thesis by (simp add: waiting_def w)
qed

lemma take_reordered_waiting:
  assumes b: "sb_wf (inbuf (recv s))"
  obtains b' where "take_reordered s = (waiting (recv s) ! 0, set_recv (\<lambda>r. r\<lparr>inbuf := b'\<rparr>) s)"
    and "sb_wf b'" and "sb_slots b' = sb_slots (inbuf (recv s))"
    and "sb_view (ucast (ack_nr (recv s)) + 1) (sb_slots b') b' = (waiting (recv s))[0 := None]"
proof -
  let ?b = "inbuf (recv s)" and ?x = "ucast (ack_nr (recv s)) + 1 :: u64"
  have pos: "0 < sb_slots ?b" using slots_pos [OF b] by simp
  note v = ring.view_take [OF b le_refl pos, of ?x]
  note d = ring.take_defined [OF b, of ?x]
  show ?thesis
    by (rule that [of "snd (sb_take ?x ?b)"])
      (use v d in \<open>auto simp: take_reordered_def waiting_def sb_view_ring split: prod.splits\<close>)
qed

section \<open>Delivery\<close>

definition given :: "ReceiveState \<Rightarrow> bytes list \<Rightarrow> reading list" where
  "given r bs = (if read_shutdown r then [] else map Payload (filter (\<lambda>b. b \<noteq> []) bs))"

lemma reads_give: "reads (self s) (give_data b h s) = reads (self s) h @ given (recv s) [b]"
  by (simp add: give_data_def given_def)

lemma host_emit [simp]: "host_ok E (emit ev h) = host_ok E h" "host_for E n (emit ev h) = host_for E n h"
  by (simp_all add: emit_def host_for_def host_ok_def ack_list_ok_def ack_pending_def)

lemma give_data_host: "host_for E n (give_data b h s) = host_for E n h"
  by (simp add: give_data_def)

lemma held_simps [simp]:
  "held [] = 0" "held (None # xs) = held xs" "held (Some x # xs) = Suc (held xs)" "held (xs @ ys) = held xs + held ys"
  by (simp_all add: held_def)

lemma held_0: "held xs = 0 \<longleftrightarrow> (\<forall>x \<in> set xs. x = None)"
  by (auto simp: held_def filter_empty_conv)

lemma held_le: "held xs \<le> length xs"
  by (simp add: held_def)

text \<open>Nothing waits behind the end of the stream, once that is known and not reached.\<close>

definition fin_ok :: "ReceiveState \<Rightarrow> bool" where
  "fin_ok r \<longleftrightarrow> (got_fin r \<longrightarrow> \<not> got_fin_reached r \<longrightarrow>
     (\<forall>i < sb_slots (inbuf r). unat (eof_pkt r - ack_nr r) \<le> i \<longrightarrow> waiting r ! i = None))"

text \<open>What the operations of the receiving side leave alone.\<close>

definition same_receiver :: "UtpSocket \<Rightarrow> UtpSocket \<Rightarrow> bool" where
  "same_receiver s s' \<longleftrightarrow> self s' = self s \<and> conn s' = conn s \<and> send s' = send s \<and> mtu s' = mtu s \<and>
     got_fin (recv s') = got_fin (recv s) \<and> eof_pkt (recv s') = eof_pkt (recv s) \<and>
     read_shutdown (recv s') = read_shutdown (recv s)"

definition run_length :: "'a option list \<Rightarrow> nat" where
  "run_length xs = length (takeWhile (\<lambda>x. x \<noteq> None) xs)"

definition run_bytes :: "InboundPacket option list \<Rightarrow> bytes list" where
  "run_bytes xs = map (\<lambda>p. ipk_bytes (the p)) (takeWhile (\<lambda>x. x \<noteq> None) xs)"

lemma run_simps [simp]:
  "run_length (None # xs) = 0" "run_length (Some x # xs) = Suc (run_length xs)"
  "run_bytes (None # xs) = []" "run_bytes (Some x # xs) = ipk_bytes x # run_bytes xs"
  by (simp_all add: run_length_def run_bytes_def)

lemma run_snoc_None:
  "run_length (xs @ [None]) = run_length xs" "run_bytes (xs @ [None]) = run_bytes xs"
  by (simp_all add: run_length_def run_bytes_def takeWhile_tail)

text \<open>The end of the stream is announced when it is reached.\<close>

definition ended :: "ReceiveState \<Rightarrow> ReceiveState \<Rightarrow> reading list" where
  "ended r r' = (if got_fin_reached r' \<and> \<not> got_fin_reached r then [Eof] else [])"

lemma post_eof_total:
  assumes ok: "host_for E (self s) h" and e: "at_eof (recv s)" and z: "reorder_count (recv s) = 0"
  obtains h' s' win where "post_eof E h s = Some (h', s')" and "host_for E (self s) h'"
    and "reads (self s) h' = reads (self s) h @ [Eof]"
    and "recv s' = (recv s)\<lparr>got_fin_reached := True, last_rcv_win := win, reorder_count := 0\<rparr>"
    and "same_receiver s s'"
proof -
  let ?s = "set_cc (\<lambda>c. c\<lparr>rto_timeout := current_ms h + ucast (min (rto c * 3) 60)\<rparr>)
     (set_recv (\<lambda>r. r\<lparr>got_fin_reached := True\<rparr>) s)"
  let ?h = "emit (Ev_on_state_change (self s) UTP_STATE_EOF) h"
  have ok1: "host_for E (self s) ?h" using ok by simp
  have ok2: "host_ok E ?h" using ok1 unfolding host_for_def by (rule conjunct1)
  have nr: "reorder_count (recv ?s) = 0" using z by (simp add: set_defs)
  obtain h' s' win v ty b where sa: "send_ack E False ?h ?s = Some (h', s')"
    "s' = ?s\<lparr>recv := (recv ?s)\<lparr>last_rcv_win := win\<rparr>,
             timing := (timing ?s)\<lparr>last_sent_packet := current_ms ?h\<rparr>\<rparr>"
    "events h' = events ?h @ [Ev_on_overhead_statistics (self ?s) True v ty, Ev_sendto b (peer E ?s) 0]"
    "host_ok E h'" "same_host ?h h'" "ack_pending h' = ack_pending ?h - {self ?s}"
    by (rule send_ack_total [OF ok2, of ?s False]) (use nr in simp)
  show ?thesis
  proof (rule that)
    show "post_eof E h s = Some (h', set_recv (\<lambda>r. r\<lparr>reorder_count := 0\<rparr>) s')"
      using e sa(1) by (simp add: post_eof_def Let_def) (simp add: set_defs)
    show "host_for E (self s) h'" using host_for_minus [OF ok1 sa(4)] sa(6) by (simp add: set_defs)
    show "reads (self s) h' = reads (self s) h @ [Eof]" using sa(5) by (simp add: same_host_def)
  qed (use sa(2,4) in \<open>simp_all add: set_defs same_receiver_def\<close>)
qed

lemma unat_pred: "(x :: 'a::len word) \<noteq> 0 \<Longrightarrow> unat (x - 1) = unat x - 1"
  by (metis One_nat_def Suc_pred' diff_Suc_1 unat_gt_0 unatSuc diff_add_cancel word_gt_0 add.commute)

lemma given_append: "given r (xs @ ys) = given r xs @ given r ys"
  by (simp add: given_def)

lemma run_length_le: "run_length xs \<le> length xs"
  by (simp add: run_length_def length_takeWhile_le)

text \<open>Delivery stops at the first gap, or at the end of the stream.\<close>

lemma deliver_loop_run:
  assumes "host_for E (self s) h" and "sb_wf (inbuf (recv s))" and "unat (reorder_count (recv s)) = held (waiting (recv s))"
    and "fin_ok (recv s)" and "last (waiting (recv s)) = None"
  shows "\<exists>h' s'. deliver_loop E h s = Some (h', s') \<and> host_for E (self s) h' \<and> same_receiver s s' \<and>
    reads (self s) h' = reads (self s) h @ given (recv s) (run_bytes (waiting (recv s))) @ ended (recv s) (recv s') \<and>
    (got_fin_reached (recv s') \<longleftrightarrow> got_fin_reached (recv s) \<or> got_fin (recv s) \<and> eof_pkt (recv s) = ack_nr (recv s')) \<and>
    recv_ok (recv s') \<and> fin_ok (recv s') \<and>
    ack_nr (recv s') = ack_nr (recv s) + of_nat (run_length (waiting (recv s))) \<and>
    waiting (recv s') = drop (run_length (waiting (recv s))) (waiting (recv s)) @
      replicate (run_length (waiting (recv s))) None"
  using assms
proof (induction "unat (reorder_count (recv s))" arbitrary: h s rule: less_induct)
  case less
  let ?r = "recv s" and ?w = "waiting (recv s)"
  have pos: "0 < sb_slots (inbuf ?r)" using slots_pos [OF less.prems(2)] by simp
  then obtain x xs where w: "?w = x # xs" by (cases ?w) (simp_all, metis length_0_conv less_irrefl waiting_length)
  show ?case
  proof (cases "reorder_count ?r = 0")
    case True
    then have none: "\<forall>x \<in> set ?w. x = None" using less.prems(3) held_0 [of ?w] by simp
    then have x: "x = None" and lst: "last ?w = None" using last_in_set [of ?w] by (auto simp: w)
    show ?thesis
    proof (cases "at_eof ?r")
      case eof: True
      obtain h' s' win where p: "post_eof E h s = Some (h', s')" "host_for E (self s) h'"
        "reads (self s) h' = reads (self s) h @ [Eof]"
        "recv s' = ?r\<lparr>got_fin_reached := True, last_rcv_win := win, reorder_count := 0\<rparr>" "same_receiver s s'"
        by (rule post_eof_total [OF less.prems(1) eof True]) blast
      have "waiting (recv s') = ?w" by (simp add: p(4) waiting_def)
      then show ?thesis
        using p less.prems(2,3,5) True x w eof [unfolded at_eof_def]
        by (subst deliver_loop.simps) (auto simp: recv_ok_def fin_ok_def given_def ended_def)
    next
      case False
      then have "post_eof E h s = Some (h, s)" by (simp add: post_eof_def)
      then show ?thesis
        using less.prems True x w False
        by (subst deliver_loop.simps) (auto simp: recv_ok_def given_def same_receiver_def ended_def at_eof_def)
    qed
  next
    case cnt: False
    have na: "\<not> at_eof ?r"
    proof
      assume e: "at_eof ?r"
      then have "\<forall>i < length ?w. ?w ! i = None"
        using less.prems(4) by (auto simp: fin_ok_def at_eof_def)
      then have "held ?w = 0" by (auto simp: held_0 in_set_conv_nth)
      with less.prems(3) cnt show False by (simp add: unat_eq_0)
    qed
    then have pe: "post_eof E h s = Some (h, s)" by (simp add: post_eof_def)
    obtain b where tk: "take_reordered s = (x, set_recv (\<lambda>r. r\<lparr>inbuf := b\<rparr>) s)" and wf: "sb_wf b"
      and sl: "sb_slots b = sb_slots (inbuf ?r)"
      and vw: "sb_view (ucast (ack_nr ?r) + 1) (sb_slots b) b = None # xs"
      by (rule take_reordered_waiting [OF less.prems(2)]) (simp add: w)
    let ?s2 = "set_recv (\<lambda>r. r\<lparr>inbuf := b\<rparr>) s"
    show ?thesis
    proof (cases x)
      case None
      have "deliver_loop E h s = Some (h, ?s2)"
        using pe cnt tk None by (subst deliver_loop.simps) simp
      moreover have "waiting (recv ?s2) = ?w" using vw w None by (simp add: set_recv_def waiting_def)
      ultimately show ?thesis
        using less.prems wf sl w None na
        by (auto simp: set_recv_def recv_ok_def fin_ok_def same_receiver_def given_def ended_def at_eof_def)
    next
      case (Some p)
      let ?s3 = "set_recv (\<lambda>r. r\<lparr>ack_nr := ack_nr r + 1, reorder_count := reorder_count r - 1\<rparr>) ?s2"
      let ?h3 = "give_data (ipk_bytes p) h ?s2"
      have step: "deliver_loop E h s = deliver_loop E ?h3 ?s3"
        using pe cnt tk Some by (subst deliver_loop.simps) simp
      have "waiting (?r\<lparr>ack_nr := ack_nr ?r + 1, inbuf := b\<rparr>) = xs @ [None]"
        using waiting_advance [OF wf vw] by simp
      then have w3: "waiting (recv ?s3) = xs @ [None]" by (simp add: set_recv_def waiting_def)
      have c3: "unat (reorder_count (recv ?s3)) = held (waiting (recv ?s3))"
        using unat_pred [OF cnt] less.prems(3) w Some unfolding w3 by (simp add: set_recv_def)
      have f3: "fin_ok (recv ?s3)"
      proof (unfold fin_ok_def w3, intro impI allI)
        fix i
        assume g: "got_fin (recv ?s3)" "\<not> got_fin_reached (recv ?s3)" and i: "i < sb_slots (inbuf (recv ?s3))"
          and d: "unat (eof_pkt (recv ?s3) - ack_nr (recv ?s3)) \<le> i"
        have F: "\<And>i. i < length ?w \<Longrightarrow> unat (eof_pkt ?r - ack_nr ?r) \<le> i \<Longrightarrow> ?w ! i = None"
          using less.prems(4) g by (auto simp: fin_ok_def set_recv_def)
        have ne: "eof_pkt ?r - ack_nr ?r \<noteq> 0"
          using F [of 0] w Some pos by auto
        have "eof_pkt (recv ?s3) - ack_nr (recv ?s3) = eof_pkt ?r - ack_nr ?r - 1"
          by (simp add: set_recv_def)
        then have "unat (eof_pkt ?r - ack_nr ?r) \<le> Suc i" using d unat_pred [OF ne] by simp
        moreover have "i < length ?w" using i sl by (simp add: set_recv_def)
        ultimately show "(xs @ [None]) ! i = None"
          using F [of "Suc i"] w by (cases "i < length xs") (auto simp: nth_append)
      qed
      have "\<exists>h' s'. deliver_loop E ?h3 ?s3 = Some (h', s') \<and> host_for E (self ?s3) h' \<and> same_receiver ?s3 s' \<and>
        reads (self ?s3) h' = reads (self ?s3) ?h3 @ given (recv ?s3) (run_bytes (waiting (recv ?s3))) @
          ended (recv ?s3) (recv s') \<and>
        (got_fin_reached (recv s') \<longleftrightarrow> got_fin_reached (recv ?s3) \<or>
          got_fin (recv ?s3) \<and> eof_pkt (recv ?s3) = ack_nr (recv s')) \<and>
        recv_ok (recv s') \<and> fin_ok (recv s') \<and>
        ack_nr (recv s') = ack_nr (recv ?s3) + of_nat (run_length (waiting (recv ?s3))) \<and>
        waiting (recv s') = drop (run_length (waiting (recv ?s3))) (waiting (recv ?s3)) @
          replicate (run_length (waiting (recv ?s3))) None"
      proof (rule less.hyps)
        show "unat (reorder_count (recv ?s3)) < unat (reorder_count ?r)"
          using unat_dec [OF cnt] by (simp add: set_recv_def)
        show "host_for E (self ?s3) ?h3" using less.prems(1) by (simp add: give_data_host set_recv_def)
        show "sb_wf (inbuf (recv ?s3))" using wf by (simp add: set_recv_def)
      qed (rule c3, rule f3, simp add: w3)
      then obtain h' s' where r: "deliver_loop E h s = Some (h', s')" "host_for E (self ?s3) h'" "same_receiver ?s3 s'"
        "reads (self ?s3) h' = reads (self ?s3) ?h3 @ given (recv ?s3) (run_bytes xs) @ ended (recv ?s3) (recv s')"
        "got_fin_reached (recv s') \<longleftrightarrow> got_fin_reached (recv ?s3) \<or>
          got_fin (recv ?s3) \<and> eof_pkt (recv ?s3) = ack_nr (recv s')"
        "recv_ok (recv s')" "fin_ok (recv s')" "ack_nr (recv s') = ack_nr (recv ?s3) + of_nat (run_length xs)"
        "waiting (recv s') = drop (run_length xs) (xs @ [None]) @ replicate (run_length xs) None"
        unfolding step w3 run_snoc_None by blast
      have "reads (self s) h' = reads (self s) h @ given ?r (run_bytes ?w) @ ended ?r (recv s')"
        using r(4) reads_give [of ?s2 "ipk_bytes p" h] w Some
        by (simp add: set_recv_def given_def ended_def)
      moreover have "host_for E (self s) h'" using r(2) by (simp add: set_recv_def)
      moreover have "same_receiver s s'" using r(3) by (simp add: same_receiver_def set_recv_def)
      moreover have "got_fin_reached (recv s') \<longleftrightarrow> got_fin_reached ?r \<or> got_fin ?r \<and> eof_pkt ?r = ack_nr (recv s')"
        using r(5) by (simp add: set_recv_def)
      moreover have "ack_nr (recv s') = ack_nr ?r + of_nat (run_length ?w)"
        using r(8) w Some by (simp add: set_recv_def)
      moreover have "waiting (recv s') = drop (run_length ?w) ?w @ replicate (run_length ?w) None"
        using r(9) w Some run_length_le [of xs] by (simp add: replicate_app_Cons_same)
      ultimately show ?thesis using r(1,6,7) by (intro exI conjI)
    qed
  qed
qed

section \<open>The next packet\<close>

lemma same_receiver_trans: "same_receiver s s1 \<Longrightarrow> same_receiver s1 s2 \<Longrightarrow> same_receiver s s2"
  by (simp add: same_receiver_def)

lemma fin_ok_advance:
  assumes f: "fin_ok r" and b: "sb_wf (inbuf r)" and n: "waiting r ! 0 = None"
    and w': "waiting (r\<lparr>ack_nr := ack_nr r + 1\<rparr>) = tl (waiting r) @ [None]"
  shows "fin_ok (r\<lparr>ack_nr := ack_nr r + 1\<rparr>)"
proof (unfold fin_ok_def w', intro impI allI, simp)
  fix i
  assume g: "got_fin r" "\<not> got_fin_reached r" and i: "i < sb_slots (inbuf r)"
    and d: "unat (eof_pkt r - (ack_nr r + 1)) \<le> i"
  have F: "\<And>i. i < sb_slots (inbuf r) \<Longrightarrow> unat (eof_pkt r - ack_nr r) \<le> i \<Longrightarrow> waiting r ! i = None"
    using f g by (simp add: fin_ok_def)
  have e: "eof_pkt r - (ack_nr r + 1) = eof_pkt r - ack_nr r - 1" by simp
  show "(tl (waiting r) @ [None]) ! i = None"
  proof (cases "i < sb_slots (inbuf r) - 1")
    case True
    have "waiting r ! Suc i = None"
    proof (cases "eof_pkt r - ack_nr r = 0")
      case z: True
      then show ?thesis using F [of "Suc i"] True by simp
    next
      case False
      then have "unat (eof_pkt r - ack_nr r) \<le> Suc i" using d unat_pred [OF False] unfolding e by simp
      then show ?thesis using F [of "Suc i"] True by simp
    qed
    then show ?thesis using True by (simp add: nth_append nth_tl)
  next
    case False
    then have "i = sb_slots (inbuf r) - 1" using i by simp
    then show ?thesis by (simp add: nth_append)
  qed
qed

lemma deliver_in_order_total:
  assumes ok: "host_for E (self s) h" and r: "recv_ok (recv s)" and f: "fin_ok (recv s)"
  obtains h' s' where "deliver_in_order E pp h s = Some (h', s')" and "host_for E (self s) h'"
    and "same_receiver s s'"
    and "reads (self s) h' = reads (self s) h @
      given (recv s) (pp_data pp # run_bytes (tl (waiting (recv s)))) @ ended (recv s) (recv s')"
    and "got_fin_reached (recv s') \<longleftrightarrow> got_fin_reached (recv s) \<or> got_fin (recv s) \<and> eof_pkt (recv s) = ack_nr (recv s')"
    and "recv_ok (recv s')" and "fin_ok (recv s')" and "self s \<in> ack_pending h'"
    and "ack_nr (recv s') = ack_nr (recv s) + of_nat (Suc (run_length (tl (waiting (recv s)))))"
    and "waiting (recv s') = drop (Suc (run_length (tl (waiting (recv s))))) (waiting (recv s)) @
      replicate (Suc (run_length (tl (waiting (recv s))))) None"
proof -
  let ?r = "recv s" and ?w = "waiting (recv s)"
  let ?h1 = "give_data (pp_data pp) h s" and ?s1 = "set_recv (\<lambda>r. r\<lparr>ack_nr := ack_nr r + 1\<rparr>) s"
  have b: "sb_wf (inbuf ?r)" and n0: "?w ! 0 = None" using r by (simp_all add: recv_ok_def)
  obtain xs where w: "?w = None # xs"
    using n0 slots_pos [OF b] waiting_length [of ?r] by (cases ?w) auto
  have "waiting (?r\<lparr>ack_nr := ack_nr ?r + 1, inbuf := inbuf ?r\<rparr>) = tl ?w @ [hd ?w]"
    by (rule waiting_advance [OF b]) (simp add: waiting_def)
  then have w': "waiting (?r\<lparr>ack_nr := ack_nr ?r + 1\<rparr>) = tl ?w @ [None]" by (simp add: w)
  then have w1: "waiting (recv ?s1) = xs @ [None]" by (simp add: set_recv_def w)
  have f1: "fin_ok (recv ?s1)" using fin_ok_advance [OF f b n0 w'] by (simp add: set_recv_def)
  have "\<exists>h' s'. deliver_loop E ?h1 ?s1 = Some (h', s') \<and> host_for E (self ?s1) h' \<and> same_receiver ?s1 s' \<and>
    reads (self ?s1) h' = reads (self ?s1) ?h1 @ given (recv ?s1) (run_bytes (waiting (recv ?s1))) @
      ended (recv ?s1) (recv s') \<and>
    (got_fin_reached (recv s') \<longleftrightarrow> got_fin_reached (recv ?s1) \<or>
       got_fin (recv ?s1) \<and> eof_pkt (recv ?s1) = ack_nr (recv s')) \<and>
    recv_ok (recv s') \<and> fin_ok (recv s') \<and>
    ack_nr (recv s') = ack_nr (recv ?s1) + of_nat (run_length (waiting (recv ?s1))) \<and>
    waiting (recv s') = drop (run_length (waiting (recv ?s1))) (waiting (recv ?s1)) @
      replicate (run_length (waiting (recv ?s1))) None"
  proof (rule deliver_loop_run [OF _ _ _ f1])
    show "host_for E (self ?s1) ?h1" using ok by (simp add: give_data_host set_recv_def)
    show "sb_wf (inbuf (recv ?s1))" using b by (simp add: set_recv_def)
    show "unat (reorder_count (recv ?s1)) = held (waiting (recv ?s1))"
      using r unfolding w1 by (simp add: recv_ok_def w set_recv_def)
    show "last (waiting (recv ?s1)) = None" by (simp add: w1)
  qed
  then obtain h2 s2 where d: "deliver_loop E ?h1 ?s1 = Some (h2, s2)" "host_for E (self ?s1) h2"
    "same_receiver ?s1 s2"
    "reads (self ?s1) h2 = reads (self ?s1) ?h1 @ given (recv ?s1) (run_bytes xs) @ ended (recv ?s1) (recv s2)"
    "got_fin_reached (recv s2) \<longleftrightarrow> got_fin_reached (recv ?s1) \<or>
       got_fin (recv ?s1) \<and> eof_pkt (recv ?s1) = ack_nr (recv s2)"
    "recv_ok (recv s2)" "fin_ok (recv s2)" "ack_nr (recv s2) = ack_nr (recv ?s1) + of_nat (run_length xs)"
    "waiting (recv s2) = drop (run_length xs) (xs @ [None]) @ replicate (run_length xs) None"
    unfolding w1 run_snoc_None by blast
  have self2: "self s2 = self s" using d(3) by (simp add: same_receiver_def set_recv_def)
  have ok2: "host_for E (self s) h2" using d(2) by (simp add: set_recv_def)
  note sch = schedule_ack_total [OF ok2]
  show ?thesis
  proof (rule that)
    show "deliver_in_order E pp h s = Some (host_schedule_ack (self s) h2, s2)"
      using d(1) self2 by (simp add: deliver_in_order_def schedule_ack_def)
    show "reads (self s) (host_schedule_ack (self s) h2) = reads (self s) h @
        given ?r (pp_data pp # run_bytes (tl ?w)) @ ended ?r (recv s2)"
      using sch(2) d(4) reads_give [of s "pp_data pp" h]
      by (simp add: same_host_def set_recv_def w given_def ended_def)
    show "same_receiver s s2" using d(3) by (simp add: same_receiver_def set_recv_def)
    show "waiting (recv s2) = drop (Suc (run_length (tl ?w))) ?w @ replicate (Suc (run_length (tl ?w))) None"
      using d(9) run_length_le [of xs] by (simp add: w replicate_app_Cons_same)
  qed (use d sch(1,3) in \<open>simp_all add: set_recv_def w\<close>)
qed

section \<open>A packet beyond a gap\<close>

text \<open>The number of a packet of the stream, and the one after which the ring starts.\<close>

lemma mod_cancel_nat:
  assumes "(x + n) mod m = (y + n) mod (m :: nat)"
  shows "x mod m = y mod m"
proof -
  have "(int x + int n) mod int m = (int y + int n) mod int m"
    using assms by (metis of_nat_add of_nat_mod)
  then have "int x mod int m = int y mod int m" by (simp add: mod_eq_dvd_iff)
  then show ?thesis by (metis of_nat_eq_iff of_nat_mod)
qed

lemma unat_ucast16 [simp]: "unat (ucast (x :: u16) :: u64) = unat x"
  by (simp add: unsigned_ucast_eq take_bit_eq_mod mod_less less_trans [OF u16_lt])

lemma gap_mod:
  assumes m: "m dvd 2 ^ 16"
  shows "unat (ucast (a + 1 + d :: u16) :: u64) mod m = unat (ucast a + 1 + of_nat (unat d) :: u64) mod m"
    and "unat (ucast (a + 1 + d :: u16) - ucast d :: u64) mod m = unat (ucast a + 1 :: u64) mod m"
proof -
  have d64: "m dvd 2 ^ 64" by (rule dvd_trans [OF m]) (simp_all add: le_imp_power_dvd)
  have p: "unat (x + y :: u16) mod m = (unat x + unat y) mod m" for x y
    using ucast16_mod [OF m, of x y 0] by simp
  have a1: "unat (ucast a + 1 :: u64) mod m = (unat a + 1) mod m"
    using ucast16_mod [OF m, of a 0 1] by simp
  have "unat (ucast (a + 1 + d) :: u64) mod m = unat (a + 1 + d) mod m" by simp
  also have "\<dots> = ((unat a + 1) mod m + unat d) mod m"
    unfolding p [of "a + 1" d] using p [of a 1] by (metis mod_add_left_eq unsigned_1)
  also have "\<dots> = (unat (ucast a + 1 :: u64) + unat d) mod m"
    unfolding a1 [symmetric] by (rule mod_add_left_eq)
  finally have e: "unat (ucast (a + 1 + d) :: u64) mod m = (unat (ucast a + 1 :: u64) + unat d) mod m" .
  then show "unat (ucast (a + 1 + d :: u16) :: u64) mod m = unat (ucast a + 1 + of_nat (unat d) :: u64) mod m"
    by (simp only: mod_add_of_nat [OF d64])
  have "of_nat (unat d) = (ucast d :: u64)" by simp
  then have "(unat (ucast (a + 1 + d) - ucast d :: u64) + unat d) mod m = unat (ucast (a + 1 + d) :: u64) mod m"
    using mod_add_of_nat [OF d64, of "ucast (a + 1 + d) - ucast d" "unat d"] by simp
  then show "unat (ucast (a + 1 + d :: u16) - ucast d :: u64) mod m = unat (ucast a + 1 :: u64) mod m"
    unfolding e by (rule mod_cancel_nat)
qed

text \<open>The ring is grown until the number fits; the packets in it stay.\<close>

lemma grow_waiting:
  assumes b: "sb_wf (inbuf r)" and q: "q = ack_nr r + 1 + d" and d: "d \<le> 0x3ff"
  obtains b' where "sb_ensure_size (ucast q + 1) (ucast d + 1) (inbuf r) = Some b'"
    and "sb_wf b'" and "unat d + 1 < sb_slots b'" and "sb_slots (inbuf r) \<le> sb_slots b'"
    and "sb_view (ucast (ack_nr r) + 1) (sb_slots b') b' =
      waiting r @ replicate (sb_slots b' - sb_slots (inbuf r)) None"
proof (cases "sb_mask (inbuf r) < ucast d + 1")
  case False
  obtain k where k: "sb_wf_at k (inbuf r)" using b unfolding sb_wf_def by blast
  have sl: "sb_slots (inbuf r) = unat (sb_mask (inbuf r)) + 1"
    using sb_wf_mask [OF k] k by (simp add: sb_slots_def sb_wf_at_def)
  have "unat (ucast d + 1 :: u64) = unat d + 1"
    using unat_add_lem [of "ucast d :: u64" 1] u16_lt [of d] by simp
  then have "unat d + 1 < sb_slots (inbuf r)" using False sl by (simp add: word_less_nat_alt)
  then show ?thesis
    by (intro that [of "inbuf r"]) (use False b in \<open>simp_all add: sb_ensure_size_def waiting_def\<close>)
next
  case True
  obtain k where k: "sb_wf_at k (inbuf r)" using b unfolding sb_wf_def by blast
  have sl: "sb_slots (inbuf r) = 2 ^ k" using k by (simp add: sb_slots_def sb_wf_at_def)
  have d1: "unat (ucast d + 1 :: u64) = unat d + 1"
    using unat_add_lem [of "ucast d :: u64" 1] u16_lt [of d] by simp
  have "unat d \<le> 1023" using d by (simp add: word_le_nat_alt)
  then have lim: "unat (ucast d + 1 :: u64) < 2 ^ 16" by (simp add: d1)
  have "2 ^ k \<le> unat (ucast d + 1 :: u64)" using True sb_wf_mask [OF k] by (simp add: word_less_nat_alt)
  then obtain b' m where g: "sb_grow (ucast q + 1) (ucast d + 1) (inbuf r) = Some b'" "sb_wf_at m b'" "k < m"
    and ix: "unat (ucast d + 1 :: u64) < 2 ^ m"
    and old: "\<And>i. i < 2 ^ k \<Longrightarrow> sb_get (ucast q + 1 - (ucast d + 1) + of_nat i) b' =
      sb_get (ucast q + 1 - (ucast d + 1) + of_nat i) (inbuf r)"
    and new: "\<And>i. 2 ^ k \<le> i \<Longrightarrow> i < 2 ^ m \<Longrightarrow> sb_get (ucast q + 1 - (ucast d + 1) + of_nat i) b' = None"
    by (rule sb_grow_window [OF k _ lim]) blast
  have st: "ucast q + 1 - (ucast d + 1) = (ucast q - ucast d :: u64)" by simp
  have b': "sb_wf b'" using g(2) unfolding sb_wf_def by blast
  have sl': "sb_slots b' = 2 ^ m" using g(2) by (simp add: sb_slots_def sb_wf_at_def)
  have le: "(2 :: nat) ^ k \<le> 2 ^ m" using g(3) by (intro power_increasing) simp_all
  have vo: "sb_view (ucast q - ucast d) (2 ^ k) (inbuf r) = waiting r"
    unfolding waiting_def sl q
    by (rule view_cong [OF b]) (rule gap_mod(2) [OF slots_dvd16 [OF b]])
  have "sb_view (ucast q - ucast d) (2 ^ m) b' =
      sb_view (ucast q - ucast d) (2 ^ k) (inbuf r) @ replicate (2 ^ m - 2 ^ k) None"
    by (rule nth_equalityI) (use le old new in \<open>auto simp: sb_view_def nth_append st\<close>)
  moreover have "sb_view (ucast (ack_nr r) + 1) (2 ^ m) b' = sb_view (ucast q - ucast d) (2 ^ m) b'"
    unfolding q by (rule view_cong [OF b'], rule sym, rule gap_mod(2) [OF slots_dvd16 [OF b']])
  ultimately show ?thesis
    by (intro that [of b']) (use True g(1) b' ix d1 sl sl' le vo in \<open>simp_all add: sb_ensure_size_def\<close>)
qed

text \<open>Storing the packet is assignment in the list.\<close>

lemma store_waiting:
  assumes b: "sb_wf b" and q: "(q :: u16) = a + 1 + d" and d: "unat d < sb_slots b"
  shows "sb_get (ucast q) b = sb_view (ucast a + 1) (sb_slots b) b ! unat d"
    and "\<exists>b'. sb_put nd (ucast q) v b = Some b' \<and> sb_wf b' \<and> sb_slots b' = sb_slots b \<and>
      sb_view (ucast a + 1) (sb_slots b) b' = (sb_view (ucast a + 1) (sb_slots b) b)[unat d := Some v]"
proof -
  have e: "unat (ucast q :: u64) mod sb_slots b = unat (ucast a + 1 + of_nat (unat d) :: u64) mod sb_slots b"
    unfolding q by (rule gap_mod(1) [OF slots_dvd16 [OF b]])
  show "sb_get (ucast q) b = sb_view (ucast a + 1) (sb_slots b) b ! unat d"
    using get_cong [OF b e] d by (simp add: sb_view_def)
  obtain b' where p: "sb_put nd (ucast q) v b = Some b'" "sb_wf b'" "sb_slots b' = sb_slots b"
    using ring.put_defined [OF b] by blast
  have "sb_view (ucast a + 1) (sb_slots b) b' = (sb_view (ucast a + 1) (sb_slots b) b)[unat d := Some v]"
  proof (rule nth_equalityI)
    fix i assume "i < length (sb_view (ucast a + 1) (sb_slots b) b')"
    then have i: "i < sb_slots b" by (simp add: sb_view_def)
    have "sb_get (ucast a + 1 + of_nat i) b' = (if unat d = i then Some v else sb_get (ucast a + 1 + of_nat i) b)"
      unfolding ring.get_put [OF b p(1)] e ring.same_slot [OF b le_refl d i] ..
    then show "sb_view (ucast a + 1) (sb_slots b) b' ! i = (sb_view (ucast a + 1) (sb_slots b) b)[unat d := Some v] ! i"
      using i d by (simp add: sb_view_def nth_list_update)
  qed (simp add: sb_view_def)
  with p show "\<exists>b'. sb_put nd (ucast q) v b = Some b' \<and> sb_wf b' \<and> sb_slots b' = sb_slots b \<and>
      sb_view (ucast a + 1) (sb_slots b) b' = (sb_view (ucast a + 1) (sb_slots b) b)[unat d := Some v]"
    by blast
qed

text \<open>The number never selects the slot of the packet that is missing.\<close>

lemma store_slot_free:
  assumes b: "sb_wf b" and q: "(q :: u16) = a + 1 + d" and d: "d \<noteq> 0" "unat d < sb_slots b"
  shows "ucast q AND sb_mask b \<noteq> (ucast a + 1) AND sb_mask b"
proof
  assume "ucast q AND sb_mask b = (ucast a + 1) AND sb_mask b"
  moreover obtain k where k: "sb_wf_at k b" using b unfolding sb_wf_def by blast
  ultimately have "unat (ucast q :: u64) mod 2 ^ k = unat (ucast a + 1 + of_nat 0 :: u64) mod 2 ^ k"
    using sb_index_mod [OF k, of "ucast q"] sb_index_mod [OF k, of "ucast a + 1"] by (simp add: sb_index_def)
  then have "unat (ucast q :: u64) mod sb_slots b = unat (ucast a + 1 + of_nat 0 :: u64) mod sb_slots b"
    using k by (simp add: sb_slots_def sb_wf_at_def)
  then have "unat (ucast a + 1 + of_nat (unat d) :: u64) mod sb_slots b = unat (ucast a + 1 + of_nat 0 :: u64) mod sb_slots b"
    unfolding q gap_mod(1) [OF slots_dvd16 [OF b]] .
  moreover have "0 < sb_slots b" using d(2) by simp
  ultimately show False
    using ring.same_slot [OF b le_refl d(2) \<open>0 < sb_slots b\<close>, of "ucast a + 1"] d(1) by (simp only: unat_eq_0 split: if_splits)
qed

lemma held_update: "i < length xs \<Longrightarrow> xs ! i = None \<Longrightarrow> held (xs[i := Some v]) = Suc (held xs)"
  by (induction xs arbitrary: i) (auto split: nat.split option.split simp: held_def)

lemma held_replicate [simp]: "held (replicate n None) = 0"
  by (simp add: held_0)

lemma unat_held_Suc: "unat (c :: u16) = n \<Longrightarrow> n < 65535 \<Longrightarrow> unat (c + 1) = Suc n"
  by (simp add: unat_word_ariths)

definition arrived :: "ParsedPacket \<Rightarrow> InboundPacket" where
  "arrived pp = \<lparr>ipk_size = of_nat (pp_end pp - pp_payload pp), ipk_data = pp_data pp\<rparr>"

text \<open>What stays of the receiver when a packet is stored.\<close>

definition same_stream :: "ReceiveState \<Rightarrow> ReceiveState \<Rightarrow> bool" where
  "same_stream r r' \<longleftrightarrow> ack_nr r' = ack_nr r \<and> got_fin r' = got_fin r \<and> eof_pkt r' = eof_pkt r \<and>
     got_fin_reached r' = got_fin_reached r \<and> read_shutdown r' = read_shutdown r"

lemma store_gap:
  assumes b: "sb_wf (inbuf (recv s))" and s: "fin_seen pp s = s" and d: "d \<noteq> 0" "d \<le> 0x3ff"
    and pe: "\<not> past_eof d (recv s)" and q: "pp_seq_nr pp = ack_nr (recv s) + 1 + d"
  obtains b1 k where "sb_wf b1" and "sb_slots b1 = length (waiting (recv s) @ replicate k None)"
    and "unat d + 1 < sb_slots b1" and "waiting ((recv s)\<lparr>inbuf := b1\<rparr>) = waiting (recv s) @ replicate k None"
    and "(waiting (recv s) @ replicate k None) ! unat d \<noteq> None \<longrightarrow>
      deliver_data E pp d h s = Some (0, h, set_recv (\<lambda>r. r\<lparr>inbuf := b1\<rparr>) s)"
    and "(waiting (recv s) @ replicate k None) ! unat d = None \<longrightarrow>
      (\<exists>b2. sb_wf b2 \<and> sb_slots b2 = sb_slots b1 \<and>
        deliver_data E pp d h s = Some (of_nat (pp_end pp - pp_payload pp), schedule_ack h s,
          set_recv (\<lambda>r. r\<lparr>inbuf := b2, reorder_count := reorder_count r + 1\<rparr>) s) \<and>
        (\<forall>c. waiting ((recv s)\<lparr>inbuf := b2, reorder_count := c\<rparr>) =
          (waiting (recv s) @ replicate k None)[unat d := Some (arrived pp)]))"
proof -
  let ?r = "recv s"
  obtain b1 where g: "sb_ensure_size (ucast (pp_seq_nr pp) + 1) (ucast d + 1) (inbuf ?r) = Some b1"
    "sb_wf b1" "unat d + 1 < sb_slots b1" "sb_slots (inbuf ?r) \<le> sb_slots b1"
    "sb_view (ucast (ack_nr ?r) + 1) (sb_slots b1) b1 =
      waiting ?r @ replicate (sb_slots b1 - sb_slots (inbuf ?r)) None"
    by (rule grow_waiting [OF b q d(2)])
  define k where "k = sb_slots b1 - sb_slots (inbuf ?r)"
  define w where "w = waiting ?r @ replicate k None"
  have len: "length w = sb_slots b1" using g(4) by (simp add: w_def k_def)
  have dl: "unat d < sb_slots b1" using g(3) by simp
  have vw: "sb_view (ucast (ack_nr ?r) + 1) (sb_slots b1) b1 = w" using g(5) by (simp add: w_def k_def)
  have get: "sb_get (ucast (pp_seq_nr pp)) b1 = w ! unat d"
    using store_waiting(1) [OF g(2) q dl] by (simp add: vw)
  have nd: "\<not> 0x3ff < d" using d(2) by (simp add: not_less)
  let ?s1 = "set_recv (\<lambda>r. r\<lparr>inbuf := b1\<rparr>) s"
  have dd: "deliver_data E pp d h s =
    (if w ! unat d \<noteq> None then Some (0, h, ?s1)
     else do {
       b \<leftarrow> sb_put (ndebug (bld E)) (ucast (pp_seq_nr pp)) (arrived pp) b1;
       let s = set_recv (\<lambda>r. r\<lparr>inbuf := b, reorder_count := reorder_count r + 1\<rparr>) ?s1;
       Some (of_nat (pp_end pp - pp_payload pp), schedule_ack h s, s)
     })"
    using d(1) nd pe g(1) get store_slot_free [OF g(2) q d(1) dl]
    by (simp add: deliver_data_def s Let_def set_recv_def arrived_def)
  obtain b2 where p: "sb_put (ndebug (bld E)) (ucast (pp_seq_nr pp)) (arrived pp) b1 = Some b2" "sb_wf b2"
    "sb_slots b2 = sb_slots b1"
    "sb_view (ucast (ack_nr ?r) + 1) (sb_slots b1) b2 = w[unat d := Some (arrived pp)]"
    using store_waiting(2) [OF g(2) q dl, of "ndebug (bld E)" "arrived pp"] unfolding vw by blast
  show ?thesis
  proof (rule that [of b1 k, folded w_def])
    show "waiting (?r\<lparr>inbuf := b1\<rparr>) = w" by (simp add: waiting_def vw)
    show "w ! unat d \<noteq> None \<longrightarrow> deliver_data E pp d h s = Some (0, h, ?s1)" by (simp add: dd)
    have "waiting (?r\<lparr>inbuf := b2, reorder_count := c\<rparr>) = w[unat d := Some (arrived pp)]" for c
      by (simp add: waiting_def p(3,4))
    then show "w ! unat d = None \<longrightarrow> (\<exists>b2. sb_wf b2 \<and> sb_slots b2 = sb_slots b1 \<and>
        deliver_data E pp d h s = Some (of_nat (pp_end pp - pp_payload pp), schedule_ack h s,
          set_recv (\<lambda>r. r\<lparr>inbuf := b2, reorder_count := reorder_count r + 1\<rparr>) s) \<and>
        (\<forall>c. waiting (?r\<lparr>inbuf := b2, reorder_count := c\<rparr>) = w[unat d := Some (arrived pp)]))"
      using p by (intro impI exI [of _ b2] conjI allI) (simp_all add: dd schedule_ack_def set_recv_def)
  qed (use g(2,3) len in simp_all)
qed

text \<open>The number of waiting packets stays a 16-bit number: the first slot is never taken.\<close>

lemma held_bound:
  assumes "w ! 0 = None" and "w ! i = None" and "0 < i" and "i < length w" and "length w \<le> 65536"
  shows "held w < 65535"
proof -
  obtain x xs where xs: "w = x # xs" using assms(4) by (cases w) auto
  have "held (xs[i - 1 := Some (undefined :: 'a)]) = Suc (held xs)"
    using assms by (intro held_update) (simp_all add: xs nth_Cons')
  then have "Suc (held xs) \<le> length xs" using held_le [of "xs[i - 1 := Some undefined]"] by simp
  then show ?thesis using assms(1,5) xs by simp
qed

lemma recv_ok_gap:
  assumes r: "recv_ok r" and b1: "sb_wf b1" and sl: "sb_slots b1 = length (waiting r @ replicate k None)"
    and i: "0 < i" "i + 1 < sb_slots b1"
  shows "waiting (r\<lparr>inbuf := b1\<rparr>) = waiting r @ replicate k None \<Longrightarrow> recv_ok (r\<lparr>inbuf := b1\<rparr>)"
    and "sb_wf b2 \<Longrightarrow> sb_slots b2 = sb_slots b1 \<Longrightarrow> (waiting r @ replicate k None) ! i = None \<Longrightarrow>
      \<forall>c. waiting (r\<lparr>inbuf := b2, reorder_count := c\<rparr>) = (waiting r @ replicate k None)[i := Some v] \<Longrightarrow>
      recv_ok (r\<lparr>inbuf := b2, reorder_count := reorder_count r + 1\<rparr>)"
proof -
  let ?w = "waiting r @ replicate k None"
  have b: "sb_wf (inbuf r)" and n0: "waiting r ! 0 = None" and rc: "unat (reorder_count r) = held (waiting r)"
    and nl: "last (waiting r) = None"
    using r by (simp_all add: recv_ok_def)
  have wl: "last ?w = None" using nl by (simp add: last_append)
  have w0: "?w ! 0 = None" using n0 slots_pos [OF b] by (simp add: nth_append)
  have hw: "held ?w = held (waiting r)" by simp
  show "recv_ok (r\<lparr>inbuf := b1\<rparr>)" if "waiting (r\<lparr>inbuf := b1\<rparr>) = ?w"
    using b1 w0 wl rc hw that by (simp add: recv_ok_def)
  show "recv_ok (r\<lparr>inbuf := b2, reorder_count := reorder_count r + 1\<rparr>)"
    if w2: "sb_wf b2" "sb_slots b2 = sb_slots b1" "?w ! i = None"
      "\<forall>c. waiting (r\<lparr>inbuf := b2, reorder_count := c\<rparr>) = ?w[i := Some v]"
  proof -
    have "held ?w < 65535" by (rule held_bound [OF w0 w2(3) i(1)]) (use i sl slots_le [OF b1] in simp_all)
    then have "unat (reorder_count r + 1) = Suc (held ?w)" using unat_held_Suc [of "reorder_count r" "held ?w"] rc hw by simp
    moreover have "held (?w[i := Some v]) = Suc (held ?w)" by (rule held_update) (use i sl w2(3) in simp_all)
    moreover have "?w[i := Some v] ! 0 = None" using w0 i(1) by simp
    moreover have "last (?w[i := Some v]) = None"
    proof -
      have l: "i + 1 < length ?w" using i(2) unfolding sl .
      then have "?w \<noteq> []" and "i \<noteq> length ?w - 1" by (metis list.size(3) not_less_zero, linarith)
      then show ?thesis using wl last_list_update [of ?w i "Some v"] by presburger
    qed
    ultimately show ?thesis using w2 by (simp add: recv_ok_def)
  qed
qed

lemma deliver_gap_total:
  assumes ok: "host_for E (self s) h" and r: "recv_ok (recv s)" and f: "fin_ok (recv s)"
    and fin: "got_fin (recv s) \<Longrightarrow> \<not> got_fin_reached (recv s) \<Longrightarrow> eof_pkt (recv s) \<noteq> ack_nr (recv s)"
    and s: "fin_seen pp s = s" and d: "d \<noteq> 0" "d \<le> 0x3ff" and pe: "\<not> past_eof d (recv s)"
    and q: "pp_seq_nr pp = ack_nr (recv s) + 1 + d"
  obtains c h' s' k where "deliver_data E pp d h s = Some (c, h', s')" and "host_for E (self s) h'"
    and "reads (self s) h' = reads (self s) h" and "same_receiver s s'" and "same_stream (recv s) (recv s')"
    and "recv_ok (recv s')" and "fin_ok (recv s')"
    and "unat d < length (waiting (recv s) @ replicate k None)"
    and "waiting (recv s') =
      (if (waiting (recv s) @ replicate k None) ! unat d = None
       then (waiting (recv s) @ replicate k None)[unat d := Some (arrived pp)]
       else waiting (recv s) @ replicate k None)"
proof -
  let ?r = "recv s"
  have b: "sb_wf (inbuf ?r)" using r by (simp add: recv_ok_def)
  obtain b1 k where g: "sb_wf b1" "sb_slots b1 = length (waiting ?r @ replicate k None)" "unat d + 1 < sb_slots b1"
    "waiting (?r\<lparr>inbuf := b1\<rparr>) = waiting ?r @ replicate k None"
    "(waiting ?r @ replicate k None) ! unat d \<noteq> None \<longrightarrow>
      deliver_data E pp d h s = Some (0, h, set_recv (\<lambda>r. r\<lparr>inbuf := b1\<rparr>) s)"
    "(waiting ?r @ replicate k None) ! unat d = None \<longrightarrow>
      (\<exists>b2. sb_wf b2 \<and> sb_slots b2 = sb_slots b1 \<and>
        deliver_data E pp d h s = Some (of_nat (pp_end pp - pp_payload pp), schedule_ack h s,
          set_recv (\<lambda>r. r\<lparr>inbuf := b2, reorder_count := reorder_count r + 1\<rparr>) s) \<and>
        (\<forall>c. waiting (?r\<lparr>inbuf := b2, reorder_count := c\<rparr>) =
          (waiting ?r @ replicate k None)[unat d := Some (arrived pp)]))"
    by (rule store_gap [OF b s d pe q, of E h]) (rule that, assumption+)
  define w where "w = waiting ?r @ replicate k None"
  note g = g [folded w_def]
  have dl: "unat d < sb_slots b1" and dl1: "unat d + 1 < sb_slots b1" and d0: "0 < unat d" using g(3) d(1) by (simp_all add: unat_gt_0)
  have le: "sb_slots (inbuf ?r) \<le> sb_slots b1" using g(2) by (simp add: w_def)
  have late: "unat d < unat (eof_pkt ?r - ack_nr ?r)" if "got_fin ?r" "\<not> got_fin_reached ?r"
  proof -
    have nz: "eof_pkt ?r - ack_nr ?r \<noteq> 0" using fin that by simp
    have "unat d \<le> unat (eof_pkt ?r - ack_nr ?r - 1)"
      using pe that(1) by (simp add: past_eof_def not_less word_le_nat_alt)
    then show ?thesis using unat_pred [OF nz] nz unat_gt_0 [of "eof_pkt ?r - ack_nr ?r"] by linarith
  qed
  have fw: "fin_ok (?r\<lparr>inbuf := b', reorder_count := c\<rparr>)"
    if "sb_slots b' = sb_slots b1" "waiting (?r\<lparr>inbuf := b', reorder_count := c\<rparr>) = w'"
      "\<And>i. i < sb_slots b1 \<Longrightarrow> i \<noteq> unat d \<Longrightarrow> w' ! i = w ! i" for b' c w'
  proof -
    have "w' ! i = None" if g2: "got_fin ?r" "\<not> got_fin_reached ?r" and i: "i < sb_slots b1"
      "unat (eof_pkt ?r - ack_nr ?r) \<le> i" for i
    proof -
      have "i \<noteq> unat d" using late [OF g2] i(2) by simp
      moreover have "w ! i = None"
        using f g2 i g(2) by (auto simp: fin_ok_def w_def nth_append)
      ultimately show ?thesis using i(1) \<open>\<And>i. i < sb_slots b1 \<Longrightarrow> i \<noteq> unat d \<Longrightarrow> w' ! i = w ! i\<close> by simp
    qed
    then show ?thesis using that(1,2) by (simp add: fin_ok_def)
  qed
  note ro = recv_ok_gap [OF r g(1), of k "unat d", folded w_def, OF g(2) d0 dl1]
  show ?thesis
  proof (cases "w ! unat d = None")
    case False
    let ?s1 = "set_recv (\<lambda>r. r\<lparr>inbuf := b1\<rparr>) s"
    show ?thesis
    proof (rule that [where k = k])
      show "deliver_data E pp d h s = Some (0, h, ?s1)" using g(5) False by blast
      show "recv_ok (recv ?s1)" using ro(1) [OF g(4)] by (simp add: set_recv_def)
      show "fin_ok (recv ?s1)" using fw [of b1 "reorder_count ?r" w] g(4) by (simp add: set_recv_def)
      show "waiting (recv ?s1) = (if (waiting ?r @ replicate k None) ! unat d = None
          then (waiting ?r @ replicate k None)[unat d := Some (arrived pp)] else waiting ?r @ replicate k None)"
        using False g(4) by (auto simp: w_def [symmetric] set_recv_def)
    qed (use ok dl g(2) in \<open>simp_all add: set_recv_def same_receiver_def same_stream_def w_def [symmetric]\<close>)
  next
    case True
    obtain b2 where p: "sb_wf b2" "sb_slots b2 = sb_slots b1"
      "deliver_data E pp d h s = Some (of_nat (pp_end pp - pp_payload pp), schedule_ack h s,
          set_recv (\<lambda>r. r\<lparr>inbuf := b2, reorder_count := reorder_count r + 1\<rparr>) s)"
      "\<forall>c. waiting (?r\<lparr>inbuf := b2, reorder_count := c\<rparr>) = w[unat d := Some (arrived pp)]"
      using g(6) True by blast
    let ?s2 = "set_recv (\<lambda>r. r\<lparr>inbuf := b2, reorder_count := reorder_count r + 1\<rparr>) s"
    note sch = schedule_ack_total [OF ok]
    show ?thesis
    proof (rule that [where k = k])
      show "deliver_data E pp d h s =
        Some (of_nat (pp_end pp - pp_payload pp), host_schedule_ack (self s) h, ?s2)"
        using p(3) by (simp add: schedule_ack_def)
      show "recv_ok (recv ?s2)" using ro(2) [OF p(1,2) True p(4)] by (simp add: set_recv_def)
      show "fin_ok (recv ?s2)"
        using fw [OF p(2), of "reorder_count ?r + 1" "w[unat d := Some (arrived pp)]"] p(4) by (simp add: set_recv_def)
      show "waiting (recv ?s2) = (if (waiting ?r @ replicate k None) ! unat d = None
          then (waiting ?r @ replicate k None)[unat d := Some (arrived pp)] else waiting ?r @ replicate k None)"
        using True p(4) by (simp add: w_def [symmetric] set_recv_def)
    qed (use sch dl g(2) in \<open>simp_all add: set_recv_def same_receiver_def same_stream_def w_def [symmetric] same_host_def\<close>)
  qed
qed

end
