(* ===== verification/Stream_Correct.thy ===== *)
theory Stream_Correct
  imports Receive_Correct
begin

text \<open>
  The receiving side against the stream it receives: packet \<open>j\<close> of the payloads \<open>D\<close> carries the
  number \<open>b + j\<close> modulo \<open>2^16\<close>, and the last one is a FIN when the stream ends (\<open>ending\<close>). The
  invariant says that \<open>n\<close> packets have been delivered and that every packet in the reorder ring
  is the one of its position.
\<close>

section \<open>The invariant\<close>

definition stream_inv :: "u16 \<Rightarrow> bytes list \<Rightarrow> bool \<Rightarrow> nat \<Rightarrow> ReceiveState \<Rightarrow> bool" where
  "stream_inv b D ending n r \<longleftrightarrow>
     recv_ok r \<and> n \<le> length D \<and> ack_nr r = b + of_nat n - 1 \<and>
     (\<forall>i p. i < sb_slots (inbuf r) \<longrightarrow> waiting r ! i = Some p \<longrightarrow>
        n + i < length D \<and> ipk_bytes p = D ! (n + i) \<and> (ending \<and> Suc (n + i) = length D \<longrightarrow> got_fin r)) \<and>
     (got_fin r \<longrightarrow> ending \<and> D \<noteq> [] \<and> eof_pkt r = b + of_nat (length D - 1) \<and> length D \<le> n + 1024) \<and>
     (got_fin_reached r \<longleftrightarrow> ending \<and> D \<noteq> [] \<and> n = length D)"

text \<open>What the application has read of a stream of which \<open>n\<close> packets are delivered.\<close>

definition stream_reads :: "ReceiveState \<Rightarrow> bytes list \<Rightarrow> bool \<Rightarrow> nat \<Rightarrow> reading list" where
  "stream_reads r D ending n =
     given r (take n D) @ (if ending \<and> D \<noteq> [] \<and> n = length D then [Eof] else [])"

definition stream_packet :: "u16 \<Rightarrow> bytes list \<Rightarrow> bool \<Rightarrow> nat \<Rightarrow> ParsedPacket \<Rightarrow> bool" where
  "stream_packet b D ending j pp \<longleftrightarrow>
     j < length D \<and> pp_seq_nr pp = b + of_nat j \<and> pp_data pp = D ! j \<and>
     pp_end pp - pp_payload pp = length (D ! j) \<and> length (D ! j) < 2 ^ 32 \<and>
     (pp_type pp = ST_FIN \<longleftrightarrow> ending \<and> Suc j = length D)"

text \<open>
  The network delays no packet so long that its number could be taken for one of the next
  1024 of the following round of the sequence numbers.
\<close>

definition in_reach :: "nat \<Rightarrow> nat \<Rightarrow> bool" where
  "in_reach n j \<longleftrightarrow> j < n + 2 ^ 16 \<and> n \<le> j + (2 ^ 16 - 1024)"

lemma seq_distance_reach:
  assumes "ack_nr (recv s) = b + of_nat n - 1" and "pp_seq_nr pp = b + of_nat j" and "in_reach n j"
  shows "seq_distance pp s < 1024 \<longleftrightarrow> n \<le> j \<and> j < n + 1024"
    and "n \<le> j \<Longrightarrow> unat (seq_distance pp s) = j - n"
proof -
  have sd: "seq_distance pp s = of_nat j - of_nat n"
    unfolding seq_distance_def assms(1,2) by simp
  have "unat (seq_distance pp s) = (if n \<le> j then j - n else 65536 - (n - j))"
  proof (cases "n \<le> j")
    case True
    then have "seq_distance pp s = of_nat (j - n)" by (simp add: sd)
    moreover have "j - n < 2 ^ 16" using assms(3) True by (simp add: in_reach_def)
    ultimately show ?thesis using True by (simp add: of_nat_inverse)
  next
    case False
    have "seq_distance pp s = of_nat (65536 - (n - j))"
      using False assms(3) by (simp add: sd in_reach_def of_nat_diff)
    moreover have "65536 - (n - j) < 2 ^ 16" using False by simp
    ultimately show ?thesis using False by (simp add: of_nat_inverse)
  qed
  moreover have "n - j \<le> 64512" using assms(3) by (simp add: in_reach_def le_diff_conv)
  ultimately show "seq_distance pp s < 1024 \<longleftrightarrow> n \<le> j \<and> j < n + 1024"
    and "n \<le> j \<Longrightarrow> unat (seq_distance pp s) = j - n"
    by (auto simp: word_less_nat_alt)
qed

lemma stream_eof:
  assumes "stream_inv b D ending n r" and "got_fin r"
  shows "unat (eof_pkt r - ack_nr r) = length D - n" and "eof_pkt r - ack_nr r = of_nat (length D - n)"
    and "length D - n < 2 ^ 16"
proof -
  show e: "eof_pkt r - ack_nr r = of_nat (length D - n)"
    using assms by (cases D) (auto simp: stream_inv_def of_nat_diff)
  have "length D \<le> n + 1024" using assms by (simp add: stream_inv_def)
  then show "length D - n < 2 ^ 16" by simp
  then show "unat (eof_pkt r - ack_nr r) = length D - n" unfolding e by (simp add: of_nat_inverse)
qed

lemma of_nat16_eq:
  assumes "a < 2 ^ 16" and "b < 2 ^ 16"
  shows "(of_nat a :: u16) = of_nat b \<longleftrightarrow> a = b"
proof
  have u: "unat (of_nat n :: u16) = n" if "n < 2 ^ 16" for n
    by (rule of_nat_inverse [OF refl]) (simp add: that [simplified])
  assume "(of_nat a :: u16) = of_nat b"
  then have "unat (of_nat a :: u16) = unat (of_nat b :: u16)" by (rule arg_cong)
  then show "a = b" by (simp only: u [OF assms(1)] u [OF assms(2)])
qed simp

lemma stream_fin_ok:
  assumes "stream_inv b D ending n r"
  shows "fin_ok r" and "got_fin r \<Longrightarrow> \<not> got_fin_reached r \<Longrightarrow> eof_pkt r \<noteq> ack_nr r"
proof -
  have "waiting r ! i = None"
    if "got_fin r" "i < sb_slots (inbuf r)" "unat (eof_pkt r - ack_nr r) \<le> i" for i
  proof (rule ccontr)
    assume "waiting r ! i \<noteq> None"
    then obtain p where "waiting r ! i = Some p" by blast
    then have "n + i < length D" using assms that(2) by (auto simp: stream_inv_def)
    then show False using stream_eof(1) [OF assms that(1)] that(3) by simp
  qed
  then show "fin_ok r" by (simp add: fin_ok_def)
next
  assume g: "got_fin r" "\<not> got_fin_reached r"
  then have "n < length D" using assms by (auto simp: stream_inv_def)
  then show "eof_pkt r \<noteq> ack_nr r" using stream_eof(1) [OF assms g(1)] by auto
qed

section \<open>One packet\<close>

lemma fin_seen_idem [simp]: "fin_seen pp (fin_seen pp s) = fin_seen pp s"
  by (simp add: fin_seen_def set_recv_def)

lemma deliver_fin_seen: "deliver_data E pp d h s = deliver_data E pp d h (fin_seen pp s)"
  by (simp add: deliver_data_def Let_def)

lemma stream_fin_seen:
  assumes i: "stream_inv b D ending n (recv s)" and p: "stream_packet b D ending j pp"
    and j: "n \<le> j" "j < n + 1024"
  shows "stream_inv b D ending n (recv (fin_seen pp s))"
    and "ending \<Longrightarrow> Suc j = length D \<Longrightarrow> got_fin (recv (fin_seen pp s))"
proof -
  have "waiting (recv s\<lparr>got_fin := g, eof_pkt := e\<rparr>) = waiting (recv s)" for g e
    by (simp add: waiting_def)
  moreover have l: "Suc j = length D \<Longrightarrow> (of_nat j :: u16) = of_nat (length D) - 1"
    by (metis add_diff_cancel_left' of_nat_Suc)
  ultimately show "stream_inv b D ending n (recv (fin_seen pp s))"
    using i p j l by (auto simp: fin_seen_def set_recv_def stream_inv_def stream_packet_def recv_ok_def)
  show "ending \<Longrightarrow> Suc j = length D \<Longrightarrow> got_fin (recv (fin_seen pp s))"
    using p by (simp add: fin_seen_def set_recv_def stream_packet_def)
qed

lemma arrived_bytes: "stream_packet b D ending j pp \<Longrightarrow> ipk_bytes (arrived pp) = D ! j"
  by (simp add: stream_packet_def arrived_def ipk_bytes_def of_nat_inverse)

lemma run_entry:
  assumes "i < run_length xs"
  shows "i < length xs" and "xs ! i \<noteq> None" and "run_bytes xs ! i = ipk_bytes (the (xs ! i))"
proof -
  have i: "i < length (takeWhile (\<lambda>x. x \<noteq> None) xs)" using assms by (simp add: run_length_def)
  then show "i < length xs" by (rule less_le_trans) (rule length_takeWhile_le)
  show "run_bytes xs ! i = ipk_bytes (the (xs ! i))" using i by (simp add: run_bytes_def takeWhile_nth)
  have "takeWhile (\<lambda>x. x \<noteq> None) xs ! i \<noteq> None" using nth_mem [OF i] by (blast dest: set_takeWhileD)
  then show "xs ! i \<noteq> None" using takeWhile_nth [OF i] by simp
qed

lemma run_bytes_length [simp]: "length (run_bytes xs) = run_length xs"
  by (simp add: run_bytes_def run_length_def)

text \<open>The packets in front of the first gap are the next ones of the stream.\<close>

lemma stream_run:
  assumes i: "stream_inv b D ending n r" and n: "n < length D"
  defines "k \<equiv> run_length (tl (waiting r))"
  shows "n + Suc k \<le> length D" and "D ! n # run_bytes (tl (waiting r)) = take (Suc k) (drop n D)"
    and "0 < k \<Longrightarrow> ending \<Longrightarrow> n + Suc k = length D \<Longrightarrow> got_fin r" and "Suc k \<le> sb_slots (inbuf r)"
proof -
  have pos: "0 < sb_slots (inbuf r)" using i slots_pos [of "inbuf r"] by (simp add: stream_inv_def recv_ok_def)
  show k: "Suc k \<le> sb_slots (inbuf r)" using run_length_le [of "tl (waiting r)"] pos by (simp add: k_def)
  have e: "\<exists>p. waiting r ! Suc m = Some p \<and> run_bytes (tl (waiting r)) ! m = ipk_bytes p \<and> Suc m < sb_slots (inbuf r)"
    if "m < k" for m
    using run_entry [of m "tl (waiting r)"] that by (auto simp: k_def nth_tl less_diff_conv)
  have f: "n + Suc m < length D \<and> run_bytes (tl (waiting r)) ! m = D ! (n + Suc m) \<and>
      (ending \<and> Suc (n + Suc m) = length D \<longrightarrow> got_fin r)" if "m < k" for m
    using e [OF that] i by (auto simp: stream_inv_def)
  show l: "n + Suc k \<le> length D" using f [of "k - 1"] n by (cases k) auto
  show "0 < k \<Longrightarrow> ending \<Longrightarrow> n + Suc k = length D \<Longrightarrow> got_fin r" using f [of "k - 1"] by (cases k) auto
  show "D ! n # run_bytes (tl (waiting r)) = take (Suc k) (drop n D)"
    by (rule nth_equalityI) (use f l n in \<open>auto simp: nth_Cons' k_def [symmetric] less_Suc_eq_le\<close>)
qed

lemma given_take: "given r (take m (drop n D)) = given r xs \<Longrightarrow> given r (take n D) @ given r xs = given r (take (n + m) D)"
  by (metis given_append take_add)

definition kept :: "UtpSocket \<Rightarrow> UtpSocket \<Rightarrow> bool" where
  "kept s s' \<longleftrightarrow> self s' = self s \<and> conn s' = conn s \<and> send s' = send s \<and> mtu s' = mtu s \<and>
     read_shutdown (recv s') = read_shutdown (recv s)"

lemma given_kept: "kept s s' \<Longrightarrow> given (recv s') bs = given (recv s) bs"
  by (simp add: kept_def given_def)

lemma same_receiver_kept: "same_receiver s s' \<Longrightarrow> kept s s'"
  by (simp add: same_receiver_def kept_def)

lemma fin_seen_kept: "kept s (fin_seen pp s)"
  by (simp add: kept_def fin_seen_def set_recv_def)

text \<open>The end of the stream is reached with the delivery of its last packet.\<close>

lemma stream_end:
  assumes i: "stream_inv b D ending n r" and n: "n < length D" and m: "0 < m" "n + m \<le> length D"
    and a: "ack_nr r' = ack_nr r + of_nat m"
    and fin: "ending \<Longrightarrow> n + m = length D \<Longrightarrow> got_fin r"
    and re: "got_fin_reached r' \<longleftrightarrow> got_fin_reached r \<or> got_fin r \<and> eof_pkt r = ack_nr r'"
  shows "got_fin_reached r' \<longleftrightarrow> ending \<and> D \<noteq> [] \<and> n + m = length D"
proof -
  have e: "eof_pkt r = ack_nr r' \<longleftrightarrow> n + m = length D" if "got_fin r"
  proof -
    have "eof_pkt r = ack_nr r' \<longleftrightarrow> eof_pkt r - ack_nr r = of_nat m"
      unfolding a by (simp add: diff_eq_eq add.commute)
    also have "\<dots> \<longleftrightarrow> length D - n = m"
      unfolding stream_eof(2) [OF i that] using stream_eof(3) [OF i that] m(2)
      by (intro of_nat16_eq) simp_all
    finally show ?thesis using n by auto
  qed
  have "\<not> got_fin_reached r" and "got_fin r \<Longrightarrow> ending" using i n by (simp_all add: stream_inv_def)
  then show ?thesis using re e fin n by auto
qed

lemma stream_advance:
  assumes i: "stream_inv b D ending n r" and n: "n < length D" and m: "0 < m" "n + m \<le> length D" "m \<le> sb_slots (inbuf r)"
    and a: "ack_nr r' = ack_nr r + of_nat m" and w: "waiting r' = drop m (waiting r) @ replicate m None"
    and g: "got_fin r' = got_fin r" "eof_pkt r' = eof_pkt r" and r: "recv_ok r'"
    and e: "got_fin_reached r' \<longleftrightarrow> ending \<and> D \<noteq> [] \<and> n + m = length D"
  shows "stream_inv b D ending (n + m) r'"
proof -
  have sl: "sb_slots (inbuf r') = sb_slots (inbuf r)" using arg_cong [OF w, of length] m(3) by simp
  have ent: "n + i < length D \<and> ipk_bytes p = D ! (n + i) \<and> (ending \<and> Suc (n + i) = length D \<longrightarrow> got_fin r)"
    if "i < sb_slots (inbuf r)" "waiting r ! i = Some p" for i p
    using i that by (simp add: stream_inv_def)
  have "n + m + i < length D \<and> ipk_bytes p = D ! (n + m + i) \<and>
      (ending \<and> Suc (n + m + i) = length D \<longrightarrow> got_fin r')"
    if "i < sb_slots (inbuf r')" "waiting r' ! i = Some p" for i p
  proof -
    have "m + i < sb_slots (inbuf r)" "waiting r ! (m + i) = Some p"
      using that m(3) unfolding w sl by (auto simp: nth_append split: if_splits)
    then show ?thesis using ent [of "m + i" p] by (simp add: g add.assoc)
  qed
  moreover have "got_fin r' \<longrightarrow> ending \<and> D \<noteq> [] \<and> eof_pkt r' = b + of_nat (length D - 1) \<and> length D \<le> n + m + 1024"
    using i unfolding stream_inv_def g by auto
  moreover have "ack_nr r' = b + of_nat (n + m) - 1" using i a by (simp add: stream_inv_def)
  ultimately show ?thesis unfolding stream_inv_def using r m(2) e by blast
qed

text \<open>The next packet is delivered, with those that waited for it.\<close>

lemma stream_deliver_next:
  assumes ok: "host_for E (self s) h" and i: "stream_inv b D ending n (recv s)"
    and p: "stream_packet b D ending n pp" and fs: "fin_seen pp s = s"
    and fin: "ending \<Longrightarrow> Suc n = length D \<Longrightarrow> got_fin (recv s)"
    and rd: "reads (self s) h = R @ stream_reads (recv s) D ending n"
  shows "\<exists>c h' s' n'. deliver_data E pp 0 h s = Some (c, h', s') \<and> host_for E (self s) h' \<and> kept s s' \<and>
    n < n' \<and> stream_inv b D ending n' (recv s') \<and> reads (self s) h' = R @ stream_reads (recv s') D ending n'"
proof -
  let ?w = "waiting (recv s)"
  define k where "k = run_length (tl ?w)"
  have nd: "n < length D" using p by (simp add: stream_packet_def)
  have r: "recv_ok (recv s)" using i by (simp add: stream_inv_def)
  obtain h' s' where o: "deliver_in_order E pp h s = Some (h', s')" "host_for E (self s) h'" "same_receiver s s'"
    "reads (self s) h' = reads (self s) h @ given (recv s) (pp_data pp # run_bytes (tl ?w)) @ ended (recv s) (recv s')"
    "got_fin_reached (recv s') \<longleftrightarrow> got_fin_reached (recv s) \<or> got_fin (recv s) \<and> eof_pkt (recv s) = ack_nr (recv s')"
    "recv_ok (recv s')" "ack_nr (recv s') = ack_nr (recv s) + of_nat (Suc k)"
    "waiting (recv s') = drop (Suc k) ?w @ replicate (Suc k) None"
    unfolding k_def by (rule deliver_in_order_total [OF ok r stream_fin_ok(1) [OF i]]) blast
  note run = stream_run [OF i nd, folded k_def]
  have gf: "got_fin (recv s') = got_fin (recv s)" "eof_pkt (recv s') = eof_pkt (recv s)"
    using o(3) by (simp_all add: same_receiver_def)
  have last: "ending \<Longrightarrow> n + Suc k = length D \<Longrightarrow> got_fin (recv s)" using run(3) fin by (cases k) auto
  have e: "got_fin_reached (recv s') \<longleftrightarrow> ending \<and> D \<noteq> [] \<and> n + Suc k = length D"
    by (rule stream_end [OF i nd _ run(1) o(7) last o(5)]) simp
  have inv: "stream_inv b D ending (n + Suc k) (recv s')"
    by (rule stream_advance [OF i nd _ run(1,4) o(7,8) gf o(6) e]) simp
  have "\<not> got_fin_reached (recv s)" using i nd by (simp add: stream_inv_def)
  then have en: "ended (recv s) (recv s') = (if ending \<and> D \<noteq> [] \<and> n + Suc k = length D then [Eof] else [])"
    using e by (simp add: ended_def)
  have dj: "pp_data pp # run_bytes (tl ?w) = take (Suc k) (drop n D)"
    using run(2) p by (simp add: stream_packet_def)
  have "given (recv s) (take n D) @ given (recv s) (take (Suc k) (drop n D)) = given (recv s) (take (n + Suc k) D)"
    by (rule given_take) simp
  then have "reads (self s) h' = R @ stream_reads (recv s') D ending (n + Suc k)"
    using o(4) nd unfolding dj en rd stream_reads_def given_kept [OF same_receiver_kept [OF o(3)]] by simp
  moreover have "deliver_data E pp 0 h s = Some (of_nat (pp_end pp - pp_payload pp), h', s')"
    using o(1) by (simp add: deliver_data_def fs)
  ultimately show ?thesis
    using o(2) inv same_receiver_kept [OF o(3)] by (intro exI [of _ "n + Suc k"] exI conjI) simp_all
qed

text \<open>A packet beyond a gap is kept for later.\<close>

lemma stream_store:
  assumes i: "stream_inv b D ending n r" and p: "stream_packet b D ending j pp" and j: "j = n + d"
    and fin: "ending \<Longrightarrow> Suc j = length D \<Longrightarrow> got_fin r" and st: "same_stream r r'" and r: "recv_ok r'"
    and d: "d < length (waiting r @ replicate k None)"
    and w: "waiting r' = (if (waiting r @ replicate k None) ! d = None
       then (waiting r @ replicate k None)[d := Some (arrived pp)] else waiting r @ replicate k None)"
  shows "stream_inv b D ending n r'"
proof -
  let ?v = "waiting r @ replicate k None"
  have sl: "sb_slots (inbuf r') = sb_slots (inbuf r) + k"
    using arg_cong [OF w, of length] by (auto split: if_splits)
  have eq: "ack_nr r' = ack_nr r" "got_fin r' = got_fin r" "eof_pkt r' = eof_pkt r"
    "got_fin_reached r' = got_fin_reached r" using st by (simp_all add: same_stream_def)
  have ent: "n + i < length D \<and> ipk_bytes q = D ! (n + i) \<and> (ending \<and> Suc (n + i) = length D \<longrightarrow> got_fin r)"
    if "i < sb_slots (inbuf r)" "waiting r ! i = Some q" for i q
    using i that by (simp add: stream_inv_def)
  have "n + m < length D \<and> ipk_bytes q = D ! (n + m) \<and> (ending \<and> Suc (n + m) = length D \<longrightarrow> got_fin r')"
    if m: "m < sb_slots (inbuf r')" "waiting r' ! m = Some q" for m q
  proof (cases "m = d \<and> ?v ! d = None")
    case True
    then have "q = arrived pp" using m(2) d unfolding w by auto
    then show ?thesis
      using True arrived_bytes [OF p] p j fin by (auto simp: eq stream_packet_def)
  next
    case False
    then have "?v ! m = Some q" using m(2) unfolding w by (auto simp: nth_list_update split: if_splits)
    then have "m < sb_slots (inbuf r)" "waiting r ! m = Some q"
      using m(1) sl by (auto simp: nth_append split: if_splits)
    then show ?thesis using ent by (simp add: eq)
  qed
  then show ?thesis using i r unfolding stream_inv_def eq by blast
qed

lemma stream_deliver_later:
  assumes ok: "host_for E (self s) h" and i: "stream_inv b D ending n (recv s)"
    and p: "stream_packet b D ending (n + unat d) pp" and fs: "fin_seen pp s = s"
    and fin: "ending \<Longrightarrow> Suc (n + unat d) = length D \<Longrightarrow> got_fin (recv s)"
    and d: "d \<noteq> 0" "d < 1024"
    and rd: "reads (self s) h = R @ stream_reads (recv s) D ending n"
  shows "\<exists>c h' s'. deliver_data E pp d h s = Some (c, h', s') \<and> host_for E (self s) h' \<and> kept s s' \<and>
    stream_inv b D ending n (recv s') \<and> reads (self s) h' = R @ stream_reads (recv s') D ending n"
proof -
  have r: "recv_ok (recv s)" using i by (simp add: stream_inv_def)
  have nd: "n + unat d < length D" using p by (simp add: stream_packet_def)
  have q: "pp_seq_nr pp = ack_nr (recv s) + 1 + d" using i p by (simp add: stream_inv_def stream_packet_def)
  have pe: "\<not> past_eof d (recv s)"
  proof
    assume pe: "past_eof d (recv s)"
    then have g: "got_fin (recv s)" by (simp add: past_eof_def)
    have "eof_pkt (recv s) - ack_nr (recv s) \<noteq> 0" using stream_eof(1) [OF i g] nd by auto
    then have "unat (eof_pkt (recv s) - ack_nr (recv s) - 1) = length D - n - 1"
      using unat_pred stream_eof(1) [OF i g] by metis
    then have "length D - n - 1 < unat d" using pe by (simp add: past_eof_def word_less_nat_alt)
    then show False using nd by simp
  qed
  have d3: "d \<le> 0x3ff" using d(2) by (simp add: word_le_nat_alt word_less_nat_alt)
  obtain c h' s' k where g: "deliver_data E pp d h s = Some (c, h', s')" "host_for E (self s) h'"
    "reads (self s) h' = reads (self s) h" "same_receiver s s'" "same_stream (recv s) (recv s')"
    "recv_ok (recv s')" "unat d < length (waiting (recv s) @ replicate k None)"
    "waiting (recv s') =
    (if (waiting (recv s) @ replicate k None) ! unat d = None
     then (waiting (recv s) @ replicate k None)[unat d := Some (arrived pp)]
     else waiting (recv s) @ replicate k None)"
    by (rule deliver_gap_total [OF ok r stream_fin_ok [OF i] fs d(1) d3 pe q]) blast
  have "stream_inv b D ending n (recv s')"
    by (rule stream_store [OF i p refl fin g(5,6,7,8)])
  moreover have "reads (self s) h' = R @ stream_reads (recv s') D ending n"
    using g(3) rd by (simp add: stream_reads_def given_kept [OF same_receiver_kept [OF g(4)]])
  ultimately show ?thesis using g(1,2) same_receiver_kept [OF g(4)] by (intro exI conjI)
qed

text \<open>
  Every packet within the reorder window keeps the invariant, and the application reads the
  packets from the first missing one up to the next gap.
\<close>

lemma stream_deliver:
  assumes ok: "host_for E (self s) h" and i: "stream_inv b D ending n (recv s)"
    and p: "stream_packet b D ending (n + unat d) pp" and d: "d < 1024"
    and rd: "reads (self s) h = R @ stream_reads (recv s) D ending n"
  shows "\<exists>c h' s' n'. deliver_data E pp d h s = Some (c, h', s') \<and> host_for E (self s) h' \<and> kept s s' \<and>
    n \<le> n' \<and> (d = 0 \<longrightarrow> n < n') \<and> stream_inv b D ending n' (recv s') \<and>
    reads (self s) h' = R @ stream_reads (recv s') D ending n'"
proof -
  let ?s = "fin_seen pp s"
  have "unat d < 1024" using d by (simp add: word_less_nat_alt)
  then have j: "n \<le> n + unat d" "n + unat d < n + 1024" by simp_all
  note fs = stream_fin_seen [OF i p j]
  have sf: "self ?s = self s" using fin_seen_kept [of s pp] by (simp add: kept_def)
  have ok': "host_for E (self ?s) h" using ok by (simp add: sf)
  have rd': "reads (self ?s) h = R @ stream_reads (recv ?s) D ending n"
    using rd given_kept [OF fin_seen_kept [of s pp]] by (simp add: sf stream_reads_def)
  have kt: "kept ?s s' \<Longrightarrow> kept s s'" for s' using fin_seen_kept [of s pp] by (simp add: kept_def)
  show ?thesis
  proof (cases "d = 0")
    case True
    then have p0: "stream_packet b D ending n pp" and f0: "ending \<Longrightarrow> Suc n = length D \<Longrightarrow> got_fin (recv ?s)"
      using p fs(2) by simp_all
    show ?thesis
      using stream_deliver_next [OF ok' fs(1) p0 fin_seen_idem f0 rd'] kt
      unfolding True deliver_fin_seen [of E pp 0 h s, symmetric] sf by (metis less_imp_le)
  next
    case False
    show ?thesis
      using stream_deliver_later [OF ok' fs(1) p fin_seen_idem fs(2) False d rd'] kt False
      unfolding deliver_fin_seen [of E pp d h s, symmetric] sf by blast
  qed
qed

end
