(* ===== verification/Send_Frame.thy ===== *)
theory Send_Frame
  imports Socket_Frame
begin

text \<open>
  What a transmission changes, whenever it returns: the context as far as the application and
  the other components see it, and of the socket the packet, the congestion controller's bytes
  in flight, the MTU probe and the time of the last transmission.
\<close>

section \<open>The context\<close>

text \<open>The number of events so far is a clock for transmissions.\<close>

definition age :: "UtpContext \<Rightarrow> nat" where
  "age h = length (events h)"

lemma age_simps [simp]:
  "age (h\<lparr>tick := t\<rparr>) = age h" "age (h\<lparr>nraw_send := l\<rparr>) = age h"
  "age (h\<lparr>ack_sockets := a, ack_index := i\<rparr>) = age h" "age (emit ev h) = Suc (age h)"
  by (simp_all add: age_def emit_def)

definition quiet :: "env \<Rightarrow> nat \<Rightarrow> UtpContext \<Rightarrow> UtpContext \<Rightarrow> bool" where
  "quiet E n h h' \<longleftrightarrow> same_host h h' \<and> age h \<le> age h' \<and> (host_for E n h \<longrightarrow> host_for E n h')"

lemma quiet_age: "quiet E n h h' \<Longrightarrow> age h \<le> age h'"
  by (simp add: quiet_def)

lemma quiet_refl [simp]: "quiet E n h h"
  by (simp add: quiet_def)

lemma quiet_trans: "quiet E n h h1 \<Longrightarrow> quiet E n h1 h' \<Longrightarrow> quiet E n h h'"
  by (auto simp: quiet_def intro: same_host_trans)

lemma host_for_cong:
  "ack_sockets h' = ack_sockets h \<Longrightarrow> ack_index h' = ack_index h \<Longrightarrow> host_for E n h' = host_for E n h"
  by (simp add: host_for_def host_ok_def ack_list_ok_def ack_pending_def)

lemma quiet_tick [simp]: "quiet E n h (h\<lparr>tick := t\<rparr>)"
  using host_for_cong [of "h\<lparr>tick := t\<rparr>" h] by (simp add: quiet_def)

lemma quiet_emit: "(\<And>m. read_of m ev = []) \<Longrightarrow> quiet E n h (emit ev h)"
  unfolding quiet_def using same_host_emit [of ev h] host_for_cong [of "emit ev h" h E n] by (simp add: emit_def age_def)

lemma quiet_remove_ack:
  assumes "remove_from_ack_list E h s = Some h'" shows "quiet E (self s) h h'"
proof -
  have fr: "h' = h\<lparr>ack_sockets := ack_sockets h', ack_index := ack_index h'\<rparr>" by (rule remove_ack_frame [OF assms])
  have "same_host h h'" and "age h \<le> age h'" by (subst fr, simp)+
  moreover have "host_for E (self s) h'" if ok: "host_for E (self s) h"
  proof -
    have "host_ok E h" using ok by (simp add: host_for_def)
    then obtain h1 where h1: "remove_from_ack_list E h s = Some h1" "host_ok E h1"
      "ack_pending h1 = ack_pending h - {self s}" by (rule remove_ack_total)
    then show ?thesis using host_for_minus [OF ok h1(2,3)] assms by simp
  qed
  ultimately show ?thesis by (simp add: quiet_def)
qed

lemma quiet_send_to_addr:
  assumes "send_to_addr_impl E b k a flags h = Some h'" shows "quiet E n h h'"
proof -
  obtain p x l where h': "h' = emit (Ev_sendto p x flags) (h\<lparr>nraw_send := l\<rparr>)"
    using assms by (auto simp: send_to_addr_impl_def register_sent_packet_def Let_def bind_eq_Some_conv
        split: prod.splits)
  have "quiet E n h (h\<lparr>nraw_send := l\<rparr>)"
    using host_for_cong [of "h\<lparr>nraw_send := l\<rparr>" h] by (simp add: quiet_def)
  then show ?thesis unfolding h' by (rule quiet_trans) (simp add: quiet_emit)
qed

section \<open>Transmissions\<close>

lemma send_data_post:
  "post (send_data E b n type flags h s) (\<lambda>(b', h', s').
     s' = s\<lparr>timing := (timing s)\<lparr>last_sent_packet := current_ms h\<rparr>\<rparr> \<and> length b' = length b \<and>
     drop PF_SIZE b' = drop PF_SIZE b \<and> quiet E (self s) h h' \<and> age h < age h')"
proof (rule postI, clarify)
  fix b' h' s'
  assume sd: "send_data E b n type flags h s = Some (b', h', s')"
  let ?h1 = "h\<lparr>tick := Suc (tick h)\<rparr>" and ?s = "s\<lparr>timing := (timing s)\<lparr>last_sent_packet := current_ms h\<rparr>\<rparr>"
  obtain v ty h2 where o: "(if type = payload_bandwidth
          then let (v, h) = get_overhead E ?h1 ?s in (header_overhead, v, h)
          else let (v, h) = get_udp_overhead E ?h1 ?s in (type, n + v, h)) = (ty, v, h2)"
    and f2: "same_host ?h1 h2" "events h2 = events ?h1" "ack_sockets h2 = ack_sockets ?h1"
      "ack_index h2 = ack_index ?h1"
    by (rule overhead_event)
  let ?h3 = "emit (Ev_on_overhead_statistics (self s) True v ty) h2"
  have eq: "send_data E b n type flags h s =
    (do {
       b \<leftarrow> update_pf (\<lambda>pf. pf\<lparr>pf_tv_usec := ucast (cb_microseconds E (tick h)), pf_reply_micro := reply_micro (timing s)\<rparr>) b;
       h \<leftarrow> send_to_addr_impl E b n (addr (conn s)) flags ?h3;
       h \<leftarrow> remove_from_ack_list E h ?s;
       Some (b, h, ?s)
     })"
    using o unfolding send_data_def call_get_microseconds_def query_def set_timing_def Let_def
    by (cases "type = payload_bandwidth") (simp_all add: split_def Let_def)
  then obtain h4 where u: "update_pf (\<lambda>pf. pf\<lparr>pf_tv_usec := ucast (cb_microseconds E (tick h)),
      pf_reply_micro := reply_micro (timing s)\<rparr>) b = Some b'"
    and s4: "send_to_addr_impl E b' n (addr (conn s)) flags ?h3 = Some h4"
    and r: "remove_from_ack_list E h4 ?s = Some h'" and s': "s' = ?s"
    using sd unfolding eq by (auto simp: bind_eq_Some_conv)
  have q2: "quiet E (self s) h h2" using f2 host_for_cong [of h2 h] same_host_trans [OF same_host_updates(1) f2(1)]
    by (simp add: quiet_def age_def)
  then have q3: "quiet E (self s) h ?h3" by (rule quiet_trans) (simp add: quiet_emit)
  have q5: "quiet E (self s) ?h3 h'" using quiet_trans [OF quiet_send_to_addr [OF s4] quiet_remove_ack [OF r]] by simp
  have "age h < age h'" using quiet_age [OF q2] quiet_age [OF q5] by simp
  then show "s' = ?s \<and> length b' = length b \<and> drop PF_SIZE b' = drop PF_SIZE b \<and> quiet E (self s) h h' \<and> age h < age h'"
    using s' length_update_pf [OF u] drop_update_pf [OF u] quiet_trans [OF q3 q5] by (simp add: PF_SIZE_def)
qed

text \<open>The bytes in flight, before and after the packet is counted.\<close>

definition counted :: "OutgoingPacket \<Rightarrow> LedbatController \<Rightarrow> LedbatController" where
  "counted p c = (if opk_transmissions p = 0 \<or> opk_need_resend p then add_in_flight (opk_payload p) c else c)"

lemma rediscover_post:
  "post (rediscover_mtu E ms h s) (\<lambda>(h', s'). \<exists>m t. h' = h\<lparr>tick := t\<rparr> \<and> s' = s\<lparr>mtu := m\<rparr> \<and>
     mtu_last m = mtu_last (mtu s))"
proof (cases "should_rediscover ms (mtu s)")
  case True
  then show ?thesis
    by (auto simp: rediscover_mtu_def mtu_reset_def get_udp_mtu_def call_get_udp_mtu_def query_def post_simps Let_def
        intro!: postI)
next
  case False
  show ?thesis
    using False by (simp add: rediscover_mtu_def post_simps) (intro conjI exI [of _ "mtu s"] exI [of _ "tick h"], simp_all)
qed

lemma choose_probe_post:
  "post (choose_probe E p s) (\<lambda>(probe, s'). \<exists>m. s' = s\<lparr>mtu := m\<rparr> \<and> mtu_last m = mtu_last (mtu s))"
proof (cases "probe_candidate s p")
  case True
  then show ?thesis by (auto simp: choose_probe_def set_probe_def post_simps)
next
  case False
  show ?thesis using False by (simp add: choose_probe_def post_simps) (rule exI [of _ "mtu s"], simp)
qed

lemma begin_transmission_post:
  "post (begin_transmission E v h s) (\<lambda>(p', probe, h', s'). \<exists>p b t m.
     out_at v s = Some p \<and> length b = length (opk_data p) \<and> drop PF_SIZE b = drop PF_SIZE (opk_data p) \<and>
     p' = inc_transmissions (p\<lparr>opk_need_resend := False, opk_data := b, opk_time_sent := t\<rparr>) \<and>
     mtu_last m = mtu_last (mtu s) \<and>
     s' = s\<lparr>cc := counted p (cc s), mtu := m\<rparr> \<and> quiet E (self s) h h' \<and> current_ms h' = current_ms h)"
proof (cases "out_at v s")
  case (Some p)
  define s1 where "s1 = (if opk_transmissions p = 0 \<or> opk_need_resend p
                then set_cc (add_in_flight (opk_payload p)) s else s)"
  have s1: "s1 = s\<lparr>cc := counted p (cc s)\<rparr>" by (simp add: s1_def counted_def set_cc_def)
  let ?t = "cb_microseconds E (Suc (tick h))"
  have eq: "begin_transmission E v h s =
    do {
      b \<leftarrow> update_pf (\<lambda>pf. pf\<lparr>pf_ack_nr := ack_nr (recv s1)\<rparr>) (opk_data p);
      (h, s) \<leftarrow> rediscover_mtu E (cb_milliseconds E (tick h)) (h\<lparr>tick := Suc (Suc (tick h))\<rparr>) s1;
      (probe, s) \<leftarrow> choose_probe E (p\<lparr>opk_need_resend := False, opk_data := b, opk_time_sent := ?t\<rparr>) s;
      Some (inc_transmissions (p\<lparr>opk_need_resend := False, opk_data := b, opk_time_sent := ?t\<rparr>), probe, h, s)
    }"
    unfolding begin_transmission_def call_get_milliseconds_def call_get_microseconds_def query_def s1_def Let_def
    using Some by simp
  show ?thesis
  proof (rule postI, clarify)
    fix p' probe h' s'
    assume "begin_transmission E v h s = Some (p', probe, h', s')"
    then obtain b h2 s2 where u: "update_pf (\<lambda>pf. pf\<lparr>pf_ack_nr := ack_nr (recv s1)\<rparr>) (opk_data p) = Some b"
      and rd: "rediscover_mtu E (cb_milliseconds E (tick h)) (h\<lparr>tick := Suc (Suc (tick h))\<rparr>) s1 = Some (h2, s2)"
      and cp: "choose_probe E (p\<lparr>opk_need_resend := False, opk_data := b, opk_time_sent := ?t\<rparr>) s2 = Some (probe, s')"
      and r: "h' = h2" "p' = inc_transmissions (p\<lparr>opk_need_resend := False, opk_data := b, opk_time_sent := ?t\<rparr>)"
      unfolding eq by (auto simp: bind_eq_Some_conv)
    obtain m k where m: "h2 = h\<lparr>tick := k\<rparr>" "s2 = s1\<lparr>mtu := m\<rparr>" "mtu_last m = mtu_last (mtu s1)"
      using postD [OF rediscover_post rd] by auto
    obtain m' where m': "s' = s2\<lparr>mtu := m'\<rparr>" "mtu_last m' = mtu_last (mtu s2)" using postD [OF choose_probe_post cp] by auto
    have "s' = s\<lparr>cc := counted p (cc s), mtu := m'\<rparr>" by (simp add: m'(1) m(2) s1)
    moreover have "mtu_last m' = mtu_last (mtu s)" using m'(2) m(2,3) s1 by simp
    ultimately show "\<exists>p b t m. out_at v s = Some p \<and> length b = length (opk_data p) \<and>
       drop PF_SIZE b = drop PF_SIZE (opk_data p) \<and>
       p' = inc_transmissions (p\<lparr>opk_need_resend := False, opk_data := b, opk_time_sent := t\<rparr>) \<and>
       mtu_last m = mtu_last (mtu s) \<and>
       s' = s\<lparr>cc := counted p (cc s), mtu := m\<rparr> \<and> quiet E (self s) h h' \<and> current_ms h' = current_ms h"
      using Some r m(1) length_update_pf [OF u] drop_update_pf [OF u]
      by (intro exI [of _ p] exI [of _ b] exI [of _ ?t] exI [of _ m']) (simp add: PF_SIZE_def)
  qed
qed (simp add: begin_transmission_def call_get_milliseconds_def query_def post_simps)

lemma send_packet_post:
  "post (send_packet E v h s) (\<lambda>(h', s'). \<exists>p b t m.
     out_at v s = Some p \<and> length b = length (opk_data p) \<and> drop PF_SIZE b = drop PF_SIZE (opk_data p) \<and>
     mtu_last m = mtu_last (mtu s) \<and>
     s' = set_out v (inc_transmissions (p\<lparr>opk_need_resend := False, opk_data := b, opk_time_sent := t\<rparr>))
       (s\<lparr>cc := counted p (cc s), mtu := m, timing := (timing s)\<lparr>last_sent_packet := current_ms h\<rparr>\<rparr>) \<and>
     quiet E (self s) h h' \<and> age h < age h')"
proof (rule postI, clarify)
  fix h' s'
  assume "send_packet E v h s = Some (h', s')"
  then obtain p1 probe h1 s1 b1 s2 where
    bt: "begin_transmission E v h s = Some (p1, probe, h1, s1)" and
    sd: "send_data E (opk_data p1) (opk_length p1) (packet_bandwidth s1 p1)
         (if probe then UTP_UDP_DONTFRAG else 0) h1 s1 = Some (b1, h', s2)" and
    s': "s' = set_out v (p1\<lparr>opk_data := b1\<rparr>) s2"
    unfolding send_packet_def by (auto simp: bind_eq_Some_conv)
  obtain p b t m where b: "out_at v s = Some p" "length b = length (opk_data p)"
    "drop PF_SIZE b = drop PF_SIZE (opk_data p)"
    "p1 = inc_transmissions (p\<lparr>opk_need_resend := False, opk_data := b, opk_time_sent := t\<rparr>)"
    "s1 = s\<lparr>cc := counted p (cc s), mtu := m\<rparr>" "quiet E (self s) h h1" "current_ms h1 = current_ms h"
    "mtu_last m = mtu_last (mtu s)"
    using postD [OF begin_transmission_post bt] by auto
  have d: "s2 = s1\<lparr>timing := (timing s1)\<lparr>last_sent_packet := current_ms h1\<rparr>\<rparr>"
    "length b1 = length (opk_data p1)" "drop PF_SIZE b1 = drop PF_SIZE (opk_data p1)" "quiet E (self s1) h1 h'" "age h1 < age h'"
    using postD [OF send_data_post sd] by auto
  have "p1\<lparr>opk_data := b1\<rparr> = inc_transmissions (p\<lparr>opk_need_resend := False, opk_data := b1, opk_time_sent := t\<rparr>)"
    by (simp add: b(4) inc_transmissions_def)
  moreover have "length b1 = length (opk_data p)" "drop PF_SIZE b1 = drop PF_SIZE (opk_data p)"
    using d(2,3) b(2,3,4) by (simp_all add: inc_transmissions_def)
  moreover have "quiet E (self s) h h'" using quiet_trans [OF b(6)] d(4) b(5) by simp
  moreover have "age h < age h'" using quiet_age [OF b(6)] d(5) by simp
  ultimately show "\<exists>p b t m. out_at v s = Some p \<and> length b = length (opk_data p) \<and>
     drop PF_SIZE b = drop PF_SIZE (opk_data p) \<and> mtu_last m = mtu_last (mtu s) \<and>
     s' = set_out v (inc_transmissions (p\<lparr>opk_need_resend := False, opk_data := b, opk_time_sent := t\<rparr>))
       (s\<lparr>cc := counted p (cc s), mtu := m, timing := (timing s)\<lparr>last_sent_packet := current_ms h\<rparr>\<rparr>) \<and>
     quiet E (self s) h h' \<and> age h < age h'"
    unfolding s' d(1) b(5,7) using b(1,8)
    by (intro exI [of _ p] exI [of _ b1] exI [of _ t] exI [of _ m]) simp
qed

end
