(* ===== verification/Send_Window.thy ===== *)
theory Send_Window
  imports Receive_Correct Send_Frame
begin

text \<open>
  The send window. The outgoing ring is seen as the list of its slots from the oldest packet
  of the window on (\<open>win\<close>), the packets in the first \<open>cur_window_packets\<close> positions. The
  invariant \<open>win_inv\<close> ties the congestion controller's bytes in flight to the packets that are
  on their way; \<open>work\<close> collects the steps of which the operations of the sender consist.
\<close>

section \<open>The outgoing ring as a list\<close>

definition win :: "UtpSocket \<Rightarrow> OutgoingPacket option list" where
  "win s = sb_view (oldest64 s) (sb_slots (outbuf (send s))) (outbuf (send s))"

lemma win_length [simp]: "length (win s) = sb_slots (outbuf (send s))"
  by (simp add: win_def sb_view_def)

lemma win_cong:
  "outbuf (send s') = outbuf (send s) \<Longrightarrow> seq_nr (send s') = seq_nr (send s) \<Longrightarrow>
   cur_window_packets (send s') = cur_window_packets (send s) \<Longrightarrow> win s' = win s"
  by (simp add: win_def oldest64_def seq64_def window64_def)

text \<open>The position in the list of the slot that a number selects.\<close>

definition pos_of :: "u64 \<Rightarrow> UtpSocket \<Rightarrow> nat" where
  "pos_of v s = unat (v - oldest64 s) mod sb_slots (outbuf (send s))"

lemma pos_of_slot:
  assumes b: "sb_wf (outbuf (send s))"
  shows "pos_of v s < length (win s)"
    and "unat v mod sb_slots (outbuf (send s)) =
      unat (oldest64 s + of_nat (pos_of v s)) mod sb_slots (outbuf (send s))"
proof -
  let ?m = "sb_slots (outbuf (send s))"
  have pos: "0 < ?m" using slots_pos [OF b] by simp
  then show "pos_of v s < length (win s)" by (simp add: pos_of_def)
  have "unat v mod ?m = unat (oldest64 s + of_nat (unat (v - oldest64 s))) mod ?m" by simp
  also have "\<dots> = (unat (oldest64 s) + unat (v - oldest64 s)) mod ?m"
    by (rule mod_add_of_nat [OF slots_dvd64 [OF b]])
  also have "\<dots> = (unat (oldest64 s) + pos_of v s) mod ?m" by (simp add: pos_of_def mod_add_right_eq)
  finally show "unat v mod ?m = unat (oldest64 s + of_nat (pos_of v s)) mod ?m"
    by (simp only: mod_add_of_nat [OF slots_dvd64 [OF b]])
qed

lemma out_at_win:
  assumes b: "sb_wf (outbuf (send s))"
  shows "out_at v s = win s ! pos_of v s"
proof -
  have "out_at v s = sb_get (oldest64 s + of_nat (pos_of v s)) (outbuf (send s))"
    unfolding out_at_def by (rule get_cong [OF b pos_of_slot(2) [OF b]])
  also have "\<dots> = win s ! pos_of v s"
    using pos_of_slot(1) [OF b, of v] by (simp add: win_def sb_view_def)
  finally show ?thesis .
qed

text \<open>\<open>set_out\<close> is \<open>put\<close> on a slot that exists.\<close>

lemma set_out_put:
  assumes "sb_wf (outbuf (send s))"
  shows "sb_put nd v p (outbuf (send s)) = Some (outbuf (send (set_out v p s)))"
proof -
  obtain k where k: "sb_wf_at k (outbuf (send s))" using assms unfolding sb_wf_def by blast
  show ?thesis by (simp add: sb_put_eq [OF k] sb_index_mod [OF k] set_out_def set_send_def)
qed

lemma win_put:
  assumes b: "sb_wf (outbuf (send s))" and p: "sb_put nd v p (outbuf (send s)) = Some ob"
  shows "sb_wf ob" and "sb_slots ob = sb_slots (outbuf (send s))"
    and "sb_view (oldest64 s) (sb_slots ob) ob = (win s)[pos_of v s := Some p]"
proof -
  obtain b' where p': "sb_put nd v p (outbuf (send s)) = Some b'" "sb_wf b'" "sb_slots b' = sb_slots (outbuf (send s))"
    using ring.put_defined [OF b] by blast
  then show "sb_wf ob" and sl: "sb_slots ob = sb_slots (outbuf (send s))" using p by simp_all
  note i = pos_of_slot [OF b, of v]
  show "sb_view (oldest64 s) (sb_slots ob) ob = (win s)[pos_of v s := Some p]"
  proof (rule nth_equalityI)
    fix j assume "j < length (sb_view (oldest64 s) (sb_slots ob) ob)"
    then have j: "j < sb_slots (outbuf (send s))" by (simp add: sb_view_def sl)
    have i': "pos_of v s < sb_slots (outbuf (send s))" using i(1) by simp
    have "sb_get (oldest64 s + of_nat j) ob =
        (if pos_of v s = j then Some p else sb_get (oldest64 s + of_nat j) (outbuf (send s)))"
      unfolding ring.get_put [OF b p] i(2) ring.same_slot [OF b le_refl i' j] ..
    then show "sb_view (oldest64 s) (sb_slots ob) ob ! j = (win s)[pos_of v s := Some p] ! j"
      using j i' by (simp add: sb_view_def win_def sl nth_list_update)
  qed (simp add: sb_view_def sl)
qed

lemma set_out_fields [simp]:
  "seq_nr (send (set_out v p s)) = seq_nr (send s)"
  "cur_window_packets (send (set_out v p s)) = cur_window_packets (send s)"
  "cc (set_out v p s) = cc s" "recv (set_out v p s) = recv s" "self (set_out v p s) = self s"
  "conn (set_out v p s) = conn s" "oldest64 (set_out v p s) = oldest64 s"
  by (simp_all add: set_out_def set_send_def oldest64_def seq64_def window64_def)

lemma win_set_out:
  assumes "sb_wf (outbuf (send s))"
  shows "sb_wf (outbuf (send (set_out v p s)))"
    and "sb_slots (outbuf (send (set_out v p s))) = sb_slots (outbuf (send s))"
    and "win (set_out v p s) = (win s)[pos_of v s := Some p]"
  using win_put [OF assms set_out_put [OF assms, of False]]
  by (simp_all add: win_def [of "set_out v p s"])

definition drop_at :: "u64 \<Rightarrow> UtpSocket \<Rightarrow> UtpSocket" where
  "drop_at v s = set_send (\<lambda>d. d\<lparr>outbuf := snd (sb_take v (outbuf d))\<rparr>) s"

lemma drop_at_fields [simp]:
  "seq_nr (send (drop_at v s)) = seq_nr (send s)"
  "cur_window_packets (send (drop_at v s)) = cur_window_packets (send s)"
  "cc (drop_at v s) = cc s" "recv (drop_at v s) = recv s" "self (drop_at v s) = self s"
  "conn (drop_at v s) = conn s" "oldest64 (drop_at v s) = oldest64 s"
  by (simp_all add: drop_at_def set_send_def oldest64_def seq64_def window64_def)

lemma win_drop_at:
  assumes b: "sb_wf (outbuf (send s))"
  shows "sb_wf (outbuf (send (drop_at v s)))"
    and "sb_slots (outbuf (send (drop_at v s))) = sb_slots (outbuf (send s))"
    and "win (drop_at v s) = (win s)[pos_of v s := None]"
proof -
  let ?ob = "outbuf (send s)" and ?ob' = "outbuf (send (drop_at v s))"
  have e: "?ob' = snd (sb_take v ?ob)" by (simp add: drop_at_def set_send_def)
  have t: "sb_wf (snd (sb_take v ?ob))" "sb_slots (snd (sb_take v ?ob)) = sb_slots ?ob"
    using ring.take_defined [OF b] by simp_all
  then show "sb_wf ?ob'" and sl: "sb_slots ?ob' = sb_slots ?ob" by (simp_all add: e)
  note i = pos_of_slot [OF b, of v]
  show "win (drop_at v s) = (win s)[pos_of v s := None]"
  proof (rule nth_equalityI)
    fix j assume "j < length (win (drop_at v s))"
    then have j: "j < sb_slots ?ob" by (simp add: sl)
    have i': "pos_of v s < sb_slots ?ob" using i(1) by simp
    have "sb_get (oldest64 s + of_nat j) ?ob' = (if pos_of v s = j then None else sb_get (oldest64 s + of_nat j) ?ob)"
      unfolding e ring.get_take [OF b] i(2) ring.same_slot [OF b le_refl i' j] ..
    then show "win (drop_at v s) ! j = (win s)[pos_of v s := None] ! j"
      using j i' by (simp add: sb_view_def win_def sl nth_list_update)
  qed (simp add: sl)
qed

text \<open>Dropping the front slot of the window rotates the list.\<close>

definition pop_front :: "UtpSocket \<Rightarrow> UtpSocket" where
  "pop_front s = set_send (\<lambda>d. d\<lparr>cur_window_packets := cur_window_packets d - 1\<rparr>) s"

lemma pop_front_fields [simp]:
  "seq_nr (send (pop_front s)) = seq_nr (send s)" "outbuf (send (pop_front s)) = outbuf (send s)"
  "cur_window_packets (send (pop_front s)) = cur_window_packets (send s) - 1"
  "cc (pop_front s) = cc s" "recv (pop_front s) = recv s" "self (pop_front s) = self s"
  "conn (pop_front s) = conn s"
  by (simp_all add: pop_front_def set_send_def)

lemma oldest_pop_front: "0 < cur_window_packets (send s) \<Longrightarrow> oldest64 (pop_front s) = oldest64 s + 1"
proof -
  assume "0 < cur_window_packets (send s)"
  then have "unat (cur_window_packets (send s) - 1) = unat (cur_window_packets (send s)) - 1"
    by (intro unat_pred) simp
  moreover have "0 < unat (cur_window_packets (send s))"
    using \<open>0 < cur_window_packets (send s)\<close> by (simp add: word_less_nat_alt)
  ultimately have "(ucast (cur_window_packets (send s) - 1) :: u64) = ucast (cur_window_packets (send s)) - 1"
    by (intro word_unat_eq_iff [THEN iffD2]) (simp add: unat_pred unat_gt_0 flip: unat_gt_0)
  then show ?thesis by (simp add: oldest64_def seq64_def window64_def)
qed

lemma win_pop_front:
  assumes "sb_wf (outbuf (send s))" and "0 < cur_window_packets (send s)"
  shows "win (pop_front s) = tl (win s) @ [hd (win s)]"
  using view_step [OF assms(1) refl, of "oldest64 s"] oldest_pop_front [OF assms(2)] by (simp add: win_def)

section \<open>The invariant\<close>

text \<open>A packet counts as in flight from a transmission until it is lost or acknowledged.\<close>

definition weight :: "OutgoingPacket \<Rightarrow> u64" where
  "weight p = (if opk_transmissions p = 0 \<or> opk_need_resend p then 0 else opk_payload p)"

definition slot_weight :: "OutgoingPacket option \<Rightarrow> u64" where
  "slot_weight x = (case x of None \<Rightarrow> 0 | Some p \<Rightarrow> weight p)"

lemma slot_weight_simps [simp]: "slot_weight None = 0" "slot_weight (Some p) = weight p"
  by (simp_all add: slot_weight_def)

definition flight :: "OutgoingPacket option list \<Rightarrow> u64" where
  "flight xs = sum_list (map slot_weight xs)"

lemma flight_simps [simp]:
  "flight [] = 0" "flight (x # xs) = slot_weight x + flight xs" "flight (xs @ ys) = flight xs + flight ys"
  by (simp_all add: flight_def)

lemma flight_update: "i < length xs \<Longrightarrow> flight (xs[i := y]) = flight xs - slot_weight (xs ! i) + slot_weight y"
  by (induction xs arbitrary: i) (auto split: nat.split)

lemma flight_rotate: "xs \<noteq> [] \<Longrightarrow> flight (tl xs @ [hd xs]) = flight xs"
  by (cases xs) simp_all

text \<open>
  The packets lie in the first positions, the buffer of each is its header and payload, none
  was sent more than \<open>T\<close> times, and the bytes in flight are theirs.
\<close>

definition packet_ok :: "nat \<Rightarrow> OutgoingPacket \<Rightarrow> bool" where
  "packet_ok T p \<longleftrightarrow> unat (opk_transmissions p) \<le> T \<and> unat (opk_payload p) \<le> 2 ^ 32 \<and>
     opk_length p = HEADER_SIZE + opk_payload p \<and>
     length (opk_data p) = unat (opk_length p)"

definition win_inv :: "nat \<Rightarrow> UtpSocket \<Rightarrow> bool" where
  "win_inv T s \<longleftrightarrow> sb_wf (outbuf (send s)) \<and>
     unat (cur_window_packets (send s)) \<le> length (win s) \<and>
     (\<forall>i < length (win s). unat (cur_window_packets (send s)) \<le> i \<longrightarrow> win s ! i = None) \<and>
     (\<forall>p. Some p \<in> set (win s) \<longrightarrow> packet_ok T p) \<and>
     cur_window (cc s) = flight (win s)"

text \<open>While the window is not empty its oldest packet is there.\<close>

definition head_ok :: "UtpSocket \<Rightarrow> bool" where
  "head_ok s \<longleftrightarrow> cur_window_packets (send s) = 0 \<or> win s ! 0 \<noteq> None"

lemma pos_of_oldest [simp]: "pos_of (oldest64 s) s = 0"
  by (simp add: pos_of_def)

lemma win_inv_mono: "win_inv T s \<Longrightarrow> T \<le> T' \<Longrightarrow> win_inv T' s"
  by (auto simp: win_inv_def packet_ok_def intro: order_trans)

lemma win_inv_at:
  assumes w: "win_inv T s" and v: "out_at v s = Some p"
  shows "pos_of v s < unat (cur_window_packets (send s))" and "packet_ok T p"
    and "win s ! pos_of v s = Some p" and "pos_of v s < length (win s)"
proof -
  have b: "sb_wf (outbuf (send s))" using w by (simp add: win_inv_def)
  show i: "pos_of v s < length (win s)" by (rule pos_of_slot(1) [OF b])
  show e: "win s ! pos_of v s = Some p" using out_at_win [OF b, of v] v by simp
  show "pos_of v s < unat (cur_window_packets (send s))"
    using w i e by (auto simp: win_inv_def not_le [symmetric])
  show "packet_ok T p" using w nth_mem [OF i] e by (simp add: win_inv_def)
qed

text \<open>Replacing a packet of the window, and the bytes in flight with it.\<close>

lemma win_inv_set_out:
  assumes w: "win_inv T s" and v: "out_at v s = Some p" and p': "packet_ok T p'"
    and c: "cur_window c = cur_window (cc s) - weight p + weight p'"
  shows "win_inv T (set_out v p' (s\<lparr>cc := c\<rparr>))"
proof -
  have b: "sb_wf (outbuf (send s))" using w by (simp add: win_inv_def)
  note i = win_inv_at [OF w v]
  have e: "win (set_out v p' (s\<lparr>cc := c\<rparr>)) = (win s)[pos_of v s := Some p']"
    using win_set_out(3) [of "s\<lparr>cc := c\<rparr>"] b
    by (simp add: win_cong [of "s\<lparr>cc := c\<rparr>" s] pos_of_def oldest64_def seq64_def window64_def)
  have n: "(win s)[pos_of v s := Some p'] ! j = None" if "unat (cur_window_packets (send s)) \<le> j" "j < length (win s)" for j
    using w i(1) that by (simp add: win_inv_def)
  have k: "packet_ok T q" if "Some q \<in> set ((win s)[pos_of v s := Some p'])" for q
    using that set_update_subset_insert [of "win s" "pos_of v s" "Some p'"] w p' by (auto simp: win_inv_def)
  show ?thesis
    unfolding win_inv_def e using win_set_out(1,2) [of "s\<lparr>cc := c\<rparr>" v p'] b n k w c i(3,4)
    by (simp add: win_inv_def flight_update)
qed

lemma win_inv_drop_at:
  assumes w: "win_inv T s" and v: "out_at v s = Some p" and c: "cur_window c = cur_window (cc s) - weight p"
  shows "win_inv T ((drop_at v s)\<lparr>cc := c\<rparr>)"
proof -
  have b: "sb_wf (outbuf (send s))" using w by (simp add: win_inv_def)
  note i = win_inv_at [OF w v]
  have e: "win ((drop_at v s)\<lparr>cc := c\<rparr>) = (win s)[pos_of v s := None]"
    using win_drop_at(3) [OF b] by (simp add: win_cong [of "(drop_at v s)\<lparr>cc := c\<rparr>" "drop_at v s"])
  have n: "(win s)[pos_of v s := None] ! j = None" if "unat (cur_window_packets (send s)) \<le> j" "j < length (win s)" for j
    using w i(1) that by (simp add: win_inv_def)
  have k: "packet_ok T q" if "Some q \<in> set ((win s)[pos_of v s := None])" for q
    using that set_update_subset_insert [of "win s" "pos_of v s" None] w by (auto simp: win_inv_def)
  show ?thesis
    unfolding win_inv_def e using win_drop_at(1,2) [OF b, of v] n k w c i(3,4)
    by (simp add: win_inv_def flight_update)
qed

lemma win_inv_pop_front:
  assumes w: "win_inv T s" and c: "0 < cur_window_packets (send s)" and n: "out_at (oldest64 s) s = None"
  shows "win_inv T (pop_front s)"
proof -
  have b: "sb_wf (outbuf (send s))" using w by (simp add: win_inv_def)
  have ne: "win s \<noteq> []" using slots_pos [OF b] by (metis win_length length_0_conv not_numeral_le_zero)
  have h: "hd (win s) = None" using n out_at_win [OF b, of "oldest64 s"] ne by (simp add: hd_conv_nth)
  have u: "unat (cur_window_packets (send s) - 1) = unat (cur_window_packets (send s)) - 1"
    using c by (intro unat_pred) simp
  have u0: "0 < unat (cur_window_packets (send s))" using c by (simp add: word_less_nat_alt)
  have "(tl (win s) @ [hd (win s)]) ! i = None"
    if "i < length (win s)" "unat (cur_window_packets (send s)) - 1 \<le> i" for i
  proof (cases "i < length (win s) - 1")
    case True
    then show ?thesis using w that(2) u0 by (simp add: nth_append nth_tl win_inv_def)
  next
    case False
    then have "i = length (win s) - 1" using that(1) by simp
    then show ?thesis by (simp add: nth_append h)
  qed
  moreover have "set (tl (win s) @ [hd (win s)]) = set (win s)" using ne by (cases "win s") auto
  moreover have "Suc (sb_slots (outbuf (send s)) - Suc 0) = sb_slots (outbuf (send s))"
    using slots_pos [OF b] by simp
  ultimately show ?thesis
    unfolding win_inv_def win_pop_front [OF b c] using w u ne flight_rotate [OF ne]
    by (auto simp: win_inv_def)
qed

section \<open>Steps of the sender\<close>

text \<open>
  What the window depends on, and who the socket is; no connection goes back to waiting for the answer to its SYN.
\<close>

definition untouched :: "UtpSocket \<Rightarrow> UtpSocket \<Rightarrow> bool" where
  "untouched s s' \<longleftrightarrow> self s' = self s \<and> recv s' = recv s \<and>
     outbuf (send s') = outbuf (send s) \<and> seq_nr (send s') = seq_nr (send s) \<and>
     cur_window_packets (send s') = cur_window_packets (send s) \<and> fin_sent (send s') = fin_sent (send s) \<and>
     cur_window (cc s') = cur_window (cc s) \<and>
     (state (conn s') = CS_SYN_SENT \<longrightarrow> state (conn s) = CS_SYN_SENT)"

lemma untouched_refl [simp]: "untouched s s"
  by (simp add: untouched_def)

lemma untouched_trans: "untouched s s1 \<Longrightarrow> untouched s1 s' \<Longrightarrow> untouched s s'"
  by (simp add: untouched_def)

lemma untouched_win: "untouched s s' \<Longrightarrow> win s' = win s"
  by (rule win_cong) (simp_all add: untouched_def)

lemma untouched_win_inv: "untouched s s' \<Longrightarrow> win_inv T s' = win_inv T s"
  using untouched_win [of s s'] unfolding win_inv_def untouched_def by (elim conjE) (simp only: win_length)

lemma untouched_head_ok: "untouched s s' \<Longrightarrow> head_ok s' = head_ok s"
  using untouched_win [of s s'] by (simp add: head_ok_def untouched_def)

definition sent :: "bytes \<Rightarrow> u64 \<Rightarrow> OutgoingPacket \<Rightarrow> OutgoingPacket" where
  "sent d t p = inc_transmissions (p\<lparr>opk_need_resend := False, opk_data := d, opk_time_sent := t\<rparr>)"

text \<open>
  The steps; \<open>b\<close> says whether the front of the window may
  move. They are what happens while an acknowledgement or a timer is handled: nothing is
  written.
\<close>

inductive work :: "env \<Rightarrow> bool \<Rightarrow> UtpContext \<Rightarrow> UtpSocket \<Rightarrow> UtpContext \<Rightarrow> UtpSocket \<Rightarrow> bool"
  for E b where
  other: "quiet E (self s) h h' \<Longrightarrow> untouched s s' \<Longrightarrow> work E b h s h' s'"
| transmit: "out_at v s = Some p \<Longrightarrow> length d = length (opk_data p) \<Longrightarrow>
    drop PF_SIZE d = drop PF_SIZE (opk_data p) \<Longrightarrow> quiet E (self s) h h' \<Longrightarrow> age h < age h' \<Longrightarrow>
    untouched (set_out v (sent d t p) (s\<lparr>cc := counted p (cc s)\<rparr>)) s' \<Longrightarrow> work E b h s h' s'"
| confirm: "out_at v s = Some p \<Longrightarrow> opk_transmissions p \<noteq> 0 \<Longrightarrow> b \<or> pos_of v s \<noteq> 0 \<Longrightarrow>
    cur_window c = cur_window (cc s) - weight p \<Longrightarrow> quiet E (self s) h h' \<Longrightarrow>
    untouched ((drop_at v s)\<lparr>cc := c\<rparr>) s' \<Longrightarrow> work E b h s h' s'"
| lose: "out_at v s = Some p \<Longrightarrow> opk_transmissions p \<noteq> 0 \<Longrightarrow> \<not> opk_need_resend p \<Longrightarrow>
    cur_window c = cur_window (cc s) - opk_payload p \<Longrightarrow>
    untouched (set_out v (p\<lparr>opk_need_resend := True\<rparr>) (s\<lparr>cc := c\<rparr>)) s' \<Longrightarrow> work E b h s h s'"
| advance: "b \<Longrightarrow> 0 < cur_window_packets (send s) \<Longrightarrow> out_at (oldest64 s) s = None \<Longrightarrow>
    work E b h s h (pop_front s)"
| steps: "work E b h s h1 s1 \<Longrightarrow> work E b h1 s1 h' s' \<Longrightarrow> work E b h s h' s'"

lemma inc_transmissions_unat:
  assumes "unat (opk_transmissions p) < 2 ^ 31 - 1"
  shows "unat (opk_transmissions (inc_transmissions p)) = Suc (unat (opk_transmissions p))"
  using assms by (simp add: inc_transmissions_def unat_and_mask unat_word_ariths)

lemma sent_fields [simp]:
  "opk_payload (sent d t p) = opk_payload p" "opk_length (sent d t p) = opk_length p"
  "opk_need_resend (sent d t p) = False" "opk_data (sent d t p) = d"
  "opk_transmissions (sent d t p) = opk_transmissions (inc_transmissions p)"
  by (simp_all add: sent_def inc_transmissions_def)

lemma packet_ok_mono: "packet_ok T p \<Longrightarrow> T \<le> T' \<Longrightarrow> packet_ok T' p"
  by (simp add: packet_ok_def)

lemma work_age: "work E b h s h' s' \<Longrightarrow> age h \<le> age h'"
  by (induction rule: work.induct) (auto dest: quiet_age)

text \<open>A packet was sent at most once per event, so the 31-bit counter is exact for \<open>2^31\<close> events.\<close>

definition sender_ok :: "UtpContext \<Rightarrow> UtpSocket \<Rightarrow> bool" where
  "sender_ok h s \<longleftrightarrow> win_inv (age h) s"

lemma sender_ok_mono: "sender_ok h s \<Longrightarrow> age h \<le> age h' \<Longrightarrow> sender_ok h' s"
  unfolding sender_ok_def by (rule win_inv_mono)

lemma sender_ok_transmit:
  assumes w: "sender_ok h s" and v: "out_at v s = Some p" and d: "length d = length (opk_data p)"
    and a: "age h < age h'" "age h' < 2 ^ 31"
  shows "sender_ok h' (set_out v (sent d t p) (s\<lparr>cc := counted p (cc s)\<rparr>))"
proof -
  have i: "win_inv (age h) s" using w by (simp add: sender_ok_def)
  have ok: "packet_ok (age h) p" by (rule win_inv_at(2) [OF i v])
  have t: "unat (opk_transmissions (sent d t p)) = Suc (unat (opk_transmissions p))"
    using inc_transmissions_unat [of p] ok a by (simp add: packet_ok_def)
  then have nz: "opk_transmissions (sent d t p) \<noteq> 0" by (metis nat.distinct(1) unat_0)
  have p': "packet_ok (age h') (sent d t p)" using ok t d a by (simp add: packet_ok_def)
  have "cur_window (counted p (cc s)) = cur_window (cc s) - weight p + weight (sent d t p)"
    using nz by (auto simp: counted_def weight_def add_in_flight_def)
  then show ?thesis
    unfolding sender_ok_def using a(1) by (intro win_inv_set_out [OF win_inv_mono [OF i] v p']) simp_all
qed

lemma work_sender_ok:
  "work E b h s h' s' \<Longrightarrow> sender_ok h s \<Longrightarrow> age h' < 2 ^ 31 \<Longrightarrow> sender_ok h' s'"
proof (induction rule: work.induct)
  case (other s h h' s')
  have "sender_ok h' s" by (rule sender_ok_mono [OF other.prems(1) quiet_age [OF other.hyps(1)]])
  then show ?case using other.hyps(2) by (simp add: sender_ok_def untouched_win_inv)
next
  case (transmit v s p d h h' t s')
  have "sender_ok h' (set_out v (sent d t p) (s\<lparr>cc := counted p (cc s)\<rparr>))"
    by (rule sender_ok_transmit [OF transmit.prems(1) transmit.hyps(1,2,5) transmit.prems(2)])
  then show ?case using transmit.hyps(6) by (simp add: sender_ok_def untouched_win_inv)
next
  case (confirm v s p c h h' s')
  have "win_inv (age h) s'"
    using win_inv_drop_at [OF _ confirm.hyps(1,4), of "age h"] confirm.hyps(6) confirm.prems(1)
    by (simp add: untouched_win_inv sender_ok_def)
  then show ?case using quiet_age [OF confirm.hyps(5)] win_inv_mono by (simp add: sender_ok_def)
next
  case (lose v s p c s' h)
  have i: "win_inv (age h) s" using lose.prems by (simp add: sender_ok_def)
  have "win_inv (age h) (set_out v (p\<lparr>opk_need_resend := True\<rparr>) (s\<lparr>cc := c\<rparr>))"
    by (rule win_inv_set_out [OF i lose.hyps(1)])
      (use win_inv_at(2) [OF i lose.hyps(1)] lose.hyps(2,3,4) in \<open>simp_all add: packet_ok_def weight_def\<close>)
  then show ?case using lose.hyps(5) by (simp add: untouched_win_inv sender_ok_def)
next
  case (advance s h)
  then show ?case using win_inv_pop_front by (simp add: sender_ok_def)
next
  case (steps h s h1 s1 h' s')
  have "sender_ok h1 s1" using steps.IH(1) [OF steps.prems(1)] steps.prems(2) work_age [OF steps.hyps(2)] by simp
  then show ?case using steps.IH(2) steps.prems(2) by simp
qed

text \<open>The ring stays well formed, and unless the front may move the oldest packet stays.\<close>

lemma set_out_cc:
  assumes "sb_wf (outbuf (send s))"
  shows "sb_wf (outbuf (send (set_out v p (s\<lparr>cc := c\<rparr>))))"
    and "sb_slots (outbuf (send (set_out v p (s\<lparr>cc := c\<rparr>)))) = sb_slots (outbuf (send s))"
    and "win (set_out v p (s\<lparr>cc := c\<rparr>)) = (win s)[pos_of v s := Some p]"
  using win_set_out [of "s\<lparr>cc := c\<rparr>" v p] assms
  by (simp_all add: win_cong [of "s\<lparr>cc := c\<rparr>" s] pos_of_def oldest64_def seq64_def window64_def)

lemma drop_at_cc:
  assumes "sb_wf (outbuf (send s))"
  shows "win ((drop_at v s)\<lparr>cc := c\<rparr>) = (win s)[pos_of v s := None]"
  using win_drop_at(3) [OF assms] by (simp add: win_cong [of "(drop_at v s)\<lparr>cc := c\<rparr>" "drop_at v s"])

definition ring_shape :: "UtpSocket \<Rightarrow> bool" where
  "ring_shape s \<longleftrightarrow> sb_wf (outbuf (send s)) \<and>
     unat (cur_window_packets (send s)) \<le> sb_slots (outbuf (send s))"

lemma sender_ok_shape: "sender_ok h s \<Longrightarrow> ring_shape s"
  by (simp add: sender_ok_def win_inv_def ring_shape_def)

lemma work_shape: "work E b h s h' s' \<Longrightarrow> ring_shape s \<Longrightarrow> ring_shape s'"
proof (induction rule: work.induct)
  case (transmit v s p d h h' t s')
  then show ?case using set_out_cc(1,2) [of s v "sent d t p" "counted p (cc s)"]
    by (simp add: ring_shape_def untouched_def)
next
  case (confirm v s p c h h' s')
  then show ?case using win_drop_at(1,2) [of s v] by (simp add: ring_shape_def untouched_def)
next
  case (lose v s p c s' h)
  then show ?case using set_out_cc(1,2) [of s v "p\<lparr>opk_need_resend := True\<rparr>" c]
    by (simp add: ring_shape_def untouched_def)
next
  case (advance s h)
  then show ?case using unat_pred [of "cur_window_packets (send s)"] by (auto simp: ring_shape_def)
qed (auto simp: ring_shape_def untouched_def)

lemma work_head_ok:
  "work E b h s h' s' \<Longrightarrow> \<not> b \<Longrightarrow> ring_shape s \<Longrightarrow> head_ok s \<Longrightarrow> head_ok s'"
proof (induction rule: work.induct)
  case (other s h h' s')
  then show ?case by (simp add: untouched_head_ok)
next
  case (transmit v s p d h h' t s')
  have b: "sb_wf (outbuf (send s))" using transmit.prems by (simp add: ring_shape_def)
  have "head_ok (set_out v (sent d t p) (s\<lparr>cc := counted p (cc s)\<rparr>))"
    using transmit.prems(3) slots_pos [OF b] set_out_cc(3) [OF b]
    by (cases "pos_of v s = 0") (simp_all add: head_ok_def)
  then show ?case using transmit.hyps(6) by (simp add: untouched_head_ok)
next
  case (confirm v s p c h h' s')
  have b: "sb_wf (outbuf (send s))" using confirm.prems by (simp add: ring_shape_def)
  have "head_ok ((drop_at v s)\<lparr>cc := c\<rparr>)"
    using confirm.prems(1,3) confirm.hyps(3) drop_at_cc [OF b] by (simp add: head_ok_def)
  then show ?case using confirm.hyps(6) by (simp add: untouched_head_ok)
next
  case (lose v s p c s' h)
  have b: "sb_wf (outbuf (send s))" using lose.prems by (simp add: ring_shape_def)
  have "head_ok (set_out v (p\<lparr>opk_need_resend := True\<rparr>) (s\<lparr>cc := c\<rparr>))"
    using lose.prems(3) slots_pos [OF b] set_out_cc(3) [OF b]
    by (cases "pos_of v s = 0") (simp_all add: head_ok_def)
  then show ?case using lose.hyps(5) by (simp add: untouched_head_ok)
next
  case (steps h s h1 s1 h' s')
  then show ?case using work_shape by blast
qed simp

lemma work_receiver:
  "work E b h s h' s' \<Longrightarrow> self s' = self s \<and> recv s' = recv s \<and> quiet E (self s) h h'"
  by (induction rule: work.induct) (auto simp: untouched_def intro: quiet_trans)

lemma work_front: "work E False h s h' s' \<Longrightarrow> work E b h s h' s'"
  by (induction rule: work.induct) (auto intro: work.intros)

lemma work_refl [simp]: "work E b h s h s"
  by (rule work.other) simp_all

text \<open>Composition with steps that touch nothing.\<close>

lemma work_then: "work E b h s h1 s1 \<Longrightarrow> quiet E (self s1) h1 h' \<Longrightarrow> untouched s1 s' \<Longrightarrow> work E b h s h' s'"
  by (rule work.steps [OF _ work.other])

lemma work_after: "quiet E (self s) h h1 \<Longrightarrow> untouched s s1 \<Longrightarrow> work E b h1 s1 h' s' \<Longrightarrow> work E b h s h' s'"
  by (rule work.steps [OF work.other])

end
