(* ===== verification/Send_Steps.thy ===== *)
theory Send_Steps
  imports Send_Window
begin

text \<open>
  The operations that acknowledgements, losses and the timer run are sequences of the steps
  \<open>work\<close>, so that whatever the steps keep the operations keep.
\<close>

declare skip_acked.simps [simp del]

lemma post_bindI: "post m P \<Longrightarrow> (\<And>x. P x \<Longrightarrow> post (f x) Q) \<Longrightarrow> post (Option.bind m f) Q"
  by (auto simp: post_def bind_eq_Some_conv)

section \<open>The controller\<close>

lemma update_rtt_flight: "post (update_rtt e ms c) (\<lambda>c'. cur_window c' = cur_window c)"
  by (auto simp: post_def update_rtt_def Let_def bind_eq_Some_conv split: if_splits)

lemma close_slot_flight: "post (close_slot B c) (\<lambda>c'. cur_window c' = cur_window c)"
  by (auto simp: post_def close_slot_def Let_def bind_eq_Some_conv split: if_splits)

lemma update_delay_flight: "post (update_delay_average B d ms c) (\<lambda>c'. cur_window c' = cur_window c)"
  using postD [OF close_slot_flight]
  by (auto simp: post_def update_delay_average_def Let_def bind_eq_Some_conv split: if_splits)

lemma grow_window_flight: "cur_window (grow_window B n p t d w c) = cur_window c"
  by (simp add: grow_window_def Let_def)

lemma apply_ccontrol_flight: "post (apply_ccontrol B n d r ms sb t p c) (\<lambda>(_, c'). cur_window c' = cur_window c)"
  by (auto simp: post_def apply_ccontrol_def Let_def bind_eq_Some_conv grow_window_flight)

lemma maybe_decay_flight: "post (maybe_decay_win B ms c) (\<lambda>c'. cur_window c' = cur_window c)"
  by (auto simp: post_def maybe_decay_win_def Let_def bind_eq_Some_conv)

lemma on_rto_timeout_flight: "cur_window (on_rto_timeout ms p n c) = cur_window c"
  by (simp add: on_rto_timeout_def)

lemma remove_in_flight_post:
  "post (cc_remove_in_flight E n s) (\<lambda>s'. \<exists>c. s' = s\<lparr>cc := c\<rparr> \<and> cur_window c = cur_window (cc s) - n)"
  by (auto simp: post_def cc_remove_in_flight_def remove_in_flight_def bind_eq_Some_conv)

section \<open>One packet\<close>

lemma untouched_updates [simp]:
  "untouched s (s\<lparr>mtu := m\<rparr>)" "untouched s (s\<lparr>duplicate_ack := d\<rparr>)" "untouched s (set_timing f s)"
  "c \<noteq> CS_SYN_SENT \<Longrightarrow> untouched s (set_state c s)"
  by (simp_all add: untouched_def set_defs)

lemma untouched_cc: "cur_window c = cur_window (cc s) \<Longrightarrow> untouched s (s\<lparr>cc := c\<rparr>)"
  by (simp add: untouched_def)

lemma untouched_set_cc: "cur_window (f (cc s)) = cur_window (cc s) \<Longrightarrow> untouched s (set_cc f s)"
  by (simp add: untouched_def set_cc_def)

lemma send_packet_work: "post (send_packet E v h s) (\<lambda>(h', s'). work E b h s h' s')"
proof (rule post_mono [OF send_packet_post], clarify)
  fix h' s' p d t m
  assume p: "out_at v s = Some p" "length d = length (opk_data p)" "drop PF_SIZE d = drop PF_SIZE (opk_data p)"
    and q: "quiet E (self s) h h'" "age h < age h'"
  let ?s = "set_out v (inc_transmissions (p\<lparr>opk_need_resend := False, opk_data := d, opk_time_sent := t\<rparr>))
       (s\<lparr>cc := counted p (cc s), mtu := m, timing := (timing s)\<lparr>last_sent_packet := current_ms h\<rparr>\<rparr>)"
  have "untouched (set_out v (sent d t p) (s\<lparr>cc := counted p (cc s)\<rparr>)) ?s"
    by (simp add: untouched_def sent_def) (simp add: set_out_def set_send_def)
  then show "work E b h s h' ?s" by (rule work.transmit [OF p q])
qed

lemma ack_timing_post:
  "post (ack_timing E p h s) (\<lambda>(h', s'). \<exists>c t. s' = s\<lparr>cc := c\<rparr> \<and> cur_window c = cur_window (cc s) \<and> h' = h\<lparr>tick := t\<rparr>)"
proof (cases "opk_transmissions p = 1")
  case True
  show ?thesis
  proof (rule postI, clarify)
    fix h' s' assume "ack_timing E p h s = Some (h', s')"
    then obtain e c where "update_rtt e (current_ms h) (cc s) = Some c" "s' = s\<lparr>cc := c\<rparr>" "h' = h\<lparr>tick := tick h + 1\<rparr>"
      using True by (auto simp: ack_timing_def call_get_microseconds_def query_def Let_def bind_eq_Some_conv)
    then show "\<exists>c t. s' = s\<lparr>cc := c\<rparr> \<and> cur_window c = cur_window (cc s) \<and> h' = h\<lparr>tick := t\<rparr>"
      using postD [OF update_rtt_flight] by blast
  qed
next
  case False
  then show ?thesis
    by (simp add: ack_timing_def post_simps set_cc_def)
      (intro conjI exI [of _ "tick h"] exI [of _ "(cc s)\<lparr>retransmit_timeout := rto (cc s),
        rto_timeout := current_ms h + ucast (rto (cc s))\<rparr>"], simp_all)
qed

lemma ack_packet_result:
  assumes a: "ack_packet E sq h s = Some (r, h', s')" and p: "out_at (ucast sq) s = Some p"
    and tr: "opk_transmissions p \<noteq> 0"
  shows "\<exists>c t. r = 0 \<and> cur_window c = cur_window (cc s) - weight p \<and> s' = (drop_at (ucast sq) s)\<lparr>cc := c\<rparr> \<and>
    h' = h\<lparr>tick := t\<rparr>"
proof -
  let ?d = "drop_at (ucast sq) s"
  obtain s1 s2 where s1: "ack_timing E p h ?d = Some (h', s1)"
    and s2: "(if opk_need_resend p then Some s1 else cc_remove_in_flight E (opk_payload p) s1) = Some s2"
    and r: "r = 0" "s' = set_cc (\<lambda>c. c\<lparr>retransmit_count := 0\<rparr>) s2"
    using a p tr by (auto simp: ack_packet_def Let_def bind_eq_Some_conv drop_at_def)
  obtain c t where c: "s1 = ?d\<lparr>cc := c\<rparr>" "cur_window c = cur_window (cc s)" "h' = h\<lparr>tick := t\<rparr>"
    using postD [OF ack_timing_post s1] by auto
  obtain c2 where c2: "s2 = ?d\<lparr>cc := c2\<rparr>" "cur_window c2 = cur_window (cc s) - weight p"
  proof (cases "opk_need_resend p")
    case True
    then show thesis using s2 c that [of c] by (simp add: weight_def)
  next
    case False
    then have "cc_remove_in_flight E (opk_payload p) s1 = Some s2" using s2 by simp
    from postD [OF remove_in_flight_post this]
    obtain c3 where "s2 = s1\<lparr>cc := c3\<rparr>" "cur_window c3 = cur_window (cc s1) - opk_payload p" by blast
    then show thesis using c False tr that [of c3] by (simp add: weight_def)
  qed
  show ?thesis
    using r c(3) c2 by (intro exI [of _ "c2\<lparr>retransmit_count := 0\<rparr>"] exI [of _ t]) (simp add: set_cc_def)
qed

lemma dropped_slot:
  assumes b: "sb_wf (outbuf (send s))"
  shows "out_at v (drop_at v s) = None"
proof -
  have "out_at v (drop_at v s) = win (drop_at v s) ! pos_of v (drop_at v s)"
    by (rule out_at_win) (rule win_drop_at(1) [OF b])
  also have "pos_of v (drop_at v s) = pos_of v s" using win_drop_at(2) [OF b] by (simp add: pos_of_def)
  finally show ?thesis using win_drop_at(3) [OF b] pos_of_slot(1) [OF b] by simp
qed

lemma ack_packet_work:
  "post (ack_packet E sq h s) (\<lambda>(r, h', s').
     (b \<or> pos_of (ucast sq) s \<noteq> 0 \<longrightarrow> work E b h s h' s') \<and>
     seq_nr (send s') = seq_nr (send s) \<and> cur_window_packets (send s') = cur_window_packets (send s) \<and>
     (sb_wf (outbuf (send s)) \<and> r \<noteq> 2 \<longrightarrow> out_at (ucast sq) s' = None))"
proof (cases "\<exists>p. out_at (ucast sq) s = Some p \<and> opk_transmissions p \<noteq> 0")
  case False
  then show ?thesis by (cases "out_at (ucast sq) s") (simp_all add: ack_packet_def post_simps)
next
  case True
  then obtain p where p: "out_at (ucast sq) s = Some p" "opk_transmissions p \<noteq> 0" by blast
  show ?thesis
  proof (rule postI, clarify)
    fix r h' s'
    assume a: "ack_packet E sq h s = Some (r, h', s')"
    obtain c t where c: "r = 0" "cur_window c = cur_window (cc s) - weight p"
      "s' = (drop_at (ucast sq) s)\<lparr>cc := c\<rparr>" "h' = h\<lparr>tick := t\<rparr>"
      using ack_packet_result [OF a p] by blast
    have "work E b h s h' s'" if "b \<or> pos_of (ucast sq) s \<noteq> 0"
      using work.confirm [OF p that c(2), of E h h' s'] c(3,4) by simp
    moreover have "out_at (ucast sq) s' = None" if "sb_wf (outbuf (send s))"
      using dropped_slot [OF that] by (simp add: c(3) out_at_def)
    ultimately show "(b \<or> pos_of (ucast sq) s \<noteq> 0 \<longrightarrow> work E b h s h' s') \<and>
       seq_nr (send s') = seq_nr (send s) \<and> cur_window_packets (send s') = cur_window_packets (send s) \<and>
       (sb_wf (outbuf (send s)) \<and> r \<noteq> 2 \<longrightarrow> out_at (ucast sq) s' = None)"
      by (simp add: c(1,3))
  qed
qed

section \<open>Selective acknowledgement\<close>

lemma dvd_u16_u64: "m dvd 2 ^ 16 \<Longrightarrow> m dvd (2 :: nat) ^ 64"
  by (erule dvd_trans) (rule le_imp_power_dvd, simp)

lemma ucast16_minus: "(ucast (x - y :: u32) :: u16) = ucast x - ucast y"
  by (rule word_uint_eqI)
    (simp add: uint_word_ariths unsigned_ucast_eq take_bit_eq_mod, simp add: mod_diff_eq mod_mod_cancel)

lemma ucast_u16_u32 [simp]: "ucast (ucast (x :: u16) :: u32) = x"
  by transfer (simp add: min_def)

lemma unat_ucast16_32 [simp]: "unat (ucast (x :: u16) :: u32) = unat x"
  by (simp add: unsigned_ucast_eq take_bit_eq_mod mod_less less_trans [OF u16_lt])

lemma word_diff_mod:
  assumes "m dvd 2 ^ LENGTH('a::len)"
  shows "(unat (a - b :: 'a word) + unat b) mod m = unat a mod m"
proof -
  have "unat a = unat (a - b + b)" by simp
  also have "\<dots> = (unat (a - b) + unat b) mod 2 ^ LENGTH('a)" by (simp only: unat_word_ariths)
  finally show ?thesis by (simp only: mod_mod_cancel [OF assms])
qed

text \<open>Positions in 16-bit arithmetic.\<close>

lemma pos_of_u16:
  assumes b: "sb_wf (outbuf (send s))"
  shows "pos_of (ucast (x :: u16)) s = unat (x - oldest16 s) mod sb_slots (outbuf (send s))"
proof -
  let ?m = "sb_slots (outbuf (send s))" and ?q = "seq_nr (send s)" and ?n = "cur_window_packets (send s)"
  have d: "?m dvd 2 ^ LENGTH(16)" and d64: "?m dvd 2 ^ LENGTH(64)"
    using slots_dvd16 [OF b] dvd_u16_u64 [OF slots_dvd16 [OF b]] by simp_all
  have "(unat (oldest64 s) + unat ?n) mod ?m = unat ?q mod ?m"
    using word_diff_mod [OF d64, of "ucast ?q" "ucast ?n"] by (simp add: oldest64_def seq64_def window64_def)
  also have "\<dots> = (unat (oldest16 s) + unat ?n) mod ?m"
    using word_diff_mod [OF d, of ?q ?n] by (simp add: oldest16_def)
  finally have o: "unat (oldest64 s) mod ?m = unat (oldest16 s) mod ?m" by (rule mod_cancel_nat)
  have "(unat (ucast x - oldest64 s) + unat (oldest64 s)) mod ?m = unat x mod ?m"
    using word_diff_mod [OF d64, of "ucast x" "oldest64 s"] by simp
  also have "\<dots> = (unat (x - oldest16 s) + unat (oldest16 s)) mod ?m"
    using word_diff_mod [OF d, of x "oldest16 s"] by simp
  also have "\<dots> = (unat (x - oldest16 s) + unat (oldest64 s)) mod ?m" using o by (metis mod_add_right_eq)
  finally have "unat (ucast x - oldest64 s) mod ?m = unat (x - oldest16 s) mod ?m" by (rule mod_cancel_nat)
  then show ?thesis by (simp add: pos_of_def)
qed

text \<open>A number inside the window, as the bitmap loops test it, is never the oldest packet.\<close>

lemma inside_window:
  assumes b: "sb_wf (outbuf (send s))" and n: "cur_window_packets (send s) \<noteq> 0"
    and w: "unat (cur_window_packets (send s)) \<le> sb_slots (outbuf (send s))" and i: "\<not> outside_window v s"
  shows "pos_of (ucast (ucast v :: u16)) s \<noteq> 0"
proof -
  let ?q = "seq_nr (send s)" and ?n = "cur_window_packets (send s)"
  define d where "d = ?q - ucast v - 1"
  have m: "(ucast ACK_NR_MASK :: u32) = mask 16"
    by (simp add: ACK_NR_MASK_def mask_eq_exp_minus_1)
  have "unat ((ucast ?q - v - 1) AND mask 16 :: u32) = unat (ucast ?q - v - 1 :: u32) mod 2 ^ 16"
    by (rule unat_and_mask)
  also have "\<dots> = unat (ucast (ucast ?q - v - 1 :: u32) :: u16)"
    by (simp add: unsigned_ucast_eq take_bit_eq_mod)
  also have "(ucast (ucast ?q - v - 1 :: u32) :: u16) = d"
    by (simp add: d_def ucast16_minus)
  finally have u: "unat ((ucast ?q - v - 1) AND mask 16 :: u32) = unat d" .
  have "unat (ucast (?n - 1) :: u32) = unat ?n - 1"
    using unat_pred [OF n] by simp
  then have dn: "unat d < unat ?n - 1"
    using i unfolding outside_window_def m not_le word_less_nat_alt u by simp
  have "ucast v - oldest16 s = ?n - 1 - d" by (simp add: d_def oldest16_def)
  moreover have "unat (?n - 1 - d) = unat ?n - 1 - unat d"
    using dn unat_pred [OF n] by (subst unat_sub) (simp_all add: word_le_nat_alt)
  ultimately have "pos_of (ucast (ucast v :: u16)) s = (unat ?n - 1 - unat d) mod sb_slots (outbuf (send s))"
    by (simp add: pos_of_u16 [OF b])
  then show ?thesis using dn w by simp
qed

text \<open>The loop over the bitmap acknowledges, records and never touches the oldest packet.\<close>

definition win_shape :: "UtpSocket \<Rightarrow> bool" where
  "win_shape s \<longleftrightarrow> ring_shape s \<and> cur_window_packets (send s) \<noteq> 0"

lemma work_window:
  "work E b h s h' s' \<Longrightarrow> \<not> b \<Longrightarrow> cur_window_packets (send s') = cur_window_packets (send s) \<and>
   seq_nr (send s') = seq_nr (send s)"
  by (induction rule: work.induct) (auto simp: untouched_def)

lemma work_win_shape: "work E False h s h' s' \<Longrightarrow> win_shape s \<Longrightarrow> win_shape s'"
  using work_shape [of E False h s h' s'] work_window [of E False h s h' s'] by (simp add: win_shape_def)

lemma sack_step_work:
  "win_shape s \<Longrightarrow> post (sack_step E base bm n (c, rs, h, s)) (\<lambda>(c', rs', h', s'). work E False h s h' s')"
proof (rule postI, clarify)
  fix c' rs' h' s'
  assume w: "win_shape s" and r: "sack_step E base bm n (c, rs, h, s) = Some (c', rs', h', s')"
  let ?v = "selack_seq base n"
  show "work E False h s h' s'"
  proof (cases "h' = h \<and> s' = s")
    case False
    then have o: "\<not> outside_window ?v s" using r by (auto simp: sack_step_def Let_def)
    have "\<exists>q. ack_packet E (ucast ?v) h s = Some (q, h', s')"
      using r o False
      by (auto simp: sack_step_def Let_def bind_eq_Some_conv split: option.splits if_splits)
    then obtain q where "ack_packet E (ucast ?v) h s = Some (q, h', s')" by blast
    then show ?thesis
      using postD [OF ack_packet_work] inside_window [OF _ _ _ o] w by (auto simp: win_shape_def ring_shape_def)
  qed simp
qed

lemma sack_loop_work:
  "win_shape s \<Longrightarrow> post (sack_loop E base bm n (c, rs, h, s)) (\<lambda>(c', rs', h', s'). work E False h s h' s')"
proof (induction n arbitrary: c rs h s)
  case 0
  then show ?case by (simp add: sack_step_work)
next
  case (Suc n)
  show ?case
  proof (simp add: post_simps, rule post_mono [OF sack_step_work [OF Suc.prems]], clarify)
    fix c1 rs1 h1 s1
    assume w: "work E False h s h1 s1"
    show "post (sack_loop E base bm n (c1, rs1, h1, s1)) (\<lambda>(c', rs', h', s'). work E False h s h' s')"
      by (rule post_mono [OF Suc.IH [OF work_win_shape [OF w Suc.prems]]])
        (use work.steps [OF w] in force)
  qed
qed

lemma resend_loop_work:
  "post (resend_loop E vs i bo h s) (\<lambda>(bo', h', s'). work E b h s h' s')"
proof (induction vs arbitrary: i bo h s)
  case Nil
  then show ?case by (simp add: post_simps)
next
  case (Cons v vs)
  show ?case
  proof (cases "out_at (ucast v) s")
    case None
    then show ?thesis using Cons by simp
  next
    case (Some p)
    have step: "post (do {
          let s = set_timing (\<lambda>t. t\<lparr>fast_resend_seq_nr := ucast v + 1\<rparr>) s1;
          if 4 \<le> i + 1 then Some (True, h1, s) else resend_loop E vs (i + 1) True h1 s
        }) (\<lambda>(bo', h', s'). work E b h s h' s')"
      if w: "work E b h s h1 s1" for h1 s1
    proof -
      let ?s = "set_timing (\<lambda>t. t\<lparr>fast_resend_seq_nr := ucast v + 1\<rparr>) s1"
      have w1: "work E b h s h1 ?s" by (rule work_then [OF w]) simp_all
      show ?thesis
      proof (cases "4 \<le> i + 1")
        case True
        then show ?thesis using w1 by (simp add: post_simps)
      next
        case False
        have "post (resend_loop E vs (i + 1) True h1 ?s) (\<lambda>(bo', h', s'). work E b h s h' s')"
          by (rule post_mono [OF Cons.IH]) (use work.steps [OF w1] in force)
        then show ?thesis using False by simp
      qed
    qed
    show ?thesis
      unfolding resend_loop.simps Some option.case
      by (intro post_bindI [OF send_packet_work [where b = b]], clarify, drule step, simp only: prod.case)
  qed
qed

lemma selective_ack_work:
  assumes "cur_window_packets (send s) \<noteq> 0 \<Longrightarrow> win_shape s"
  shows "post (selective_ack E base bm len h s) (\<lambda>(h', s'). work E False h s h' s')"
proof (cases "cur_window_packets (send s) = 0")
  case True
  then show ?thesis by (simp add: selective_ack_def post_simps)
next
  case False
  show ?thesis
  proof (rule postI, clarify)
    fix h' s'
    assume "selective_ack E base bm len h s = Some (h', s')"
    then obtain c rs h1 s1 rs' bo s2 s3 where
      sl: "sack_loop E base bm (unat len * 8) (0, [], h, s) = Some (c, rs, h1, s1)" and
      rl: "resend_loop E (rev rs') 0 False h1 s1 = Some (bo, h', s2)" and
      d: "(if bo then do {
                c \<leftarrow> maybe_decay_win (bld E) (current_ms h') (cc s2);
                Some (s2\<lparr>cc := c\<rparr>)
              } else Some s2) = Some s3" and
      r: "s' = s3\<lparr>duplicate_ack := of_nat c\<rparr>"
      using False unfolding selective_ack_def by (auto simp: bind_eq_Some_conv Let_def simp del: sack_loop.simps)
    have w1: "work E False h s h1 s1" using postD [OF sack_loop_work [OF assms [OF False]] sl] by simp
    have w2: "work E False h1 s1 h' s2" using postD [OF resend_loop_work rl] by simp
    have u: "untouched s2 s3"
      using d postD [OF maybe_decay_flight] by (auto simp: bind_eq_Some_conv intro: untouched_cc split: if_splits)
    show "work E False h s h' s'"
      using work_then [OF work.steps [OF w1 w2], of h' s'] untouched_trans [OF u, of s'] by (simp add: r)
  qed
qed

section \<open>The front of the window\<close>

lemma oldest_same_slot:
  assumes b: "sb_wf (outbuf (send s))"
  shows "out_at (ucast (oldest16 s)) s = out_at (oldest64 s) s"
  using pos_of_u16 [OF b, of "oldest16 s"] out_at_win [OF b] by simp

lemma ack_loop_work:
  "sb_wf (outbuf (send s)) \<Longrightarrow> n \<le> unat (cur_window_packets (send s)) \<Longrightarrow>
   post (ack_loop E n h s) (\<lambda>(h', s'). work E True h s h' s' \<and> sb_wf (outbuf (send s')))"
proof (induction n arbitrary: h s)
  case 0
  then show ?case by (simp add: post_simps)
next
  case (Suc n)
  show ?case
  proof (simp add: post_simps, rule postI, clarify)
    fix r h1 s1
    assume a: "ack_packet E (oldest16 s) h s = Some (r, h1, s1)"
    have w1: "work E True h s h1 s1"
      and same: "seq_nr (send s1) = seq_nr (send s)" "cur_window_packets (send s1) = cur_window_packets (send s)"
      and e: "r \<noteq> 2 \<Longrightarrow> out_at (ucast (oldest16 s)) s1 = None"
      using postD [OF ack_packet_work [of E "oldest16 s" h s True] a] Suc.prems(1) by auto
    have b1: "sb_wf (outbuf (send s1))"
      using a ack_packet_result [OF a] win_drop_at(1) [OF Suc.prems(1)] Suc.prems(1)
      by (cases "out_at (ucast (oldest16 s)) s") (force simp: ack_packet_def split: if_splits)+
    have o1: "oldest16 s1 = oldest16 s" by (simp add: oldest16_def same)
    let ?s = "set_send (\<lambda>d. d\<lparr>cur_window_packets := cur_window_packets d - 1\<rparr>) s1"
    have "post (ack_loop E n h1 ?s) (\<lambda>(h', s'). work E True h s h' s' \<and> sb_wf (outbuf (send s')))" if "r \<noteq> 2"
    proof -
      have pos: "0 < cur_window_packets (send s1)" using Suc.prems(2) same by (simp add: word_less_nat_alt)
      have "out_at (oldest64 s1) s1 = None" using e [OF that] oldest_same_slot [OF b1] by (simp add: o1)
      then have "work E True h1 s1 h1 (pop_front s1)" using pos by (intro work.advance) simp_all
      then have w2: "work E True h s h1 (pop_front s1)"
        by (rule work.steps [OF w1])
      have "post (ack_loop E n h1 (pop_front s1)) (\<lambda>(h', s'). work E True h1 (pop_front s1) h' s' \<and> sb_wf (outbuf (send s')))"
      proof (rule Suc.IH)
        show "n \<le> unat (cur_window_packets (send (pop_front s1)))"
          using Suc.prems(2) same unat_pred [of "cur_window_packets (send s1)"] pos by simp
      qed (use b1 in simp)
      then show ?thesis
        unfolding pop_front_def [symmetric]
        by (rule post_mono) (use work.steps [OF w2] in force)
    qed
    then show "post (if r = 2 then Some (h1, s1) else ack_loop E n h1 ?s)
        (\<lambda>(h', s'). work E True h s h' s' \<and> sb_wf (outbuf (send s')))"
      using w1 b1 by (simp add: post_simps)
  qed
qed

lemma skip_acked_work:
  "sb_wf (outbuf (send s)) \<Longrightarrow> work E True h s h (skip_acked s) \<and> sb_wf (outbuf (send (skip_acked s))) \<and>
   head_ok (skip_acked s)"
proof (induction s rule: skip_acked.induct)
  case (1 s)
  show ?case
  proof (cases "0 < cur_window_packets (send s) \<and> out_at (oldest64 s) s = None")
    case True
    have w: "work E True h s h (pop_front s)"
      using work.advance [of True s E h] True by simp
    have "work E True h (pop_front s) h (skip_acked (pop_front s)) \<and>
        sb_wf (outbuf (send (skip_acked (pop_front s)))) \<and> head_ok (skip_acked (pop_front s))"
      unfolding pop_front_def by (rule 1(1) [OF True]) (use 1(2) in \<open>simp add: set_send_def\<close>)
    then show ?thesis
      using work.steps [OF w] True by (subst (1 2 3) skip_acked.simps) (auto simp: pop_front_def)
  next
    case False
    then show ?thesis
      using 1(2) out_at_win [OF 1(2), of "oldest64 s"]
      by (subst (1 2 3) skip_acked.simps) (auto simp: head_ok_def word_gt_0)
  qed
qed

lemma ack_state_change_work: "work E b h s (fst (ack_state_change pp n h s)) (snd (ack_state_change pp n h s))"
proof -
  have q: "quiet E m h (emit (Ev_on_connect n) h)" for m n by (rule quiet_emit) simp
  show ?thesis
    by (rule work.other)
      (auto simp: ack_state_change_def Let_def q untouched_def set_defs)
qed

lemma fast_retry_work: "post (fast_retry E h s) (\<lambda>(h', s'). work E b h s h' s')"
proof -
  have "post (send_packet E v h (set_timing f s)) (\<lambda>(h', s'). work E b h s h' s')" for v f
    by (rule post_mono [OF send_packet_work]) (use work_after [of E s h h "set_timing f s"] in force)
  then show ?thesis
    by (auto simp: fast_retry_def post_simps work.other split: option.split)
qed

lemma advance_send_window_work:
  assumes b: "sb_wf (outbuf (send s))"
  shows "post (advance_send_window E pp acks h s) (\<lambda>(h', s'). work E True h s h' s' \<and>
     (ring_shape s \<longrightarrow> head_ok s \<longrightarrow> head_ok s'))"
proof (cases "acks \<le> unat (cur_window_packets (send s))")
  case False
  then show ?thesis by (simp add: advance_send_window_def post_simps)
next
  case True
  show ?thesis
  proof (rule postI, clarify)
    fix h' s'
    assume r: "advance_send_window E pp acks h s = Some (h', s')"
    define s1 where "s1 = set_send (\<lambda>d. d\<lparr>max_window_user := ucast (pp_windowsize pp)\<rparr>) s"
    define s2 where "s2 = (if max_window_user (send s1) = 0
                 then set_cc (\<lambda>c. c\<lparr>zerowindow_time := current_ms h + 15000\<rparr>) s1 else s1)"
    define h3 where "h3 = fst (ack_state_change pp acks h s2)"
    define s3 where "s3 = snd (ack_state_change pp acks h s2)"
    define s4 where "s4 = (if wrapping_compare_less (ucast (fast_resend_seq_nr (timing s3)))
                      (ucast (pp_ack_nr pp + 1)) (ucast ACK_NR_MASK)
                 then set_timing (\<lambda>t. t\<lparr>fast_resend_seq_nr := pp_ack_nr pp + 1\<rparr>) s3 else s3)"
    have eq: "advance_send_window E pp acks h s = do {
        (h, s) \<leftarrow> ack_loop E acks h3 s4;
        let s = skip_acked s;
        c_assert (ndebug (bld E)) (cur_window_packets (send s) = 0 \<or> out_at (oldest64 s) s \<noteq> None);
        (h, s) \<leftarrow>
          (if cur_window_packets (send s) = 1
           then do {
             p \<leftarrow> out_at (seq64 s - 1) s;
             if opk_transmissions p = 0 then send_packet E (seq64 s - 1) h s else Some (h, s)
           }
           else Some (h, s));
        fast_retry E h s
      }"
      unfolding advance_send_window_def s4_def s3_def h3_def s2_def s1_def Let_def
      using True by (simp only: if_True split_def)
    obtain h5 s5 h6 s6 where al: "ack_loop E acks h3 s4 = Some (h5, s5)"
      and l: "(if cur_window_packets (send (skip_acked s5)) = 1
           then do {
             p \<leftarrow> out_at (seq64 (skip_acked s5) - 1) (skip_acked s5);
             if opk_transmissions p = 0 then send_packet E (seq64 (skip_acked s5) - 1) h5 (skip_acked s5)
             else Some (h5, skip_acked s5)
           }
           else Some (h5, skip_acked s5)) = Some (h6, s6)"
      and fr: "fast_retry E h6 s6 = Some (h', s')"
      using r unfolding eq by (auto simp: bind_eq_Some_conv Let_def)
    have u2: "untouched s s2" by (simp add: untouched_def s1_def s2_def set_defs)
    have w3: "work E True h s h3 s3"
      using work_after [OF quiet_refl u2 ack_state_change_work] by (simp add: h3_def s3_def)
    have w4: "work E True h s h3 s4" by (rule work_then [OF w3]) (simp_all add: s4_def)
    have k4: "outbuf (send s4) = outbuf (send s)" "cur_window_packets (send s4) = cur_window_packets (send s)"
      by (simp_all add: s4_def s3_def s2_def s1_def ack_state_change_def Let_def set_defs)
    have "sb_wf (outbuf (send s4))" "acks \<le> unat (cur_window_packets (send s4))" using b True by (simp_all add: k4)
    from postD [OF ack_loop_work [OF this] al] have w5: "work E True h3 s4 h5 s5" "sb_wf (outbuf (send s5))"
      by auto
    note sk = skip_acked_work [OF w5(2), of E h5]
    have w6: "work E True h s h5 (skip_acked s5)"
      using work.steps [OF work.steps [OF w4 w5(1)] conjunct1 [OF sk]] by simp
    have l6: "work E False h5 (skip_acked s5) h6 s6"
      using l postD [OF send_packet_work]
      by (auto simp: bind_eq_Some_conv split: if_splits)
    have l7: "work E False h6 s6 h' s'" using postD [OF fast_retry_work fr] by simp
    have l67: "work E False h5 (skip_acked s5) h' s'" using work.steps [OF l6 l7] by simp
    have "work E True h s h' s'" using work.steps [OF w6 work_front [OF l67]] by simp
    moreover have "head_ok s'" if "ring_shape s"
      using work_head_ok [OF l67] work_shape [OF w6 that] sk by blast
    ultimately show "work E True h s h' s' \<and> (ring_shape s \<longrightarrow> head_ok s \<longrightarrow> head_ok s')"
      by blast
  qed
qed

end
