(* ===== verification/Timer_Steps.thy ===== *)
theory Timer_Steps
  imports Send_Steps
begin

text \<open>
  The rest of the acknowledgement half of a packet and of the retransmission timer, as steps of
  the sender.
\<close>

section \<open>Measurements\<close>

lemma untouched_mtu_step: "untouched s (s'\<lparr>mtu := m\<rparr>) \<longleftrightarrow> untouched s s'"
  by (simp add: untouched_def)

lemma acked_loop_untouched: "post (acked_loop E now n i acc h s) (\<lambda>(a, r, s'). untouched s s')"
proof (induction n arbitrary: i acc s)
  case 0
  then show ?case by (simp add: post_simps)
next
  case (Suc n)
  have IH: "post (acked_loop E now n j a h (s\<lparr>mtu := d\<rparr>)) (\<lambda>(a, r, s'). untouched s s')" for j a d
    by (rule post_mono [OF Suc.IH]) (auto simp: untouched_def)
  show ?case
    using Suc.IH [of "i + 1" acc s] IH
    by (auto simp: Let_def post_simps split_def split: option.split intro!: postI dest: postD)
qed

lemma their_sample_untouched: "untouched s (their_sample d time h s)"
  by (simp add: their_sample_def Let_def untouched_def set_cc_def)

lemma our_sample_untouched: "post (our_sample E d h s) (\<lambda>s'. untouched s s')"
  using postD [OF update_delay_flight]
  by (auto simp: our_sample_def Let_def untouched_def set_cc_def post_def bind_eq_Some_conv split: if_splits)

lemma cap_our_delay_untouched: "untouched s (cap_our_delay m s)"
  by (simp add: cap_our_delay_def Let_def untouched_def set_cc_def)

lemma process_acks_work: "post (process_acks E pp acks time h s) (\<lambda>(a, h', s'). work E b h s h' s')"
proof (rule postI, clarify)
  fix a h' s'
  assume r: "process_acks E pp acks time h s = Some (a, h', s')"
  obtain now h1 where n: "call_get_microseconds E h = (now, h1)" "quiet E (self s) h h1"
    by (simp add: call_get_microseconds_def query_def)
  obtain a1 r1 s1 a2 r2 h2 s3 td ad where
    al: "acked_loop E now acks 0 (0, INT64_MAX) h1 s = Some (a1, r1, s1)" and
    sb: "(case pp_selack pp of
            None \<Rightarrow> Some (a1, r1, h1)
          | Some pos \<Rightarrow> do {
              len \<leftarrow> selack_len pos pp;
              (b, min_rtt, h) \<leftarrow> selective_ack_bytes E (ucast (pp_ack_nr pp + 2)) (selack_mask pos pp)
                 len r1 h1 s1;
              Some (a1 + b, min_rtt, h)
            }) = Some (a2, r2, h2)" and
    os: "our_sample E ad h2 (their_sample td time h2
       (set_timing (\<lambda>t. t\<lparr>reply_micro := td\<rparr>) (set_timing (\<lambda>t. t\<lparr>last_measured_delay := current_ms h2\<rparr>) s1))) = Some s3" and
    fin: "(if ad \<noteq> 0 \<and> 1 \<le> a2
       then do {
         (our_delay, c) \<leftarrow> apply_ccontrol (bld E) a2 ad r2 (current_ms h2)
            (opt_sndbuf (send (cap_our_delay r2 s3))) (conn_target_delay (conn (cap_our_delay r2 s3)))
            (get_packet_size (cap_our_delay r2 s3)) (cc (cap_our_delay r2 s3));
         let s = (cap_our_delay r2 s3)\<lparr>cc := c\<rparr>;
         let h = emit (Ev_on_delay_sample (self s) (our_delay sdiv 1000)) h2;
         let (_, h) = call_get_microseconds E h;
         Some (a2, h, s)
       }
       else Some (a2, h2, cap_our_delay r2 s3)) = Some (a, h', s')"
    using r unfolding process_acks_def n(1) Let_def
    by (auto simp: bind_eq_Some_conv simp del: INT_MAX_def)
  have u1: "untouched s s1" using postD [OF acked_loop_untouched al] by simp
  have q2: "quiet E (self s) h1 h2"
    using sb by (auto simp: bind_eq_Some_conv selective_ack_bytes_def call_get_microseconds_def query_def
        split: option.splits if_splits prod.splits)
  have "untouched s1 (their_sample td time h2
       (set_timing (\<lambda>t. t\<lparr>reply_micro := td\<rparr>) (set_timing (\<lambda>t. t\<lparr>last_measured_delay := current_ms h2\<rparr>) s1)))"
    by (rule untouched_trans [OF _ their_sample_untouched]) (simp add: untouched_def set_timing_def)
  then have u3: "untouched s s3"
    using untouched_trans [OF untouched_trans [OF u1]] postD [OF our_sample_untouched os] by blast
  have u4: "untouched s (cap_our_delay r2 s3)" by (rule untouched_trans [OF u3 cap_our_delay_untouched])
  have q: "quiet E (self s) h h2" by (rule quiet_trans [OF n(2) q2])
  have "quiet E (self s) h2 h' \<and> untouched (cap_our_delay r2 s3) s'"
  proof (cases "ad \<noteq> 0 \<and> 1 \<le> a2")
    case True
    then obtain od c where ac: "apply_ccontrol (bld E) a2 ad r2 (current_ms h2)
            (opt_sndbuf (send (cap_our_delay r2 s3))) (conn_target_delay (conn (cap_our_delay r2 s3)))
            (get_packet_size (cap_our_delay r2 s3)) (cc (cap_our_delay r2 s3)) = Some (od, c)"
      and e: "s' = (cap_our_delay r2 s3)\<lparr>cc := c\<rparr>"
        "h' = (emit (Ev_on_delay_sample (self s') (od sdiv 1000)) h2)\<lparr>tick := Suc (tick (emit (Ev_on_delay_sample (self s') (od sdiv 1000)) h2))\<rparr>"
      using fin by (auto simp: bind_eq_Some_conv call_get_microseconds_def query_def Let_def)
    have "quiet E (self s) h2 h'" unfolding e(2) by (rule quiet_trans [OF quiet_emit quiet_tick]) simp
    then show ?thesis using postD [OF apply_ccontrol_flight ac] by (simp add: e(1) untouched_def)
  next
    case False
    show ?thesis using fin unfolding if_not_P [OF False] by simp
  qed
  then show "work E b h s h' s'"
    using quiet_trans [OF q] untouched_trans [OF u4] by (blast intro: work.other)
qed

lemma is_full_untouched: "untouched s (snd (is_full n h s))"
  by (simp add: is_full_def untouched_def set_cc_def mark_window_full_def)

lemma leave_full_work: "work E b h s (fst (leave_full h s)) (snd (leave_full h s))"
proof -
  have "quiet E m h (emit (Ev_on_state_change n UTP_STATE_WRITABLE) h)" for m n
    by (rule quiet_emit) simp
  then show ?thesis
    using is_full_untouched [of s "- 1" h] untouched_trans
    by (intro work.other) (auto simp: leave_full_def split_def Let_def)
qed

lemma count_duplicate_ack_untouched: "post (count_duplicate_ack E pp h s) (\<lambda>s'. untouched s s')"
  by (auto simp: count_duplicate_ack_def post_def Let_def bind_eq_Some_conv untouched_def split: if_splits)

section \<open>The acknowledgement half of a packet\<close>

text \<open>Everything of \<open>process_window_packet\<close> before the data is delivered.\<close>

definition ack_half ::
  "env \<Rightarrow> ParsedPacket \<Rightarrow> u64 \<Rightarrow> UtpContext \<Rightarrow> UtpSocket \<Rightarrow> (UtpContext \<times> UtpSocket) option" where
  "ack_half E pp time h s =
     do {
       let acks = count_acks pp s;
       s \<leftarrow> count_duplicate_ack E pp h s;
       (acked_bytes, h, s) \<leftarrow> process_acks E pp acks time h s;
       (h, s) \<leftarrow> advance_send_window E pp acks h s;
       (h, s) \<leftarrow>
         (case pp_selack pp of
            None \<Rightarrow> Some (h, s)
          | Some pos \<Rightarrow> do {
              len \<leftarrow> selack_len pos pp;
              selective_ack E (ucast (pp_ack_nr pp) + 2) (selack_mask pos pp) len h s
            });
       c_assert (ndebug (bld E)) (cur_window_packets (send s) = 0 \<or> out_at (oldest64 s) s \<noteq> None);
       Some (leave_full h s)
     }"

lemma process_window_packet_split:
  "process_window_packet E pp time seqnr h s =
     do {
       (h, s) \<leftarrow> ack_half E pp time h s;
       if pp_type pp = ST_STATE then Some (0, h, s)
       else if state (conn s) \<noteq> CS_CONNECTED \<and> state (conn s) \<noteq> CS_CONNECTED_FULL then Some (0, h, s)
       else deliver_data E pp seqnr h s
     }"
  unfolding process_window_packet_def ack_half_def Let_def
  by (simp add: split_def bind_assoc cong: bind_option_cong)

lemma ack_half_work:
  assumes w: "ring_shape s"
  shows "post (ack_half E pp time h s) (\<lambda>(h', s'). work E True h s h' s' \<and> (head_ok s \<longrightarrow> head_ok s'))"
proof (rule postI, clarify)
  fix h' s'
  assume "ack_half E pp time h s = Some (h', s')"
  then obtain s1 a h2 s2 h3 s3 h4 s4 where
    cd: "count_duplicate_ack E pp h s = Some s1" and
    pa: "process_acks E pp (count_acks pp s) time h s1 = Some (a, h2, s2)" and
    aw: "advance_send_window E pp (count_acks pp s) h2 s2 = Some (h3, s3)" and
    sa: "(case pp_selack pp of
            None \<Rightarrow> Some (h3, s3)
          | Some pos \<Rightarrow> do {
              len \<leftarrow> selack_len pos pp;
              selective_ack E (ucast (pp_ack_nr pp) + 2) (selack_mask pos pp) len h3 s3
            }) = Some (h4, s4)" and
    lf: "leave_full h4 s4 = (h', s')"
    unfolding ack_half_def Let_def by (auto simp: bind_eq_Some_conv)
  have w1: "work E False h s h s1" using postD [OF count_duplicate_ack_untouched cd] by (simp add: work.other)
  have w2: "work E False h s h2 s2"
    using work.steps [OF w1] postD [OF process_acks_work pa] by fastforce
  have i2: "ring_shape s2" by (rule work_shape [OF w2 w])
  then have b2: "sb_wf (outbuf (send s2))" by (simp add: ring_shape_def)
  have w3: "work E True h2 s2 h3 s3" and h3: "head_ok s2 \<Longrightarrow> head_ok s3"
    using postD [OF advance_send_window_work [OF b2] aw] i2 by auto
  have i3: "ring_shape s3" by (rule work_shape [OF w3 i2])
  have "win_shape s3" if "cur_window_packets (send s3) \<noteq> 0"
    using i3 that by (simp add: win_shape_def)
  then have w4: "work E False h3 s3 h4 s4"
    using sa postD [OF selective_ack_work] by (auto simp: bind_eq_Some_conv split: option.splits)
  have "work E False h4 s4 h' s'" using leave_full_work [of E False h4 s4] by (simp add: lf)
  then have w45: "work E False h3 s3 h' s'" by (rule work.steps [OF w4])
  have "work E True h s h' s'"
    by (rule work.steps [OF work_front [OF w2] work.steps [OF w3 work_front [OF w45]]])
  moreover have "head_ok s'" if "head_ok s"
    using work_head_ok [OF w45 _ i3] h3 work_head_ok [OF w2 _ w that] by simp
  ultimately show "work E True h s h' s' \<and> (head_ok s \<longrightarrow> head_ok s')" by simp
qed

section \<open>The timer\<close>

lemma mark_resend_work: "post (mark_resend E n i s) (\<lambda>s'. work E b h s h s')"
proof (induction n arbitrary: i s)
  case 0
  then show ?case by (simp add: post_simps)
next
  case (Suc n)
  let ?v = "seq64 s - of_nat i - 1"
  show ?case
  proof (cases "\<exists>p. out_at ?v s = Some p \<and> opk_transmissions p \<noteq> 0 \<and> \<not> opk_need_resend p")
    case True
    then obtain p where p: "out_at ?v s = Some p" "opk_transmissions p \<noteq> 0" "\<not> opk_need_resend p" by blast
    let ?s = "set_out ?v (p\<lparr>opk_need_resend := True\<rparr>) s"
    have "post (cc_remove_in_flight E (opk_payload p) ?s) (\<lambda>s1. work E b h s h s1)"
    proof (rule post_mono [OF remove_in_flight_post], elim exE conjE)
      fix s1 c
      assume c: "s1 = ?s\<lparr>cc := c\<rparr>" "cur_window c = cur_window (cc ?s) - opk_payload p"
      have "s1 = set_out ?v (p\<lparr>opk_need_resend := True\<rparr>) (s\<lparr>cc := c\<rparr>)"
        by (simp add: c(1) set_out_def set_send_def)
      then show "work E b h s h s1" using work.lose [OF p, where c = c and s' = s1] c(2) by simp
    qed
    then have "post (cc_remove_in_flight E (opk_payload p) ?s \<bind> mark_resend E n (i + 1)) (\<lambda>s'. work E b h s h s')"
    proof (rule post_bindI)
      fix s1 assume w: "work E b h s h s1"
      show "post (mark_resend E n (i + 1) s1) (\<lambda>s'. work E b h s h s')"
        by (rule post_mono [OF Suc.IH]) (rule work.steps [OF w])
    qed
    then show ?thesis using p by simp
  next
    case False
    then show ?thesis using Suc.IH [of "i + 1" s] by (auto simp: Let_def split: option.split)
  qed
qed

lemma resend_oldest_work: "post (resend_oldest E h s) (\<lambda>(h', s'). work E b h s h' s')"
proof (cases "0 < cur_window_packets (send s)")
  case False
  then show ?thesis by (simp add: resend_oldest_def post_simps)
next
  case True
  let ?s1 = "set_cc (\<lambda>c. c\<lparr>retransmit_count := retransmit_count c + 1\<rparr>) s"
  let ?s = "set_timing (\<lambda>t. t\<lparr>fast_timeout := True, timeout_seq_nr := seq_nr (send ?s1)\<rparr>) ?s1"
  have u: "untouched s ?s" by (simp add: untouched_def set_cc_def set_timing_def)
  have "post (send_packet E (oldest64 ?s) h ?s) (\<lambda>(h', s'). work E b h s h' s')"
    by (rule post_mono [OF send_packet_work]) (use work_after [OF quiet_refl u] in force)
  then show ?thesis using True by (simp add: resend_oldest_def post_simps Let_def)
qed

lemma on_rto_work: "post (on_rto E h s) (\<lambda>(ended, h', s'). work E b h s h' s')"
proof (rule postI, clarify)
  fix ended h' s'
  assume r: "on_rto E h s = Some (ended, h', s')"
  obtain il d where pt: "handle_probe_timeout (ndebug (bld E)) (ucast (seq_nr (send s) - 1))
         (ucast (cur_window_packets (send s))) (current_ms h) (mtu s) = Some (il, d)"
    using r by (auto simp: on_rto_def bind_eq_Some_conv)
  let ?s = "s\<lparr>mtu := d\<rparr>"
  have q: "quiet E n h (emit (Ev_on_error m e) h)" for n m e by (rule quiet_emit) simp
  show "work E b h s h' s'"
  proof (cases "state (conn ?s) = CS_SYN_RECV \<or> gives_up ?s")
    case True
    then show ?thesis
      using r pt q by (auto simp: on_rto_def Let_def untouched_def set_state_def intro!: work.other split: if_splits)
  next
    case False
    define new_timeout where
      "new_timeout = (if il then retransmit_timeout (cc ?s) else retransmit_timeout (cc ?s) * 2)"
    define s1 where "s1 = set_cc (\<lambda>c. c\<lparr>retransmit_timeout := new_timeout,
      rto_timeout := current_ms h + ucast new_timeout\<rparr>) ?s"
    define s2 where "s2 = (if \<not> il
                  then set_cc (on_rto_timeout (current_ms h)
                         (word_of_int (int_of_size (get_packet_size s1))) (cur_window_packets (send s1)))
                         (s1\<lparr>duplicate_ack := 0\<rparr>)
                  else s1)"
    have eq: "on_rto E h s = do {
        s \<leftarrow> mark_resend E (unat (cur_window_packets (send s2))) 0 s2;
        (h, s) \<leftarrow> resend_oldest E h (set_send (\<lambda>d. d\<lparr>flush_scan_start := seq_nr d - cur_window_packets d\<rparr>) s);
        Some (False, h, s)
      }"
      using False by (simp only: on_rto_def s2_def s1_def new_timeout_def Let_def pt bind.bind_lunit prod.case
          de_Morgan_disj if_False simp_thms)
    obtain s3 where mr: "mark_resend E (unat (cur_window_packets (send s2))) 0 s2 = Some s3"
      and ro: "resend_oldest E h (set_send (\<lambda>d. d\<lparr>flush_scan_start := seq_nr d - cur_window_packets d\<rparr>) s3) = Some (h', s')"
      using r unfolding eq by (auto simp: bind_eq_Some_conv)
    have u2: "untouched s s2" by (simp add: s2_def s1_def untouched_def set_cc_def on_rto_timeout_flight)
    have w3: "work E b h s h s3"
      by (rule work_after [OF quiet_refl u2 postD [OF mark_resend_work mr]])
    have "work E b h s h (set_send (\<lambda>d. d\<lparr>flush_scan_start := seq_nr d - cur_window_packets d\<rparr>) s3)"
      by (rule work_then [OF w3 quiet_refl]) (simp add: untouched_def set_send_def)
    then show ?thesis using postD [OF resend_oldest_work ro] work.steps by fastforce
  qed
qed

section \<open>Flushing\<close>

text \<open>
  What the client of the flush loop has to know of a relation between the states before and
  after: it holds of the test for a full window, of moving the cursor and of sending one packet.
\<close>

locale sender_relation =
  fixes R :: "UtpContext \<Rightarrow> UtpSocket \<Rightarrow> UtpContext \<Rightarrow> UtpSocket \<Rightarrow> bool" and E :: env
  assumes stay: "R h s h s"
    and trans: "R h s h1 s1 \<Longrightarrow> R h1 s1 h' s' \<Longrightarrow> R h s h' s'"
    and full_test: "R h s h (snd (is_full n h s))"
    and cursor: "R h s h (set_send (\<lambda>d. d\<lparr>flush_scan_start := i\<rparr>) s)"
    and packet: "post (send_packet E v h s) (\<lambda>(h', s'). R h s h' s')"
begin

lemma cursor_if: "R h s h (set_send (\<lambda>d. if c then d\<lparr>flush_scan_start := i\<rparr> else d) s)"
  using cursor [of h s i] stay [of h s] by (cases c) (simp_all add: set_send_def)

lemma flush_loop_steps: "post (flush_loop E ps n i pre h s) (\<lambda>(full, h', s'). R h s h' s')"
proof (induction n arbitrary: i pre h s)
  case 0
  then show ?case by (simp add: post_simps stay)
next
  case (Suc n)
  let ?adv = "set_send (\<lambda>d. if pre then d\<lparr>flush_scan_start := i + 1\<rparr> else d)"
  have go_on: "post (flush_loop E ps n (i + 1) q h1 t) (\<lambda>(full, h', s'). R h s h' s')"
    if "R h s h1 t" for q h1 t
    by (rule post_mono [OF Suc.IH]) (use trans [OF that] in force)
  have a: "R h s h (?adv s)" by (rule cursor_if)
  show ?case
  proof (cases "out_at (ucast i) s")
    case None
    then show ?thesis using go_on [OF a] by (simp add: Let_def)
  next
    case (Some p)
    obtain full s1 where f: "is_full (- 1) h s = (full, s1)" by (cases "is_full (- 1) h s")
    have w1: "R h s h s1" using full_test [of h s "- 1"] by (simp add: f)
    have sent: "post (send_packet E (ucast i) h s1 \<bind> (\<lambda>(h, s). flush_loop E ps n (i + 1) pre h (?adv s)))
       (\<lambda>(full, h', s'). R h s h' s')"
    proof (rule post_bindI [OF packet], clarify)
      fix h2 s2 assume "R h s1 h2 s2"
      then have "R h s h2 (?adv s2)" by (rule trans [OF trans [OF w1] cursor_if])
      then show "post (flush_loop E ps n (i + 1) pre h2 (?adv s2)) (\<lambda>(full, h', s'). R h s h' s')"
        by (rule go_on)
    qed
    show ?thesis
      unfolding flush_loop.simps Some option.case f prod.case Let_def
      by (auto simp only: post_basic(2) prod.case go_on [OF a] go_on [OF w1] sent w1 split: if_split)
  qed
qed

lemma flush_packets_steps: "post (flush_packets E h s) (\<lambda>(full, h', s'). R h s h' s')"
  unfolding flush_packets_def by (rule flush_loop_steps)

end

interpretation acting: sender_relation "work E b" E for E b
proof unfold_locales
  fix h s n i v h1 s1 h' s'
  show "work E b h s h s" by simp
  show "work E b h s h1 s1 \<Longrightarrow> work E b h1 s1 h' s' \<Longrightarrow> work E b h s h' s'" by (rule work.steps)
  show "work E b h s h (snd (is_full n h s))" by (rule work.other [OF quiet_refl is_full_untouched])
  show "work E b h s h (set_send (\<lambda>d. d\<lparr>flush_scan_start := i\<rparr>) s)"
    by (rule work.other) (simp_all add: untouched_def set_send_def)
  show "post (send_packet E v h s) (\<lambda>(h', s'). work E b h s h' s')" by (rule send_packet_work)
qed

end
