(* ===== verification/Incoming_Correct.thy ===== *)
theory Incoming_Correct
  imports Stream_Correct Timer_Steps
begin

text \<open>
  \<open>process_incoming\<close> as a whole: the acknowledgement half of a packet leaves the receiving side
  alone, the data half leaves the send window alone, so the invariants of both sides hold
  after every packet.
\<close>

section \<open>The data half and the send window\<close>

definition receives :: "UtpContext \<Rightarrow> UtpSocket \<Rightarrow> UtpContext \<Rightarrow> UtpSocket \<Rightarrow> bool" where
  "receives h s h' s' \<longleftrightarrow> self s' = self s \<and> conn s' = conn s \<and> send s' = send s \<and> mtu s' = mtu s \<and>
     cur_window (cc s') = cur_window (cc s) \<and> age h \<le> age h'"

lemma receives_refl [simp]: "receives h s h s"
  by (simp add: receives_def)

lemma receives_trans: "receives h s h1 s1 \<Longrightarrow> receives h1 s1 h' s' \<Longrightarrow> receives h s h' s'"
  by (simp add: receives_def)

lemma get_rcv_window_post:
  "post (get_rcv_window E h s) (\<lambda>(w, h'). h' = h\<lparr>tick := tick h + 1\<rparr>)"
  by (simp add: get_rcv_window_def call_get_read_buffer_size_def query_def post_simps)

lemma send_ack_post:
  "post (send_ack E sy h s) (\<lambda>(h', s'). quiet E (self s) h h' \<and> age h < age h' \<and>
     (\<exists>w. s' = s\<lparr>recv := (recv s)\<lparr>last_rcv_win := w\<rparr>,
              timing := (timing s)\<lparr>last_sent_packet := current_ms h\<rparr>\<rparr>))"
proof (rule postI, clarify)
  fix h' s'
  assume "send_ack E sy h s = Some (h', s')"
  then obtain w h1 pfa n b h2 s2 where
    w: "get_rcv_window E h s = Some (w, h1)" and
    sd: "send_data E (encode_pfa pfa) n ack_overhead 0 h1 (set_recv (\<lambda>r. r\<lparr>last_rcv_win := w\<rparr>) s) = Some (b, h2, s2)" and
    rm: "remove_from_ack_list E h2 s2 = Some h'" and s': "s' = s2"
    by (auto simp: send_ack_def Let_def bind_eq_Some_conv split: if_splits)
  have h1: "h1 = h\<lparr>tick := tick h + 1\<rparr>" using postD [OF get_rcv_window_post w] by simp
  let ?s = "set_recv (\<lambda>r. r\<lparr>last_rcv_win := w\<rparr>) s"
  have d: "s2 = ?s\<lparr>timing := (timing ?s)\<lparr>last_sent_packet := current_ms h1\<rparr>\<rparr>" "quiet E (self ?s) h1 h2" "age h1 < age h2"
    using postD [OF send_data_post sd] by auto
  have q: "quiet E (self s) h1 h2" "quiet E (self s) h2 h'"
    using d(1,2) quiet_remove_ack [OF rm] by (simp_all add: set_recv_def)
  have "quiet E (self s) h h'" unfolding h1 by (rule quiet_trans [OF quiet_tick quiet_trans [OF q [unfolded h1]]])
  moreover have "age h < age h'" using d(3) quiet_age [OF q(2)] h1 by simp
  ultimately show "quiet E (self s) h h' \<and> age h < age h' \<and>
     (\<exists>w. s' = s\<lparr>recv := (recv s)\<lparr>last_rcv_win := w\<rparr>, timing := (timing s)\<lparr>last_sent_packet := current_ms h\<rparr>\<rparr>)"
    using d(1) h1 by (simp add: s' set_recv_def) blast
qed

lemma post_eof_receives: "post (post_eof E h s) (\<lambda>(h', s'). receives h s h' s')"
proof (cases "at_eof (recv s)")
  case False
  then show ?thesis by (simp add: post_eof_def post_simps)
next
  case True
  let ?s = "set_cc (\<lambda>c. c\<lparr>rto_timeout := current_ms h + ucast (min (rto c * 3) 60)\<rparr>)
     (set_recv (\<lambda>r. r\<lparr>got_fin_reached := True\<rparr>) s)"
  let ?h = "emit (Ev_on_state_change (self s) UTP_STATE_EOF) h"
  have "post (send_ack E False ?h ?s) (\<lambda>(h1, s1). receives h s h1 (set_recv (\<lambda>r. r\<lparr>reorder_count := 0\<rparr>) s1))"
    by (rule post_mono [OF send_ack_post]) (auto simp: receives_def set_defs)
  then show ?thesis
    using True by (auto simp: post_eof_def Let_def post_simps set_recv_def set_cc_def split_def)
qed

lemma deliver_loop_receives: "post (deliver_loop E h s) (\<lambda>(h', s'). receives h s h' s')"
proof (induction E h s rule: deliver_loop.induct)
  case (1 E h s)
  show ?case
  proof (cases "post_eof E h s")
    case None
    then show ?thesis by (simp add: deliver_loop.simps post_simps)
  next
    case (Some r)
    obtain h1 s1 where r: "r = (h1, s1)" by (cases r)
    have e: "receives h s h1 s1" using postD [OF post_eof_receives Some] by (simp add: r)
    obtain x s2 where t: "take_reordered s1 = (x, s2)" by (cases "take_reordered s1")
    have s2: "receives h1 s1 h1 s2"
      using t by (auto simp: take_reordered_def receives_def set_recv_def split: prod.splits)
    show ?thesis
    proof (cases "reorder_count (recv s1) = 0 \<or> x = None")
      case True
      then show ?thesis
        using e receives_trans [OF e s2] Some r t by (subst deliver_loop.simps) (auto simp: post_simps)
    next
      case False
      then obtain p where x: "x = Some p" by blast
      let ?s = "set_recv (\<lambda>r. r\<lparr>ack_nr := ack_nr r + 1, reorder_count := reorder_count r - 1\<rparr>) s2"
      let ?h = "give_data (ipk_bytes p) h1 s2"
      have g: "receives h1 s2 ?h ?s" by (simp add: receives_def set_recv_def give_data_def)
      have "post (deliver_loop E ?h ?s) (\<lambda>(h', s'). receives ?h ?s h' s')"
        by (rule 1 [OF Some r [symmetric] _ t [symmetric] x]) (use False x in simp)
      then have "post (deliver_loop E ?h ?s) (\<lambda>(h', s'). receives h s h' s')"
        by (rule post_mono) (use receives_trans [OF receives_trans [OF receives_trans [OF e s2] g]] in force)
      then show ?thesis using Some r t x False by (subst deliver_loop.simps) simp
    qed
  qed
qed

lemma age_schedule_ack [simp]: "age (schedule_ack h s) = age h"
  by (simp add: schedule_ack_def host_schedule_ack_def age_def Let_def)

lemma deliver_data_receives: "post (deliver_data E pp d h s) (\<lambda>(c, h', s'). receives h s h' s')"
proof -
  let ?s = "fin_seen pp s"
  have f: "receives h s h ?s" by (simp add: receives_def fin_seen_def set_recv_def)
  have o: "post (deliver_in_order E pp h ?s) (\<lambda>(h', s'). receives h s h' s')"
  proof -
    let ?h1 = "give_data (pp_data pp) h ?s" and ?s1 = "set_recv (\<lambda>r. r\<lparr>ack_nr := ack_nr r + 1\<rparr>) ?s"
    have "receives h s ?h1 ?s1" using f by (simp add: receives_def set_recv_def give_data_def)
    then have "post (deliver_loop E ?h1 ?s1) (\<lambda>(h', s'). receives h s (schedule_ack h' s') s')"
      by (intro post_mono [OF deliver_loop_receives]) (auto simp: receives_def)
    then show ?thesis by (auto simp: deliver_in_order_def post_simps split_def)
  qed
  have g: "receives h s h (set_recv k ?s)" "receives h s (schedule_ack h t) (set_recv k ?s)" for k t
    using f by (simp_all add: receives_def set_recv_def)
  show ?thesis
    unfolding deliver_data_def Let_def
    using o f by (auto simp: post_simps split_def g intro!: postI dest: postD) (auto simp: receives_def set_recv_def)
qed

section \<open>The whole of a packet\<close>

definition calm :: "env \<Rightarrow> nat \<Rightarrow> UtpContext \<Rightarrow> UtpContext \<Rightarrow> bool" where
  "calm E n h h' \<longleftrightarrow> (\<forall>m. reads m h' = reads m h) \<and> age h \<le> age h' \<and> (host_for E n h \<longrightarrow> host_for E n h')"

lemma calm_refl [simp]: "calm E n h h"
  by (simp add: calm_def)

lemma calm_trans: "calm E n h h1 \<Longrightarrow> calm E n h1 h' \<Longrightarrow> calm E n h h'"
  by (simp add: calm_def)

lemma calm_age: "calm E n h h' \<Longrightarrow> age h \<le> age h'"
  by (simp add: calm_def)

lemma quiet_calm: "quiet E n h h' \<Longrightarrow> calm E n h h'"
  by (simp add: quiet_def calm_def same_host_def)

lemma calm_arrival: "calm E n h (refresh_clock E (record_raw_recv k h))"
  by (simp add: calm_def refresh_clock_def record_raw_recv_def call_get_milliseconds_def query_def Let_def
      reads_def age_def host_for_def host_ok_def ack_list_ok_def ack_pending_def)

lemma calm_schedule_ack: "calm E (self s) h (schedule_ack h s)"
  using schedule_ack_total(1,2) [of E "self s" h] age_schedule_ack [of h s]
  by (auto simp: calm_def schedule_ack_def host_schedule_ack_def reads_def Let_def)

definition at_start :: "ParsedPacket \<Rightarrow> UtpSocket \<Rightarrow> ReceiveState" where
  "at_start pp s = (if state (conn s) = CS_SYN_SENT then (recv s)\<lparr>ack_nr := pp_seq_nr pp - 1\<rparr> else recv s)"

lemma parse_packet_conn:
  assumes "parse_packet packet s = Some (r, s')"
  shows "\<exists>e. s' = s\<lparr>conn := (conn s)\<lparr>extensions := e\<rparr>\<rparr>"
proof -
  have "\<exists>e. t = t\<lparr>conn := (conn t)\<lparr>extensions := e\<rparr>\<rparr>" for t :: UtpSocket
    by (rule exI [of _ "extensions (conn t)"]) simp
  then show ?thesis
    using assms by (auto simp: parse_packet_def Let_def bind_eq_Some_conv split: if_splits)
qed

text \<open>Either the packet leaves the socket's two sides alone, or it is in the window.\<close>

lemma process_incoming_split:
  assumes "process_incoming E packet syn h s = Some (r, h', s')"
  obtains h1 s1 pp s0 time where "calm E (self s) h h1" and "self s1 = self s" and "send s1 = send s" and "cc s1 = cc s"
    and "parse_packet packet s = Some (Some pp, s0)" and "recv s1 = at_start pp s"
    and "seq_distance pp s1 < 1024" and "\<not> syn"
    and "process_window_packet E pp time (seq_distance pp s1) h1 s1 = Some (r, h', s')"
    and "state (conn s1) = state (conn s)"
  | pp s0 where "calm E (self s) h h'" and "self s' = self s" and "send s' = send s" and "cc s' = cc s"
    and "recv s' = recv s \<or> parse_packet packet s = Some (Some pp, s0) \<and> recv s' = at_start pp s"
    and "state (conn s') = state (conn s)"
proof -
  let ?h = "refresh_clock E (record_raw_recv (of_nat (length packet)) h)"
  obtain q s0 where pp: "parse_packet packet s = Some (q, s0)"
    using assms by (cases "parse_packet packet s") (auto simp: process_incoming_def Let_def)
  obtain e where e: "s0 = s\<lparr>conn := (conn s)\<lparr>extensions := e\<rparr>\<rparr>" using parse_packet_conn [OF pp] by blast
  note ca = calm_arrival [of E "self s" h "of_nat (length packet)"]
  show thesis
  proof (cases q)
    case None
    then show thesis using assms pp ca e that(2) by (auto simp: process_incoming_def)
  next
    case (Some p)
    let ?h1 = "?h\<lparr>tick := Suc (tick ?h)\<rparr>"
    let ?s1 = "if state (conn s0) = CS_SYN_SENT then set_recv (\<lambda>r. r\<lparr>ack_nr := pp_seq_nr p - 1\<rparr>) s0 else s0"
    let ?s2 = "set_timing (\<lambda>t. t\<lparr>last_got_packet := current_ms ?h1\<rparr>) ?s1"
    have c1: "calm E (self s) h ?h1" by (rule calm_trans [OF ca quiet_calm [OF quiet_tick]])
    have s2: "self ?s2 = self s" "send ?s2 = send s" "cc ?s2 = cc s" "recv ?s2 = at_start p s"
      "state (conn ?s2) = state (conn s)"
      by (simp_all add: e set_recv_def set_timing_def at_start_def)
    show thesis
    proof (cases "invalid_ack p s0")
      case True
      then have "h' = ?h1" "s' = s0"
        using assms pp Some by (simp_all add: process_incoming_def call_get_microseconds_def query_def Let_def)
      then show thesis using c1 e by (intro that(2)) simp_all
    next
      case False
      have eq: "process_incoming E packet syn h s = do {
            c_assert (ndebug (bld E)) (pp_type p \<noteq> ST_RESET);
            if syn then Some (0, ?h1, ?s2)
            else if REORDER_BUFFER_MAX_SIZE \<le> ucast (seq_distance p ?s2)
            then Some (0, if 0x10000 - REORDER_BUFFER_MAX_SIZE \<le> ucast (seq_distance p ?s2) \<and> pp_type p \<noteq> ST_STATE
                             then schedule_ack ?h1 ?s2 else ?h1, ?s2)
            else process_window_packet E p
              (cb_microseconds E (tick ?h)) (seq_distance p ?s2) ?h1 ?s2
          }"
        unfolding process_incoming_def call_get_microseconds_def query_def Let_def pp Some
        using False by (simp add: call_get_microseconds_def query_def Let_def)
      show thesis
      proof (cases "syn \<or> REORDER_BUFFER_MAX_SIZE \<le> ucast (seq_distance p ?s2)")
        case True
        then have r: "s' = ?s2" "h' = ?h1 \<or> h' = schedule_ack ?h1 ?s2"
          using assms unfolding eq by (auto simp: bind_eq_Some_conv split: if_splits)
        have "calm E (self s) ?h1 (schedule_ack ?h1 ?s2)" using calm_schedule_ack [of E ?s2 ?h1] by (simp only: s2)
        then have "calm E (self s) h h'" using r(2) c1 calm_trans by blast
        then show thesis using s2 pp Some r(1) by (intro that(2) [of p s0]) simp_all
      next
        case False
        then have d: "seq_distance p ?s2 < 1024"
          by (simp add: REORDER_BUFFER_MAX_SIZE_def not_le word_less_nat_alt)
        have pw: "process_window_packet E p (cb_microseconds E (tick ?h)) (seq_distance p ?s2) ?h1 ?s2 = Some (r, h', s')"
          using assms False unfolding eq by (auto simp: bind_eq_Some_conv)
        show thesis by (rule that(1) [OF c1 s2(1-3) pp [unfolded Some] s2(4) d _ pw s2(5)]) (use False in simp)
      qed
    qed
  qed
qed

section \<open>The receiving side\<close>

text \<open>The acknowledgement half, seen from the receiving side.\<close>

lemma ack_half_receiver:
  assumes "ack_half E pp time h s = Some (h', s')" and "ring_shape s"
  shows "self s' = self s" and "recv s' = recv s" and "calm E (self s) h h'"
  using postD [OF ack_half_work [OF assms(2)] assms(1)] work_receiver quiet_calm by auto

text \<open>
  C1: reliable, ordered delivery. Let a peer send the payloads \<open>D\<close>, packet \<open>j\<close> numbered \<open>b + j\<close>
  modulo \<open>2^16\<close>, the last one a FIN if the stream ends. Whatever packet of it arrives next, lost
  ones missing, duplicated and reordered at will, a call of \<open>process_incoming\<close> that returns leaves the
  application having read exactly the first \<open>n'\<close> payloads in order (empty ones and those after
  a read shutdown are not handed over), followed by the end of the stream if and only if that is
  all of it, and the reorder ring holds only packets of the stream at their places.
\<close>

theorem incoming_streams:
  assumes "process_incoming E packet False h s = Some (r, h', s')"
    and "host_for E (self s) h" and "ring_shape s" and "state (conn s) \<noteq> CS_SYN_SENT"
    and "stream_inv b D ending n (recv s)" and "reads (self s) h = R @ stream_reads (recv s) D ending n"
    and "\<And>pp s0. parse_packet packet s = Some (Some pp, s0) \<Longrightarrow> pp_type pp \<noteq> ST_STATE \<Longrightarrow>
      \<exists>j. stream_packet b D ending j pp \<and> in_reach n j"
  shows "\<exists>n' \<ge> n. stream_inv b D ending n' (recv s') \<and> self s' = self s \<and> host_for E (self s) h' \<and>
    reads (self s) h' = R @ stream_reads (recv s') D ending n'"
  using assms(1)
proof (cases rule: process_incoming_split)
  case (2 pp s0)
  then have "recv s' = recv s" using assms(4) by (auto simp: at_start_def)
  then show ?thesis using 2(1,2) assms(2,5,6) by (intro exI [of _ n]) (simp add: calm_def)
next
  case (1 h1 s1 pp s0 time)
  let ?d = "seq_distance pp s1"
  have r1: "recv s1 = recv s" using 1(6) assms(4) by (simp add: at_start_def)
  obtain h2 s2 where a: "ack_half E pp time h1 s1 = Some (h2, s2)"
    and d: "s' = s2 \<and> h' = h2 \<or> pp_type pp \<noteq> ST_STATE \<and> deliver_data E pp ?d h2 s2 = Some (r, h', s')"
    using 1(9) unfolding process_window_packet_split by (auto simp: bind_eq_Some_conv split: if_splits)
  have "ring_shape s1" using assms(3) 1(3) by (simp add: ring_shape_def)
  note k = ack_half_receiver [OF a this]
  have s2: "self s2 = self s" "recv s2 = recv s" using k 1(2) r1 by simp_all
  have "calm E (self s) h1 h2" using k(3) 1(2) by simp
  then have c: "calm E (self s) h h2" by (rule calm_trans [OF 1(1)])
  have h2: "host_for E (self s2) h2" "reads (self s2) h2 = R @ stream_reads (recv s2) D ending n"
    "stream_inv b D ending n (recv s2)"
    using c assms(2,5,6) s2 by (simp_all add: calm_def)
  show ?thesis
  proof (cases "s' = s2 \<and> h' = h2")
    case True
    then show ?thesis using h2 s2 by (intro exI [of _ n]) simp
  next
    case False
    then have ty: "pp_type pp \<noteq> ST_STATE" and dd: "deliver_data E pp ?d h2 s2 = Some (r, h', s')" using d by auto
    obtain j where j: "stream_packet b D ending j pp" "in_reach n j" using assms(7) [OF 1(5) ty] by blast
    have "ack_nr (recv s1) = b + of_nat n - 1" using assms(5) r1 by (simp add: stream_inv_def)
    moreover have "pp_seq_nr pp = b + of_nat j" using j(1) by (simp add: stream_packet_def)
    ultimately have "n \<le> j" "unat ?d = j - n"
      using seq_distance_reach [of s1 b n pp j] j(2) 1(7) by auto
    then have p: "stream_packet b D ending (n + unat ?d) pp" using j(1) by simp
    show ?thesis using stream_deliver [OF h2(1,3) p 1(7) h2(2)] dd s2 by (auto simp: kept_def)
  qed
qed

section \<open>The sending side\<close>

lemma sender_ok_cong:
  assumes "send s' = send s"
  shows "cur_window (cc s') = cur_window (cc s) \<Longrightarrow> sender_ok h s' = sender_ok h s"
    and "head_ok s' = head_ok s"
proof -
  have w: "win s' = win s" by (rule win_cong) (simp_all add: assms)
  show "cur_window (cc s') = cur_window (cc s) \<Longrightarrow> sender_ok h s' = sender_ok h s"
    and "head_ok s' = head_ok s"
    by (simp_all only: sender_ok_def win_inv_def head_ok_def w assms)
qed

text \<open>
  What holds of the sender at all times: the accounts are exact, the oldest packet of a window is
  there, and the window has at most 1023 packets and the FIN.
\<close>

definition sender_wf :: "UtpContext \<Rightarrow> UtpSocket \<Rightarrow> bool" where
  "sender_wf h s \<longleftrightarrow> sender_ok h s \<and> head_ok s \<and>
     unat (cur_window_packets (send s)) \<le> (if fin_sent (send s) then 1024 else 1023)"

lemma sender_wf_cong:
  assumes "send s' = send s" and "cur_window (cc s') = cur_window (cc s)"
  shows "sender_wf h s' = sender_wf h s"
  using sender_ok_cong [OF assms(1)] assms by (simp add: sender_wf_def)

lemma sender_wf_mono: "sender_wf h s \<Longrightarrow> age h \<le> age h' \<Longrightarrow> sender_wf h' s"
  using sender_ok_mono by (auto simp: sender_wf_def)

text \<open>An operation on the socket keeps it, as long as the counter of transmissions is exact.\<close>

definition keeps :: "UtpContext \<Rightarrow> UtpSocket \<Rightarrow> UtpContext \<Rightarrow> UtpSocket \<Rightarrow> bool" where
  "keeps h s h' s' \<longleftrightarrow>
     (ring_shape s \<longrightarrow> ring_shape s' \<and> age h \<le> age h') \<and> (sender_wf h s \<and> age h' < 2 ^ 31 \<longrightarrow> sender_wf h' s')"

lemma keeps_refl [simp]: "keeps h s h s"
  by (simp add: keeps_def)

lemma sender_wf_shape: "sender_wf h s \<Longrightarrow> ring_shape s"
  using sender_ok_shape [of h s] by (simp add: sender_wf_def)

lemma keeps_trans:
  assumes "keeps h s h1 s1" and "keeps h1 s1 h' s'" shows "keeps h s h' s'"
proof -
  have r: "ring_shape s \<Longrightarrow> ring_shape s' \<and> age h \<le> age h1 \<and> age h1 \<le> age h'"
    using assms by (simp add: keeps_def)
  moreover have "sender_wf h' s'" if "sender_wf h s" "age h' < 2 ^ 31"
  proof -
    have "age h1 < 2 ^ 31" using r [OF sender_wf_shape [OF that(1)]] that(2) by simp
    then show ?thesis using assms that unfolding keeps_def by blast
  qed
  ultimately show ?thesis unfolding keeps_def by auto
qed

lemma keeps_same:
  assumes "send s' = send s" and "cur_window (cc s') = cur_window (cc s)" and "age h \<le> age h'"
  shows "keeps h s h' s'"
  using assms(3) sender_wf_mono [OF _ assms(3)] sender_wf_cong [OF assms(1,2)] assms(1)
  by (simp add: keeps_def ring_shape_def)

lemma work_count:
  "work E b h s h' s' \<Longrightarrow> fin_sent (send s') = fin_sent (send s) \<and>
   unat (cur_window_packets (send s')) \<le> unat (cur_window_packets (send s))"
proof (induction rule: work.induct)
  case (advance s h)
  then have "unat (cur_window_packets (send s) - 1) = unat (cur_window_packets (send s)) - 1"
    by (intro unat_pred) simp
  then show ?case by (simp add: pop_front_def set_send_def)
qed (auto simp: untouched_def set_out_def drop_at_def set_send_def)

lemma work_keeps_if:
  assumes w: "work E b h s h' s'" and hd: "ring_shape s \<Longrightarrow> head_ok s \<Longrightarrow> head_ok s'"
  shows "keeps h s h' s'"
proof -
  have "sender_wf h' s'" if "sender_wf h s" "age h' < 2 ^ 31"
    using that work_sender_ok [OF w] work_count [OF w] hd sender_ok_shape [of h s]
    unfolding sender_wf_def by (auto split: if_splits)
  then show ?thesis using work_shape [OF w] work_age [OF w] by (simp add: keeps_def)
qed

lemma work_keeps: "work E False h s h' s' \<Longrightarrow> keeps h s h' s'"
  using work_keeps_if work_head_ok by blast

lemma receives_keeps: "receives h s h' s' \<Longrightarrow> keeps h s h' s'"
  by (rule keeps_same) (simp_all add: receives_def)

lemma process_incoming_keeps:
  assumes "process_incoming E packet syn h s = Some (r, h', s')"
  shows "keeps h s h' s'"
  using assms
proof (cases rule: process_incoming_split)
  case (2 pp s0)
  show ?thesis by (rule keeps_same [OF 2(3) _ calm_age [OF 2(1)]]) (simp add: 2(4))
next
  case (1 h1 s1 pp s0 time)
  let ?d = "seq_distance pp s1"
  have k1: "keeps h s h1 s1" by (rule keeps_same [OF 1(3) _ calm_age [OF 1(1)]]) (simp add: 1(4))
  obtain h2 s2 where a: "ack_half E pp time h1 s1 = Some (h2, s2)"
    and d: "s' = s2 \<and> h' = h2 \<or> deliver_data E pp ?d h2 s2 = Some (r, h', s')"
    using 1(9) unfolding process_window_packet_split by (auto simp: bind_eq_Some_conv split: if_splits)
  have k3: "keeps h2 s2 h' s'"
    using d receives_keeps postD [OF deliver_data_receives [of E pp ?d h2 s2], of "(r, h', s')"] by auto
  have "keeps h1 s1 h2 s2"
  proof (cases "ring_shape s1")
    case True
    then show ?thesis using postD [OF ack_half_work [OF True] a] by (auto intro: work_keeps_if)
  next
    case False
    then show ?thesis using sender_wf_shape by (auto simp: keeps_def)
  qed
  then show ?thesis using keeps_trans [OF keeps_trans [OF k1]] k3 by blast
qed

text \<open>
  C6: the bytes in flight are exact. In the congestion controller \<open>cur_window\<close> is, before and after any
  packet of any content, the sum of the payloads of the packets sent and neither acknowledged
  nor given up for lost; the window's packets (at most 1023 and the FIN) lie in consecutive slots whose
  oldest one is present, and each packet's buffer is its header and payload. (A 31-bit counter of
  transmissions limits this to \<open>2^31\<close> events.)
\<close>

theorem incoming_accounts:
  assumes "process_incoming E packet syn h s = Some (r, h', s')"
    and "sender_wf h s" and "age h' < 2 ^ 31"
  shows "sender_wf h' s'"
  using process_incoming_keeps [OF assms(1)] assms(2,3) by (simp add: keeps_def)

end
