(* ===== verification/Delivery_Run.thy ===== *)
theory Delivery_Run
  imports Incoming_Correct "HOL-Library.Sublist"
begin

text \<open>
  Whole runs of the receiving side: the data half of \<open>process_incoming\<close> over a sequence of
  packets, which never fails and, once every packet has come at least once in order, has
  delivered the stream.
\<close>

section \<open>A sequence of packets\<close>

text \<open>
  What \<open>process_incoming\<close> does with the data of a packet: the reorder-window test and, after the
  acknowledgement half, the delivery. Pure acknowledgements carry none.
\<close>

definition data_half :: "env \<Rightarrow> ParsedPacket \<Rightarrow> UtpContext \<Rightarrow> UtpSocket \<Rightarrow> (UtpContext \<times> UtpSocket) option" where
  "data_half E pp h s =
     (if pp_type pp = ST_STATE then Some (h, s)
      else if REORDER_BUFFER_MAX_SIZE \<le> ucast (seq_distance pp s)
      then Some (if 0x10000 - REORDER_BUFFER_MAX_SIZE \<le> ucast (seq_distance pp s) then schedule_ack h s else h, s)
      else map_option snd (deliver_data E pp (seq_distance pp s) h s))"

primrec data_run :: "env \<Rightarrow> ParsedPacket list \<Rightarrow> UtpContext \<Rightarrow> UtpSocket \<Rightarrow> (UtpContext \<times> UtpSocket) option" where
  "data_run E [] h s = Some (h, s)"
| "data_run E (pp # pps) h s = data_half E pp h s \<bind> (\<lambda>(h, s). data_run E pps h s)"

text \<open>It is the second half of every packet in the reorder window, on a connected socket.\<close>

lemma window_packet_halves:
  assumes "ring_shape s" and "seq_distance pp s < 1024"
  shows "map_option snd (process_window_packet E pp time (seq_distance pp s) h s) =
    do {
      (h1, s1) \<leftarrow> ack_half E pp time h s;
      if state (conn s1) \<noteq> CS_CONNECTED \<and> state (conn s1) \<noteq> CS_CONNECTED_FULL then Some (h1, s1)
      else data_half E pp h1 s1
    }"
proof (cases "ack_half E pp time h s")
  case None
  then show ?thesis by (simp add: process_window_packet_split)
next
  case (Some r)
  obtain h1 s1 where r: "r = (h1, s1)" by (cases r)
  have d: "seq_distance pp s1 = seq_distance pp s"
    using ack_half_receiver(2) [OF Some [unfolded r] assms(1)] by (simp add: seq_distance_def)
  have "\<not> REORDER_BUFFER_MAX_SIZE \<le> ucast (seq_distance pp s1)"
    using assms(2) unfolding d by (simp add: REORDER_BUFFER_MAX_SIZE_def word_le_nat_alt word_less_nat_alt not_le)
  then show ?thesis by (simp add: process_window_packet_split Some r data_half_def d)
qed

lemma data_half_streams:
  assumes ok: "host_for E (self s) h" and i: "stream_inv b D ending n (recv s)"
    and p: "stream_packet b D ending j pp" and ty: "pp_type pp \<noteq> ST_STATE" and j: "in_reach n j"
    and rd: "reads (self s) h = R @ stream_reads (recv s) D ending n"
  shows "\<exists>h' s' n'. data_half E pp h s = Some (h', s') \<and> host_for E (self s') h' \<and> kept s s' \<and>
    n \<le> n' \<and> (j = n \<longrightarrow> n < n') \<and> stream_inv b D ending n' (recv s') \<and>
    reads (self s') h' = R @ stream_reads (recv s') D ending n'"
proof -
  let ?d = "seq_distance pp s"
  have a: "ack_nr (recv s) = b + of_nat n - 1" "pp_seq_nr pp = b + of_nat j"
    using i p by (simp_all add: stream_inv_def stream_packet_def)
  note sd = seq_distance_reach [OF a j]
  have lim: "REORDER_BUFFER_MAX_SIZE \<le> ucast ?d \<longleftrightarrow> \<not> ?d < 1024"
    by (simp add: REORDER_BUFFER_MAX_SIZE_def word_le_nat_alt word_less_nat_alt not_less)
  show ?thesis
  proof (cases "?d < 1024")
    case True
    then have d: "n + unat ?d = j" using sd by auto
    obtain c h' s' n' where o: "deliver_data E pp ?d h s = Some (c, h', s')" "host_for E (self s) h'" "kept s s'"
      "n \<le> n'" "?d = 0 \<longrightarrow> n < n'" "stream_inv b D ending n' (recv s')"
      "reads (self s) h' = R @ stream_reads (recv s') D ending n'"
      using stream_deliver [OF ok i p [folded d] True rd] by blast
    have "j = n \<longrightarrow> n < n'"
    proof
      assume "j = n"
      then have "?d = 0" using d by (simp add: unsigned_eq_0_iff)
      then show "n < n'" using o(5) by simp
    qed
    moreover have "data_half E pp h s = Some (h', s')" using True lim o(1) by (simp add: data_half_def ty)
    moreover have "self s' = self s" using o(3) by (simp add: kept_def)
    ultimately show ?thesis using o(2,3,4,6,7) by (intro exI [of _ h'] exI [of _ s'] exI [of _ n'] conjI) simp_all
  next
    case False
    then have "j \<noteq> n" using sd by auto
    moreover have "host_for E (self s) (schedule_ack h s)" "reads (self s) (schedule_ack h s) = reads (self s) h"
      using schedule_ack_total(1,2) [OF ok] by (simp_all add: schedule_ack_def same_host_def)
    moreover have "data_half E pp h s = Some (if 0x10000 - REORDER_BUFFER_MAX_SIZE \<le> ucast ?d then schedule_ack h s else h, s)"
      using False lim by (simp add: data_half_def ty)
    ultimately show ?thesis
      using i ok rd
      by (intro exI [of _ "if 0x10000 - REORDER_BUFFER_MAX_SIZE \<le> ucast ?d then schedule_ack h s else h"]
          exI [of _ s] exI [of _ n] conjI) (simp_all add: kept_def)
  qed
qed

lemma subseq_upt:
  assumes "n \<le> m"
  shows "subseq [m..<L] [n..<L]"
proof (cases "m \<le> L")
  case True
  then have "[n..<L] = [n..<m] @ [m..<L]" using assms upt_add_eq_append [of n m "L - m"] by simp
  then show ?thesis by (simp add: list_emb_append2)
qed simp

text \<open>The packets still missing, in order, are among those that arrive.\<close>

lemma subseq_after:
  assumes "subseq [n..<L] (j # js)" and "n \<le> m" and "j = n \<longrightarrow> n < m"
  shows "subseq [m..<L] js"
proof (cases "j = n \<and> n < L")
  case True
  then have "[n..<L] = n # [Suc n..<L]" by (simp add: upt_conv_Cons)
  then have "subseq [Suc n..<L] js" using assms(1) True by simp
  moreover have "subseq [m..<L] [Suc n..<L]" using assms(3) True by (intro subseq_upt) simp
  ultimately show ?thesis by (rule subseq_order.trans [rotated])
next
  case False
  then have "subseq [n..<L] js"
    using assms(1) by (cases "n < L") (auto simp: upt_conv_Cons)
  then show ?thesis using subseq_upt [OF assms(2)] subseq_order.trans by blast
qed

lemma data_run_streams:
  assumes "length D \<le> 2 ^ 16 - 1024" and "list_all2 (\<lambda>j pp. stream_packet b D ending j pp \<and> pp_type pp \<noteq> ST_STATE) js pps"
    and "host_for E (self s) h" and "stream_inv b D ending n (recv s)"
    and "reads (self s) h = R @ stream_reads (recv s) D ending n"
  shows "\<exists>h' s' n'. data_run E pps h s = Some (h', s') \<and> host_for E (self s') h' \<and> kept s s' \<and> n \<le> n' \<and>
    (subseq [n..<length D] js \<longrightarrow> n' = length D) \<and> stream_inv b D ending n' (recv s') \<and>
    reads (self s') h' = R @ stream_reads (recv s') D ending n'"
  using assms(2-)
proof (induction js pps arbitrary: h s n rule: list_all2_induct)
  case Nil
  then have n: "n \<le> length D" by (simp add: stream_inv_def)
  have "subseq [n..<length D] [] \<longrightarrow> n = length D" using n by (cases "n < length D") (auto simp: upt_conv_Cons)
  then show ?case using Nil by (intro exI [of _ h] exI [of _ s] exI [of _ n] conjI) (simp_all add: kept_def)
next
  case (Cons j js pp pps)
  have "in_reach n j"
    using Cons.hyps(1) Cons.prems(2) assms(1) by (simp add: in_reach_def stream_packet_def stream_inv_def)
  then obtain h1 s1 n1 where s1: "data_half E pp h s = Some (h1, s1)" "host_for E (self s1) h1" "kept s s1"
    "n \<le> n1" "j = n \<longrightarrow> n < n1" "stream_inv b D ending n1 (recv s1)"
    "reads (self s1) h1 = R @ stream_reads (recv s1) D ending n1"
    using data_half_streams [OF Cons.prems(1,2) _ _ _ Cons.prems(3), of j pp] Cons.hyps(1) by blast
  obtain h' s' n' where r: "data_run E pps h1 s1 = Some (h', s')" "host_for E (self s') h'" "kept s1 s'" "n1 \<le> n'"
    "subseq [n1..<length D] js \<longrightarrow> n' = length D" "stream_inv b D ending n' (recv s')"
    "reads (self s') h' = R @ stream_reads (recv s') D ending n'"
    using Cons.IH [OF s1(2,6,7)] by blast
  have "subseq [n..<length D] (j # js) \<longrightarrow> n' = length D"
    using r(5) subseq_after [OF _ s1(4,5), of "length D" js] by blast
  moreover have "kept s s'" using s1(3) r(3) by (simp add: kept_def)
  ultimately show ?case using s1(1,4) r(1,2,4,6,7) by (intro exI [of _ n'] exI conjI) simp_all
qed


end
