(* ===== verification/Write_Steps.thy ===== *)
theory Write_Steps
  imports Incoming_Correct
begin

text \<open>
  Writing. The bytes queued in the send window are the payloads of its packets in order; a
  write appends to them, the transmissions keep them.
\<close>

section \<open>The bytes in the window\<close>

definition payload_of :: "OutgoingPacket option \<Rightarrow> bytes" where
  "payload_of x = (case x of None \<Rightarrow> [] | Some p \<Rightarrow> drop PF_SIZE (opk_data p))"

lemma payload_of_simps [simp]:
  "payload_of None = []" "payload_of (Some p) = drop PF_SIZE (opk_data p)"
  by (simp_all add: payload_of_def)

definition queued :: "UtpSocket \<Rightarrow> bytes" where
  "queued s = concat (map payload_of (win s))"

text \<open>Steps that send what is there.\<close>

definition carries :: "env \<Rightarrow> UtpContext \<Rightarrow> UtpSocket \<Rightarrow> UtpContext \<Rightarrow> UtpSocket \<Rightarrow> bool" where
  "carries E h s h' s' \<longleftrightarrow> work E False h s h' s' \<and> mtu_last (mtu s') = mtu_last (mtu s) \<and>
     fin_sent (send s') = fin_sent (send s) \<and> conn s' = conn s \<and>
     (ring_shape s \<longrightarrow> map payload_of (win s') = map payload_of (win s))"

lemma map_update_same: "f y = f (xs ! i) \<Longrightarrow> map f (xs[i := y]) = map f xs"
  by (rule nth_equalityI) (simp_all, metis nth_list_update_eq nth_list_update_neq)

lemma set_out_other: "fin_sent (send (set_out v p s)) = fin_sent (send s)" "mtu (set_out v p s) = mtu s"
  by (simp_all add: set_out_def set_send_def)

lemma send_packet_carries: "post (send_packet E v h s) (\<lambda>(h', s'). carries E h s h' s')"
proof (rule postI, clarify)
  fix h' s'
  assume r: "send_packet E v h s = Some (h', s')"
  obtain p b t m where p: "out_at v s = Some p" "drop PF_SIZE b = drop PF_SIZE (opk_data p)"
    and m: "mtu_last m = mtu_last (mtu s)"
    and s': "s' = set_out v (inc_transmissions (p\<lparr>opk_need_resend := False, opk_data := b, opk_time_sent := t\<rparr>))
       (s\<lparr>cc := counted p (cc s), mtu := m, timing := (timing s)\<lparr>last_sent_packet := current_ms h\<rparr>\<rparr>)"
    using postD [OF send_packet_post r] by auto
  let ?s = "s\<lparr>cc := counted p (cc s), mtu := m, timing := (timing s)\<lparr>last_sent_packet := current_ms h\<rparr>\<rparr>"
  have w: "work E False h s h' s'" using postD [OF send_packet_work r] by simp
  have "map payload_of (win s') = map payload_of (win s)" if sh: "ring_shape s"
  proof -
    have b0: "sb_wf (outbuf (send s))" using sh by (simp add: ring_shape_def)
    have e: "win ?s = win s" by (rule win_cong) simp_all
    have "win s' = (win s)[pos_of v ?s := Some (inc_transmissions
        (p\<lparr>opk_need_resend := False, opk_data := b, opk_time_sent := t\<rparr>))]"
      unfolding s' using win_set_out(3) [of ?s] b0 by (simp add: e)
    moreover have "pos_of v ?s = pos_of v s" by (simp add: pos_of_def oldest64_def seq64_def window64_def)
    moreover have "win s ! pos_of v s = Some p" using out_at_win [OF b0] p(1) by simp
    ultimately show ?thesis using p(2) by (simp add: map_update_same inc_transmissions_def)
  qed
  then show "carries E h s h' s'" using w by (simp add: carries_def s' set_out_other m)
qed

lemma carries_untouched:
  "untouched s s' \<Longrightarrow> mtu s' = mtu s \<Longrightarrow> fin_sent (send s') = fin_sent (send s) \<Longrightarrow> conn s' = conn s \<Longrightarrow>
   carries E h s h s'"
  by (simp add: carries_def untouched_win work.other)

interpretation transmitting: sender_relation "carries E" E for E
proof unfold_locales
  fix h s n i v h1 s1 h' s'
  show "carries E h s h s" by (simp add: carries_def)
  show "carries E h s h1 s1 \<Longrightarrow> carries E h1 s1 h' s' \<Longrightarrow> carries E h s h' s'"
    using work_shape by (fastforce simp: carries_def intro: work.steps)
  show "carries E h s h (snd (is_full n h s))"
    by (rule carries_untouched [OF is_full_untouched]) (simp_all add: is_full_def set_cc_def)
  show "carries E h s h (set_send (\<lambda>d. d\<lparr>flush_scan_start := i\<rparr>) s)"
    by (rule carries_untouched) (simp_all add: untouched_def set_send_def)
  show "post (send_packet E v h s) (\<lambda>(h', s'). carries E h s h' s')" by (rule send_packet_carries)
qed

section \<open>Filling a packet\<close>

lemma take_iovec_concat:
  "take_iovec n iov = (bs, iov', rest) \<Longrightarrow>
   bs = take n (concat iov) \<and> concat iov' = drop n (concat iov) \<and> rest = n - length (concat iov)"
proof (induction n iov arbitrary: bs iov' rest rule: take_iovec.induct)
  case (2 n v vs)
  show ?case
  proof (cases "n = 0")
    case True
    then show ?thesis using "2.prems" by auto
  next
    case False
    obtain bs1 iov1 rest1 where t: "take_iovec (n - min n (length v)) vs = (bs1, iov1, rest1)"
      using prod_cases3 by blast
    have ih: "bs1 = take (n - length v) (concat vs)" "concat iov1 = drop (n - length v) (concat vs)"
      "rest1 = n - length v - length (concat vs)"
      using "2.IH" [OF False refl t] by (simp_all add: min_def split: if_splits)
    show ?thesis using "2.prems" False t ih by (auto simp: Let_def min_def split: if_splits)
  qed
qed auto


lemma drop_resize:
  assumes "length b = 20 \<or> 20 < length b \<or> b = []" and "length b \<le> n" and "20 \<le> n"
  shows "drop 20 (resize n b) = drop 20 b @ replicate (n - 20 - length (drop 20 b)) 0"
  using assms by (cases "b = []") (auto simp: resize_def)

text \<open>The payload of the packet before it is filled; a new packet has no buffer yet.\<close>

definition room_for :: "nat \<Rightarrow> OutgoingPacket \<Rightarrow> bool" where
  "room_for n p \<longleftrightarrow> (length (opk_data p) = 20 + unat (opk_payload p) \<or> opk_data p = [] \<and> opk_payload p = 0) \<and>
     unat (opk_payload p) + n < 2 ^ 34"

lemma fill_packet_post:
  assumes p: "room_for (unat added) p" and n: "unat added \<le> length (concat iov)"
  shows "post (fill_packet E added flags iov p h s) (\<lambda>(p', iov', h', s'). \<exists>t w b.
    h' = h\<lparr>tick := t\<rparr> \<and> s' = s\<lparr>recv := (recv s)\<lparr>last_rcv_win := w\<rparr>\<rparr> \<and>
    concat iov' = drop (unat added) (concat iov) \<and>
    p' = p\<lparr>opk_payload := opk_payload p + added, opk_length := HEADER_SIZE + (opk_payload p + added), opk_data := b\<rparr> \<and>
    length b = 20 + unat (opk_payload p) + unat added \<and>
    drop PF_SIZE b = drop PF_SIZE (opk_data p) @ take (unat added) (concat iov))"
proof (rule postI, clarify)
  fix p' iov' h' s'
  assume r: "fill_packet E added flags iov p h s = Some (p', iov', h', s')"
  let ?l = "unat (opk_payload p)" and ?a = "unat added" and ?d = "opk_data p"
  have u: "unat (opk_payload p + added) = ?l + ?a" "unat (HEADER_SIZE + opk_payload p) = 20 + ?l"
    "unat (HEADER_SIZE + opk_payload p + added) = 20 + ?l + ?a"
    using p by (simp_all add: room_for_def unat_word_ariths HEADER_SIZE_def PF_SIZE_def)
  let ?b1 = "resize (20 + ?l + ?a) ?d"
  have b1: "length ?b1 = 20 + ?l + ?a" "drop 20 ?b1 = drop 20 ?d @ replicate ?a 0"
    using p drop_resize [of ?d "20 + ?l + ?a"] by (auto simp: room_for_def resize_def)
  have dl: "length (drop 20 ?d) = ?l" using p by (auto simp: room_for_def)
  obtain p1 iov1 w h1 b where
    f: "(if added \<noteq> 0
          then do {
            c_assert (ndebug (bld E)) (flags = ST_DATA);
            let (bs, iovec, needed) = take_iovec ?a iov;
            b \<leftarrow> write_bytes (20 + ?l) bs ?b1;
            c_assert (ndebug (bld E)) (needed = 0);
            Some (p\<lparr>opk_data := b\<rparr>, iovec)
          }
          else Some (p\<lparr>opk_data := ?b1\<rparr>, iov)) = Some (p1, iov1)"
    and w: "get_rcv_window E h s = Some (w, h1)"
    and b: "update_pf (fill_header flags (s\<lparr>recv := (recv s)\<lparr>last_rcv_win := w\<rparr>\<rparr>)) (opk_data p1) = Some b"
    and e: "p' = p1\<lparr>opk_payload := opk_payload p1 + added, opk_length := HEADER_SIZE + (opk_payload p1 + added), opk_data := b\<rparr>"
      "iov' = iov1" "h' = h1" "s' = s\<lparr>recv := (recv s)\<lparr>last_rcv_win := w\<rparr>\<rparr>"
    using r by (cases "added = 0") (auto simp: fill_packet_def u bind_eq_Some_conv set_recv_def Let_def split_def)
  have p1: "\<exists>b. p1 = p\<lparr>opk_data := b\<rparr> \<and> concat iov1 = drop ?a (concat iov) \<and> length b = 20 + ?l + ?a \<and>
      drop 20 b = drop 20 ?d @ take ?a (concat iov)"
  proof (cases "added = 0")
    case True
    then show ?thesis using f b1 by auto
  next
    case False
    obtain bs iov2 rest where t: "take_iovec ?a iov = (bs, iov2, rest)" using prod_cases3 by blast
    note tc = take_iovec_concat [OF t]
    obtain b2 where b2: "write_bytes (20 + ?l) bs ?b1 = Some b2" "p1 = p\<lparr>opk_data := b2\<rparr>" "iov1 = iov2"
      using f False t by (auto simp: bind_eq_Some_conv)
    have len: "length bs = ?a" using tc n by simp
    have "b2 = take (20 + ?l) ?b1 @ bs"
      using b2(1) b1(1) len by (simp add: write_bytes_Some_iff)
    moreover have "take ?l (drop 20 ?b1) = drop 20 ?d" using b1(2) dl by simp
    ultimately have "drop 20 b2 = drop 20 ?d @ bs" using b1(1) by (simp add: take_drop add.commute)
    then show ?thesis using b2 tc write_bytes_length [OF b2(1)] b1(1) by (intro exI [of _ b2]) simp
  qed
  obtain t where "h1 = h\<lparr>tick := t\<rparr>" using postD [OF get_rcv_window_post w] by auto
  then show "\<exists>t w b. h' = h\<lparr>tick := t\<rparr> \<and> s' = s\<lparr>recv := (recv s)\<lparr>last_rcv_win := w\<rparr>\<rparr> \<and>
    concat iov' = drop ?a (concat iov) \<and>
    p' = p\<lparr>opk_payload := opk_payload p + added, opk_length := HEADER_SIZE + (opk_payload p + added), opk_data := b\<rparr> \<and>
    length b = 20 + ?l + ?a \<and> drop PF_SIZE b = drop PF_SIZE ?d @ take ?a (concat iov)"
    using p1 e length_update_pf [OF b] drop_update_pf [OF b]
    by (intro exI [of _ t] exI [of _ w] exI [of _ b]) (auto simp: PF_SIZE_def)
qed


section \<open>Adding a packet\<close>

lemma ucast_succ_mod:
  assumes "m dvd 2 ^ 16"
  shows "unat (ucast (x + 1 :: u16) :: u64) mod m = (unat (ucast x :: u64) + 1) mod m"
proof -
  have "unat (ucast (x + 1) :: u64) = (unat x + 1) mod 2 ^ 16" by (simp add: unat_word_ariths)
  then show ?thesis using assms by (simp add: mod_mod_cancel)
qed

lemma oldest_grown:
  assumes d: "m dvd 2 ^ 16" and n: "unat (cur_window_packets (send s)) < 65535"
    and s': "seq_nr (send s') = seq_nr (send s) + 1" "cur_window_packets (send s') = cur_window_packets (send s) + 1"
  shows "unat (oldest64 s') mod m = unat (oldest64 s) mod m"
proof -
  let ?q = "ucast (seq_nr (send s)) :: u64" and ?n = "ucast (cur_window_packets (send s)) :: u64"
  have d64: "m dvd 2 ^ LENGTH(64)" using dvd_u16_u64 [OF d] by simp
  have w: "window64 s' = window64 s + 1"
  proof (rule word_unat_eq_iff [THEN iffD2])
    show "unat (window64 s') = unat (window64 s + 1)"
      using n by (simp add: window64_def s' unat_word_ariths)
  qed
  have "(unat (oldest64 s') + unat (window64 s')) mod m = unat (seq64 s') mod m"
    using word_diff_mod [OF d64, of "seq64 s'" "window64 s'"] by (simp add: oldest64_def)
  also have "\<dots> = (unat (seq64 s) + 1) mod m" using ucast_succ_mod [OF d] by (simp add: seq64_def s')
  also have "\<dots> = (unat (seq64 s) mod m + 1) mod m" by (simp only: mod_add_left_eq)
  also have "\<dots> = ((unat (oldest64 s) + unat (window64 s)) mod m + 1) mod m"
    using word_diff_mod [OF d64, of "seq64 s" "window64 s"] by (simp only: oldest64_def)
  also have "\<dots> = (unat (oldest64 s) + (unat (window64 s) + 1)) mod m"
    by (simp only: mod_add_left_eq add.assoc)
  also have "\<dots> = (unat (oldest64 s) + unat (window64 s')) mod m"
  proof -
    have "(unat (window64 s) + 1) mod m = unat (window64 s') mod m"
      using d64 by (simp add: w unat_word_ariths mod_mod_cancel)
    then show ?thesis by (metis mod_add_right_eq)
  qed
  finally show ?thesis by (rule mod_cancel_nat)
qed

text \<open>A packet with the next sequence number comes behind the window.\<close>

lemma ring_append:
  assumes sh: "ring_shape s" and n: "unat (cur_window_packets (send s)) < 65535"
    and e: "sb_ensure_size (seq64 s) (window64 s) (outbuf (send s)) = Some b1" and ob: "sb_put nd (seq64 s) p b1 = Some ob"
    and s': "s' = s\<lparr>send := (send s)\<lparr>outbuf := ob, seq_nr := seq_nr (send s) + 1,
                            cur_window_packets := cur_window_packets (send s) + 1\<rparr>\<rparr>"
  shows "sb_wf ob \<and> unat (cur_window_packets (send s)) < sb_slots ob \<and>
    (\<exists>k. sb_slots ob = length (win s) + k \<and>
       win s' = (win s @ replicate k None)[unat (cur_window_packets (send s)) := Some p])"
proof -
  let ?n = "unat (cur_window_packets (send s))"
  have b0: "sb_wf (outbuf (send s))" using sh by (simp add: ring_shape_def)
  have un: "unat (window64 s) = ?n" by (simp add: window64_def)
  have g: "sb_wf b1" "?n < sb_slots b1" "sb_slots (outbuf (send s)) \<le> sb_slots b1"
    "sb_view (oldest64 s) (sb_slots b1) b1 = win s @ replicate (sb_slots b1 - sb_slots (outbuf (send s))) None"
    using ensure_size_view [OF b0, of "window64 s" "seq64 s"] u16_lt [of "cur_window_packets (send s)"] e
    by (auto simp: un oldest64_def win_def)
  let ?s1 = "s\<lparr>send := (send s)\<lparr>outbuf := b1\<rparr>\<rparr>"
  have o1: "oldest64 ?s1 = oldest64 s" by (simp add: oldest64_def seq64_def window64_def)
  have b1: "sb_wf (outbuf (send ?s1))" and ob1: "sb_put nd (seq64 s) p (outbuf (send ?s1)) = Some ob"
    using g(1) ob by simp_all
  note wp = win_put [OF b1 ob1]
  have pos: "pos_of (seq64 s) ?s1 = ?n" unfolding pos_of_def o1 using g(2) by (simp add: oldest64_def un)
  have sl: "sb_slots ob = sb_slots b1" using wp(2) by simp
  have w1: "win ?s1 = win s @ replicate (sb_slots b1 - sb_slots (outbuf (send s))) None"
    using g(4) by (simp add: win_def [of ?s1] o1)
  have "win s' = sb_view (oldest64 s') (sb_slots ob) ob" by (simp add: win_def s')
  also have "\<dots> = sb_view (oldest64 s) (sb_slots ob) ob"
    by (rule view_cong [OF wp(1) oldest_grown [OF slots_dvd16 [OF wp(1)] n]]) (simp_all add: s')
  finally have "win s' = (win s @ replicate (sb_slots b1 - sb_slots (outbuf (send s))) None)[?n := Some p]"
    using wp(3) by (simp only: o1 w1 pos)
  then show ?thesis
    using wp(1) sl g(2,3) by (intro conjI exI [of _ "sb_slots b1 - sb_slots (outbuf (send s))"]) simp_all
qed

lemma enqueue_packet_split:
  assumes "enqueue_packet E p s = Some s'"
  obtains b b1 ob where "length b = length (opk_data p)" and "drop PF_SIZE b = drop PF_SIZE (opk_data p)"
    and "sb_ensure_size (seq64 s) (window64 s) (outbuf (send s)) = Some b1"
    and "sb_put (ndebug (bld E)) (seq64 s) (p\<lparr>opk_data := b\<rparr>) b1 = Some ob"
    and "s' = s\<lparr>send := (send s)\<lparr>outbuf := ob, seq_nr := seq_nr (send s) + 1,
                            cur_window_packets := cur_window_packets (send s) + 1\<rparr>\<rparr>"
proof -
  obtain b b1 ob where u: "update_pf (\<lambda>pf. pf\<lparr>pf_seq_nr := seq_nr (send s)\<rparr>) (opk_data p) = Some b"
    and r: "sb_ensure_size (seq64 s) (window64 s) (outbuf (send s)) = Some b1"
      "sb_put (ndebug (bld E)) (seq64 s) (p\<lparr>opk_data := b\<rparr>) b1 = Some ob"
      "s' = s\<lparr>send := (send s)\<lparr>outbuf := ob, seq_nr := seq_nr (send s) + 1,
                            cur_window_packets := cur_window_packets (send s) + 1\<rparr>\<rparr>"
    using assms by (auto simp: enqueue_packet_def bind_eq_Some_conv set_send_def)
  then show thesis using length_update_pf [OF u] drop_update_pf [OF u] by (intro that) (auto simp: PF_SIZE_def)
qed

end
