(* ===== verification/Write_Correct.thy ===== *)
theory Write_Correct
  imports Write_Steps
begin

text \<open>
  \<open>writev\<close> accepts a prefix of the data and queues exactly that, in order, whatever it
  appends to, packetises and sends.
\<close>

section \<open>The contract of a write\<close>

text \<open>
  The write of the bytes \<open>d\<close> in at most \<open>k\<close> new packets. While it runs the window is sent as
  congestion control allows.
\<close>

definition writes :: "env \<Rightarrow> bytes \<Rightarrow> nat \<Rightarrow> UtpContext \<Rightarrow> UtpSocket \<Rightarrow> UtpContext \<Rightarrow> UtpSocket \<Rightarrow> bool" where
  "writes E d k h s h' s' \<longleftrightarrow>
     self s' = self s \<and> (\<exists>st. conn s' = (conn s)\<lparr>state := st\<rparr>) \<and> (\<exists>w. recv s' = (recv s)\<lparr>last_rcv_win := w\<rparr>) \<and>
     (state (conn s') = CS_SYN_SENT \<longrightarrow> state (conn s) = CS_SYN_SENT) \<and>
     mtu_last (mtu s') = mtu_last (mtu s) \<and> fin_sent (send s') = fin_sent (send s) \<and>
     unat (cur_window_packets (send s')) \<le> unat (cur_window_packets (send s)) + k \<and>
     quiet E (self s) h h' \<and>
     (sender_ok h s \<and> age h' < 2 ^ 31 \<longrightarrow>
        sender_ok h' s' \<and> (head_ok s \<longrightarrow> head_ok s') \<and> queued s' = queued s @ d)"

lemma writes_trans:
  assumes "writes E d k h s h1 s1" and "writes E d' k' h1 s1 h' s'"
  shows "writes E (d @ d') (k + k') h s h' s'"
proof -
  obtain w1 w2 where w: "recv s1 = (recv s)\<lparr>last_rcv_win := w1\<rparr>" "recv s' = (recv s1)\<lparr>last_rcv_win := w2\<rparr>"
    using assms unfolding writes_def by blast
  obtain c1 c2 where c: "conn s1 = (conn s)\<lparr>state := c1\<rparr>" "conn s' = (conn s1)\<lparr>state := c2\<rparr>"
    using assms unfolding writes_def by blast
  have e: "self s1 = self s" "self s' = self s1"
    "mtu_last (mtu s1) = mtu_last (mtu s)" "mtu_last (mtu s') = mtu_last (mtu s1)"
    "fin_sent (send s1) = fin_sent (send s)" "fin_sent (send s') = fin_sent (send s1)"
    using assms unfolding writes_def by blast+
  have q: "quiet E (self s) h h1" "quiet E (self s) h1 h'" using assms unfolding writes_def e(1) by blast+
  have y: "state (conn s1) = CS_SYN_SENT \<longrightarrow> state (conn s) = CS_SYN_SENT" "state (conn s') = CS_SYN_SENT \<longrightarrow> state (conn s1) = CS_SYN_SENT"
    using assms unfolding writes_def by blast+
  have n: "unat (cur_window_packets (send s1)) \<le> unat (cur_window_packets (send s)) + k"
    "unat (cur_window_packets (send s')) \<le> unat (cur_window_packets (send s1)) + k'"
    using assms unfolding writes_def by blast+
  have i1: "sender_ok h s \<Longrightarrow> age h1 < 2 ^ 31 \<Longrightarrow>
      sender_ok h1 s1 \<and> (head_ok s \<longrightarrow> head_ok s1) \<and> queued s1 = queued s @ d"
    and i2: "sender_ok h1 s1 \<Longrightarrow> age h' < 2 ^ 31 \<Longrightarrow>
      sender_ok h' s' \<and> (head_ok s1 \<longrightarrow> head_ok s') \<and> queued s' = queued s1 @ d'"
    using assms unfolding writes_def by blast+
  show ?thesis
    unfolding writes_def
  proof (intro conjI impI)
    show "\<exists>st. conn s' = (conn s)\<lparr>state := st\<rparr>" using c by (intro exI [of _ c2]) simp
    show "\<exists>w. recv s' = (recv s)\<lparr>last_rcv_win := w\<rparr>" using w by (intro exI [of _ w2]) simp
    show "quiet E (self s) h h'" by (rule quiet_trans [OF q])
    assume a: "sender_ok h s \<and> age h' < 2 ^ 31"
    then have "age h1 < 2 ^ 31" using quiet_age [OF q(2)] by simp
    then have 1: "sender_ok h1 s1" "head_ok s \<longrightarrow> head_ok s1" "queued s1 = queued s @ d" using i1 a by blast+
    then have 2: "sender_ok h' s'" "head_ok s1 \<longrightarrow> head_ok s'" "queued s' = queued s1 @ d'" using i2 a by blast+
    show "sender_ok h' s'" by (rule 2)
    show "queued s' = queued s @ (d @ d')" by (simp only: 1 2 append_assoc)
    show "head_ok s \<Longrightarrow> head_ok s'" using 1 2 by blast
  qed (use e n y in simp_all)
qed

lemma carries_writes:
  assumes "carries E h s h' s'" shows "writes E [] 0 h s h' s'"
proof -
  have w: "work E False h s h' s'" using assms by (simp add: carries_def)
  note r = work_receiver [OF w] work_window [OF w]
  have "sender_ok h s \<Longrightarrow> queued s' = queued s"
    using assms sender_ok_shape by (auto simp: carries_def queued_def)
  then show ?thesis
    using assms r work_sender_ok [OF w] work_head_ok [OF w] sender_ok_shape
    by (auto simp: writes_def carries_def intro: exI [of _ "last_rcv_win (recv s)"] exI [of _ "state (conn s)"])
qed

lemma writes_settle:
  assumes "\<And>T. win_inv T s' = win_inv T s" and "head_ok s' = head_ok s" and "win s' = win s"
    and "self s' = self s" and "conn s' = (conn s)\<lparr>state := st\<rparr>" and "recv s' = (recv s)\<lparr>last_rcv_win := w\<rparr>"
    and "st = CS_SYN_SENT \<Longrightarrow> state (conn s) = CS_SYN_SENT" and "mtu s' = mtu s" and "fin_sent (send s') = fin_sent (send s)"
    and "cur_window_packets (send s') = cur_window_packets (send s)"
  shows "writes E [] 0 h s (h\<lparr>tick := t\<rparr>) s'"
  using assms by (auto simp: writes_def sender_ok_def queued_def age_def)

section \<open>One packet\<close>

lemma concat_update_last:
  assumes "m < length xs" and "\<And>i. m < i \<Longrightarrow> i < length xs \<Longrightarrow> f (xs ! i) = []" and "f y = f (xs ! m) @ d"
  shows "concat (map f (xs[m := y])) = concat (map f xs) @ d"
proof -
  have e: "concat (map f (drop (Suc m) xs)) = []"
    using assms(2) by (auto simp: in_set_conv_nth)
  have "concat (map f xs) = concat (map f (take m xs)) @ f (xs ! m)"
    by (subst id_take_nth_drop [OF assms(1)]) (simp add: e del: concat_eq_Nil_conv)
  then show ?thesis
    using assms(1,3) by (simp add: upd_conv_take_nth_drop e del: concat_eq_Nil_conv)
qed

lemma flight_none: "flight (replicate k None) = 0"
  by (induction k) simp_all

lemma slot_writes:
  assumes p: "\<And>T. packet_ok T p" "opk_transmissions p = 0" and i: "sender_ok h s"
    and n: "unat (cur_window_packets (send s)) < 65535"
    and g: "sb_ensure_size (seq64 s) (window64 s) (outbuf (send s)) = Some b1" "sb_put nd (seq64 s) p b1 = Some ob"
    and s': "s' = s\<lparr>send := (send s)\<lparr>outbuf := ob, seq_nr := seq_nr (send s) + 1,
                            cur_window_packets := cur_window_packets (send s) + 1\<rparr>\<rparr>"
  shows "writes E (drop PF_SIZE (opk_data p)) 1 h s h s'"
proof -
  let ?n = "unat (cur_window_packets (send s))"
  obtain k where ob: "sb_wf ob" and sl: "?n < sb_slots ob" "sb_slots ob = length (win s) + k"
    and w: "win s' = (win s @ replicate k None)[?n := Some p]"
    using ring_append [OF sender_ok_shape [OF i] n g s'] by blast
  let ?xs = "win s @ replicate k None"
  have inv: "win_inv (age h) s" using i by (simp add: sender_ok_def)
  have none: "?xs ! j = None" if "?n \<le> j" "j < length ?xs" for j
    using inv that by (auto simp: win_inv_def nth_append)
  have u: "unat (cur_window_packets (send s')) = Suc ?n"
    using n by (simp add: s' unat_word_ariths)
  have nl: "?n < length ?xs" using sl by simp
  have pk: "packet_ok (age h) q" if "Some q \<in> set (win s')" for q
    using that set_update_subset_insert [of ?xs ?n "Some p"] inv p(1) by (auto simp: w win_inv_def split: if_splits)
  have fl: "flight (win s') = flight (win s)"
    unfolding w using flight_update [OF nl, of "Some p"] none [OF le_refl nl] p(2)
    by (simp add: flight_none weight_def)
  have "win_inv (age h) s'"
    unfolding win_inv_def
  proof (intro conjI allI impI)
    show "sb_wf (outbuf (send s'))" using ob by (simp add: s')
    show "unat (cur_window_packets (send s')) \<le> length (win s')" using nl by (simp add: u w)
    fix j assume "j < length (win s')" "unat (cur_window_packets (send s')) \<le> j"
    then show "win s' ! j = None" using none [of j] by (simp add: u w)
  next
    show "cur_window (cc s') = flight (win s')" using fl inv by (simp add: s' win_inv_def)
  qed (rule pk)
  moreover have "head_ok s'" if "head_ok s"
  proof (cases "?n = 0")
    case True
    then show ?thesis using nl by (simp add: head_ok_def w)
  next
    case False
    moreover have "0 < length (win s)" using False inv by (auto simp: win_inv_def)
    ultimately show ?thesis using that by (auto simp: head_ok_def w nth_append)
  qed
  moreover have "queued s' = queued s @ drop PF_SIZE (opk_data p)"
    unfolding queued_def w
    by (subst concat_update_last [OF nl, where d = "drop PF_SIZE (opk_data p)"]) (use none nl in auto)
  ultimately show ?thesis
    using u by (auto simp: writes_def sender_ok_def s' intro: exI [of _ "last_rcv_win (recv s)"] exI [of _ "state (conn s)"])
qed

lemma enqueue_writes:
  assumes p: "\<And>T. packet_ok T p" "opk_transmissions p = 0" and i: "sender_ok h s"
    and n: "unat (cur_window_packets (send s)) < 65535"
  shows "post (enqueue_packet E p s) (\<lambda>s'. writes E (drop PF_SIZE (opk_data p)) 1 h s h s')"
proof (rule postI)
  fix s' assume "enqueue_packet E p s = Some s'"
  then show "writes E (drop PF_SIZE (opk_data p)) 1 h s h s'"
  proof (rule enqueue_packet_split)
    fix b b1 ob
    assume b: "length b = length (opk_data p)" "drop PF_SIZE b = drop PF_SIZE (opk_data p)"
      and g: "sb_ensure_size (seq64 s) (window64 s) (outbuf (send s)) = Some b1"
        "sb_put (ndebug (bld E)) (seq64 s) (p\<lparr>opk_data := b\<rparr>) b1 = Some ob"
        "s' = s\<lparr>send := (send s)\<lparr>outbuf := ob, seq_nr := seq_nr (send s) + 1,
                            cur_window_packets := cur_window_packets (send s) + 1\<rparr>\<rparr>"
    have "packet_ok T (p\<lparr>opk_data := b\<rparr>)" for T using p(1) [of T] b(1) by (simp add: packet_ok_def)
    from slot_writes [OF this _ i n g] show ?thesis using p(2) b(2) by simp
  qed
qed

text \<open>The last packet of the window grows; it has not been sent.\<close>

lemma append_writes:
  assumes a: "out_at (seq64 s - 1) s = Some p" "opk_transmissions p = 0" and i: "sender_ok h s"
    and n: "cur_window_packets (send s) \<noteq> 0"
    and p': "\<And>T. packet_ok T p'" "opk_transmissions p' = 0" "drop PF_SIZE (opk_data p') = drop PF_SIZE (opk_data p) @ d"
  shows "writes E d 0 h s h (set_out (seq64 s - 1) p' s)"
proof -
  let ?n = "unat (cur_window_packets (send s))" and ?s = "set_out (seq64 s - 1) p' s"
  have inv: "win_inv (age h) s" using i by (simp add: sender_ok_def)
  then have b: "sb_wf (outbuf (send s))" and le: "?n \<le> length (win s)" by (simp_all add: win_inv_def)
  have nz: "0 < ?n" using n by (simp add: unat_gt_0)
  have e: "seq64 s - 1 - oldest64 s = window64 s - 1" by (simp add: oldest64_def)
  have "unat (window64 s) = ?n" by (simp add: window64_def)
  then have u: "unat (window64 s - 1) = ?n - 1" using nz by (metis unat_pred unat_0 less_irrefl)
  have pos: "pos_of (seq64 s - 1) s = ?n - 1" unfolding pos_of_def e u using nz le by simp
  note w = win_set_out(3) [OF b, of "seq64 s - 1" p', unfolded pos]
  have at: "win s ! (?n - 1) = Some p" using out_at_win [OF b, of "seq64 s - 1"] a(1) by (simp add: pos)
  have none: "win s ! j = None" if "?n - 1 < j" "j < length (win s)" for j
    using inv that by (simp add: win_inv_def)
  have "win_inv (age h) (set_out (seq64 s - 1) p' (s\<lparr>cc := cc s\<rparr>))"
    by (rule win_inv_set_out [OF inv a(1) p'(1)]) (simp add: weight_def a(2) p'(2))
  then have "sender_ok h ?s" by (simp add: sender_ok_def)
  moreover have "head_ok ?s" if "head_ok s"
    using that nz le unfolding head_ok_def w by (cases "?n - 1 = 0") auto
  moreover have "queued ?s = queued s @ d"
    unfolding queued_def w
    by (rule concat_update_last) (use none at p'(3) nz le in auto)
  ultimately show ?thesis
    by (auto simp: writes_def set_out_other intro: exI [of _ "last_rcv_win (recv s)"] exI [of _ "state (conn s)"])
qed

section \<open>The loops\<close>

lemma writes_window: "writes E [] 0 h s (h\<lparr>tick := t\<rparr>) (s\<lparr>recv := (recv s)\<lparr>last_rcv_win := w\<rparr>\<rparr>)"
proof -
  let ?s = "s\<lparr>recv := (recv s)\<lparr>last_rcv_win := w\<rparr>\<rparr>"
  have "win ?s = win s" by (rule win_cong) simp_all
  then show ?thesis by (intro writes_settle [where st = "state (conn s)"]) (simp_all add: win_inv_def head_ok_def)
qed

text \<open>One step of the loop puts all of the data in a new packet.\<close>

lemma new_packet_writes:
  assumes "unat payload \<le> 2 ^ 32" and "unat payload \<le> length (concat iov)" and i: "sender_ok h s"
    and "unat (cur_window_packets (send s)) < 65535"
  shows "post (do {
      (p, iovec, h, s) \<leftarrow> fill_packet E payload flags iov new_OutgoingPacket h s;
      s \<leftarrow> enqueue_packet E p s;
      Some (payload, iovec, h, s)
    }) (\<lambda>(added, iov', h', s'). added = payload \<and> concat iov' = drop (unat payload) (concat iov) \<and>
      (\<exists>t. h' = h\<lparr>tick := t\<rparr>) \<and> writes E (take (unat payload) (concat iov)) 1 h s h' s')"
proof -
  have "room_for (unat payload) new_OutgoingPacket" using assms(1) by (simp add: room_for_def new_OutgoingPacket_def)
  note fp = fill_packet_post [OF this assms(2), of E flags h s]
  show ?thesis
  proof (rule post_bindI [OF fp], clarify)
    fix iov' t w b
    assume b: "concat iov' = drop (unat payload) (concat iov)"
      "length b = 20 + unat (opk_payload new_OutgoingPacket) + unat payload"
      "drop PF_SIZE b = drop PF_SIZE (opk_data new_OutgoingPacket) @ take (unat payload) (concat iov)"
    let ?s = "s\<lparr>recv := (recv s)\<lparr>last_rcv_win := w\<rparr>\<rparr>" and ?h = "h\<lparr>tick := t\<rparr>"
    let ?p = "new_OutgoingPacket\<lparr>opk_payload := opk_payload new_OutgoingPacket + payload,
      opk_length := HEADER_SIZE + (opk_payload new_OutgoingPacket + payload), opk_data := b\<rparr>"
    have w: "writes E [] 0 h s ?h ?s" by (rule writes_window)
    have i1: "sender_ok ?h ?s"
    proof -
      have "win ?s = win s" by (rule win_cong) simp_all
      then show ?thesis using i by (simp add: sender_ok_def win_inv_def age_def)
    qed
    have p: "packet_ok T ?p" for T
      using b(2) assms(1) by (simp add: packet_ok_def new_OutgoingPacket_def HEADER_SIZE_def PF_SIZE_def unat_word_ariths)
    have d: "drop PF_SIZE (opk_data ?p) = take (unat payload) (concat iov)"
      using b(3) by (simp add: new_OutgoingPacket_def)
    have "post (enqueue_packet E ?p ?s) (\<lambda>s'. writes E (take (unat payload) (concat iov)) 1 ?h ?s ?h s')"
      using enqueue_writes [OF p _ i1, of E] assms(4) unfolding d by (simp add: new_OutgoingPacket_def)
    then show "post (enqueue_packet E ?p ?s \<bind> (\<lambda>s. Some (payload, iov', ?h, s)))
       (\<lambda>(added, iov', h', s'). added = payload \<and> concat iov' = drop (unat payload) (concat iov) \<and>
         (\<exists>t. h' = h\<lparr>tick := t\<rparr>) \<and> writes E (take (unat payload) (concat iov)) 1 h s h' s')"
      by (rule post_bindI) (use writes_trans [OF w] b(1) in \<open>fastforce simp: post_simps\<close>)
  qed
qed


text \<open>The other step appends what fits to the last packet.\<close>

lemma append_packet_writes:
  assumes a: "append_target payload ps s = Some p" and i: "sender_ok h s"
    and l: "unat payload \<le> 2 ^ 32" "unat ps \<le> 2 ^ 32" "unat payload \<le> length (concat iov)"
    and added: "added = min (payload + opk_payload p) (max ps (opk_payload p)) - opk_payload p"
  shows "post (do {
      (p, iovec, h, s) \<leftarrow> fill_packet E added flags iov p h s;
      Some (added, iovec, h, set_out (seq64 s - 1) p s)
    }) (\<lambda>(ad, iov', h', s'). ad = added \<and> unat added \<le> unat payload \<and> concat iov' = drop (unat added) (concat iov) \<and>
      (\<exists>t. h' = h\<lparr>tick := t\<rparr>) \<and> writes E (take (unat added) (concat iov)) 0 h s h' s' \<and>
      (added \<noteq> payload \<longrightarrow> append_target (payload - added) ps s' = None))"
proof -
  have p: "out_at (seq64 s - 1) s = Some p" "payload \<noteq> 0" "opk_transmissions p = 0" "opk_payload p < ps"
    and n: "cur_window_packets (send s) \<noteq> 0"
    using a by (auto simp: append_target_def split: if_splits option.splits)
  have inv: "win_inv (age h) s" using i by (simp add: sender_ok_def)
  have ok: "packet_ok (age h) p" by (rule win_inv_at(2) [OF inv p(1)])
  let ?l = "unat (opk_payload p)"
  have lp: "?l < unat ps" using p(4) by (simp add: word_less_nat_alt)
  have len: "length (opk_data p) = 20 + ?l" using ok lp l(2)
    by (simp add: packet_ok_def HEADER_SIZE_def PF_SIZE_def unat_word_ariths)
  have mx: "max ps (opk_payload p) = ps" using p(4) by (auto simp: max_def)
  have s: "unat (payload + opk_payload p) = unat payload + ?l" using l lp by (simp add: unat_word_ariths)
  have "unat (min (payload + opk_payload p) ps) = min (unat payload + ?l) (unat ps)"
    by (simp add: min_def word_le_nat_alt s)
  then have "unat added = min (unat payload + ?l) (unat ps) - ?l"
    unfolding added mx using lp by (subst unat_sub) (simp_all add: word_le_nat_alt)
  then have ua: "unat added = min (unat payload) (unat ps - ?l)" using lp by linarith
  have "?l + unat added < 2 ^ 64" using ua lp l(2) by simp
  then have sum: "unat (opk_payload p + added) = ?l + unat added" by (simp add: unat_word_ariths)
  then have up: "unat (opk_payload p + added) = min (unat payload + ?l) (unat ps)" using ua lp by linarith
  then have small: "unat (opk_payload p + added) \<le> 2 ^ 32" using l(2) by simp
  have "room_for (unat added) p" using len ua l lp by (simp add: room_for_def)
  moreover have "unat added \<le> length (concat iov)" using ua l(3) by simp
  ultimately have fp: "post (fill_packet E added flags iov p h s) (\<lambda>(p', iov', h', s'). \<exists>t w b.
    h' = h\<lparr>tick := t\<rparr> \<and> s' = s\<lparr>recv := (recv s)\<lparr>last_rcv_win := w\<rparr>\<rparr> \<and>
    concat iov' = drop (unat added) (concat iov) \<and>
    p' = p\<lparr>opk_payload := opk_payload p + added, opk_length := HEADER_SIZE + (opk_payload p + added), opk_data := b\<rparr> \<and>
    length b = 20 + unat (opk_payload p) + unat added \<and>
    drop PF_SIZE b = drop PF_SIZE (opk_data p) @ take (unat added) (concat iov))"
    by (rule fill_packet_post)
  show ?thesis
  proof (rule post_bindI [OF fp], clarify)
    fix iov' t w b
    assume b: "concat iov' = drop (unat added) (concat iov)" "length b = 20 + ?l + unat added"
      "drop PF_SIZE b = drop PF_SIZE (opk_data p) @ take (unat added) (concat iov)"
    let ?s = "s\<lparr>recv := (recv s)\<lparr>last_rcv_win := w\<rparr>\<rparr>" and ?h = "h\<lparr>tick := t\<rparr>"
    let ?p = "p\<lparr>opk_payload := opk_payload p + added, opk_length := HEADER_SIZE + (opk_payload p + added), opk_data := b\<rparr>"
    let ?s' = "set_out (seq64 ?s - 1) ?p ?s"
    have ws: "win ?s = win s" by (rule win_cong) simp_all
    have i1: "sender_ok ?h ?s" using i ws by (simp add: sender_ok_def win_inv_def age_def)
    have "unat (HEADER_SIZE + (opk_payload p + added)) = 20 + unat (opk_payload p + added)"
      using small by (subst unat_word_ariths) (simp add: HEADER_SIZE_def PF_SIZE_def)
    then have pk: "packet_ok T ?p" for T
      using b(2) small p(3) by (simp add: packet_ok_def sum)
    have "writes E (take (unat added) (concat iov)) 0 ?h ?s ?h ?s'"
      using p n b(3) i1 pk by (intro append_writes [where p = p]) (simp_all add: out_at_def seq64_def)
    then have wr: "writes E (take (unat added) (concat iov)) 0 h s ?h ?s'"
      using writes_trans [OF writes_window [of E h s t w]] by fastforce
    have "append_target (payload - added) ps ?s' = None" if ne: "added \<noteq> payload"
    proof -
      have b0: "sb_wf (outbuf (send ?s))" using inv by (simp add: win_inv_def)
      have "out_at (seq64 ?s' - 1) ?s' = Some ?p"
        using out_at_win [of ?s' "seq64 ?s' - 1"] win_set_out [OF b0, of "seq64 ?s - 1" ?p] pos_of_slot(1) [OF b0]
        by (simp add: pos_of_def seq64_def set_out_other)
      moreover have "unat added \<noteq> unat payload" using ne by (simp add: word_unat_eq_iff)
      then have "opk_payload p + added = ps" using up ua by (simp add: word_unat_eq_iff min_def split: if_splits)
      ultimately show ?thesis by (simp add: append_target_def)
    qed
    moreover have le: "unat added \<le> unat payload" using ua by simp
    ultimately show "post (Some (added, iov', ?h, ?s'))
       (\<lambda>(ad, iov', h', s'). ad = added \<and> unat added \<le> unat payload \<and> concat iov' = drop (unat added) (concat iov) \<and>
         (\<exists>t. h' = h\<lparr>tick := t\<rparr>) \<and> writes E (take (unat added) (concat iov)) 0 h s h' s' \<and>
         (added \<noteq> payload \<longrightarrow> append_target (payload - added) ps s' = None))"
      unfolding post_basic(2) prod.case using b(1) wr le by blast
  qed
qed


lemma write_loop_last:
  assumes "append_target payload ps s = None" and "unat payload \<le> 2 ^ 32" and "unat payload \<le> length (concat iov)"
    and "sender_ok h s" and "unat (cur_window_packets (send s)) < 65535"
  shows "post (write_loop E ps payload flags iov h s) (\<lambda>(iov', h', s').
    concat iov' = drop (unat payload) (concat iov) \<and> (\<exists>t. h' = h\<lparr>tick := t\<rparr>) \<and>
    writes E (take (unat payload) (concat iov)) 1 h s h' s')"
proof (rule postI, clarify)
  fix iov' h' s'
  assume "write_loop E ps payload flags iov h s = Some (iov', h', s')"
  then obtain added iov1 h1 s1 where
    n: "do {
      (p, iovec, h, s) \<leftarrow> fill_packet E payload flags iov new_OutgoingPacket h s;
      s \<leftarrow> enqueue_packet E p s;
      Some (payload, iovec, h, s)
    } = Some (added, iov1, h1, s1)"
    and r: "(if payload - added \<noteq> 0 then write_loop E ps (payload - added) flags iov1 h1 s1 else Some (iov1, h1, s1)) =
      Some (iov', h', s')"
    unfolding write_loop.simps [of E ps payload] assms(1) by (auto simp: bind_eq_Some_conv)
  from postD [OF new_packet_writes [OF assms(2-5)] n] r
  show "concat iov' = drop (unat payload) (concat iov) \<and> (\<exists>t. h' = h\<lparr>tick := t\<rparr>) \<and>
    writes E (take (unat payload) (concat iov)) 1 h s h' s'" by simp
qed

lemma write_loop_writes:
  assumes l: "unat payload \<le> 2 ^ 32" "unat payload \<le> length (concat iov)"
    and ps: "payload \<noteq> 0 \<Longrightarrow> unat ps \<le> 2 ^ 32"
    and i: "sender_ok h s" "age h < 2 ^ 31" and n: "unat (cur_window_packets (send s)) < 65535"
  shows "post (write_loop E ps payload flags iov h s) (\<lambda>(iov', h', s').
    concat iov' = drop (unat payload) (concat iov) \<and> (\<exists>t. h' = h\<lparr>tick := t\<rparr>) \<and>
    writes E (take (unat payload) (concat iov)) 1 h s h' s')"
proof (cases "append_target payload ps s")
  case None
  show ?thesis by (rule write_loop_last [OF None l i(1) n])
next
  case (Some p)
  define added where "added = min (payload + opk_payload p) (max ps (opk_payload p)) - opk_payload p"
  show ?thesis
  proof (rule postI, clarify)
    fix iov' h' s'
    assume "write_loop E ps payload flags iov h s = Some (iov', h', s')"
    then obtain ad iov1 h1 s1 where
      a: "do {
        (p, iovec, h, s) \<leftarrow> fill_packet E added flags iov p h s;
        Some (added, iovec, h, set_out (seq64 s - 1) p s)
      } = Some (ad, iov1, h1, s1)"
      and r: "(if payload - ad \<noteq> 0 then write_loop E ps (payload - ad) flags iov1 h1 s1 else Some (iov1, h1, s1)) =
        Some (iov', h', s')"
      unfolding write_loop.simps [of E ps payload] Some option.case Let_def added_def [symmetric]
      by (auto simp: bind_eq_Some_conv)
    have "unat ps \<le> 2 ^ 32" using Some by (intro ps) (simp add: append_target_def split: if_splits option.splits)
    from postD [OF append_packet_writes [OF Some i(1) l(1) this l(2) added_def] a]
    obtain t where s1: "ad = added" "unat added \<le> unat payload" "concat iov1 = drop (unat added) (concat iov)"
      "h1 = h\<lparr>tick := t\<rparr>" "writes E (take (unat added) (concat iov)) 0 h s h1 s1"
      "added \<noteq> payload \<Longrightarrow> append_target (payload - added) ps s1 = None" by auto
    show "concat iov' = drop (unat payload) (concat iov) \<and> (\<exists>t. h' = h\<lparr>tick := t\<rparr>) \<and>
      writes E (take (unat payload) (concat iov)) 1 h s h' s'"
    proof (cases "added = payload")
      case True
      have "writes E [] 1 h1 s1 h1 s1"
        using carries_writes [of E h1 s1 h1 s1] by (auto simp: writes_def carries_def)
      then have "writes E (take (unat payload) (concat iov)) 1 h s h1 s1"
        using writes_trans [OF s1(5)] True by fastforce
      then show ?thesis using r s1 True by auto
    next
      case False
      let ?p = "payload - added"
      have up: "unat ?p = unat payload - unat added" using s1(2) by (simp add: unat_sub word_le_nat_alt)
      have i1: "sender_ok h1 s1" using s1(4,5) i by (simp add: writes_def age_def)
      have "unat (cur_window_packets (send s1)) \<le> unat (cur_window_packets (send s)) + 0" using s1(5) unfolding writes_def by blast
      then have n1: "unat (cur_window_packets (send s1)) < 65535" using n by simp
      have "write_loop E ps ?p flags iov1 h1 s1 = Some (iov', h', s')" using r s1(1) False by (simp split: if_splits)
      moreover have "unat ?p \<le> 2 ^ 32" "unat ?p \<le> length (concat iov1)" using up l s1(3) by simp_all
      ultimately obtain t' where w: "concat iov' = drop (unat ?p) (concat iov1)" "h' = h1\<lparr>tick := t'\<rparr>"
        "writes E (take (unat ?p) (concat iov1)) 1 h1 s1 h' s'"
        using postD [OF write_loop_last [OF s1(6) [OF False] _ _ i1 n1], unfolded prod.case] by blast
      have "take (unat added) (concat iov) @ take (unat ?p) (concat iov1) = take (unat payload) (concat iov)"
        unfolding s1(3) up using s1(2) by (metis le_add_diff_inverse take_add)
      then have "writes E (take (unat payload) (concat iov)) 1 h s h' s'"
        using writes_trans [OF s1(5) w(3)] by simp
      then show ?thesis using w(1,2) s1(2-4) up by auto
    qed
  qed
qed


section \<open>Writing\<close>

text \<open>Time passes in the loops only forward, whatever they work on.\<close>

lemma fill_packet_time: "fill_packet E added flags iov p h s = Some (p', iov', h', s') \<Longrightarrow> age h' = age h"
  using postD [OF get_rcv_window_post] by (auto simp: fill_packet_def bind_eq_Some_conv Let_def age_def dest!: postD [OF get_rcv_window_post])

lemma write_loop_time:
  assumes "write_loop E ps payload flags iov h s = Some r"
  shows "age (fst (snd r)) = age h"
proof (rule write_loop.raw_induct [where P = "\<lambda>E ps payload flags iov h s r. age (fst (snd r)) = age h",
      OF _ assms], goal_cases)
  case (1 f E ps payload flags iov h s r)
  have IH: "age (fst (snd y)) = age h" if "f E ps payload flags iov h s = Some y" for E ps payload flags iov h s y
    using 1(1) that by blast
  have "\<exists>a iov1 h1 s1. age h1 = age h \<and>
    (if payload - a \<noteq> 0 then f E ps (payload - a) flags iov1 h1 s1 else Some (iov1, h1, s1)) = Some r"
  proof (cases "append_target payload ps s")
    case None
    then obtain p iov1 h1 s1 s2 where "fill_packet E payload flags iov new_OutgoingPacket h s = Some (p, iov1, h1, s1)"
      "(if payload - payload \<noteq> 0 then f E ps (payload - payload) flags iov1 h1 s2 else Some (iov1, h1, s2)) = Some r"
      using 1(2) unfolding None option.case Let_def by (auto simp: bind_eq_Some_conv)
    then show ?thesis using fill_packet_time by blast
  next
    case (Some q)
    then obtain ad p iov1 h1 s1 s2 where "fill_packet E ad flags iov q h s = Some (p, iov1, h1, s1)"
      "(if payload - ad \<noteq> 0 then f E ps (payload - ad) flags iov1 h1 s2 else Some (iov1, h1, s2)) = Some r"
      using 1(2) unfolding Some option.case Let_def by (auto simp: bind_eq_Some_conv)
    then show ?thesis using fill_packet_time by blast
  qed
  then obtain a iov1 h1 s1 where h1: "age h1 = age h"
    and r: "(if payload - a \<noteq> 0 then f E ps (payload - a) flags iov1 h1 s1 else Some (iov1, h1, s1)) = Some r" by blast
  show ?case
  proof (cases "payload - a \<noteq> 0")
    case True
    then show ?thesis using IH [of E ps "payload - a" flags iov1 h1 s1 r] r h1 by simp
  next
    case False
    then show ?thesis using r h1 by auto
  qed
qed


lemma flush_writes:
  assumes "flush_packets E h s = Some (full, h', s')" shows "writes E [] 0 h s h' s'"
  using postD [OF transmitting.flush_packets_steps assms] by (simp add: carries_writes)

lemma writes_age: "writes E d k h s h' s' \<Longrightarrow> age h \<le> age h'"
  unfolding writes_def by (blast dest: quiet_age)

definition sane_mtu :: "UtpSocket \<Rightarrow> bool" where
  "sane_mtu s \<longleftrightarrow> HEADER_SIZE \<le> ucast (mtu_last (mtu s))"

lemma sane_packet_size: "sane_mtu s \<Longrightarrow> unat (get_packet_size s) \<le> 2 ^ 32"
proof -
  assume m: "sane_mtu s"
  have l: "unat (mtu_last (mtu s)) < 2 ^ 32" using unsigned_less [of "mtu_last (mtu s)"] by simp
  have u: "unat (ucast (mtu_last (mtu s)) :: u64) = unat (mtu_last (mtu s))"
    by (simp add: unsigned_ucast_eq take_bit_eq_mod mod_less [OF less_trans [OF l]])
  have nz: "mtu_last (mtu s) \<noteq> 0" using m by (auto simp: sane_mtu_def HEADER_SIZE_def PF_SIZE_def word_le_nat_alt)
  have "unat (get_packet_size s) = unat (mtu_last (mtu s)) - unat HEADER_SIZE"
    using m nz by (simp add: get_packet_size_def effective_mtu_def sane_mtu_def unat_sub u)
  then show ?thesis using l by linarith
qed

lemma writes_sane: "writes E d k h s h' s' \<Longrightarrow> sane_mtu s' = sane_mtu s"
  by (simp add: writes_def sane_mtu_def)

lemma write_outgoing_split:
  assumes "write_outgoing_packet E payload flags iov h s = Some (iov', h', s')"
  obtains s1 h2 s2 where "writes E [] 0 h s h s1" "get_packet_size s1 = get_packet_size s"
    "write_loop E (get_packet_size s1) payload flags iov h s1 = Some (iov', h2, s2)" "writes E [] 0 h2 s2 h' s'"
proof -
  obtain s1 h2 s2 full where
    s1: "(if cur_window_packets (send s) = 0
             then do {
               let s = set_cc (set_initial_rto (current_ms h)) s;
               c_assert (ndebug (bld E)) (cur_window (cc s) = 0);
               Some s
             }
             else Some s) = Some s1"
    and r: "write_loop E (get_packet_size s1) payload flags iov h s1 = Some (iov', h2, s2)"
      "flush_packets E h2 s2 = Some (full, h', s')"
    using assms by (auto simp: write_outgoing_packet_def bind_eq_Some_conv)
  have u: "untouched s s1 \<and> mtu s1 = mtu s \<and> fin_sent (send s1) = fin_sent (send s) \<and> conn s1 = conn s"
    using s1 by (auto simp: bind_eq_Some_conv untouched_def set_cc_def set_initial_rto_def Let_def split: if_splits)
  then have "carries E h s h s1" by (blast intro: carries_untouched)
  then have "writes E [] 0 h s h s1" by (rule carries_writes)
  moreover have "get_packet_size s1 = get_packet_size s" using u by (simp add: get_packet_size_def)
  ultimately show thesis using r(1) flush_writes [OF r(2)] by (rule that)
qed

lemma write_outgoing_time:
  assumes "write_outgoing_packet E payload flags iov h s = Some (iov', h', s')" shows "age h \<le> age h'"
proof (rule write_outgoing_split [OF assms])
  fix s1 h2 s2
  assume "write_loop E (get_packet_size s1) payload flags iov h s1 = Some (iov', h2, s2)" "writes E [] 0 h2 s2 h' s'"
  then show ?thesis using write_loop_time writes_age by fastforce
qed

lemma write_outgoing_writes:
  assumes r: "write_outgoing_packet E payload flags iov h s = Some (iov', h', s')"
    and l: "unat payload \<le> 2 ^ 32" "unat payload \<le> length (concat iov)" "payload \<noteq> 0 \<Longrightarrow> sane_mtu s"
    and i: "sender_ok h s" "age h' < 2 ^ 31" and n: "unat (cur_window_packets (send s)) < 65535"
  shows "concat iov' = drop (unat payload) (concat iov)"
    and "writes E (take (unat payload) (concat iov)) 1 h s h' s'"
proof -
  obtain s1 h2 s2 where s: "writes E [] 0 h s h s1" "get_packet_size s1 = get_packet_size s"
    "write_loop E (get_packet_size s1) payload flags iov h s1 = Some (iov', h2, s2)" "writes E [] 0 h2 s2 h' s'"
    by (rule write_outgoing_split [OF r])
  have a: "age h < 2 ^ 31" using write_outgoing_time [OF r] i(2) by simp
  have i1: "sender_ok h s1" using s(1) i(1) a by (simp add: writes_def)
  have n1: "unat (cur_window_packets (send s1)) < 65535" using s(1) n by (auto simp: writes_def)
  have ps: "payload \<noteq> 0 \<Longrightarrow> unat (get_packet_size s1) \<le> 2 ^ 32" using sane_packet_size [OF l(3)] s(2) by simp
  have w: "concat iov' = drop (unat payload) (concat iov)" "writes E (take (unat payload) (concat iov)) 1 h s1 h2 s2"
    using postD [OF write_loop_writes [OF l(1,2) ps i1 a n1] s(3), unfolded prod.case] by blast+
  show "concat iov' = drop (unat payload) (concat iov)" by (rule w(1))
  show "writes E (take (unat payload) (concat iov)) 1 h s h' s'"
    using writes_trans [OF writes_trans [OF s(1) w(2)] s(4)] by simp
qed


section \<open>\<open>writev\<close>\<close>

lemma is_full_writes: "writes E [] 0 h s h (snd (is_full n h s))"
proof (rule carries_writes, rule carries_untouched)
  show "untouched s (snd (is_full n h s))" by (rule is_full_untouched)
qed (simp_all add: is_full_def set_cc_def)

lemma is_full_window: "\<not> fst (is_full n h s) \<Longrightarrow> unat (cur_window_packets (send s)) < 1023"
  by (auto simp: is_full_def OUTGOING_BUFFER_MAX_SIZE_def window64_def word_le_nat_alt split: if_splits)

lemma set_state_writes:
  assumes "c \<noteq> CS_SYN_SENT" shows "writes E [] 0 h s h (set_state c s)"
proof -
  have "win (set_state c s) = win s" by (rule win_cong) (simp_all add: set_defs)
  then show ?thesis
    using assms writes_settle [of "set_state c s" s c "last_rcv_win (recv s)" E h "tick h"]
    by (simp add: win_inv_def head_ok_def set_defs)
qed

lemma writev_loop_time:
  assumes "writev_loop E ps bs n num iov h s = Some r" shows "age h \<le> age (fst (snd r))"
proof (rule writev_loop.raw_induct [where P = "\<lambda>E ps bs n num iov h s r. age h \<le> age (fst (snd r))",
      OF _ assms], goal_cases)
  case (1 f E ps bs n num iov h s r)
  obtain full s1 where f: "is_full (int_of_size num) h s = (full, s1)" by (cases "is_full (int_of_size num) h s")
  show ?case
  proof (cases full)
    case True
    then show ?thesis using 1(2) f by (auto simp: split_def Let_def)
  next
    case False
    then obtain iov1 h1 s2 where w: "write_outgoing_packet E num ST_DATA iov h s1 = Some (iov1, h1, s2)"
      and r: "(if min (bs - num) ps = 0 then Some (n + num, h1, s2)
        else f E ps (bs - num) (n + num) (min (bs - num) ps) iov1 h1 s2) = Some r"
      using 1(2) f by (auto simp: bind_eq_Some_conv Let_def)
    note t = write_outgoing_time [OF w]
    show ?thesis
    proof (cases "min (bs - num) ps = 0")
      case True
      then show ?thesis using r t by auto
    next
      case False
      then have "age h1 \<le> age (fst (snd r))" using r by (intro 1(1)) simp
      then show ?thesis using t by simp
    qed
  qed
qed

text \<open>The bytes that were not written are left; the window has at most 1023 packets after a write.\<close>

lemma writev_loop_writes:
  assumes "writev_loop E ps bs n num iov h s = Some (n', h', s')" and "num = min bs ps" and "unat ps \<le> 2 ^ 32"
    and "unat bs = length (concat iov)" and "unat n + unat bs < 2 ^ 64"
    and "sender_ok h s" and "age h' < 2 ^ 31" and "sane_mtu s"
  shows "\<exists>m k. unat n' = unat n + m \<and> m \<le> unat bs \<and> writes E (take m (concat iov)) k h s h' s' \<and>
    unat (cur_window_packets (send s')) \<le> max 1023 (unat (cur_window_packets (send s)))"
  using assms
proof (induction "unat bs" arbitrary: bs n num iov h s rule: less_induct)
  case less
  obtain full s1 where f: "is_full (int_of_size num) h s = (full, s1)" by (cases "is_full (int_of_size num) h s")
  have w1: "writes E [] 0 h s h s1" using is_full_writes [of E h s "int_of_size num"] by (simp add: f)
  show ?case
  proof (cases full)
    case True
    obtain full2 s2 where f2: "is_full (- 1) h s1 = (full2, s2)" by (cases "is_full (- 1) h s1")
    have e: "n' = n" "h' = h" "s' = (if full2 then set_state CS_CONNECTED_FULL s2 else s2)"
      using less.prems(1) unfolding writev_loop.simps [of E ps bs] f prod.case Let_def f2 using True by auto
    have "writes E [] 0 h s1 h s2" using is_full_writes [of E h s1 "- 1"] by (simp add: f2)
    then have "writes E [] 0 h s h s2" using writes_trans [OF w1] by fastforce
    then have "writes E [] 0 h s h s'" using writes_trans [OF _ set_state_writes [of CS_CONNECTED_FULL]] e(3) by (cases full2) fastforce+
    then show ?thesis using e(1,2) by (intro exI [of _ 0]) (auto simp: writes_def)
  next
    case False
    have n1023: "unat (cur_window_packets (send s)) < 1023"
      using is_full_window [of "int_of_size num" h s] False f by simp
    have c1: "unat (cur_window_packets (send s1)) \<le> unat (cur_window_packets (send s))"
      using w1 unfolding writes_def by simp
    obtain iov1 h1 s2 where w: "write_outgoing_packet E num ST_DATA iov h s1 = Some (iov1, h1, s2)"
      and r: "(if min (bs - num) ps = 0 then Some (n + num, h1, s2)
        else writev_loop E ps (bs - num) (n + num) (min (bs - num) ps) iov1 h1 s2) = Some (n', h', s')"
      using less.prems(1) False f by (subst (asm) writev_loop.simps) (auto simp: bind_eq_Some_conv Let_def)
    have h1: "age h1 \<le> age h'"
      using r writev_loop_time [of E ps "bs - num" "n + num" "min (bs - num) ps" iov1 h1 s2] by (auto split: if_splits)
    have num: "unat num = min (unat bs) (unat ps)" using less.prems(2) by (simp add: min_def word_le_nat_alt)
    have b1: "unat (bs - num) = unat bs - unat num" "unat (n + num) = unat n + unat num"
      using num less.prems(5) by (simp_all add: unat_sub word_le_nat_alt unat_word_ariths)
    have s1: "sender_ok h s1" using w1 less.prems(6,7) h1 write_outgoing_time [OF w] unfolding writes_def by simp
    have sm: "sane_mtu s1" using writes_sane [OF w1] less.prems(8) by simp
    have iv: "concat iov1 = drop (unat num) (concat iov)" and w2: "writes E (take (unat num) (concat iov)) 1 h s1 h1 s2"
      using write_outgoing_writes [OF w _ _ sm s1] num less.prems(3,4,7) h1 c1 n1023 by auto
    have w2: "writes E (take (unat num) (concat iov)) 1 h s h1 s2" using writes_trans [OF w1 w2] by simp
    have c2: "unat (cur_window_packets (send s2)) \<le> 1023" using w2 n1023 unfolding writes_def by simp
    show ?thesis
    proof (cases "min (bs - num) ps = 0")
      case True
      then show ?thesis
        by (rule_tac exI [of _ "unat num"], rule_tac exI [of _ 1]) (use r w2 c2 b1 num in auto)
    next
      case nz: False
      have "num \<noteq> 0" using nz less.prems(2) by (auto simp: min_def split: if_splits)
      then have pos: "unat num \<noteq> 0" "unat num \<le> unat bs" using num unat_gt_0 [of num] by linarith+
      have s2: "sender_ok h1 s2" using w2 less.prems(6,7) h1 unfolding writes_def by simp
      have "\<exists>m k. unat n' = unat (n + num) + m \<and> m \<le> unat (bs - num) \<and> writes E (take m (concat iov1)) k h1 s2 h' s' \<and>
        unat (cur_window_packets (send s')) \<le> max 1023 (unat (cur_window_packets (send s2)))"
        by (rule less.hyps [OF _ _ refl less.prems(3) _ _ s2 less.prems(7)])
          (use r nz b1 pos iv less.prems(4,5) writes_sane [OF w2] less.prems(8) in auto)
      then obtain m k where m: "unat n' = unat n + unat num + m" "m \<le> unat bs - unat num"
        "writes E (take m (concat iov1)) k h1 s2 h' s'" "unat (cur_window_packets (send s')) \<le> 1023"
        using b1 c2 by auto
      have "take (unat num) (concat iov) @ take m (concat iov1) = take (unat num + m) (concat iov)"
        by (simp add: iv take_add)
      then have "writes E (take (unat num + m) (concat iov)) (1 + k) h s h' s'"
        using writes_trans [OF w2 m(3)] by simp
      then show ?thesis
        by (rule_tac exI [of _ "unat num + m"], rule_tac exI [of _ "1 + k"]) (use m(1,2,4) pos(2) in auto)
    qed
  qed
qed

lemma writev_time:
  assumes "writev E iov h s = Some (n, h', s')" shows "age h \<le> age h'"
proof (cases "writable (state (conn s)) \<and> \<not> fin_sent (send s)")
  case True
  then have r: "writev_loop E (get_packet_size s) (of_nat (sum_list (map length (take UTP_IOV_MAX iov)))) 0
      (min (of_nat (sum_list (map length (take UTP_IOV_MAX iov)))) (get_packet_size s)) (take UTP_IOV_MAX iov)
      (refresh_clock E h) s = Some (n, h', s')"
    using assms by (simp add: writev_def Let_def)
  have "age (refresh_clock E h) = age h" by (simp add: refresh_clock_def call_get_milliseconds_def query_def age_def)
  then show ?thesis using writev_loop_time [OF r] by simp
next
  case False
  then show ?thesis using assms by (auto simp: writev_def Let_def split: if_splits)
qed

text \<open>Either nothing happens, or a prefix of the data is written.\<close>

lemma writev_writes:
  assumes "writev E iov h s = Some (n, h', s')" and "sender_ok h s" and "sane_mtu s"
    and "age h' < 2 ^ 31" and "sum_list (map length iov) < 2 ^ 64"
  shows "n = 0 \<and> h' = h \<and> s' = s \<or> \<not> fin_sent (send s) \<and> unat n \<le> length (concat (take UTP_IOV_MAX iov)) \<and>
    (\<exists>k. writes E (take (unat n) (concat (take UTP_IOV_MAX iov))) k (refresh_clock E h) s h' s') \<and>
    unat (cur_window_packets (send s')) \<le> max 1023 (unat (cur_window_packets (send s)))"
proof (cases "writable (state (conn s)) \<and> \<not> fin_sent (send s)")
  case False
  then show ?thesis using assms(1) by (auto simp: writev_def Let_def split: if_splits)
next
  case True
  let ?iov = "take UTP_IOV_MAX iov" and ?h = "refresh_clock E h" and ?ps = "get_packet_size s"
  let ?bs = "of_nat (sum_list (map length ?iov)) :: u64"
  have "sum_list (map length ?iov) \<le> sum_list (map length iov)"
    by (metis append_take_drop_id le_add1 map_append sum_list_append)
  then have bs: "unat ?bs = length (concat ?iov)"
    using assms(5) by (simp add: length_concat unsigned_of_nat take_bit_eq_mod)
  have r: "writev_loop E ?ps ?bs 0 (min ?bs ?ps) ?iov ?h s = Some (n, h', s')"
    using assms(1) True by (simp add: writev_def Let_def)
  have a: "age ?h = age h" by (simp add: refresh_clock_def call_get_milliseconds_def query_def age_def)
  have i: "sender_ok ?h s" using assms(2) by (simp add: sender_ok_def a)
  have "unat (0 :: u64) + unat ?bs < 2 ^ 64" using u64_lt [of ?bs] by simp
  from writev_loop_writes [OF r refl sane_packet_size [OF assms(3)] bs this i assms(4,3)]
  show ?thesis using True bs by auto
qed

text \<open>
  C7: a write accepts a prefix of the data and no more than that gets into the window: after
  \<open>writev\<close> has returned \<open>n\<close>, the payloads queued in the send window are those of before followed by
  the first \<open>n\<close> bytes of the buffers (at most 1024 of them), in order, whatever was appended to
  the last packet, packetised and already sent; the bytes in flight stay exact, and the window
  stays within 1023 packets.
\<close>

theorem writev_queues:
  assumes "writev E iov h s = Some (n, h', s')" and "sender_ok h s" and "head_ok s" and "sane_mtu s"
    and "age h' < 2 ^ 31" and "sum_list (map length iov) < 2 ^ 64"
  shows "unat n \<le> length (concat (take UTP_IOV_MAX iov)) \<and>
    queued s' = queued s @ take (unat n) (concat (take UTP_IOV_MAX iov)) \<and>
    sender_ok h' s' \<and> head_ok s' \<and>
    unat (cur_window_packets (send s')) \<le> max 1023 (unat (cur_window_packets (send s)))"
proof -
  have "sender_ok (refresh_clock E h) s"
    using assms(2) by (simp add: sender_ok_def refresh_clock_def call_get_milliseconds_def query_def age_def)
  then show ?thesis
    using writev_writes [OF assms(1,2,4,5,6)] assms(2,3,5) by (auto simp: writes_def)
qed

end
