(* ===== verification/Sender_Runs.thy ===== *)
theory Sender_Runs
  imports Write_Correct Incoming_Correct Utp_Context
begin

text \<open>
  The whole life of a connection as a step relation: set up by \<open>connect\<close> or by an accepted SYN, then any
  sequence of calls of the application, packets, ICMP messages and timeouts. The invariant of the
  sender holds in every state that is reached.
\<close>

section \<open>Operations that leave the window alone\<close>

definition same_window :: "UtpSocket \<Rightarrow> UtpSocket \<Rightarrow> bool" where
  "same_window s s' \<longleftrightarrow> outbuf (send s') = outbuf (send s) \<and> seq_nr (send s') = seq_nr (send s) \<and>
     cur_window_packets (send s') = cur_window_packets (send s) \<and>
     (fin_sent (send s) \<longrightarrow> fin_sent (send s')) \<and> cur_window (cc s') = cur_window (cc s)"

lemma same_window_refl [simp]: "same_window s s"
  by (simp add: same_window_def)

lemma same_window_trans: "same_window s s1 \<Longrightarrow> same_window s1 s' \<Longrightarrow> same_window s s'"
  by (simp add: same_window_def)

lemma same_window_win: "same_window s s' \<Longrightarrow> win s' = win s"
  by (rule win_cong) (simp_all add: same_window_def)

lemma same_window_keeps: "same_window s s' \<Longrightarrow> age h \<le> age h' \<Longrightarrow> keeps h s h' s'"
proof -
  assume s: "same_window s s'" and a: "age h \<le> age h'"
  note w = same_window_win [OF s]
  have "win_inv (age h) s' = win_inv (age h) s" "head_ok s' = head_ok s" "ring_shape s' = ring_shape s"
    using s by (simp_all add: win_inv_def head_ok_def ring_shape_def w same_window_def)
  then show ?thesis
    using s a win_inv_mono [OF _ a, of s'] by (auto simp: keeps_def sender_wf_def sender_ok_def same_window_def)
qed

lemma send_ack_keeps:
  assumes "send_ack E sy h s = Some (h', s')" shows "keeps h s h' s'"
  using postD [OF send_ack_post assms] by (auto simp: same_window_def intro!: same_window_keeps)

lemma send_keep_alive_keeps:
  assumes "send_keep_alive E h s = Some (h', s')" shows "keeps h s h' s'"
proof -
  let ?s = "set_recv (\<lambda>r. r\<lparr>ack_nr := ack_nr r - 1\<rparr>) s"
  obtain s1 where a: "send_ack E False h ?s = Some (h', s1)" and s': "s' = set_recv (\<lambda>r. r\<lparr>ack_nr := ack_nr r + 1\<rparr>) s1"
    using assms by (auto simp: send_keep_alive_def Let_def bind_eq_Some_conv)
  have "same_window s ?s" "same_window s1 s'" by (simp_all add: s' same_window_def set_recv_def)
  then show ?thesis using keeps_trans keeps_trans [OF _ send_ack_keeps [OF a]] same_window_keeps by blast
qed

lemma read_drained_keeps:
  assumes "read_drained E h s = Some (h', s')" shows "keeps h s h' s'"
proof -
  have w: "keeps h s h1 s" if "get_rcv_window E h s = Some (v, h1)" for v h1
    using postD [OF get_rcv_window_post that] by (simp add: same_window_keeps)
  have "age h1 \<le> age (schedule_ack (refresh_clock E h1) s)" for h1
    using age_schedule_ack [of "refresh_clock E h1" s]
    by (simp add: refresh_clock_def call_get_milliseconds_def query_def age_def)
  then have k: "keeps h1 s (schedule_ack (refresh_clock E h1) s) s" for h1 by (simp add: same_window_keeps)
  obtain h1 where h1: "s' = s \<and> h' = h \<or> keeps h s h1 s \<and>
      (s' = s \<and> h' = h1 \<or> send_ack E False h1 s = Some (h', s') \<or> s' = s \<and> h' = schedule_ack (refresh_clock E h1) s)"
    using assms w by (auto simp: read_drained_def bind_eq_Some_conv split: if_splits)
  then show ?thesis using keeps_trans [OF _ send_ack_keeps] keeps_trans [OF _ k] by auto
qed

lemma on_reset_keeps: "keeps h s (fst (on_reset E n h s)) (snd (on_reset E n h s))"
  by (rule same_window_keeps)
    (simp_all add: on_reset_def Let_def same_window_def set_state_def get_udp_overhead_def call_get_udp_overhead_def
      query_def emit_def age_def)

lemma on_icmp_error_keeps: "keeps h s (fst (on_icmp_error h s)) (snd (on_icmp_error h s))"
  by (rule same_window_keeps) (simp_all add: on_icmp_error_def Let_def same_window_def set_state_def emit_def age_def)

lemma on_icmp_fragmentation_keeps:
  "on_icmp_fragmentation E n h s = Some s' \<Longrightarrow> keeps h s h s'"
  by (rule same_window_keeps) (auto simp: on_icmp_fragmentation_def same_window_def bind_eq_Some_conv)

lemma socket_set_option_keeps: "socket_set_option nd opt v s = Some (r, s') \<Longrightarrow> keeps h s h s'"
  by (rule same_window_keeps)
    (auto simp: socket_set_option_def same_window_def set_defs bind_eq_Some_conv split: utp_option.splits)

section \<open>The timer\<close>

lemma socket_check_timeouts_keeps:
  assumes "socket_check_timeouts E h s = Some (h', s')" shows "keeps h s h' s'"
proof -
  obtain h1 s1 where
    f: "(if state (conn s) \<noteq> CS_DESTROY then do { (full, h, s) \<leftarrow> flush_packets E h s; Some (h, s) } else Some (h, s)) = Some (h1, s1)"
    and r: "(if \<not> timeout_active (state (conn s1)) then Some (h1, s1)
       else do {
         let s = zero_window_probe h1 s1;
         (ended, h, s) \<leftarrow> (if is_rto_expired (current_ms h1) (cc s) then on_rto E h1 s else Some (False, h1, s));
         if ended then Some (h, s)
         else do {
           let (h, s) = leave_full h s;
           if keep_alive_due h s then send_keep_alive E h s else Some (h, s)
         }
       }) = Some (h', s')"
    using assms unfolding socket_check_timeouts_def by (auto simp: bind_eq_Some_conv)
  have k1: "keeps h s h1 s1"
    using f postD [OF acting.flush_packets_steps [of E h s False]]
    by (auto simp: bind_eq_Some_conv split: if_splits intro: work_keeps)
  show ?thesis
  proof (cases "timeout_active (state (conn s1))")
    case False
    then show ?thesis using r k1 by simp
  next
    case True
    let ?s = "zero_window_probe h1 s1"
    have kz: "keeps h1 s1 h1 ?s"
      by (rule same_window_keeps) (simp_all add: zero_window_probe_def same_window_def set_send_def)
    obtain e h2 s2 where
      o: "(if is_rto_expired (current_ms h1) (cc ?s) then on_rto E h1 ?s else Some (False, h1, ?s)) = Some (e, h2, s2)"
      and g: "(if e then Some (h2, s2) else do {
           let (h, s) = leave_full h2 s2;
           if keep_alive_due h s then send_keep_alive E h s else Some (h, s) }) = Some (h', s')"
      using r True by (auto simp: bind_eq_Some_conv Let_def)
    have k2: "keeps h1 ?s h2 s2"
      using o postD [OF on_rto_work [of E h1 ?s False]] by (auto split: if_splits intro: work_keeps)
    have "keeps h2 s2 h' s'"
    proof (cases e)
      case True
      then show ?thesis using g by simp
    next
      case False
      obtain h3 s3 where l: "leave_full h2 s2 = (h3, s3)" by (cases "leave_full h2 s2")
      have k3: "keeps h2 s2 h3 s3" using work_keeps [OF leave_full_work [of E False h2 s2]] by (simp add: l)
      show ?thesis
        using g False l k3 keeps_trans [OF k3 send_keep_alive_keeps] by (auto split: if_splits)
    qed
    then show ?thesis using keeps_trans [OF keeps_trans [OF keeps_trans [OF k1 kz] k2]] by blast
  qed
qed

section \<open>Writing and closing\<close>

lemma refresh_age [simp]: "age (refresh_clock E h) = age h"
  by (simp add: refresh_clock_def call_get_milliseconds_def query_def age_def)

lemma writes_wf:
  assumes "writes E d k h s h' s'" and "sender_wf h s" and "age h' < 2 ^ 31"
    and "unat (cur_window_packets (send s')) \<le> (if fin_sent (send s') then 1024 else 1023)"
  shows "sender_wf h' s'"
  using assms by (simp add: writes_def sender_wf_def)

lemma writev_wf:
  assumes "writev E iov h s = Some (n, h', s')" and "sender_wf h s" and "age h' < 2 ^ 31"
    and "sane_mtu s" and "sum_list (map length iov) < 2 ^ 64"
  shows "sender_wf h' s'"
proof -
  have i: "sender_ok h s" and wf: "sender_wf (refresh_clock E h) s"
    using assms(2) by (simp_all add: sender_wf_def sender_ok_def)
  from writev_writes [OF assms(1) i assms(4,3,5)] show ?thesis
  proof (elim disjE conjE exE)
    fix k
    assume f: "\<not> fin_sent (send s)" and w: "writes E (take (unat n) (concat (take UTP_IOV_MAX iov))) k (refresh_clock E h) s h' s'"
      and c: "unat (cur_window_packets (send s')) \<le> max 1023 (unat (cur_window_packets (send s)))"
    have "fin_sent (send s') = fin_sent (send s)" using w by (simp add: writes_def)
    then show ?thesis
      using c f assms(2) by (intro writes_wf [OF w wf assms(3)]) (simp add: sender_wf_def)
  qed (use assms(2) in simp)
qed

lemma send_fin_time: "send_fin E h s = Some (h', s') \<Longrightarrow> age h \<le> age h'"
  by (auto simp: send_fin_def bind_eq_Some_conv dest: write_outgoing_time)

text \<open>The FIN is one packet more than data may fill the window with.\<close>

lemma send_fin_wf:
  assumes "send_fin E h s = Some (h', s')" and "sender_wf h s" and "age h' < 2 ^ 31" and "\<not> fin_sent (send s)"
  shows "sender_wf h' s'"
proof -
  let ?s = "set_send (\<lambda>d. d\<lparr>fin_sent := True\<rparr>) s"
  obtain iov where w: "write_outgoing_packet E 0 ST_FIN [] h ?s = Some (iov, h', s')"
    using assms(1) by (auto simp: send_fin_def bind_eq_Some_conv)
  have "same_window s ?s" by (simp add: same_window_def set_send_def)
  then have wf: "sender_wf h ?s"
    using same_window_keeps [of s ?s h h] assms(2,3) send_fin_time [OF assms(1)] by (simp add: keeps_def)
  have c: "unat (cur_window_packets (send ?s)) \<le> 1023" using assms(2,4) by (simp add: sender_wf_def set_send_def)
  have i: "sender_ok h ?s" using wf by (simp add: sender_wf_def)
  have "writes E (take (unat (0 :: u64)) (concat [])) 1 h ?s h' s'"
    by (rule write_outgoing_writes(2) [OF w _ _ _ i assms(3)]) (use c in simp_all)
  then show ?thesis
    by (rule writes_wf [OF _ wf assms(3)])
      (use \<open>writes E _ 1 h ?s h' s'\<close> c in \<open>auto simp: writes_def set_send_def\<close>)
qed

lemma keeps_wf: "keeps h s h' s' \<Longrightarrow> sender_wf h s \<Longrightarrow> age h' < 2 ^ 31 \<Longrightarrow> sender_wf h' s'"
  by (simp add: keeps_def)

lemma backoff_keeps: "keeps h s (fst (backoff_rto_for_close E h s)) (snd (backoff_rto_for_close E h s))"
  by (rule same_window_keeps)
    (simp_all add: backoff_rto_for_close_def Let_def split_def same_window_def set_cc_def call_get_milliseconds_def query_def age_def)

lemma set_state_keeps: "keeps h s h (set_state c s)"
  by (rule same_window_keeps) (simp_all add: same_window_def set_state_def)

lemma connected_close_wf:
  assumes "connected_close E h s = Some (h', s')" and "sender_wf h s" and "age h' < 2 ^ 31"
  shows "sender_wf h' s'"
proof -
  let ?s = "request_close (mark_read_shutdown s)"
  have sw: "same_window s ?s" and f: "fin_sent (send ?s) = fin_sent (send s)"
    by (simp_all add: same_window_def request_close_def mark_read_shutdown_def set_send_def set_recv_def)
  have a: "age h \<le> age h'"
    using assms(1) send_fin_time by (auto simp: connected_close_def Let_def split: if_splits)
  then have wf: "sender_wf h ?s" using keeps_wf [OF same_window_keeps [OF sw le_refl] assms(2)] assms(3) by simp
  show ?thesis
  proof (cases "fin_sent (send s)")
    case True
    then have "h' = h" "s' = ?s \<or> s' = set_state CS_DESTROY ?s"
      using assms(1) f by (auto simp: connected_close_def Let_def split: if_splits)
    then show ?thesis using wf keeps_wf [OF set_state_keeps wf] assms(3) by auto
  next
    case False
    then show ?thesis
      using assms(1,3) f by (intro send_fin_wf [OF _ wf]) (simp_all add: connected_close_def Let_def)
  qed
qed

lemma socket_close_wf:
  assumes "socket_close E h s = Some (h', s')" and "sender_wf h s" and "age h' < 2 ^ 31"
  shows "sender_wf h' s'"
proof -
  have c: "state_close E h s = Some (h', s')" using assms(1) by (auto simp: socket_close_def bind_eq_Some_conv)
  show ?thesis
  proof (cases "state (conn s) = CS_CONNECTED \<or> state (conn s) = CS_CONNECTED_FULL")
    case True
    then show ?thesis using c connected_close_wf [OF _ assms(2,3)] by (auto simp: state_close_def)
  next
    case False
    have "keeps h s h' s'"
      using c False keeps_trans [OF backoff_keeps set_state_keeps, of h s E CS_DESTROY] set_state_keeps [of h s CS_DESTROY]
      by (auto simp: state_close_def split_def Let_def split: CONN_STATE.splits)
    then show ?thesis using keeps_wf assms(2,3) by blast
  qed
qed

lemma socket_shutdown_wf:
  assumes "socket_shutdown E how h s = Some (h', s')" and "sender_wf h s" and "age h' < 2 ^ 31"
  shows "sender_wf h' s'"
proof -
  let ?s = "if how \<noteq> SHUT_WR then mark_read_shutdown s else s"
  have sw: "same_window s ?s" by (simp add: same_window_def mark_read_shutdown_def set_recv_def)
  have c: "state_shutdown E how h s = Some (h', s')" using assms(1) by (auto simp: socket_shutdown_def bind_eq_Some_conv)
  show ?thesis
  proof (cases "\<not> fin_sent (send ?s) \<and> send_fin E h ?s = Some (h', s')")
    case True
    have "age h < 2 ^ 31" using send_fin_time True assms(3) by fastforce
    then show ?thesis using send_fin_wf [OF _ keeps_wf [OF same_window_keeps [OF sw le_refl] assms(2)] assms(3)] True by blast
  next
    case False
    have "keeps h ?s h' s'"
      using c False backoff_keeps [of h ?s E]
      by (auto simp: state_shutdown_def Let_def split_def split: CONN_STATE.splits if_splits)
    then have "keeps h s h' s'" using keeps_trans [OF same_window_keeps [OF sw le_refl]] by blast
    then show ?thesis using keeps_wf assms(2,3) by blast
  qed
qed

section \<open>Setting up\<close>

lemma choose_seed_age:
  assumes "choose_seed E a h = Some r" shows "age (snd r) = age h"
proof (rule choose_seed.raw_induct [where P = "\<lambda>E a h r. age (snd r) = age h", OF _ assms], goal_cases)
  case (1 f E a h r)
  have n: "age (snd (call_get_random E h)) = age h" by (simp add: call_get_random_def query_def age_def)
  show ?case using 1(2) 1(1) [of E a "snd (call_get_random E h)" r] n by (auto simp: split_def Let_def split: if_splits)
qed

definition fresh :: "UtpSocket \<Rightarrow> bool" where
  "fresh s \<longleftrightarrow> outbuf (send s) = sb_initialize 16 \<and> cur_window_packets (send s) = 0 \<and> cur_window (cc s) = 0 \<and>
     \<not> fin_sent (send s)"

lemma fresh_new: "fresh (new_UtpSocket n h)"
  by (simp add: fresh_def new_UtpSocket_def new_LedbatController_def)

lemma fresh_window:
  assumes "fresh s" shows "win s = replicate 16 None"
proof (rule nth_equalityI)
  have sl: "sb_slots (sb_initialize 16 :: OutgoingPacket SequenceBuffer) = 16" by (simp add: sb_slots_def sb_initialize_def)
  then show "length (win s) = length (replicate 16 None)" using assms by (simp add: fresh_def)
  fix i assume "i < length (win s)"
  then show "win s ! i = replicate 16 None ! i" using assms by (simp add: win_def sb_view_def sl fresh_def get_initialize)
qed

lemma fresh_wf: "fresh s \<Longrightarrow> sender_wf h s"
proof -
  assume f: "fresh s"
  have "sb_wf (outbuf (send s))" using f wf_initialize by (auto simp: fresh_def sb_wf_def)
  then show ?thesis
    using f fresh_window [OF f]
    by (auto simp: sender_wf_def sender_ok_def win_inv_def head_ok_def fresh_def flight_none)
qed

text \<open>What initialisation changes of the sender: nothing.\<close>

lemma socket_initialize_post:
  "post (socket_initialize E sa n gen seed r sd h s) (\<lambda>(h', s'). send s' = send s \<and>
     cur_window (cc s') = cur_window (cc s) \<and> recv s' = recv s \<and> self s' = self s \<and> age h \<le> age h')"
proof -
  have ch: "age h1 = age h"
    if "(if gen then choose_seed E psaddr h \<bind> (\<lambda>p. Some (fst p, r + fst p, sd + fst p, snd p))
         else Some (seed, r, sd, h)) = Some (a, b, c, h1)" for psaddr a b c h1
    using that choose_seed_age [of E psaddr h] by (auto simp: bind_eq_Some_conv split: if_splits)
  have reg: "age h2 = age h1" if "register_socket t h1 = Some h2" for t h1 h2
    using that by (auto simp: register_socket_def age_def Let_def bind_eq_Some_conv)
  have mtu: "age (snd (get_udp_mtu E h1 t)) = age h1" for h1 t
    by (simp add: get_udp_mtu_def call_get_udp_mtu_def query_def age_def)
  have it: "cur_window c = cur_window b" if "init_timing ms b = Some c" for ms b c
    using that by (auto simp: init_timing_def bind_eq_Some_conv)
  have id: "cur_window (init_delay_histories ms c) = cur_window c" for ms c by (simp add: init_delay_histories_def)
  show ?thesis
    unfolding socket_initialize_def Let_def split_def
    by (simp only: post_basic(2,3), intro postI)
      (auto simp: ch reg mtu it id set_cc_def set_timing_def dest!: it reg ch)
qed

text \<open>The SYN is a packet without payload, the first of the window.\<close>

lemma first_packet_wf:
  assumes "send_packet E v h (set_send (\<lambda>d. d\<lparr>outbuf := ob, seq_nr := seq_nr d + 1,
      cur_window_packets := cur_window_packets d + 1\<rparr>) s) = Some (h', s')"
    and "sb_put nd (seq64 s) pkt b1 = Some ob" and "sb_ensure_size (seq64 s) (window64 s) (outbuf (send s)) = Some b1"
    and "fresh s" and "age h' < 2 ^ 31" and "opk_transmissions pkt = 0" and "\<And>T. packet_ok T pkt"
  shows "sender_wf h' s'"
proof -
  let ?s = "set_send (\<lambda>d. d\<lparr>outbuf := ob, seq_nr := seq_nr d + 1, cur_window_packets := cur_window_packets d + 1\<rparr>) s"
  have wf: "sender_wf h s" by (rule fresh_wf [OF assms(4)])
  have c: "unat (cur_window_packets (send s)) = 0" and nf: "\<not> fin_sent (send s)" using assms(4) by (simp_all add: fresh_def)
  have k: "keeps h ?s h' s'"
    using postD [OF send_packet_work [of E v h ?s False] assms(1)] by (auto intro: work_keeps)
  have w: "writes E (drop PF_SIZE (opk_data pkt)) 1 h s h ?s"
    by (rule slot_writes [OF assms(7,6) _ _ assms(3,2)]) (use wf c in \<open>simp_all add: sender_wf_def set_send_def\<close>)
  have "age h \<le> age h'" using postD [OF send_packet_work [of E v h ?s False] assms(1)] work_age by auto
  then have "sender_wf h ?s"
    by (intro writes_wf [OF w wf]) (use assms(5) c nf in \<open>simp_all add: set_send_def unat_word_ariths\<close>)
  then show ?thesis using keeps_wf [OF k] assms(5) by blast
qed

lemma socket_connect_wf:
  assumes "socket_connect E sa n h s = Some (r, h', s')" and "fresh s" and "age h' < 2 ^ 31"
  shows "sender_wf h' s'"
proof (cases "state (conn s) = CS_UNINITIALIZED")
  case False
  then have "send s' = send s" "cc s' = cc s"
    using assms(1) by (auto simp: socket_connect_def bind_eq_Some_conv set_state_def)
  then show ?thesis using assms(2) fresh_wf [of s'] by (simp add: fresh_def)
next
  case True
  obtain h1 s1 where i: "socket_initialize E sa n True 0 0 1 h s = Some (h1, s1)"
    using assms(1) True by (auto simp: socket_connect_def bind_eq_Some_conv)
  have f1: "send s1 = send s" "cur_window (cc s1) = cur_window (cc s)" using postD [OF socket_initialize_post i] by auto
  have pk: "packet_ok T (new_OutgoingPacket\<lparr>opk_data := encode_pf pf, opk_transmissions := 0,
      opk_length := HEADER_SIZE, opk_payload := 0\<rparr>)" for T pf
    by (simp add: packet_ok_def HEADER_SIZE_def PF_SIZE_def)
  show ?thesis
    using assms(1) i True unfolding socket_connect_def
    by (clarsimp simp: bind_eq_Some_conv Let_def split_def)
      (rule first_packet_wf, assumption, assumption, assumption,
        use assms(2,3) f1 pk in \<open>simp_all add: fresh_def set_defs\<close>)
qed

text \<open>A socket made for a SYN has sent nothing but its acknowledgement.\<close>

lemma answer_syn_wf:
  assumes "answer_syn E sa n cid sq packet h s = Some (h', s')" and "fresh s" and "age h' < 2 ^ 31"
  shows "sender_wf h' s'"
proof -
  obtain h1 s1 r h2 s2 h3 where
    i: "socket_initialize E sa n False cid (cid + 1) cid h s = Some (h1, s1)"
    and p: "process_incoming E packet True (fst (accept_syn E sq h1 s1)) (snd (accept_syn E sq h1 s1)) = Some (r, h2, s2)"
    and a: "send_ack E True h2 s2 = Some (h3, s')" and h': "age h3 \<le> age h'"
    using assms(1)
    by (auto simp: answer_syn_def bind_eq_Some_conv Let_def split_def recv_overhead_def get_udp_overhead_def get_overhead_def
        call_get_udp_overhead_def query_def emit_def age_def)
  have "fresh (snd (accept_syn E sq h1 s1))"
    using postD [OF socket_initialize_post i] assms(2)
    by (auto simp: accept_syn_def Let_def split_def fresh_def set_defs)
  then have wf: "sender_wf (fst (accept_syn E sq h1 s1)) (snd (accept_syn E sq h1 s1))" by (rule fresh_wf)
  have "keeps (fst (accept_syn E sq h1 s1)) (snd (accept_syn E sq h1 s1)) h3 s'"
    by (rule keeps_trans [OF process_incoming_keeps [OF p] send_ack_keeps [OF a]])
  then have "sender_wf h3 s'" using keeps_wf wf h' assms(3) by simp
  then show ?thesis by (rule sender_wf_mono [OF _ h'])
qed

section \<open>The life of a connection\<close>

text \<open>
  One call that works on the socket: of the application, of the network or of the timer. In between, other
  sockets work with the context (\<open>elsewhere\<close>). What is written is at most what a memory holds, and
  the MTU leaves room for a header.
\<close>

inductive socket_step :: "env \<Rightarrow> UtpContext \<Rightarrow> UtpSocket \<Rightarrow> UtpContext \<Rightarrow> UtpSocket \<Rightarrow> bool" for E where
  packet: "process_incoming E p False h s = Some (r, h', s') \<Longrightarrow> socket_step E h s h' s'"
| timeout: "socket_check_timeouts E h s = Some (h', s') \<Longrightarrow> socket_step E h s h' s'"
| deferred_ack: "send_ack E False h s = Some (h', s') \<Longrightarrow> socket_step E h s h' s'"
| writing: "writev E iov h s = Some (n, h', s') \<Longrightarrow> sane_mtu s \<Longrightarrow> sum_list (map length iov) < 2 ^ 64 \<Longrightarrow>
    socket_step E h s h' s'"
| drained: "read_drained E h s = Some (h', s') \<Longrightarrow> socket_step E h s h' s'"
| close: "socket_close E h s = Some (h', s') \<Longrightarrow> socket_step E h s h' s'"
| shutdown: "socket_shutdown E how h s = Some (h', s') \<Longrightarrow> socket_step E h s h' s'"
| reset: "on_reset E n h s = (h', s') \<Longrightarrow> socket_step E h s h' s'"
| icmp_error: "on_icmp_error h s = (h', s') \<Longrightarrow> socket_step E h s h' s'"
| icmp_fragmentation: "on_icmp_fragmentation E m h s = Some s' \<Longrightarrow> socket_step E h s h s'"
| option: "socket_set_option (ndebug (bld E)) opt v s = Some (r, s') \<Longrightarrow> socket_step E h s h s'"
| elsewhere: "age h \<le> age h' \<Longrightarrow> socket_step E h s h' s"

text \<open>
  The states a connection reaches, from a new socket that connects or answers a SYN, within the first \<open>2^31\<close> events.
\<close>

inductive connection :: "env \<Rightarrow> UtpContext \<Rightarrow> UtpSocket \<Rightarrow> bool" for E where
  connects: "socket_connect E sa n h (new_UtpSocket m h0) = Some (r, h', s') \<Longrightarrow> age h' < 2 ^ 31 \<Longrightarrow> connection E h' s'"
| accepts: "answer_syn E sa n cid sq p h (new_UtpSocket m h0) = Some (h', s') \<Longrightarrow> age h' < 2 ^ 31 \<Longrightarrow> connection E h' s'"
| steps: "connection E h s \<Longrightarrow> socket_step E h s h' s' \<Longrightarrow> age h' < 2 ^ 31 \<Longrightarrow> connection E h' s'"

lemma socket_step_wf: "socket_step E h s h' s' \<Longrightarrow> sender_wf h s \<Longrightarrow> age h' < 2 ^ 31 \<Longrightarrow> sender_wf h' s'"
proof (induction rule: socket_step.induct)
  case (packet p h s r h' s')
  then show ?case using keeps_wf [OF process_incoming_keeps] by blast
next
  case (timeout h s h' s')
  then show ?case using keeps_wf [OF socket_check_timeouts_keeps] by blast
next
  case (deferred_ack h s h' s')
  then show ?case using keeps_wf [OF send_ack_keeps] by blast
next
  case (drained h s h' s')
  then show ?case using keeps_wf [OF read_drained_keeps] by blast
next
  case (reset n h s h' s')
  then show ?case using keeps_wf [OF on_reset_keeps [of h s E n]] by simp
next
  case (icmp_error h s h' s')
  then show ?case using keeps_wf [OF on_icmp_error_keeps [of h s]] by simp
next
  case (icmp_fragmentation m h s s')
  then show ?case using keeps_wf [OF on_icmp_fragmentation_keeps] by blast
next
  case (option opt v s r s' h)
  then show ?case using keeps_wf [OF socket_set_option_keeps] by blast
next
  case (writing iov h s n h' s')
  show ?case by (rule writev_wf [OF writing.hyps(1) writing.prems writing.hyps(2,3)])
next
  case (close h s h' s')
  then show ?case by (rule socket_close_wf)
next
  case (shutdown how h s h' s')
  then show ?case by (rule socket_shutdown_wf)
next
  case (elsewhere h h' s)
  then show ?case using sender_wf_mono by blast
qed

lemma connection_wf: "connection E h s \<Longrightarrow> sender_wf h s \<and> age h < 2 ^ 31"
proof (induction rule: connection.induct)
  case (connects sa n h m h0 r h' s')
  then show ?case using socket_connect_wf [OF connects(1) fresh_new] by simp
next
  case (accepts sa n cid sq p h m h0 h' s')
  then show ?case using answer_syn_wf [OF accepts(1) fresh_new] by simp
next
  case (steps h s h' s')
  then show ?case using socket_step_wf by blast
qed

section \<open>The self-check\<close>

lemma outstanding_flight:
  assumes b: "sb_wf (outbuf (send s))" and N: "unat (cur_window_packets (send s)) \<le> length (win s)"
    and n: "n \<le> unat (cur_window_packets (send s))"
  shows "outstanding_bytes n s = flight (take n (drop (unat (cur_window_packets (send s)) - n) (win s)))"
  using n
proof (induction n)
  case (Suc n)
  let ?N = "unat (cur_window_packets (send s))" and ?v = "seq64 s - of_nat n - 1"
  have e: "?v - oldest64 s = window64 s - of_nat (Suc n)" by (simp add: oldest64_def)
  have w: "unat (window64 s) = ?N" by (simp add: window64_def)
  have l: "?N < 2 ^ 64" by (rule less_trans [OF u16_lt]) simp
  have "unat (of_nat (Suc n) :: u64) = Suc n"
    using Suc.prems l by (simp add: unsigned_of_nat take_bit_eq_mod del: of_nat_Suc)
  then have "unat (window64 s - of_nat (Suc n)) = ?N - Suc n"
    using Suc.prems w by (simp add: unat_sub word_le_nat_alt del: of_nat_Suc)
  then have p: "pos_of ?v s = ?N - Suc n" using Suc.prems N by (simp add: pos_of_def e)
  have i: "?N - Suc n < length (win s)" and j: "Suc (?N - Suc n) = ?N - n" using Suc.prems N by simp_all
  have d: "drop (?N - Suc n) (win s) = win s ! (?N - Suc n) # drop (?N - n) (win s)"
    using Cons_nth_drop_Suc [OF i] by (simp only: j)
  have o: "outstanding_bytes (Suc n) s = slot_weight (win s ! (?N - Suc n)) + outstanding_bytes n s"
    using out_at_win [OF b, of ?v] by (simp add: p slot_weight_def weight_def split: option.split)
  show ?case unfolding o d take_Suc_Cons flight_simps using Suc by simp
qed simp

lemma outstanding_bytes_exact:
  assumes "win_inv T s" shows "outstanding_bytes (unat (cur_window_packets (send s))) s = cur_window (cc s)"
proof -
  let ?N = "unat (cur_window_packets (send s))"
  have i: "sb_wf (outbuf (send s))" "?N \<le> length (win s)" "cur_window (cc s) = flight (win s)"
    "\<And>j. j < length (win s) \<Longrightarrow> ?N \<le> j \<Longrightarrow> win s ! j = None" using assms by (auto simp: win_inv_def)
  have "drop ?N (win s) = replicate (length (win s) - ?N) None"
    by (rule nth_equalityI) (use i(4) in auto)
  then have "flight (win s) = flight (take ?N (win s))"
    by (metis append_take_drop_id flight_simps(3) flight_none add.right_neutral)
  then show ?thesis using outstanding_flight [OF i(1,2) le_refl] i(3) by simp
qed

end
