(* ===== verification/Receive_Robust.thy ===== *)
theory Receive_Robust
  imports Incoming_Correct
begin

text \<open>
  The receiving side against any peer: packets with any sequence numbers and FINs anywhere. The
  invariant is the one of \<open>Receive_Correct\<close> until the end of the stream has been announced; from
  then on only the shape of the ring is kept, and data is still taken.
\<close>

definition recv_wf :: "ReceiveState \<Rightarrow> bool" where
  "recv_wf r \<longleftrightarrow> sb_wf (inbuf r) \<and> (got_fin_reached r \<or> recv_ok r)"

text \<open>What remains of the socket.\<close>

definition same_owner :: "UtpSocket \<Rightarrow> UtpSocket \<Rightarrow> bool" where
  "same_owner s s' \<longleftrightarrow> self s' = self s \<and> conn s' = conn s \<and>
     (got_fin_reached (recv s) \<longrightarrow> got_fin_reached (recv s'))"

lemma same_owner_refl [simp]: "same_owner s s"
  by (simp add: same_owner_def)

lemma same_owner_trans: "same_owner s s1 \<Longrightarrow> same_owner s1 s' \<Longrightarrow> same_owner s s'"
  by (simp add: same_owner_def)

text \<open>
  The outcome of a delivery: with a consistent context it returns and keeps the context consistent; whenever
  it returns the receiver is well formed.
\<close>

definition delivers :: "env \<Rightarrow> UtpContext \<Rightarrow> UtpSocket \<Rightarrow> (UtpContext \<times> UtpSocket) option \<Rightarrow> bool" where
  "delivers E h s m \<longleftrightarrow> (host_for E (self s) h \<longrightarrow> (\<exists>h' s'. m = Some (h', s') \<and> host_for E (self s) h')) \<and>
     post m (\<lambda>(h', s'). same_owner s s' \<and> recv_wf (recv s'))"

lemma deliversI: "(host_for E (self s) h \<Longrightarrow> host_for E (self s) h') \<Longrightarrow> same_owner s s' \<Longrightarrow> recv_wf (recv s') \<Longrightarrow>
    delivers E h s (Some (h', s'))"
  by (simp add: delivers_def post_simps)

lemma delivers_from:
  assumes "delivers E h1 s1 m" and "same_owner s s1" and "host_for E (self s) h \<Longrightarrow> host_for E (self s) h1"
  shows "delivers E h s m"
proof -
  have e: "self s1 = self s" using assms(2) by (simp add: same_owner_def)
  have "post m (\<lambda>(h', s'). same_owner s s' \<and> recv_wf (recv s'))"
    by (rule post_mono [of m "\<lambda>(h', s'). same_owner s1 s' \<and> recv_wf (recv s')"])
      (use assms(1) same_owner_trans [OF assms(2)] in \<open>auto simp: delivers_def\<close>)
  then show ?thesis using assms(1,3) by (simp add: delivers_def e)
qed

section \<open>The loop of a delivery\<close>

lemma post_eof_delivers:
  assumes b: "sb_wf (inbuf (recv s))" and e: "at_eof (recv s)"
  shows "delivers E h s (post_eof E h s)" and "post (post_eof E h s) (\<lambda>(h', s'). reorder_count (recv s') = 0)"
proof -
  let ?s = "set_cc (\<lambda>c. c\<lparr>rto_timeout := current_ms h + ucast (min (rto c * 3) 60)\<rparr>)
     (set_recv (\<lambda>r. r\<lparr>got_fin_reached := True\<rparr>) s)"
  let ?h = "emit (Ev_on_state_change (self s) UTP_STATE_EOF) h"
  have eq: "post_eof E h s = do { (h, s) \<leftarrow> send_ack E False ?h ?s; Some (h, set_recv (\<lambda>r. r\<lparr>reorder_count := 0\<rparr>) s) }"
    using e by (simp add: post_eof_def Let_def) (simp add: set_defs)
  have "\<exists>h' s'. post_eof E h s = Some (h', s') \<and> host_for E (self s) h'" if ok: "host_for E (self s) h"
  proof -
    have ok1: "host_for E (self s) ?h" using ok by simp
    have ok2: "host_ok E ?h" using ok1 unfolding host_for_def by (rule conjunct1)
    obtain h' s' win v ty b where sa: "send_ack E False ?h ?s = Some (h', s')"
      "host_ok E h'" "ack_pending h' = ack_pending ?h - {self ?s}"
      by (rule send_ack_total [OF ok2, of ?s False]) (simp add: set_defs)
    then show ?thesis using host_for_minus [OF ok1 sa(2)] by (simp add: eq set_defs)
  qed
  moreover have "post (post_eof E h s) (\<lambda>(h', s'). (same_owner s s' \<and> recv_wf (recv s')) \<and> reorder_count (recv s') = 0)"
    unfolding eq
    by (rule post_bindI [OF send_ack_post]) (use b in \<open>auto simp: post_simps set_defs same_owner_def recv_wf_def\<close>)
  ultimately show "delivers E h s (post_eof E h s)" "post (post_eof E h s) (\<lambda>(h', s'). reorder_count (recv s') = 0)"
    by (auto simp: delivers_def post_def)
qed

definition counted_ok :: "ReceiveState \<Rightarrow> bool" where
  "counted_ok r \<longleftrightarrow> sb_wf (inbuf r) \<and> (got_fin_reached r \<or> unat (reorder_count r) = held (waiting r) \<and> last (waiting r) = None)"

lemma deliver_loop_any: "counted_ok (recv s) \<Longrightarrow> delivers E h s (deliver_loop E h s)"
proof (induction "unat (reorder_count (recv s))" arbitrary: h s rule: less_induct)
  case less
  let ?w = "waiting (recv s)"
  have b: "sb_wf (inbuf (recv s))" using less.prems by (simp add: counted_ok_def)
  show ?case
  proof (cases "at_eof (recv s)")
    case True
    have "deliver_loop E h s = post_eof E h s"
      using post_eof_delivers(2) [OF b True, of E h]
      by (subst deliver_loop.simps) (auto simp: post_def split: option.split)
    then show ?thesis using post_eof_delivers(1) [OF b True] by simp
  next
    case na: False
    then have pe: "post_eof E h s = Some (h, s)" by (simp add: post_eof_def)
    have pos: "0 < length ?w" using slots_pos [OF b] by simp
    show ?thesis
    proof (cases "reorder_count (recv s) = 0")
      case True
      have "?w ! 0 = None \<and> last ?w = None" if "unat (reorder_count (recv s)) = held ?w"
      proof -
        have "held ?w = 0" using that True by simp
        moreover have "?w ! 0 \<in> set ?w" by (rule nth_mem [OF pos])
        moreover have "last ?w \<in> set ?w" by (rule last_in_set) (use pos in \<open>simp only: length_greater_0_conv not_False_eq_True\<close>)
        ultimately show ?thesis by (simp add: held_0)
      qed
      then have "recv_wf (recv s)" using less.prems by (auto simp: recv_wf_def counted_ok_def recv_ok_def)
      moreover have "deliver_loop E h s = Some (h, s)" using pe True by (subst deliver_loop.simps) simp
      ultimately show ?thesis by (simp add: deliversI)
    next
      case cnt: False
      obtain x xs where w: "?w = x # xs" using pos by (cases ?w) auto
      obtain b' where tk: "take_reordered s = (x, set_recv (\<lambda>r. r\<lparr>inbuf := b'\<rparr>) s)" and wf: "sb_wf b'"
        and sl: "sb_slots b' = sb_slots (inbuf (recv s))"
        and vw: "sb_view (ucast (ack_nr (recv s)) + 1) (sb_slots b') b' = None # xs"
        by (rule take_reordered_waiting [OF b]) (simp add: w)
      let ?s2 = "set_recv (\<lambda>r. r\<lparr>inbuf := b'\<rparr>) s"
      show ?thesis
      proof (cases x)
        case None
        have "deliver_loop E h s = Some (h, ?s2)" using pe cnt tk None by (subst deliver_loop.simps) simp
        moreover have "waiting (recv ?s2) = ?w" using vw w None by (simp add: set_recv_def waiting_def)
        moreover have "?w ! 0 = None" using w None by simp
        ultimately show ?thesis
          using less.prems wf
          by (simp only:, intro deliversI) (auto simp: recv_wf_def counted_ok_def recv_ok_def set_recv_def same_owner_def)
      next
        case (Some q)
        let ?s3 = "set_recv (\<lambda>r. r\<lparr>ack_nr := ack_nr r + 1, reorder_count := reorder_count r - 1\<rparr>) ?s2"
        let ?h3 = "give_data (ipk_bytes q) h ?s2"
        have st: "deliver_loop E h s = deliver_loop E ?h3 ?s3"
          using pe cnt tk Some by (subst deliver_loop.simps) simp
        have "waiting ((recv s)\<lparr>ack_nr := ack_nr (recv s) + 1, inbuf := b'\<rparr>) = xs @ [None]"
          using waiting_advance [OF wf vw] by simp
        then have w3: "waiting (recv ?s3) = xs @ [None]" by (simp add: set_recv_def waiting_def)
        have "unat (reorder_count (recv s) - 1) < unat (reorder_count (recv s))" by (rule unat_dec [OF cnt])
        then have lt: "unat (reorder_count (recv ?s3)) < unat (reorder_count (recv s))" by (simp add: set_recv_def)
        have c3: "counted_ok (recv ?s3)"
          using less.prems unat_pred [OF cnt] w Some wf unfolding counted_ok_def w3 by (auto simp: set_recv_def)
        show ?thesis
          unfolding st by (rule delivers_from [OF less.hyps [OF lt c3]]) (simp_all add: set_recv_def same_owner_def give_data_host)
      qed
    qed
  qed
qed

section \<open>A data packet\<close>

lemma deliver_in_order_any:
  assumes r: "recv_wf (recv s)" shows "delivers E h s (deliver_in_order E pp h s)"
proof -
  let ?r = "recv s" and ?w = "waiting (recv s)"
  let ?h1 = "give_data (pp_data pp) h s" and ?s1 = "set_recv (\<lambda>r. r\<lparr>ack_nr := ack_nr r + 1\<rparr>) s"
  have b: "sb_wf (inbuf ?r)" using r by (simp add: recv_wf_def)
  have "waiting (?r\<lparr>ack_nr := ack_nr ?r + 1, inbuf := inbuf ?r\<rparr>) = tl ?w @ [hd ?w]"
    by (rule waiting_advance [OF b]) (simp add: waiting_def)
  then have w1: "waiting (recv ?s1) = tl ?w @ [hd ?w]" by (simp add: set_recv_def)
  have "0 < length ?w" using slots_pos [OF b] by simp
  then have "?w \<noteq> []" by blast
  then have "held (tl ?w @ [hd ?w]) = held ?w" and "hd ?w = ?w ! 0" by (cases ?w, auto simp: held_def)+
  then have "counted_ok (recv ?s1)"
    using r unfolding counted_ok_def w1 by (auto simp: recv_wf_def recv_ok_def set_recv_def)
  then have d: "delivers E h s (deliver_loop E ?h1 ?s1)"
    by (rule delivers_from [OF deliver_loop_any]) (simp_all add: set_recv_def same_owner_def give_data_host)
  have eq: "deliver_in_order E pp h s = map_option (\<lambda>(h, s). (schedule_ack h s, s)) (deliver_loop E ?h1 ?s1)"
    by (cases "deliver_loop E ?h1 ?s1") (auto simp: deliver_in_order_def)
  show ?thesis
  proof (cases "deliver_loop E ?h1 ?s1")
    case None
    then show ?thesis using d by (simp add: eq)
  next
    case (Some hs)
    obtain h2 s2 where hs: "hs = (h2, s2)" by (cases hs)
    have k: "same_owner s s2" "recv_wf (recv s2)" "host_for E (self s) h \<Longrightarrow> host_for E (self s) h2"
      using d by (auto simp: delivers_def Some hs post_simps)
    then have "self s2 = self s" by (simp add: same_owner_def)
    then show ?thesis
      unfolding eq Some hs using k schedule_ack_total(1) by (auto simp: schedule_ack_def intro!: deliversI)
  qed
qed

lemma fin_seen_recv:
  "fin_seen pp (fin_seen pp s) = fin_seen pp s" "same_owner s (fin_seen pp s)"
  "recv_wf (recv (fin_seen pp s)) = recv_wf (recv s)" "ack_nr (recv (fin_seen pp s)) = ack_nr (recv s)"
  by (simp_all add: fin_seen_def set_recv_def same_owner_def recv_wf_def recv_ok_def waiting_def)

lemma deliver_gap_any:
  assumes r: "recv_wf (recv s)" and s: "fin_seen pp s = s"
    and d: "d \<noteq> 0" "d \<le> 0x3ff" and pe: "\<not> past_eof d (recv s)" and q: "pp_seq_nr pp = ack_nr (recv s) + 1 + d"
  shows "delivers E h s (map_option snd (deliver_data E pp d h s))"
proof -
  let ?r = "recv s"
  have b: "sb_wf (inbuf ?r)" using r by (simp add: recv_wf_def)
  obtain b1 k where g: "sb_wf b1" "sb_slots b1 = length (waiting ?r @ replicate k None)" "unat d + 1 < sb_slots b1"
    "waiting (?r\<lparr>inbuf := b1\<rparr>) = waiting ?r @ replicate k None"
    "(waiting ?r @ replicate k None) ! unat d \<noteq> None \<longrightarrow>
      deliver_data E pp d h s = Some (0, h, set_recv (\<lambda>r. r\<lparr>inbuf := b1\<rparr>) s)"
    "(waiting ?r @ replicate k None) ! unat d = None \<longrightarrow>
      (\<exists>b2. sb_wf b2 \<and> sb_slots b2 = sb_slots b1 \<and>
        deliver_data E pp d h s = Some (of_nat (pp_end pp - pp_payload pp), schedule_ack h s,
          set_recv (\<lambda>r. r\<lparr>inbuf := b2, reorder_count := reorder_count r + 1\<rparr>) s) \<and>
        (\<forall>c. waiting (?r\<lparr>inbuf := b2, reorder_count := c\<rparr>) =
          (waiting ?r @ replicate k None)[unat d := Some (arrived pp)]))"
    by (rule store_gap [OF b s d pe q, of E h]) (rule that, assumption+)
  have i: "0 < unat d" "unat d + 1 < sb_slots b1" using d(1) g(3) by (simp_all add: unat_gt_0)
  show ?thesis
  proof (cases "(waiting ?r @ replicate k None) ! unat d = None")
    case False
    have "recv_wf (?r\<lparr>inbuf := b1\<rparr>)"
      using r g(1) recv_ok_gap(1) [OF _ g(1,2) i g(4)] by (auto simp: recv_wf_def)
    then show ?thesis using g(5) False by (auto simp: set_recv_def same_owner_def intro!: deliversI)
  next
    case True
    then obtain b2 where p: "sb_wf b2" "sb_slots b2 = sb_slots b1"
      "deliver_data E pp d h s = Some (of_nat (pp_end pp - pp_payload pp), schedule_ack h s,
          set_recv (\<lambda>r. r\<lparr>inbuf := b2, reorder_count := reorder_count r + 1\<rparr>) s)"
      "\<forall>c. waiting (?r\<lparr>inbuf := b2, reorder_count := c\<rparr>) =
          (waiting ?r @ replicate k None)[unat d := Some (arrived pp)]"
      using g(6) by blast
    have "recv_wf (?r\<lparr>inbuf := b2, reorder_count := reorder_count ?r + 1\<rparr>)"
      using r p(1) recv_ok_gap(2) [OF _ g(1,2) i p(1,2) True p(4)] by (auto simp: recv_wf_def)
    then show ?thesis
      using schedule_ack_total(1) [of E "self s" h]
      unfolding p(3) by (auto simp: set_recv_def same_owner_def schedule_ack_def intro!: deliversI)
  qed
qed

lemma deliver_refused:
  assumes "d \<noteq> 0" and f: "fin_seen pp s = s" and c: "past_eof d (recv s) \<or> 0x3ff < d"
  shows "deliver_data E pp d h s = Some (0, h, s)"
proof (cases "past_eof d (recv s)")
  case True
  then show ?thesis using assms(1) by (simp add: deliver_data_def f)
next
  case False
  then have "0x3ff < d" using c by simp
  then show ?thesis using assms(1) False by (simp add: deliver_data_def f)
qed

lemma deliver_data_any:
  assumes r: "recv_wf (recv s)"
  shows "delivers E h s (map_option snd (deliver_data E pp (seq_distance pp s) h s))"
proof -
  let ?s = "fin_seen pp s" and ?d = "seq_distance pp s"
  have f: "fin_seen pp ?s = ?s" and o: "same_owner s ?s" and r': "recv_wf (recv ?s)"
    using fin_seen_recv [where pp = pp and s = s] r by simp_all
  have q: "pp_seq_nr pp = ack_nr (recv ?s) + 1 + ?d" by (simp add: seq_distance_def fin_seen_recv)
  have eq: "deliver_data E pp ?d h s = deliver_data E pp ?d h ?s" by (simp only: deliver_data_def f)
  have "delivers E h ?s (map_option snd (deliver_data E pp ?d h ?s))"
  proof (cases "?d = 0")
    case True
    have "map_option snd (deliver_data E pp 0 h ?s) = deliver_in_order E pp h ?s"
      by (cases "deliver_in_order E pp h ?s") (auto simp: deliver_data_def f)
    then show ?thesis using deliver_in_order_any [OF r', of E h pp] by (simp add: True)
  next
    case False
    show ?thesis
    proof (cases "past_eof ?d (recv ?s) \<or> 0x3ff < ?d")
      case True
      then have "deliver_data E pp ?d h ?s = Some (0, h, ?s)" by (rule deliver_refused [OF False f])
      then show ?thesis using r' by (simp add: deliversI)
    next
      case in_window: False
      then show ?thesis by (intro deliver_gap_any [OF r' f False _ _ q]) (simp_all add: not_less)
    qed
  qed
  then show ?thesis unfolding eq by (rule delivers_from [OF _ o])
qed

text \<open>
  C8: no packet can break the receiver. Whatever data or FIN packet a hostile peer sends, with any sequence
  number relative to the next one expected and any payload, also after the end of the stream was
  reached, delivery returns without failing an assertion and leaves the reorder ring well formed: until
  the end of the stream is announced its count is that of the waiting packets and the next expected
  packet is not among them.
\<close>

theorem deliver_data_robust:
  assumes "host_for E (self s) h" and "recv_wf (recv s)"
  shows "\<exists>c h' s'. deliver_data E pp (seq_distance pp s) h s = Some (c, h', s') \<and> host_for E (self s) h' \<and>
    self s' = self s \<and> conn s' = conn s \<and> recv_wf (recv s')"
proof -
  note d = deliver_data_any [OF assms(2), of E h pp]
  obtain h' s' where r: "map_option snd (deliver_data E pp (seq_distance pp s) h s) = Some (h', s')" "host_for E (self s) h'"
    using d assms(1) unfolding delivers_def by blast
  then obtain c where "deliver_data E pp (seq_distance pp s) h s = Some (c, h', s')"
    by (cases "deliver_data E pp (seq_distance pp s) h s") auto
  moreover have "same_owner s s' \<and> recv_wf (recv s')" using d unfolding delivers_def r(1) by (simp add: post_simps)
  ultimately show ?thesis using r(2) unfolding same_owner_def by blast
qed

section \<open>After the end of the stream\<close>

lemma reads_schedule_ack: "reads n (schedule_ack h s) = reads n h"
  by (simp add: schedule_ack_def host_schedule_ack_def reads_def Let_def)

text \<open>
  C26: the end of the peer's stream is not enforced on in-order data: once \<open>UTP_STATE_EOF\<close> was reported and the
  reorder count reset, the packet after the last one is still handed to \<open>on_read\<close> and acknowledged, whatever
  the peer announced as the end.
\<close>

theorem data_after_eof:
  assumes "got_fin_reached (recv s)" and "reorder_count (recv s) = 0" and "\<not> read_shutdown (recv s)"
    and "pp_seq_nr pp = ack_nr (recv s) + 1" and "pp_data pp \<noteq> []"
  shows "\<exists>c h' s'. deliver_data E pp (seq_distance pp s) h s = Some (c, h', s') \<and>
    reads (self s) h' = reads (self s) h @ [Payload (pp_data pp)] \<and> ack_nr (recv s') = ack_nr (recv s) + 1"
proof -
  let ?s = "fin_seen pp s"
  let ?t = "set_recv (\<lambda>r. r\<lparr>ack_nr := ack_nr r + 1\<rparr>) ?s"
  have d: "seq_distance pp s = 0" using assms(4) by (simp add: seq_distance_def)
  have f: "got_fin_reached (recv ?s)" "reorder_count (recv ?s) = 0" "\<not> read_shutdown (recv ?s)" "self ?s = self s"
    "ack_nr (recv ?s) = ack_nr (recv s)"
    using assms(1-3) by (simp_all add: fin_seen_def set_recv_def)
  have g: "give_data (pp_data pp) h ?s = emit (Ev_on_read (self s) (pp_data pp)) h"
    using f assms(5) by (simp add: give_data_def)
  have "deliver_loop E h1 ?t = Some (h1, ?t)" for h1
    using f(1,2) by (subst deliver_loop.simps) (simp add: post_eof_def at_eof_def set_recv_def)
  then have o: "deliver_in_order E pp h ?s = Some (schedule_ack (emit (Ev_on_read (self s) (pp_data pp)) h) ?t, ?t)"
    by (simp add: deliver_in_order_def g)
  show ?thesis
    by (simp add: deliver_data_def d o f(5) set_recv_def reads_schedule_ack)
qed

end
