(* ===== verification/Connection_Life.thy ===== *)
theory Connection_Life
  imports Sender_Runs Receive_Robust
begin

text \<open>
  Both sides of a connection over its whole life: what holds in every state that is reached, and the debug
  self-check of the source.
\<close>

section \<open>The receiving side of each step\<close>

text \<open>While a SYN is not answered nothing is in the ring, since the answer sets \<open>ack_nr\<close>.\<close>

definition idle :: "ReceiveState \<Rightarrow> bool" where
  "idle r \<longleftrightarrow> sb_wf (inbuf r) \<and> (\<forall>v. sb_get v (inbuf r) = None) \<and> reorder_count r = 0 \<and> \<not> got_fin_reached r"

definition receiver_inv :: "UtpSocket \<Rightarrow> bool" where
  "receiver_inv s \<longleftrightarrow> recv_wf (recv s) \<and> (state (conn s) = CS_SYN_SENT \<longrightarrow> idle (recv s))"

lemma idle_wf: "idle r \<Longrightarrow> recv_wf r"
proof -
  assume i: "idle r"
  have n: "waiting r ! i = None" if "i < length (waiting r)" for i
    using i that by (simp add: waiting_def sb_view_def idle_def)
  then have h: "held (waiting r) = 0" by (auto simp: held_0 in_set_conv_nth)
  have p: "0 < length (waiting r)" using i slots_pos [of "inbuf r"] by (simp add: idle_def)
  have "last (waiting r) \<in> set (waiting r)"
    by (rule last_in_set) (use p in \<open>simp only: length_greater_0_conv not_False_eq_True\<close>)
  then have "last (waiting r) = None" using h by (simp only: held_0)
  then show ?thesis using i n [of 0] h p by (simp add: recv_wf_def recv_ok_def idle_def)
qed

lemma idle_cong: "inbuf r' = inbuf r \<Longrightarrow> reorder_count r' = reorder_count r \<Longrightarrow>
    got_fin_reached r' = got_fin_reached r \<Longrightarrow> idle r' = idle r"
  by (simp add: idle_def)

lemma recv_wf_cong: "inbuf r' = inbuf r \<Longrightarrow> reorder_count r' = reorder_count r \<Longrightarrow>
    got_fin_reached r' = got_fin_reached r \<Longrightarrow> ack_nr r' = ack_nr r \<Longrightarrow> recv_wf r' = recv_wf r"
  by (simp add: recv_wf_def recv_ok_def waiting_def)

text \<open>A step that leaves the ring alone and does not go back to \<open>CS_SYN_SENT\<close>.\<close>

definition same_ring :: "UtpSocket \<Rightarrow> UtpSocket \<Rightarrow> bool" where
  "same_ring s s' \<longleftrightarrow> inbuf (recv s') = inbuf (recv s) \<and> reorder_count (recv s') = reorder_count (recv s) \<and>
     got_fin_reached (recv s') = got_fin_reached (recv s) \<and> ack_nr (recv s') = ack_nr (recv s) \<and>
     (state (conn s') = CS_SYN_SENT \<longrightarrow> state (conn s) = CS_SYN_SENT)"

lemma same_ring_refl [simp]: "same_ring s s"
  by (simp add: same_ring_def)

lemma same_ring_trans: "same_ring s s1 \<Longrightarrow> same_ring s1 s' \<Longrightarrow> same_ring s s'"
  by (simp add: same_ring_def)

lemma same_ring_inv: "same_ring s s' \<Longrightarrow> receiver_inv s \<Longrightarrow> receiver_inv s'"
  using recv_wf_cong [of "recv s'" "recv s"] idle_cong [of "recv s'" "recv s"]
  by (auto simp: same_ring_def receiver_inv_def)

lemma work_ring: "work E b h s h' s' \<Longrightarrow> same_ring s s'"
proof (induction rule: work.induct)
  case (steps h s h1 s1 h' s')
  then show ?case by (blast intro: same_ring_trans)
qed (auto simp: untouched_def same_ring_def)

lemma writes_ring: "writes E d k h s h' s' \<Longrightarrow> same_ring s s'"
  by (auto simp: writes_def same_ring_def)

lemma send_ack_ring:
  assumes "send_ack E sy h s = Some (h', s')" shows "same_ring s s'"
  using postD [OF send_ack_post assms] by (auto simp: same_ring_def)

lemma send_keep_alive_ring:
  assumes "send_keep_alive E h s = Some (h', s')" shows "same_ring s s'"
proof -
  let ?s = "set_recv (\<lambda>r. r\<lparr>ack_nr := ack_nr r - 1\<rparr>) s"
  obtain s1 where a: "send_ack E False h ?s = Some (h', s1)" and s': "s' = set_recv (\<lambda>r. r\<lparr>ack_nr := ack_nr r + 1\<rparr>) s1"
    using assms by (auto simp: send_keep_alive_def Let_def bind_eq_Some_conv)
  show ?thesis using send_ack_ring [OF a] by (auto simp: same_ring_def s' set_recv_def)
qed

lemma read_drained_ring: "read_drained E h s = Some (h', s') \<Longrightarrow> same_ring s s'"
  using send_ack_ring by (auto simp: read_drained_def bind_eq_Some_conv split: if_splits)

lemma send_fin_ring:
  assumes "send_fin E h s = Some (h', s')" and "sender_wf h s" and "age h' < 2 ^ 31" and "\<not> fin_sent (send s)"
  shows "same_ring s s'"
proof -
  let ?s = "set_send (\<lambda>d. d\<lparr>fin_sent := True\<rparr>) s"
  obtain iov where w: "write_outgoing_packet E 0 ST_FIN [] h ?s = Some (iov, h', s')"
    using assms(1) by (auto simp: send_fin_def bind_eq_Some_conv)
  have "same_window s ?s" by (simp add: same_window_def set_send_def)
  then have i: "sender_ok h ?s"
    using same_window_keeps [of s ?s h h] assms(2,3) send_fin_time [OF assms(1)] by (simp add: keeps_def sender_wf_def)
  have "unat (cur_window_packets (send ?s)) < 65535" using assms(2,4) by (simp add: sender_wf_def set_send_def)
  then have "writes E (take (unat (0 :: u64)) (concat [])) 1 h ?s h' s'"
    by (intro write_outgoing_writes(2) [OF w _ _ _ i assms(3)]) simp_all
  from writes_ring [OF this] show ?thesis by (simp add: same_ring_def set_send_def)
qed

lemma socket_check_timeouts_ring:
  assumes "socket_check_timeouts E h s = Some (h', s')" shows "same_ring s s'"
proof -
  have z: "same_ring t (zero_window_probe k t)" for k t
    by (simp add: zero_window_probe_def same_ring_def set_send_def)
  have fl: "same_ring t t'" if "flush_packets E k t = Some (f, k', t')" for k t f k' t'
    using postD [OF acting.flush_packets_steps [of E k t False] that] by (auto dest: work_ring)
  have rto: "same_ring t t'" if "on_rto E k t = Some (e, k', t')" for k t e k' t'
    using postD [OF on_rto_work [of E k t False] that] by (auto dest: work_ring)
  have lf: "same_ring t t'" if "leave_full k t = (k', t')" for k t k' t'
    using work_ring [OF leave_full_work [of E False k t]] that by simp
  obtain h1 s1 where
    f: "(if state (conn s) \<noteq> CS_DESTROY then do { (full, h, s) \<leftarrow> flush_packets E h s; Some (h, s) } else Some (h, s)) = Some (h1, s1)"
    and r: "(if \<not> timeout_active (state (conn s1)) then Some (h1, s1)
       else do {
         let s = zero_window_probe h1 s1;
         (ended, h, s) \<leftarrow> (if is_rto_expired (current_ms h1) (cc s) then on_rto E h1 s else Some (False, h1, s));
         if ended then Some (h, s)
         else do {
           let (h, s) = leave_full h s;
           if keep_alive_due h s then send_keep_alive E h s else Some (h, s)
         }
       }) = Some (h', s')"
    using assms unfolding socket_check_timeouts_def by (auto simp: bind_eq_Some_conv)
  have k1: "same_ring s s1" using f fl by (auto simp: bind_eq_Some_conv split: if_splits)
  show ?thesis
  proof (cases "timeout_active (state (conn s1))")
    case False
    then show ?thesis using r k1 by simp
  next
    case True
    obtain e h2 s2 where
      o: "(if is_rto_expired (current_ms h1) (cc (zero_window_probe h1 s1)) then on_rto E h1 (zero_window_probe h1 s1)
           else Some (False, h1, zero_window_probe h1 s1)) = Some (e, h2, s2)"
      and g: "(if e then Some (h2, s2) else do {
           let (h, s) = leave_full h2 s2;
           if keep_alive_due h s then send_keep_alive E h s else Some (h, s) }) = Some (h', s')"
      using r True by (auto simp: bind_eq_Some_conv Let_def)
    have k2: "same_ring (zero_window_probe h1 s1) s2" using o rto by (auto split: if_splits)
    have "same_ring s2 s'"
      using g by (cases "leave_full h2 s2") (auto split: if_splits dest!: lf send_keep_alive_ring intro: same_ring_trans)
    then show ?thesis using same_ring_trans [OF same_ring_trans [OF same_ring_trans [OF k1 z] k2]] by blast
  qed
qed

lemma writev_ring:
  assumes "writev E iov h s = Some (n, h', s')" and "sender_wf h s" and "age h' < 2 ^ 31"
    and "sane_mtu s" and "sum_list (map length iov) < 2 ^ 64"
  shows "same_ring s s'"
proof -
  have "sender_ok h s" using assms(2) by (simp add: sender_wf_def)
  from writev_writes [OF assms(1) this assms(4,3,5)] show ?thesis by (auto dest: writes_ring)
qed

lemma connected_close_ring:
  assumes "connected_close E h s = Some (h', s')" and "sender_wf h s" and "age h' < 2 ^ 31"
  shows "same_ring s s'"
proof -
  let ?s = "request_close (mark_read_shutdown s)"
  have sw: "same_window s ?s" and f: "fin_sent (send ?s) = fin_sent (send s)" and r: "same_ring s ?s"
    by (simp_all add: same_window_def same_ring_def request_close_def mark_read_shutdown_def set_send_def set_recv_def)
  have a: "age h \<le> age h'"
    using assms(1) send_fin_time by (auto simp: connected_close_def Let_def split: if_splits)
  then have wf: "sender_wf h ?s" using keeps_wf [OF same_window_keeps [OF sw le_refl] assms(2)] assms(3) by simp
  have "same_ring ?s s'"
    using assms(1,3) f send_fin_ring [OF _ wf]
    by (auto simp: connected_close_def Let_def same_ring_def set_state_def split: if_splits)
  then show ?thesis by (rule same_ring_trans [OF r])
qed

lemma socket_close_ring:
  assumes "socket_close E h s = Some (h', s')" and "sender_wf h s" and "age h' < 2 ^ 31"
  shows "same_ring s s'"
proof -
  have b: "same_ring t (snd (backoff_rto_for_close E k t))" for k t
    by (simp add: backoff_rto_for_close_def Let_def split_def same_ring_def set_cc_def)
  have "state_close E h s = Some (h', s')" using assms(1) by (auto simp: socket_close_def bind_eq_Some_conv)
  then show ?thesis
    using connected_close_ring [OF _ assms(2,3)] b [of s h]
    by (auto simp: state_close_def Let_def split_def same_ring_def set_state_def split: CONN_STATE.splits)
qed

lemma socket_shutdown_ring:
  assumes "socket_shutdown E how h s = Some (h', s')" and "sender_wf h s" and "age h' < 2 ^ 31"
  shows "same_ring s s'"
proof -
  let ?s = "if how \<noteq> SHUT_WR then mark_read_shutdown s else s"
  have sw: "same_window s ?s" and r: "same_ring s ?s"
    by (simp_all add: same_window_def same_ring_def mark_read_shutdown_def set_recv_def)
  have b: "same_ring t (snd (backoff_rto_for_close E k t))" for k t
    by (simp add: backoff_rto_for_close_def Let_def split_def same_ring_def set_cc_def)
  have c: "state_shutdown E how h s = Some (h', s')" using assms(1) by (auto simp: socket_shutdown_def bind_eq_Some_conv)
  have "same_ring ?s s'"
  proof (cases "\<not> fin_sent (send ?s) \<and> send_fin E h ?s = Some (h', s')")
    case True
    have "age h < 2 ^ 31" using send_fin_time True assms(3) by fastforce
    then show ?thesis
      using send_fin_ring [OF _ keeps_wf [OF same_window_keeps [OF sw le_refl] assms(2)] assms(3)] True by blast
  next
    case False
    then show ?thesis
      using c b [of ?s h] by (auto simp: state_shutdown_def Let_def split: CONN_STATE.splits if_splits)
  qed
  then show ?thesis by (rule same_ring_trans [OF r])
qed

section \<open>Packets\<close>

lemma at_start_inv:
  assumes "receiver_inv s" shows "recv_wf (at_start pp s)" and "state (conn s) = CS_SYN_SENT \<Longrightarrow> idle (at_start pp s)"
proof -
  have i: "idle (at_start pp s)" if "state (conn s) = CS_SYN_SENT"
    using assms that idle_cong [of "at_start pp s" "recv s"] by (simp add: receiver_inv_def at_start_def)
  then show "state (conn s) = CS_SYN_SENT \<Longrightarrow> idle (at_start pp s)" .
  show "recv_wf (at_start pp s)"
  proof (cases "state (conn s) = CS_SYN_SENT")
    case True
    then show ?thesis using idle_wf [OF i] by blast
  next
    case False
    then show ?thesis using assms by (simp add: at_start_def receiver_inv_def)
  qed
qed

lemma process_incoming_receiver:
  assumes "process_incoming E packet syn h s = Some (r, h', s')" and "receiver_inv s" and "ring_shape s"
  shows "receiver_inv s'"
  using assms(1)
proof (cases rule: process_incoming_split)
  case (2 pp s0)
  then show ?thesis using assms(2) at_start_inv [OF assms(2), of pp] by (auto simp: receiver_inv_def)
next
  case (1 h1 s1 pp s0 time)
  let ?d = "seq_distance pp s1"
  have i1: "receiver_inv s1" using at_start_inv [OF assms(2), of pp] 1(6,10) by (simp add: receiver_inv_def)
  have sh: "ring_shape s1" using assms(3) 1(3) by (simp add: ring_shape_def)
  obtain h2 s2 where a: "ack_half E pp time h1 s1 = Some (h2, s2)"
    and d: "s' = s2 \<or> state (conn s2) \<noteq> CS_SYN_SENT \<and> deliver_data E pp ?d h2 s2 = Some (r, h', s')"
    using 1(9) unfolding process_window_packet_split by (auto simp: bind_eq_Some_conv split: if_splits)
  have g: "same_ring s1 s2" using postD [OF ack_half_work [OF sh] a] work_ring by auto
  have i2: "receiver_inv s2" by (rule same_ring_inv [OF g i1])
  show ?thesis
  proof (cases "s' = s2")
    case True
    then show ?thesis using i2 by simp
  next
    case False
    then have ns: "state (conn s2) \<noteq> CS_SYN_SENT" and dd: "deliver_data E pp ?d h2 s2 = Some (r, h', s')" using d by auto
    have "?d = seq_distance pp s2" using g by (simp add: seq_distance_def same_ring_def)
    then have "delivers E h2 s2 (Some (h', s'))"
      using deliver_data_any [of s2 E h2 pp] i2 dd by (simp add: receiver_inv_def)
    then have "same_owner s2 s'" "recv_wf (recv s')" by (simp_all add: delivers_def post_simps)
    then show ?thesis using ns by (simp add: receiver_inv_def same_owner_def)
  qed
qed

section \<open>Setting up\<close>

lemma idle_new: "idle (recv (new_UtpSocket n h))"
proof -
  have "sb_wf (sb_initialize 16)" using wf_initialize unfolding sb_wf_def by blast
  then show ?thesis by (simp add: idle_def new_UtpSocket_def get_initialize)
qed

lemma idle_inv: "idle (recv s) \<Longrightarrow> receiver_inv s"
  by (simp add: receiver_inv_def idle_wf)

lemma socket_connect_receiver:
  assumes "socket_connect E sa n h s = Some (r, h', s')" and "idle (recv s)"
  shows "receiver_inv s'"
proof (cases "state (conn s) = CS_UNINITIALIZED")
  case False
  then have "recv s' = recv s" using assms(1) by (auto simp: socket_connect_def bind_eq_Some_conv set_state_def)
  then show ?thesis using assms(2) by (simp add: idle_inv)
next
  case True
  obtain h1 s1 where i: "socket_initialize E sa n True 0 0 1 h s = Some (h1, s1)"
    using assms(1) True by (auto simp: socket_connect_def bind_eq_Some_conv)
  have r1: "recv s1 = recv s" using postD [OF socket_initialize_post i] by auto
  have k: "idle (recv s')" if "send_packet E v h2 s2 = Some (h', s')" "idle (recv s2)" for v h2 s2
    using postD [OF send_packet_work [of E v h2 s2 False] that(1)] that(2) idle_cong [of "recv s'" "recv s2"]
    by (auto dest!: work_ring simp: same_ring_def)
  have "idle (recv s')"
    using assms(1) i True unfolding socket_connect_def
    by (clarsimp simp: bind_eq_Some_conv Let_def split_def)
      (rule k, assumption, use assms(2) r1 in \<open>simp add: set_defs idle_def\<close>)
  then show ?thesis by (rule idle_inv)
qed

lemma answer_syn_receiver:
  assumes "answer_syn E sa n cid sq packet h s = Some (h', s')" and "idle (recv s)" and "fresh s"
  shows "receiver_inv s'"
proof -
  obtain h1 s1 r h2 s2 h3 where
    i: "socket_initialize E sa n False cid (cid + 1) cid h s = Some (h1, s1)"
    and p: "process_incoming E packet True (fst (accept_syn E sq h1 s1)) (snd (accept_syn E sq h1 s1)) = Some (r, h2, s2)"
    and a: "send_ack E True h2 s2 = Some (h3, s')"
    using assms(1) by (auto simp: answer_syn_def bind_eq_Some_conv Let_def split_def)
  let ?s = "snd (accept_syn E sq h1 s1)"
  have f: "recv s1 = recv s" "send s1 = send s" "cur_window (cc s1) = cur_window (cc s)"
    using postD [OF socket_initialize_post i] by auto
  have "idle (recv ?s)" using assms(2) f by (simp add: accept_syn_def Let_def split_def idle_def set_defs)
  moreover have "fresh ?s" using assms(3) f by (simp add: accept_syn_def Let_def split_def fresh_def set_defs)
  then have "ring_shape ?s" using fresh_wf [of ?s h] sender_wf_shape by blast
  ultimately have "receiver_inv s2" using process_incoming_receiver [OF p idle_inv] by blast
  then show ?thesis using same_ring_inv [OF send_ack_ring [OF a]] by blast
qed

section \<open>Every state of a connection\<close>

lemma socket_step_receiver:
  "socket_step E h s h' s' \<Longrightarrow> sender_wf h s \<Longrightarrow> receiver_inv s \<Longrightarrow> age h' < 2 ^ 31 \<Longrightarrow> receiver_inv s'"
proof (induction rule: socket_step.induct)
  case (packet p h s r h' s')
  then show ?case using process_incoming_receiver sender_wf_shape by blast
next
  case (writing iov h s n h' s')
  show ?case
    by (rule same_ring_inv [OF writev_ring [OF writing.hyps(1) writing.prems(1,3) writing.hyps(2,3)] writing.prems(2)])
next
  case (reset n h s h' s')
  then have "same_ring s s'" by (auto simp: on_reset_def Let_def same_ring_def set_state_def split: prod.splits if_splits)
  then show ?case using reset.prems same_ring_inv by blast
next
  case (icmp_error h s h' s')
  then have "same_ring s s'" by (auto simp: on_icmp_error_def Let_def same_ring_def set_state_def split: if_splits)
  then show ?case using icmp_error.prems same_ring_inv by blast
next
  case (icmp_fragmentation m h s s')
  then have "same_ring s s'" by (auto simp: on_icmp_fragmentation_def same_ring_def bind_eq_Some_conv)
  then show ?case using icmp_fragmentation.prems same_ring_inv by blast
next
  case (option opt v s r s' h)
  then have "same_ring s s'"
    by (auto simp: socket_set_option_def same_ring_def set_defs bind_eq_Some_conv split: utp_option.splits)
  then show ?case using option.prems same_ring_inv by blast
next
  case (timeout h s h' s')
  then show ?case using same_ring_inv [OF socket_check_timeouts_ring] by blast
next
  case (deferred_ack h s h' s')
  then show ?case using same_ring_inv [OF send_ack_ring] by blast
next
  case (drained h s h' s')
  then show ?case using same_ring_inv [OF read_drained_ring] by blast
next
  case (close h s h' s')
  then show ?case using same_ring_inv [OF socket_close_ring] by blast
next
  case (shutdown how h s h' s')
  then show ?case using same_ring_inv [OF socket_shutdown_ring] by blast
qed

lemma connection_receiver: "connection E h s \<Longrightarrow> receiver_inv s"
proof (induction rule: connection.induct)
  case (connects sa n h m h0 r h' s')
  then show ?case using socket_connect_receiver [OF connects(1) idle_new] by simp
next
  case (accepts sa n cid sq p h m h0 h' s')
  then show ?case using answer_syn_receiver [OF accepts(1) idle_new fresh_new] by simp
next
  case (steps h s h' s')
  then show ?case using socket_step_receiver connection_wf by blast
qed

text \<open>
  C5: a connection is well formed in every state it reaches: from a new socket that connects or answers a
  SYN, through any calls of the application, packets of any content, ICMP messages and timeouts, within
  the first \<open>2^31\<close> events, the bytes in flight are exactly those of the packets sent and neither
  acknowledged nor given up for lost, the window holds at most 1023 packets and the FIN in
  consecutive slots with the oldest present, and the reorder ring holds as many packets as are counted
  and never the one expected next, until the end of the peer's stream is announced.
\<close>

theorem connection_well_formed:
  assumes "connection E h s" shows "sender_wf h s \<and> recv_wf (recv s)"
  using connection_wf [OF assms] connection_receiver [OF assms] by (simp add: receiver_inv_def)

text \<open>
  C9: the self-check of a debug build never fails before the end of the peer's stream is announced, and
  the timer's assertion that the oldest packet of a window is in its slot never fails at all.
\<close>

theorem check_invariant_holds:
  assumes "connection E h s"
  shows "(\<not> got_fin_reached (recv s) \<longrightarrow> check_invariant E s = Some ()) \<and>
    outstanding_bytes (unat (cur_window_packets (send s))) s = cur_window (cc s) \<and>
    (cur_window_packets (send s) = 0 \<or> out_at (oldest64 s) s \<noteq> None)"
proof -
  have w: "win_inv (age h) s" "head_ok s" and r: "recv_wf (recv s)"
    using connection_wf [OF assms] connection_receiver [OF assms]
    by (simp_all add: sender_wf_def sender_ok_def receiver_inv_def)
  note o = outstanding_bytes_exact [OF w(1)]
  have "sb_get (ucast (ack_nr (recv s)) + 1) (inbuf (recv s)) = None" if "\<not> got_fin_reached (recv s)"
  proof -
    have k: "recv_ok (recv s)" using r that by (simp add: recv_wf_def)
    then have "0 < sb_slots (inbuf (recv s))" using slots_pos [of "inbuf (recv s)"] by (simp add: recv_ok_def)
    then show ?thesis using k by (simp add: recv_ok_def waiting_def sb_view_def)
  qed
  moreover have "cur_window_packets (send s) = 0 \<or> out_at (oldest64 s) s \<noteq> None"
    using w out_at_win [of s "oldest64 s"] by (auto simp: head_ok_def win_inv_def)
  ultimately show ?thesis using o by (simp add: check_invariant_def)
qed

end
