(* ===== verification/Callbacks.thy ===== *)
theory Callbacks
  imports Utp_Host
begin

text \<open>
  The calls from the library to the application: the interface \<open>UtpCallbacks\<close> with its default
  implementations (\<^verbatim>\<open>src/utp_callbacks_defaults.cpp\<close>), the adapter that turns them into calls of
  the C functions an application registers (\<open>CFunctionCallbackAdapter\<close> of \<^verbatim>\<open>src/utp_api.cpp\<close>) and the
  forwarding functions of \<^verbatim>\<open>src/utp_callbacks.cpp\<close>. The application is a state \<open>'u\<close> that a C callback
  reads and changes; the clocks and the random numbers of the platform are a parameter. Contexts
  and sockets are numbers, as the pointers to them.
\<close>

section \<open>Callback numbers\<close>

datatype callback_name =
    UTP_ON_FIREWALL
  | UTP_ON_ACCEPT
  | UTP_ON_CONNECT
  | UTP_ON_ERROR
  | UTP_ON_READ
  | UTP_ON_OVERHEAD_STATISTICS
  | UTP_ON_STATE_CHANGE
  | UTP_GET_READ_BUFFER_SIZE
  | UTP_ON_DELAY_SAMPLE
  | UTP_GET_UDP_MTU
  | UTP_GET_UDP_OVERHEAD
  | UTP_GET_MILLISECONDS
  | UTP_GET_MICROSECONDS
  | UTP_GET_RANDOM
  | UTP_LOG
  | UTP_SENDTO

fun callback_number :: "callback_name \<Rightarrow> nat" where
  "callback_number UTP_ON_FIREWALL = 0"
| "callback_number UTP_ON_ACCEPT = 1"
| "callback_number UTP_ON_CONNECT = 2"
| "callback_number UTP_ON_ERROR = 3"
| "callback_number UTP_ON_READ = 4"
| "callback_number UTP_ON_OVERHEAD_STATISTICS = 5"
| "callback_number UTP_ON_STATE_CHANGE = 6"
| "callback_number UTP_GET_READ_BUFFER_SIZE = 7"
| "callback_number UTP_ON_DELAY_SAMPLE = 8"
| "callback_number UTP_GET_UDP_MTU = 9"
| "callback_number UTP_GET_UDP_OVERHEAD = 10"
| "callback_number UTP_GET_MILLISECONDS = 11"
| "callback_number UTP_GET_MICROSECONDS = 12"
| "callback_number UTP_GET_RANDOM = 13"
| "callback_number UTP_LOG = 14"
| "callback_number UTP_SENDTO = 15"

definition UTP_ARRAY_SIZE :: nat where "UTP_ARRAY_SIZE = 22"

fun utp_state_number :: "utp_state \<Rightarrow> int" where
  "utp_state_number UTP_STATE_CONNECT = 1"
| "utp_state_number UTP_STATE_WRITABLE = 2"
| "utp_state_number UTP_STATE_EOF = 3"
| "utp_state_number UTP_STATE_DESTROYING = 4"

fun utp_error_number :: "utp_error \<Rightarrow> int" where
  "utp_error_number UTP_ECONNREFUSED = 0"
| "utp_error_number UTP_ECONNRESET = 1"
| "utp_error_number UTP_ETIMEDOUT = 2"

fun bandwidth_number :: "BandwidthType \<Rightarrow> int" where
  "bandwidth_number payload_bandwidth = 0"
| "bandwidth_number connect_overhead = 1"
| "bandwidth_number close_overhead = 2"
| "bandwidth_number ack_overhead = 3"
| "bandwidth_number header_overhead = 4"
| "bandwidth_number retransmit_overhead = 5"

section \<open>What a C callback is called with\<close>

text \<open>The two unions of the structure; \<open>{}\<close> zeroes their first members.\<close>

datatype arg_value =
    Arg_address "sockaddr option"
  | Arg_send int
  | Arg_sample_ms int
  | Arg_error_code int
  | Arg_state int

datatype arg_extra = Arg_address_len u32 | Arg_type int

record utp_callback_arguments =
  arg_context :: nat
  arg_socket :: "nat option"
  arg_len :: u64
  arg_flags :: u32
  arg_callback_type :: callback_name
  arg_buf :: "bytes option"
  arg_value :: arg_value
  arg_extra :: arg_extra

type_synonym 'u utp_callback = "utp_callback_arguments \<Rightarrow> 'u \<Rightarrow> u64 \<times> 'u"

record 'u CFunctionCallbackAdapter =
  adapter_ctx :: nat
  handlers :: "'u utp_callback option list"

definition new_adapter :: "nat \<Rightarrow> 'u CFunctionCallbackAdapter" where
  "new_adapter c = \<lparr>adapter_ctx = c, handlers = replicate UTP_ARRAY_SIZE None\<rparr>"

definition make_args :: "'u CFunctionCallbackAdapter \<Rightarrow> callback_name \<Rightarrow> nat option \<Rightarrow> utp_callback_arguments" where
  "make_args a type sock =
     \<lparr>arg_context = adapter_ctx a, arg_socket = sock, arg_len = 0, arg_flags = 0, arg_callback_type = type,
      arg_buf = None, arg_value = Arg_address None, arg_extra = Arg_address_len 0\<rparr>"

text \<open>The table is indexed without a check of the index.\<close>

definition set_handler ::
  "int \<Rightarrow> 'u utp_callback option \<Rightarrow> 'u CFunctionCallbackAdapter \<Rightarrow> 'u CFunctionCallbackAdapter option" where
  "set_handler i f a =
     do {
       ub_unless (0 \<le> i \<and> nat i < length (handlers a));
       Some (a\<lparr>handlers := (handlers a)[nat i := f]\<rparr>)
     }"

definition handler_of :: "'u CFunctionCallbackAdapter \<Rightarrow> callback_name \<Rightarrow> 'u utp_callback option" where
  "handler_of a c = handlers a ! callback_number c"

section \<open>Default implementations\<close>

text \<open>The monotonic clock, in the two units the code reads it in, and \<open>std::rand\<close>.\<close>

record 'u platform =
  clock_milliseconds :: "'u \<Rightarrow> u64 \<times> 'u"
  clock_microseconds :: "'u \<Rightarrow> u64 \<times> 'u"
  std_rand :: "'u \<Rightarrow> u32 \<times> 'u"

definition kIpv4Mtu :: u16 where "kIpv4Mtu = 1500 - 20 - 8 - 24 - 8 - 2 - 36"
definition kTeredoMtu :: u16 where "kTeredoMtu = 1280 - 40 - 8"
definition kIpv4Overhead :: u16 where "kIpv4Overhead = 20 + 8"
definition kTeredoOverhead :: u16 where "kTeredoOverhead = kIpv4Overhead + 40 + 8"

definition default_udp_mtu :: "sockaddr \<Rightarrow> u16" where
  "default_udp_mtu sa = (case sa of Sockaddr_in6 _ _ _ _ \<Rightarrow> kTeredoMtu | Sockaddr_in _ _ \<Rightarrow> kIpv4Mtu)"

definition default_udp_overhead :: "sockaddr \<Rightarrow> u16" where
  "default_udp_overhead sa =
     (case sa of Sockaddr_in6 _ _ _ _ \<Rightarrow> kTeredoOverhead | Sockaddr_in _ _ \<Rightarrow> kIpv4Overhead)"

definition default_read_buffer_size :: u64 where "default_read_buffer_size = 0"
definition default_on_firewall :: int where "default_on_firewall = 0"

text \<open>Events do nothing by default; there is no default transport.\<close>

definition default_event :: "'u \<Rightarrow> 'u" where "default_event u = u"

definition default_sendto :: "bool \<Rightarrow> 'u \<Rightarrow> 'u option" where
  "default_sendto nd u =
     do {
       c_assert nd False;
       Some u
     }"

section \<open>The adapter\<close>

text \<open>The value a handler returns for a query, or the default; an event is passed on, or dropped.\<close>

definition answer :: "'u utp_callback option \<Rightarrow> utp_callback_arguments \<Rightarrow> ('u \<Rightarrow> u64 \<times> 'u) \<Rightarrow> 'u \<Rightarrow> u64 \<times> 'u" where
  "answer f args d u = (case f of None \<Rightarrow> d u | Some g \<Rightarrow> g args u)"

definition notify :: "'u utp_callback option \<Rightarrow> utp_callback_arguments \<Rightarrow> 'u \<Rightarrow> 'u" where
  "notify f args u = (case f of None \<Rightarrow> u | Some g \<Rightarrow> snd (g args u))"

definition adapter_sendto ::
  "'u CFunctionCallbackAdapter \<Rightarrow> bytes \<Rightarrow> u64 \<Rightarrow> sockaddr \<Rightarrow> u32 \<Rightarrow> u32 \<Rightarrow> 'u \<Rightarrow> 'u" where
  "adapter_sendto a p n sa salen flags =
     notify (handler_of a UTP_SENDTO)
       ((make_args a UTP_SENDTO None)\<lparr>arg_buf := Some p, arg_len := n, arg_value := Arg_address (Some sa),
          arg_extra := Arg_address_len salen, arg_flags := flags\<rparr>)"

definition adapter_get_milliseconds ::
  "'u platform \<Rightarrow> 'u CFunctionCallbackAdapter \<Rightarrow> nat option \<Rightarrow> 'u \<Rightarrow> u64 \<times> 'u" where
  "adapter_get_milliseconds P a s =
     answer (handler_of a UTP_GET_MILLISECONDS) (make_args a UTP_GET_MILLISECONDS s) (clock_milliseconds P)"

definition adapter_get_microseconds ::
  "'u platform \<Rightarrow> 'u CFunctionCallbackAdapter \<Rightarrow> nat option \<Rightarrow> 'u \<Rightarrow> u64 \<times> 'u" where
  "adapter_get_microseconds P a s =
     answer (handler_of a UTP_GET_MICROSECONDS) (make_args a UTP_GET_MICROSECONDS s) (clock_microseconds P)"

definition adapter_get_udp_mtu ::
  "'u CFunctionCallbackAdapter \<Rightarrow> nat option \<Rightarrow> sockaddr \<Rightarrow> u32 \<Rightarrow> 'u \<Rightarrow> u16 \<times> 'u" where
  "adapter_get_udp_mtu a s sa salen u =
     (let (v, u) = answer (handler_of a UTP_GET_UDP_MTU)
            ((make_args a UTP_GET_UDP_MTU s)\<lparr>arg_value := Arg_address (Some sa), arg_extra := Arg_address_len salen\<rparr>)
            (\<lambda>u. (ucast (default_udp_mtu sa), u)) u
      in (ucast v, u))"

definition adapter_get_udp_overhead ::
  "'u CFunctionCallbackAdapter \<Rightarrow> nat option \<Rightarrow> sockaddr \<Rightarrow> u32 \<Rightarrow> 'u \<Rightarrow> u16 \<times> 'u" where
  "adapter_get_udp_overhead a s sa salen u =
     (let (v, u) = answer (handler_of a UTP_GET_UDP_OVERHEAD)
            ((make_args a UTP_GET_UDP_OVERHEAD s)\<lparr>arg_value := Arg_address (Some sa), arg_extra := Arg_address_len salen\<rparr>)
            (\<lambda>u. (ucast (default_udp_overhead sa), u)) u
      in (ucast v, u))"

definition adapter_get_random ::
  "'u platform \<Rightarrow> 'u CFunctionCallbackAdapter \<Rightarrow> nat option \<Rightarrow> 'u \<Rightarrow> u32 \<times> 'u" where
  "adapter_get_random P a s u =
     (let (v, u) = answer (handler_of a UTP_GET_RANDOM) (make_args a UTP_GET_RANDOM s)
            (\<lambda>u. let (r, u) = std_rand P u in (ucast r, u)) u
      in (ucast v, u))"

definition adapter_get_read_buffer_size ::
  "'u CFunctionCallbackAdapter \<Rightarrow> nat option \<Rightarrow> 'u \<Rightarrow> u64 \<times> 'u" where
  "adapter_get_read_buffer_size a s =
     answer (handler_of a UTP_GET_READ_BUFFER_SIZE) (make_args a UTP_GET_READ_BUFFER_SIZE s)
       (\<lambda>u. (default_read_buffer_size, u))"

definition adapter_on_firewall :: "'u CFunctionCallbackAdapter \<Rightarrow> sockaddr \<Rightarrow> u32 \<Rightarrow> 'u \<Rightarrow> int \<times> 'u" where
  "adapter_on_firewall a sa salen u =
     (let (v, u) = answer (handler_of a UTP_ON_FIREWALL)
            ((make_args a UTP_ON_FIREWALL None)\<lparr>arg_value := Arg_address (Some sa), arg_extra := Arg_address_len salen\<rparr>)
            (\<lambda>u. (word_of_int default_on_firewall, u)) u
      in (sint (ucast v :: u32), u))"

definition adapter_on_accept ::
  "'u CFunctionCallbackAdapter \<Rightarrow> nat option \<Rightarrow> sockaddr \<Rightarrow> u32 \<Rightarrow> 'u \<Rightarrow> 'u" where
  "adapter_on_accept a s sa salen =
     notify (handler_of a UTP_ON_ACCEPT)
       ((make_args a UTP_ON_ACCEPT s)\<lparr>arg_value := Arg_address (Some sa), arg_extra := Arg_address_len salen\<rparr>)"

definition adapter_on_state_change :: "'u CFunctionCallbackAdapter \<Rightarrow> nat option \<Rightarrow> utp_state \<Rightarrow> 'u \<Rightarrow> 'u" where
  "adapter_on_state_change a s st =
     notify (handler_of a UTP_ON_STATE_CHANGE)
       ((make_args a UTP_ON_STATE_CHANGE s)\<lparr>arg_value := Arg_state (utp_state_number st)\<rparr>)"

text \<open>An application without \<open>UTP_ON_CONNECT\<close> is told of a connection as a change of state.\<close>

definition adapter_on_connect :: "'u CFunctionCallbackAdapter \<Rightarrow> nat option \<Rightarrow> 'u \<Rightarrow> 'u" where
  "adapter_on_connect a s =
     (if handler_of a UTP_ON_CONNECT = None then adapter_on_state_change a s UTP_STATE_CONNECT
      else notify (handler_of a UTP_ON_CONNECT) (make_args a UTP_ON_CONNECT s))"

definition adapter_on_error :: "'u CFunctionCallbackAdapter \<Rightarrow> nat option \<Rightarrow> utp_error \<Rightarrow> 'u \<Rightarrow> 'u" where
  "adapter_on_error a s e =
     notify (handler_of a UTP_ON_ERROR)
       ((make_args a UTP_ON_ERROR s)\<lparr>arg_value := Arg_error_code (utp_error_number e)\<rparr>)"

definition adapter_on_read :: "'u CFunctionCallbackAdapter \<Rightarrow> nat option \<Rightarrow> bytes \<Rightarrow> u64 \<Rightarrow> 'u \<Rightarrow> 'u" where
  "adapter_on_read a s p n =
     notify (handler_of a UTP_ON_READ) ((make_args a UTP_ON_READ s)\<lparr>arg_buf := Some p, arg_len := n\<rparr>)"

definition adapter_on_delay_sample :: "'u CFunctionCallbackAdapter \<Rightarrow> nat option \<Rightarrow> int \<Rightarrow> 'u \<Rightarrow> 'u" where
  "adapter_on_delay_sample a s ms =
     notify (handler_of a UTP_ON_DELAY_SAMPLE)
       ((make_args a UTP_ON_DELAY_SAMPLE s)\<lparr>arg_value := Arg_sample_ms ms\<rparr>)"

definition adapter_on_overhead_statistics ::
  "'u CFunctionCallbackAdapter \<Rightarrow> nat option \<Rightarrow> bool \<Rightarrow> u64 \<Rightarrow> BandwidthType \<Rightarrow> 'u \<Rightarrow> 'u" where
  "adapter_on_overhead_statistics a s dir n ty =
     notify (handler_of a UTP_ON_OVERHEAD_STATISTICS)
       ((make_args a UTP_ON_OVERHEAD_STATISTICS s)\<lparr>arg_value := Arg_send (if dir then 1 else 0), arg_len := n,
          arg_extra := Arg_type (bandwidth_number ty)\<rparr>)"

definition adapter_log :: "'u CFunctionCallbackAdapter \<Rightarrow> nat option \<Rightarrow> bytes \<Rightarrow> 'u \<Rightarrow> 'u" where
  "adapter_log a s msg = notify (handler_of a UTP_LOG) ((make_args a UTP_LOG s)\<lparr>arg_buf := Some msg\<rparr>)"

section \<open>The object of a context\<close>

text \<open>A context starts with the default object; the first registration of a C function replaces it.\<close>

datatype 'u UtpCallbacks = DefaultCallbacks | Adapter "'u CFunctionCallbackAdapter"

definition set_callback ::
  "nat \<Rightarrow> int \<Rightarrow> 'u utp_callback option \<Rightarrow> 'u UtpCallbacks \<Rightarrow> 'u UtpCallbacks option" where
  "set_callback c name proc cbs =
     do {
       let adapter = (case cbs of DefaultCallbacks \<Rightarrow> new_adapter c | Adapter a \<Rightarrow> a);
       a \<leftarrow> set_handler name proc adapter;
       Some (Adapter a)
     }"

text \<open>The forwarding functions: the virtual call of the context's object.\<close>

definition utp_call_on_firewall :: "'u UtpCallbacks \<Rightarrow> sockaddr \<Rightarrow> u32 \<Rightarrow> 'u \<Rightarrow> int \<times> 'u" where
  "utp_call_on_firewall cbs sa n u =
     (case cbs of DefaultCallbacks \<Rightarrow> (default_on_firewall, u) | Adapter a \<Rightarrow> adapter_on_firewall a sa n u)"

definition utp_call_on_accept :: "'u UtpCallbacks \<Rightarrow> nat option \<Rightarrow> sockaddr \<Rightarrow> u32 \<Rightarrow> 'u \<Rightarrow> 'u" where
  "utp_call_on_accept cbs s sa n =
     (case cbs of DefaultCallbacks \<Rightarrow> default_event | Adapter a \<Rightarrow> adapter_on_accept a s sa n)"

definition utp_call_on_connect :: "'u UtpCallbacks \<Rightarrow> nat option \<Rightarrow> 'u \<Rightarrow> 'u" where
  "utp_call_on_connect cbs s =
     (case cbs of DefaultCallbacks \<Rightarrow> default_event | Adapter a \<Rightarrow> adapter_on_connect a s)"

definition utp_call_on_error :: "'u UtpCallbacks \<Rightarrow> nat option \<Rightarrow> utp_error \<Rightarrow> 'u \<Rightarrow> 'u" where
  "utp_call_on_error cbs s e =
     (case cbs of DefaultCallbacks \<Rightarrow> default_event | Adapter a \<Rightarrow> adapter_on_error a s e)"

definition utp_call_on_read :: "'u UtpCallbacks \<Rightarrow> nat option \<Rightarrow> bytes \<Rightarrow> u64 \<Rightarrow> 'u \<Rightarrow> 'u" where
  "utp_call_on_read cbs s p n =
     (case cbs of DefaultCallbacks \<Rightarrow> default_event | Adapter a \<Rightarrow> adapter_on_read a s p n)"

definition utp_call_on_overhead_statistics ::
  "'u UtpCallbacks \<Rightarrow> nat option \<Rightarrow> int \<Rightarrow> u64 \<Rightarrow> BandwidthType \<Rightarrow> 'u \<Rightarrow> 'u" where
  "utp_call_on_overhead_statistics cbs s dir n ty =
     (case cbs of DefaultCallbacks \<Rightarrow> default_event
      | Adapter a \<Rightarrow> adapter_on_overhead_statistics a s (dir \<noteq> 0) n ty)"

definition utp_call_on_delay_sample :: "'u UtpCallbacks \<Rightarrow> nat option \<Rightarrow> int \<Rightarrow> 'u \<Rightarrow> 'u" where
  "utp_call_on_delay_sample cbs s ms =
     (case cbs of DefaultCallbacks \<Rightarrow> default_event | Adapter a \<Rightarrow> adapter_on_delay_sample a s ms)"

definition utp_call_on_state_change :: "'u UtpCallbacks \<Rightarrow> nat option \<Rightarrow> utp_state \<Rightarrow> 'u \<Rightarrow> 'u" where
  "utp_call_on_state_change cbs s st =
     (case cbs of DefaultCallbacks \<Rightarrow> default_event | Adapter a \<Rightarrow> adapter_on_state_change a s st)"

definition utp_call_get_udp_mtu ::
  "'u UtpCallbacks \<Rightarrow> nat option \<Rightarrow> sockaddr \<Rightarrow> u32 \<Rightarrow> 'u \<Rightarrow> u16 \<times> 'u" where
  "utp_call_get_udp_mtu cbs s sa n u =
     (case cbs of DefaultCallbacks \<Rightarrow> (default_udp_mtu sa, u) | Adapter a \<Rightarrow> adapter_get_udp_mtu a s sa n u)"

definition utp_call_get_udp_overhead ::
  "'u UtpCallbacks \<Rightarrow> nat option \<Rightarrow> sockaddr \<Rightarrow> u32 \<Rightarrow> 'u \<Rightarrow> u16 \<times> 'u" where
  "utp_call_get_udp_overhead cbs s sa n u =
     (case cbs of DefaultCallbacks \<Rightarrow> (default_udp_overhead sa, u)
      | Adapter a \<Rightarrow> adapter_get_udp_overhead a s sa n u)"

definition utp_call_get_milliseconds ::
  "'u platform \<Rightarrow> 'u UtpCallbacks \<Rightarrow> nat option \<Rightarrow> 'u \<Rightarrow> u64 \<times> 'u" where
  "utp_call_get_milliseconds P cbs s =
     (case cbs of DefaultCallbacks \<Rightarrow> clock_milliseconds P | Adapter a \<Rightarrow> adapter_get_milliseconds P a s)"

definition utp_call_get_microseconds ::
  "'u platform \<Rightarrow> 'u UtpCallbacks \<Rightarrow> nat option \<Rightarrow> 'u \<Rightarrow> u64 \<times> 'u" where
  "utp_call_get_microseconds P cbs s =
     (case cbs of DefaultCallbacks \<Rightarrow> clock_microseconds P | Adapter a \<Rightarrow> adapter_get_microseconds P a s)"

definition utp_call_get_random ::
  "'u platform \<Rightarrow> 'u UtpCallbacks \<Rightarrow> nat option \<Rightarrow> 'u \<Rightarrow> u32 \<times> 'u" where
  "utp_call_get_random P cbs s =
     (case cbs of DefaultCallbacks \<Rightarrow> std_rand P | Adapter a \<Rightarrow> adapter_get_random P a s)"

definition utp_call_get_read_buffer_size :: "'u UtpCallbacks \<Rightarrow> nat option \<Rightarrow> 'u \<Rightarrow> u64 \<times> 'u" where
  "utp_call_get_read_buffer_size cbs s u =
     (case cbs of DefaultCallbacks \<Rightarrow> (default_read_buffer_size, u)
      | Adapter a \<Rightarrow> adapter_get_read_buffer_size a s u)"

definition utp_call_log :: "'u UtpCallbacks \<Rightarrow> nat option \<Rightarrow> bytes \<Rightarrow> 'u \<Rightarrow> 'u" where
  "utp_call_log cbs s msg =
     (case cbs of DefaultCallbacks \<Rightarrow> default_event | Adapter a \<Rightarrow> adapter_log a s msg)"

definition utp_call_sendto ::
  "bool \<Rightarrow> 'u UtpCallbacks \<Rightarrow> bytes \<Rightarrow> u64 \<Rightarrow> sockaddr \<Rightarrow> u32 \<Rightarrow> u32 \<Rightarrow> 'u \<Rightarrow> 'u option" where
  "utp_call_sendto nd cbs p n sa salen flags u =
     (case cbs of DefaultCallbacks \<Rightarrow> default_sendto nd u
      | Adapter a \<Rightarrow> Some (adapter_sendto a p n sa salen flags u))"

section \<open>The events of the other components, delivered\<close>

definition sockaddr_len :: "sockaddr \<Rightarrow> u32" where
  "sockaddr_len sa =
     (case sa of Sockaddr_in _ _ \<Rightarrow> SIZEOF_SOCKADDR_IN | Sockaddr_in6 _ _ _ _ \<Rightarrow> SIZEOF_SOCKADDR_IN6)"

definition deliver_event :: "bool \<Rightarrow> 'u UtpCallbacks \<Rightarrow> event \<Rightarrow> 'u \<Rightarrow> 'u option" where
  "deliver_event nd cbs ev u =
     (case ev of
        Ev_sendto p sa flags \<Rightarrow>
          utp_call_sendto nd cbs p (of_nat (length p)) sa (sockaddr_len sa) flags u
      | Ev_on_overhead_statistics s dir n ty \<Rightarrow>
          Some (utp_call_on_overhead_statistics cbs (Some s) (if dir then 1 else 0) n ty u)
      | Ev_on_read s p \<Rightarrow> Some (utp_call_on_read cbs (Some s) p (of_nat (length p)) u)
      | Ev_on_state_change s st \<Rightarrow> Some (utp_call_on_state_change cbs (Some s) st u)
      | Ev_on_connect s \<Rightarrow> Some (utp_call_on_connect cbs (Some s) u)
      | Ev_on_error s e \<Rightarrow> Some (utp_call_on_error cbs (Some s) e u)
      | Ev_on_delay_sample s ms \<Rightarrow> Some (utp_call_on_delay_sample cbs (Some s) ms u)
      | Ev_on_accept s sa \<Rightarrow> Some (utp_call_on_accept cbs (Some s) sa (sockaddr_len sa) u))"

text \<open>The callback an event belongs to, and the arguments \<^verbatim>\<open>include/utp.h\<close> promises for it.\<close>

fun event_name :: "event \<Rightarrow> callback_name" where
  "event_name (Ev_sendto p sa f) = UTP_SENDTO"
| "event_name (Ev_on_overhead_statistics s dir n ty) = UTP_ON_OVERHEAD_STATISTICS"
| "event_name (Ev_on_read s p) = UTP_ON_READ"
| "event_name (Ev_on_state_change s st) = UTP_ON_STATE_CHANGE"
| "event_name (Ev_on_connect s) = UTP_ON_CONNECT"
| "event_name (Ev_on_error s e) = UTP_ON_ERROR"
| "event_name (Ev_on_delay_sample s ms) = UTP_ON_DELAY_SAMPLE"
| "event_name (Ev_on_accept s sa) = UTP_ON_ACCEPT"

fun event_socket :: "event \<Rightarrow> nat option" where
  "event_socket (Ev_sendto p sa f) = None"
| "event_socket (Ev_on_overhead_statistics s dir n ty) = Some s"
| "event_socket (Ev_on_read s p) = Some s"
| "event_socket (Ev_on_state_change s st) = Some s"
| "event_socket (Ev_on_connect s) = Some s"
| "event_socket (Ev_on_error s e) = Some s"
| "event_socket (Ev_on_delay_sample s ms) = Some s"
| "event_socket (Ev_on_accept s sa) = Some s"

fun event_data :: "event \<Rightarrow> bytes option" where
  "event_data (Ev_sendto p sa f) = Some p"
| "event_data (Ev_on_read s p) = Some p"
| "event_data _ = None"

fun event_value :: "event \<Rightarrow> arg_value" where
  "event_value (Ev_sendto p sa f) = Arg_address (Some sa)"
| "event_value (Ev_on_overhead_statistics s dir n ty) = Arg_send (if dir then 1 else 0)"
| "event_value (Ev_on_read s p) = Arg_address None"
| "event_value (Ev_on_state_change s st) = Arg_state (utp_state_number st)"
| "event_value (Ev_on_connect s) = Arg_address None"
| "event_value (Ev_on_error s e) = Arg_error_code (utp_error_number e)"
| "event_value (Ev_on_delay_sample s ms) = Arg_sample_ms ms"
| "event_value (Ev_on_accept s sa) = Arg_address (Some sa)"

fun event_len :: "event \<Rightarrow> u64" where
  "event_len (Ev_sendto p sa f) = of_nat (length p)"
| "event_len (Ev_on_overhead_statistics s dir n ty) = n"
| "event_len (Ev_on_read s p) = of_nat (length p)"
| "event_len _ = 0"

fun event_extra :: "event \<Rightarrow> arg_extra" where
  "event_extra (Ev_sendto p sa f) = Arg_address_len (sockaddr_len sa)"
| "event_extra (Ev_on_overhead_statistics s dir n ty) = Arg_type (bandwidth_number ty)"
| "event_extra (Ev_on_accept s sa) = Arg_address_len (sockaddr_len sa)"
| "event_extra _ = Arg_address_len 0"

definition event_args :: "nat \<Rightarrow> event \<Rightarrow> utp_callback_arguments" where
  "event_args c ev =
     \<lparr>arg_context = c, arg_socket = event_socket ev, arg_len = event_len ev,
      arg_flags = (case ev of Ev_sendto _ _ flags \<Rightarrow> flags | _ \<Rightarrow> 0), arg_callback_type = event_name ev,
      arg_buf = event_data ev, arg_value = event_value ev, arg_extra = event_extra ev\<rparr>"

lemmas adapter_defs = adapter_sendto_def adapter_on_accept_def adapter_on_state_change_def
  adapter_on_error_def adapter_on_read_def adapter_on_delay_sample_def adapter_on_overhead_statistics_def

lemmas call_defs = utp_call_sendto_def utp_call_on_accept_def utp_call_on_state_change_def utp_call_on_error_def
  utp_call_on_read_def utp_call_on_delay_sample_def utp_call_on_overhead_statistics_def utp_call_on_connect_def

lemma handlers_new [simp]: "length (handlers (new_adapter c)) = UTP_ARRAY_SIZE" "adapter_ctx (new_adapter c) = c"
  by (simp_all add: new_adapter_def)

lemma callback_number_less: "callback_number c < UTP_ARRAY_SIZE"
  by (cases c) (simp_all add: UTP_ARRAY_SIZE_def)

lemma callback_number_inj: "callback_number c = callback_number d \<longleftrightarrow> c = d"
  by (cases c; cases d) simp_all

text \<open>The table behaves as a map from names to handlers.\<close>

locale callback_table =
  fixes wf :: "'t \<Rightarrow> bool" and lookup :: "'t \<Rightarrow> 'k \<Rightarrow> 'f option" and register :: "'k \<Rightarrow> 'f option \<Rightarrow> 't \<Rightarrow> 't option"
  assumes register_law: "wf t \<Longrightarrow>
    \<exists>t'. register k f t = Some t' \<and> wf t' \<and> lookup t' = (lookup t)(k := f)"
begin

primrec register_all :: "('k \<times> 'f option) list \<Rightarrow> 't \<Rightarrow> 't option" where
  "register_all [] t = Some t"
| "register_all (kf # kfs) t = register (fst kf) (snd kf) t \<bind> register_all kfs"

lemma register_all_law:
  "wf t \<Longrightarrow> \<exists>t'. register_all kfs t = Some t' \<and> wf t' \<and> lookup t' = fold (\<lambda>kf m. m(fst kf := snd kf)) kfs (lookup t)"
proof (induction kfs arbitrary: t)
  case (Cons kf kfs)
  obtain t1 where "register (fst kf) (snd kf) t = Some t1" "wf t1" "lookup t1 = (lookup t)(fst kf := snd kf)"
    using register_law [OF Cons.prems] by blast
  then show ?case using Cons.IH [of t1] by simp
qed simp

end

definition adapter_wf :: "'u CFunctionCallbackAdapter \<Rightarrow> bool" where
  "adapter_wf a \<longleftrightarrow> length (handlers a) = UTP_ARRAY_SIZE"

interpretation cbt: callback_table adapter_wf handler_of "\<lambda>c. set_handler (int (callback_number c))"
proof
  fix a :: "'u CFunctionCallbackAdapter" and c f
  assume "adapter_wf a"
  then show "\<exists>a'. set_handler (int (callback_number c)) f a = Some a' \<and> adapter_wf a' \<and>
      handler_of a' = (handler_of a)(c := f)"
    using callback_number_less by (auto simp: set_handler_def adapter_wf_def handler_of_def fun_eq_iff
        nth_list_update callback_number_inj)
qed

section \<open>Properties\<close>

definition callbacks_wf :: "nat \<Rightarrow> 'u UtpCallbacks \<Rightarrow> bool" where
  "callbacks_wf c cbs \<longleftrightarrow> (case cbs of DefaultCallbacks \<Rightarrow> True | Adapter a \<Rightarrow> adapter_wf a \<and> adapter_ctx a = c)"

lemma set_callback_law:
  assumes "callbacks_wf c cbs"
  obtains a where "set_callback c (int (callback_number n)) f cbs = Some (Adapter a)" and "callbacks_wf c (Adapter a)"
    and "handler_of a n = f" and "\<And>b m. cbs = Adapter b \<Longrightarrow> m \<noteq> n \<Longrightarrow> handler_of a m = handler_of b m"
proof -
  define b where "b = (case cbs of DefaultCallbacks \<Rightarrow> new_adapter c | Adapter b \<Rightarrow> b)"
  have "adapter_wf b" and c: "adapter_ctx b = c"
    using assms by (auto simp: b_def callbacks_wf_def adapter_wf_def split: UtpCallbacks.splits)
  then obtain a where a: "set_handler (int (callback_number n)) f b = Some a" "adapter_wf a" "handler_of a = (handler_of b)(n := f)"
    using cbt.register_law by blast
  have "adapter_ctx a = c" using a(1) c by (auto simp: set_handler_def bind_eq_Some_conv)
  then show thesis
    using a by (intro that [of a]) (auto simp: set_callback_def b_def callbacks_wf_def)
qed

lemma deliver_to_handler:
  assumes "handler_of a (event_name ev) = Some f" and "adapter_ctx a = c"
  shows "deliver_event nd (Adapter a) ev u = Some (snd (f (event_args c ev) u))"
  using assms
  by (cases ev) (auto simp: deliver_event_def call_defs adapter_defs adapter_on_connect_def notify_def event_args_def make_args_def)

lemma deliver_other:
  assumes "handler_of a (event_name ev) = handler_of b (event_name ev)" and "adapter_ctx a = adapter_ctx b"
    and "event_name ev = UTP_ON_CONNECT \<Longrightarrow> handler_of a UTP_ON_STATE_CHANGE = handler_of b UTP_ON_STATE_CHANGE"
  shows "deliver_event nd (Adapter a) ev u = deliver_event nd (Adapter b) ev u"
  using assms
  by (cases ev) (simp_all add: deliver_event_def call_defs adapter_defs adapter_on_connect_def make_args_def)



end
