(* ===== verification/C_Api.thy ===== *)
theory C_Api
  imports Utp_Context Callbacks Parse_Correct
begin

text \<open>
  The C interface of the library, \<^verbatim>\<open>src/utp_api.cpp\<close>: each function checks its pointers (an assertion
  in a debug build, an error value otherwise) and calls the operation of the context or the socket.
  A pointer that may be null is an option; the context is the one whose \<open>world\<close> the function works
  on, so a pointer to it carries no more than being null or not. An array of I/O vectors is the
  list of the buffers.
\<close>

section \<open>Null checks\<close>

type_synonym context_ptr = "unit option"
type_synonym socket_ptr = "nat option"

definition non_null :: "bool \<Rightarrow> 'p option \<Rightarrow> 'r \<Rightarrow> ('p \<Rightarrow> 'r option) \<Rightarrow> 'r option" where
  "non_null nd p fail k =
     do {
       c_assert nd (p \<noteq> None);
       case p of None \<Rightarrow> Some fail | Some x \<Rightarrow> k x
     }"

lemma non_null_simps [simp]:
  "non_null nd (Some x) r k = k x"
  "non_null nd None r k = (if nd then Some r else None)"
  by (simp_all add: non_null_def c_assert_def)

section \<open>The tables of names\<close>

definition utp_callback_names :: "string list" where
  "utp_callback_names =
     [''UTP_ON_FIREWALL'', ''UTP_ON_ACCEPT'', ''UTP_ON_CONNECT'', ''UTP_ON_ERROR'', ''UTP_ON_READ'',
      ''UTP_ON_OVERHEAD_STATISTICS'', ''UTP_ON_STATE_CHANGE'', ''UTP_GET_READ_BUFFER_SIZE'',
      ''UTP_ON_DELAY_SAMPLE'', ''UTP_GET_UDP_MTU'', ''UTP_GET_UDP_OVERHEAD'', ''UTP_GET_MILLISECONDS'',
      ''UTP_GET_MICROSECONDS'', ''UTP_GET_RANDOM'', ''UTP_LOG'', ''UTP_SENDTO'']"

definition utp_error_code_names :: "string list" where
  "utp_error_code_names = [''UTP_ECONNREFUSED'', ''UTP_ECONNRESET'', ''UTP_ETIMEDOUT'']"

definition utp_state_names :: "string option list" where
  "utp_state_names = [None, Some ''UTP_STATE_CONNECT'', Some ''UTP_STATE_WRITABLE'', Some ''UTP_STATE_EOF'',
     Some ''UTP_STATE_DESTROYING'']"

section \<open>The context\<close>

text \<open>What the interface adds to a context: its callbacks and the pointers the application stores.\<close>

record 'u utp_context =
  uc_world :: world
  uc_callbacks :: "'u UtpCallbacks"
  uc_userdata :: "nat option"
  uc_socket_userdata :: "nat \<Rightarrow> nat option"

definition utp_init :: "bool \<Rightarrow> int \<Rightarrow> 'u utp_context option option" where
  "utp_init nd version =
     do {
       c_assert nd (version = 2);
       Some (if version \<noteq> 2 then None
             else Some \<lparr>uc_world = new_world, uc_callbacks = DefaultCallbacks, uc_userdata = None,
                        uc_socket_userdata = (\<lambda>_. None)\<rparr>)
     }"

definition utp_destroy :: "env \<Rightarrow> (nat list \<Rightarrow> nat list) \<Rightarrow> context_ptr \<Rightarrow> world \<Rightarrow> world option" where
  "utp_destroy E order c w = non_null (ndebug (bld E)) c w (\<lambda>_. delete_context E order w)"

definition utp_set_callback ::
  "bool \<Rightarrow> nat option \<Rightarrow> int \<Rightarrow> 'u utp_callback option \<Rightarrow> 'u utp_context \<Rightarrow> 'u utp_context option" where
  "utp_set_callback nd c name proc lib =
     non_null nd c lib (\<lambda>me. do {
       cbs \<leftarrow> set_callback me name proc (uc_callbacks lib);
       Some (lib\<lparr>uc_callbacks := cbs\<rparr>)
     })"

definition utp_context_set_userdata ::
  "bool \<Rightarrow> context_ptr \<Rightarrow> nat option \<Rightarrow> 'u utp_context \<Rightarrow> (nat option \<times> 'u utp_context) option" where
  "utp_context_set_userdata nd c userdata lib =
     non_null nd c (None, lib) (\<lambda>_. (let lib = lib\<lparr>uc_userdata := userdata\<rparr> in Some (uc_userdata lib, lib)))"

definition utp_context_get_userdata :: "bool \<Rightarrow> context_ptr \<Rightarrow> 'u utp_context \<Rightarrow> nat option option" where
  "utp_context_get_userdata nd c lib = non_null nd c None (\<lambda>_. Some (uc_userdata lib))"

definition utp_get_context_stats :: "bool \<Rightarrow> context_ptr \<Rightarrow> world \<Rightarrow> (u32 list \<times> u32 list) option option" where
  "utp_get_context_stats nd c w =
     non_null nd c None (\<lambda>_. Some (Some (nraw_recv (ctx w), nraw_send (ctx w))))"

text \<open>The numbers of the options in the enumeration.\<close>

definition option_of :: "int \<Rightarrow> utp_option" where
  "option_of opt =
     (if opt = 16 then UTP_LOG_NORMAL else if opt = 17 then UTP_LOG_MTU else if opt = 18 then UTP_LOG_DEBUG
      else if opt = 19 then UTP_SNDBUF else if opt = 20 then UTP_RCVBUF else if opt = 21 then UTP_TARGET_DELAY
      else UTP_other_option opt)"

definition utp_context_set_option :: "env \<Rightarrow> context_ptr \<Rightarrow> int \<Rightarrow> int \<Rightarrow> world \<Rightarrow> (int \<times> world) option" where
  "utp_context_set_option E c opt val w =
     non_null (ndebug (bld E)) c (- 1, w) (\<lambda>_. do {
       (r, h) \<leftarrow> context_set_option (ndebug (bld E)) (option_of opt) val (ctx w);
       Some (r, w\<lparr>ctx := h\<rparr>)
     })"

definition utp_context_get_option :: "env \<Rightarrow> context_ptr \<Rightarrow> int \<Rightarrow> world \<Rightarrow> int option" where
  "utp_context_get_option E c opt w =
     non_null (ndebug (bld E)) c (- 1) (\<lambda>_. Some (context_get_option (option_of opt) (ctx w)))"

section \<open>Sockets\<close>

definition utp_create_socket :: "env \<Rightarrow> context_ptr \<Rightarrow> world \<Rightarrow> (socket_ptr \<times> world) option" where
  "utp_create_socket E c w =
     non_null (ndebug (bld E)) c (None, w) (\<lambda>_. (let (n, w) = create_socket w in Some (Some n, w)))"

definition utp_connect :: "env \<Rightarrow> socket_ptr \<Rightarrow> sockaddr \<Rightarrow> u32 \<Rightarrow> world \<Rightarrow> (int \<times> world) option" where
  "utp_connect E s to tolen w =
     non_null (ndebug (bld E)) s (- 1, w) (\<lambda>n. on_socket n (socket_connect E to tolen) w)"

definition utp_close :: "env \<Rightarrow> socket_ptr \<Rightarrow> world \<Rightarrow> world option" where
  "utp_close E s w =
     non_null (ndebug (bld E)) s w (\<lambda>n. map_option snd (on_socket n (no_result (socket_close E)) w))"

definition utp_shutdown :: "env \<Rightarrow> socket_ptr \<Rightarrow> shutdown_how \<Rightarrow> world \<Rightarrow> world option" where
  "utp_shutdown E s how w =
     non_null (ndebug (bld E)) s w (\<lambda>n. map_option snd (on_socket n (no_result (socket_shutdown E how)) w))"

text \<open>The result is a \<open>size_t\<close> returned as a \<open>ssize_t\<close>.\<close>

definition utp_writev :: "env \<Rightarrow> socket_ptr \<Rightarrow> bytes list option \<Rightarrow> world \<Rightarrow> (int \<times> world) option" where
  "utp_writev E s iovec_input w =
     non_null (ndebug (bld E)) s (- 1, w) (\<lambda>n.
       non_null (ndebug (bld E)) iovec_input (- 1, w) (\<lambda>iovec. do {
         c_assert (ndebug (bld E)) (iovec \<noteq> []);
         if iovec = [] then Some (- 1, w)
         else do {
           (sent, w) \<leftarrow> on_socket n (writev E iovec) w;
           Some (sint sent, w)
         }
       }))"

definition utp_write :: "env \<Rightarrow> socket_ptr \<Rightarrow> bytes \<Rightarrow> world \<Rightarrow> (int \<times> world) option" where
  "utp_write E s buf w = utp_writev E s (Some [buf]) w"

definition utp_read_drained :: "env \<Rightarrow> socket_ptr \<Rightarrow> world \<Rightarrow> world option" where
  "utp_read_drained E s w =
     non_null (ndebug (bld E)) s w (\<lambda>n. map_option snd (on_socket n (no_result (read_drained E)) w))"

definition utp_issue_deferred_acks :: "env \<Rightarrow> context_ptr \<Rightarrow> world \<Rightarrow> world option" where
  "utp_issue_deferred_acks E c w = non_null (ndebug (bld E)) c w (\<lambda>_. issue_deferred_acks E w)"

definition utp_check_timeouts :: "env \<Rightarrow> (nat list \<Rightarrow> nat list) \<Rightarrow> context_ptr \<Rightarrow> world \<Rightarrow> world option" where
  "utp_check_timeouts E order c w = non_null (ndebug (bld E)) c w (\<lambda>_. context_check_timeouts E order w)"

definition utp_setsockopt :: "env \<Rightarrow> socket_ptr \<Rightarrow> int \<Rightarrow> int \<Rightarrow> world \<Rightarrow> (int \<times> world) option" where
  "utp_setsockopt E s opt val w =
     non_null (ndebug (bld E)) s (- 1, w) (\<lambda>n.
       on_socket n (\<lambda>h s. do {
         (r, s) \<leftarrow> socket_set_option (ndebug (bld E)) (option_of opt) val s;
         Some (r, h, s)
       }) w)"

definition utp_getsockopt :: "env \<Rightarrow> socket_ptr \<Rightarrow> int \<Rightarrow> world \<Rightarrow> int option" where
  "utp_getsockopt E s opt w =
     non_null (ndebug (bld E)) s (- 1) (\<lambda>n. do {
       s \<leftarrow> heap w n;
       Some (socket_get_option (option_of opt) s)
     })"

definition utp_getpeername ::
  "env \<Rightarrow> socket_ptr \<Rightarrow> unit option \<Rightarrow> u32 option \<Rightarrow> world \<Rightarrow> (int \<times> (sockaddr \<times> u32) option) option" where
  "utp_getpeername E s address addrlen w =
     non_null (ndebug (bld E)) address (- 1, None) (\<lambda>_.
       non_null (ndebug (bld E)) addrlen (- 1, None) (\<lambda>len.
         non_null (ndebug (bld E)) s (- 1, None) (\<lambda>n. do {
           s \<leftarrow> heap w n;
           get_peername E len s
         })))"

definition utp_get_delays :: "env \<Rightarrow> socket_ptr \<Rightarrow> world \<Rightarrow> (int \<times> u32 \<times> u32 \<times> u32) option" where
  "utp_get_delays E s w =
     non_null (ndebug (bld E)) s (- 1, 0, 0, 0) (\<lambda>n. do {
       s \<leftarrow> heap w n;
       get_delays E (ctx w) s
     })"

definition utp_get_context :: "bool \<Rightarrow> socket_ptr \<Rightarrow> context_ptr option" where
  "utp_get_context nd s = non_null nd s None (\<lambda>_. Some (Some ()))"

definition utp_set_userdata ::
  "bool \<Rightarrow> socket_ptr \<Rightarrow> nat option \<Rightarrow> 'u utp_context \<Rightarrow> (nat option \<times> 'u utp_context) option" where
  "utp_set_userdata nd s userdata lib =
     non_null nd s (None, lib) (\<lambda>n.
       (let lib = lib\<lparr>uc_socket_userdata := (uc_socket_userdata lib)(n := userdata)\<rparr>
        in Some (uc_socket_userdata lib n, lib)))"

definition utp_get_userdata :: "bool \<Rightarrow> socket_ptr \<Rightarrow> 'u utp_context \<Rightarrow> nat option option" where
  "utp_get_userdata nd s lib = non_null nd s None (\<lambda>n. Some (uc_socket_userdata lib n))"

text \<open>The statistics of a socket are kept in \<open>_DEBUG\<close> builds only; the builds modelled answer \<open>NULL\<close>.\<close>

definition utp_get_stats :: "bool \<Rightarrow> socket_ptr \<Rightarrow> unit option option" where
  "utp_get_stats nd s = non_null nd s None (\<lambda>_. Some None)"

section \<open>Input\<close>

definition utp_process_udp ::
  "env \<Rightarrow> context_ptr \<Rightarrow> bytes \<Rightarrow> sockaddr \<Rightarrow> u32 \<Rightarrow> world \<Rightarrow> (int \<times> world) option" where
  "utp_process_udp E c buf to tolen w =
     non_null (ndebug (bld E)) c (0, w) (\<lambda>_. process_udp E buf to tolen w)"

definition utp_process_icmp_fragmentation ::
  "env \<Rightarrow> context_ptr \<Rightarrow> bytes \<Rightarrow> sockaddr \<Rightarrow> u32 \<Rightarrow> u16 \<Rightarrow> world \<Rightarrow> (int \<times> world) option" where
  "utp_process_icmp_fragmentation E c buffer to tolen next_hop_mtu w =
     non_null (ndebug (bld E)) c (0, w) (\<lambda>_. process_icmp_fragmentation E buffer to tolen next_hop_mtu w)"

definition utp_process_icmp_error ::
  "env \<Rightarrow> context_ptr \<Rightarrow> bytes \<Rightarrow> sockaddr \<Rightarrow> u32 \<Rightarrow> world \<Rightarrow> (int \<times> world) option" where
  "utp_process_icmp_error E c buffer to tolen w =
     non_null (ndebug (bld E)) c (0, w) (\<lambda>_. process_icmp_error E buffer to tolen w)"

section \<open>Properties\<close>

lemma int_of_size_of_int: "0 \<le> v \<Longrightarrow> v < 2 ^ 31 \<Longrightarrow> int_of_size (word_of_int v) = v"
  using to_i32_small [of v] by (simp add: int_of_size_def uint_word_of_int)

lemma option_of_inj: "option_of a = option_of b \<longleftrightarrow> a = b"
  by (simp add: option_of_def)

text \<open>What a socket or a context answers after an option was set.\<close>

lemma socket_set_get:
  assumes "1 \<le> v" and "v < 2 ^ 31" and "opt \<in> {UTP_SNDBUF, UTP_RCVBUF, UTP_TARGET_DELAY}"
  obtains s' where "socket_set_option nd opt v s = Some (0, s')" and "socket_get_option opt s' = v"
    and "\<And>opt'. opt' \<noteq> opt \<Longrightarrow> socket_get_option opt' s' = socket_get_option opt' s"
proof -
  have v: "int_of_size (word_of_int v) = v" using assms(1,2) by (intro int_of_size_of_int) simp_all
  have a: "c_assert nd (1 \<le> v) = Some ()" using assms(1) by simp
  from assms(3) consider "opt = UTP_SNDBUF" | "opt = UTP_RCVBUF" | "opt = UTP_TARGET_DELAY" by blast
  then show thesis
    by cases (rule that, simp add: socket_set_option_def a, simp add: socket_get_option_def set_defs v,
      simp add: socket_get_option_def set_defs split: utp_option.split)+
qed

lemma socket_set_refused:
  "opt \<notin> {UTP_SNDBUF, UTP_RCVBUF, UTP_TARGET_DELAY} \<Longrightarrow> socket_set_option nd opt v s = Some (- 1, s)"
  by (simp add: socket_set_option_def split: utp_option.split)

lemma context_set_get:
  assumes "1 \<le> v" and "v < 2 ^ 31" and "opt \<in> {UTP_SNDBUF, UTP_RCVBUF, UTP_TARGET_DELAY}"
  obtains h' where "context_set_option nd opt v h = Some (0, h')" and "context_get_option opt h' = v"
    and "\<And>n. socket_get_option opt (new_UtpSocket n h') = v"
proof -
  have v: "int_of_size (word_of_int v) = v" using assms(1,2) by (intro int_of_size_of_int) simp_all
  have a: "c_assert nd (1 \<le> v) = Some ()" using assms(1) by simp
  from assms(3) consider "opt = UTP_SNDBUF" | "opt = UTP_RCVBUF" | "opt = UTP_TARGET_DELAY" by blast
  then show thesis
    by cases (rule that, simp add: context_set_option_def a, simp add: context_get_option_def v,
      simp add: socket_get_option_def new_UtpSocket_def v)+
qed

lemma new_socket_options: "socket_get_option opt (new_UtpSocket n (h\<lparr>ack_index := f\<rparr>)) = socket_get_option opt (new_UtpSocket n h)"
  by (simp add: socket_get_option_def new_UtpSocket_def)

text \<open>
  Socket options are a memory of three cells. Setting the send buffer, the receive buffer or the target
  delay of a socket to a positive value returns 0 and is read back, the other options, the other
  sockets and the context are as before; any other number is refused with -1 and changes nothing.
\<close>

theorem socket_option_cells:
  assumes "heap w n = Some s" and "1 \<le> v" and "v < 2 ^ 31"
  shows "if opt \<in> {19, 20, 21}
    then \<exists>w'. utp_setsockopt E (Some n) opt v w = Some (0, w') \<and> utp_getsockopt E (Some n) opt w' = Some v \<and>
      (\<forall>opt'. opt' \<noteq> opt \<longrightarrow> utp_getsockopt E (Some n) opt' w' = utp_getsockopt E (Some n) opt' w) \<and>
      (\<forall>m. m \<noteq> n \<longrightarrow> heap w' m = heap w m) \<and> ctx w' = ctx w
    else utp_setsockopt E (Some n) opt v w = Some (- 1, w)"
proof (cases "opt \<in> {19, 20, 21}")
  case True
  then have "option_of opt \<in> {UTP_SNDBUF, UTP_RCVBUF, UTP_TARGET_DELAY}" by (auto simp: option_of_def)
  from socket_set_get [OF assms(2,3) this, of "ndebug (bld E)" s] obtain s' where
    s': "socket_set_option (ndebug (bld E)) (option_of opt) v s = Some (0, s')" "socket_get_option (option_of opt) s' = v"
    "\<And>opt'. opt' \<noteq> option_of opt \<Longrightarrow> socket_get_option opt' s' = socket_get_option opt' s" by blast
  then show ?thesis using assms(1) True by (simp add: utp_setsockopt_def utp_getsockopt_def on_socket_def option_of_inj)
next
  case False
  then have "option_of opt \<notin> {UTP_SNDBUF, UTP_RCVBUF, UTP_TARGET_DELAY}" by (auto simp: option_of_def split: if_splits)
  then have "socket_set_option (ndebug (bld E)) (option_of opt) v s = Some (- 1, s)" by (rule socket_set_refused)
  moreover have "w\<lparr>ctx := ctx w, heap := heap w\<rparr> = w" by simp
  ultimately show ?thesis using assms(1) False by (simp add: utp_setsockopt_def on_socket_def fun_upd_idem)
qed

theorem socket_option_cells_witness:
  "\<exists>w'. utp_setsockopt sample_env (Some 0) 20 4096 (snd (create_socket new_world)) = Some (0, w') \<and>
     utp_getsockopt sample_env (Some 0) 20 w' = Some 4096"
  using socket_option_cells [of "snd (create_socket new_world)" 0 _ 4096 20 sample_env]
  by (auto simp: create_socket_def new_world_def Let_def)

text \<open>
  A socket starts with the options of its context: after the send buffer, the receive buffer or the target
  delay of a context was set, the context answers with the value and so does every socket created
  from then on.
\<close>

theorem context_option_inherited:
  assumes "1 \<le> v" and "v < 2 ^ 31" and "opt \<in> {19, 20, 21}"
  shows "\<exists>w1. utp_context_set_option E (Some ()) opt v w = Some (0, w1) \<and>
    utp_context_get_option E (Some ()) opt w1 = Some v \<and>
    (\<exists>n w2. utp_create_socket E (Some ()) w1 = Some (Some n, w2) \<and> utp_getsockopt E (Some n) opt w2 = Some v)"
proof -
  have "option_of opt \<in> {UTP_SNDBUF, UTP_RCVBUF, UTP_TARGET_DELAY}" using assms(3) by (auto simp: option_of_def)
  from context_set_get [OF assms(1,2) this, of "ndebug (bld E)" "ctx w"] obtain h' where
    "context_set_option (ndebug (bld E)) (option_of opt) v (ctx w) = Some (0, h')"
    "context_get_option (option_of opt) h' = v" "\<And>n. socket_get_option (option_of opt) (new_UtpSocket n h') = v" by blast
  then show ?thesis
    by (simp add: utp_context_set_option_def utp_context_get_option_def utp_create_socket_def utp_getsockopt_def
        create_socket_def Let_def new_socket_options)
qed

theorem context_option_inherited_witness:
  "\<exists>w1. utp_context_set_option sample_env (Some ()) 19 4096 new_world = Some (0, w1) \<and>
     utp_context_get_option sample_env (Some ()) 19 w1 = Some 4096"
  using context_option_inherited [of 4096 19 sample_env new_world] by auto

end
