(* ===== verification/Context_Correct.thy ===== *)
theory Context_Correct
  imports Connection_Life C_Api "HOL-Library.Multiset"
begin

text \<open>
  Properties of the context: the deferred acknowledgements, the cache in front of the registry, the list of
  answered resets, and writing through the C interface.
\<close>

section \<open>Sockets and the context they are registered with\<close>

text \<open>Every socket knows its own number, the deferred-ACK list names sockets that exist.\<close>

definition world_ok :: "env \<Rightarrow> world \<Rightarrow> bool" where
  "world_ok E w \<longleftrightarrow> host_ok E (ctx w) \<and>
     (\<forall>n s. heap w n = Some s \<longrightarrow> self s = n \<and> recv_wf (recv s)) \<and> (\<forall>n \<in> ack_pending (ctx w). heap w n \<noteq> None)"

section \<open>Deferred acknowledgements\<close>

lemma send_ack_on_socket:
  assumes w: "world_ok E w" and n: "n \<in> ack_pending (ctx w)"
  obtains w' where "on_socket n (no_result (send_ack E False)) w = Some ((), w')" and "world_ok E w'"
    and "ack_pending (ctx w') = ack_pending (ctx w) - {n}" and "dom (heap w') = dom (heap w)"
    and "\<exists>ev b sa. events (ctx w') = events (ctx w) @ [ev, Ev_sendto b sa 0]"
proof -
  obtain s where s: "heap w n = Some s" "self s = n" "recv_wf (recv s)" using w n by (auto simp: world_ok_def)
  have ok: "host_ok E (ctx w)" using w by (simp add: world_ok_def)
  have g: "sb_get (ucast (ack_nr (recv s)) + 1) (inbuf (recv s)) = None" if "\<not> got_fin_reached (recv s)"
  proof -
    have k: "recv_ok (recv s)" using s(3) that by (simp add: recv_wf_def)
    then have "0 < sb_slots (inbuf (recv s))" using slots_pos [of "inbuf (recv s)"] by (simp add: recv_ok_def)
    then show ?thesis using k by (simp add: recv_ok_def waiting_def sb_view_def)
  qed
  obtain h' s' win v ty b where a: "send_ack E False (ctx w) s = Some (h', s')"
    "s' = s\<lparr>recv := (recv s)\<lparr>last_rcv_win := win\<rparr>, timing := (timing s)\<lparr>last_sent_packet := current_ms (ctx w)\<rparr>\<rparr>"
    "events h' = events (ctx w) @ [Ev_on_overhead_statistics (self s) True v ty, Ev_sendto b (peer E s) 0]"
    "host_ok E h'" "ack_pending h' = ack_pending (ctx w) - {self s}"
    by (rule send_ack_total [OF ok, of s False]) (use g in simp)
  let ?w = "w\<lparr>ctx := h', heap := (heap w)(n \<mapsto> s')\<rparr>"
  have "recv_wf (recv s')" using s(3) recv_wf_cong [of "recv s'" "recv s"] by (simp add: a(2))
  then have "world_ok E ?w" using w s a(2,4,5) by (auto simp: world_ok_def)
  moreover have "dom (heap ?w) = dom (heap w)" using s(1) by auto
  ultimately show thesis
    using s a by (intro that [of ?w]) (auto simp: on_socket_def no_result_def)
qed


section \<open>Expired resets\<close>

lemma mset_replace_last:
  assumes "i < length xs" shows "mset (butlast (xs[i := last xs])) = mset xs - {# xs ! i #}"
proof -
  have ne: "xs \<noteq> []" using assms by auto
  have l: "last (xs[i := last xs]) = last xs"
    using ne assms by (simp add: last_conv_nth nth_list_update)
  have "mset (xs[i := last xs]) = add_mset (last xs) (mset xs - {# xs ! i #})"
    using assms by (simp add: mset_update)
  moreover have "mset (xs[i := last xs]) = add_mset (last xs) (mset (butlast (xs[i := last xs])))"
    using append_butlast_last_id [of "xs[i := last xs]"] ne by (metis l list_update_nonempty mset.simps(2) mset_append mset_single_iff
        union_mset_add_mset_right add_mset_add_single)
  ultimately show ?thesis by simp
qed

lemma expire_loop_filter:
  assumes "\<forall>j < i. \<not> rst_expired now (rs ! j)" and "i \<le> length rs"
  shows "mset (expire_loop now i rs) = filter_mset (\<lambda>r. \<not> rst_expired now r) (mset rs)"
  using assms
proof (induction now i rs rule: expire_loop.induct)
  case (1 now i rs)
  show ?case
  proof (cases "i < length rs")
    case False
    then have "i = length rs" using "1.prems"(2) by simp
    then have "filter (\<lambda>r. \<not> rst_expired now r) rs = rs"
      using "1.prems"(1) by (auto simp: filter_id_conv in_set_conv_nth)
    then show ?thesis using False by (subst expire_loop.simps) (simp flip: mset_filter)
  next
    case i: True
    show ?thesis
    proof (cases "rst_expired now (rs ! i)")
      case True
      let ?rs = "butlast (rs[i := last rs])"
      have keep: "\<forall>j < i. \<not> rst_expired now (?rs ! j)"
        using "1.prems"(1) i by (auto simp: nth_butlast)
      have "mset (expire_loop now i ?rs) = filter_mset (\<lambda>r. \<not> rst_expired now r) (mset ?rs)"
        by (rule "1.IH"(1) [OF i True keep]) (use i in simp)
      also have "\<dots> = filter_mset (\<lambda>r. \<not> rst_expired now r) (mset rs)"
        using True by (simp add: mset_replace_last [OF i])
      finally show ?thesis using i True by (subst expire_loop.simps) simp
    next
      case False
      have "\<forall>j < i + 1. \<not> rst_expired now (rs ! j)" using "1.prems"(1) False by (auto simp: less_Suc_eq)
      then have "mset (expire_loop now (i + 1) rs) = filter_mset (\<lambda>r. \<not> rst_expired now r) (mset rs)"
        using "1.IH"(2) [OF i False] i by simp
      then show ?thesis using i False by (subst expire_loop.simps) simp
    qed
  qed
qed

text \<open>
  C27: the timer's in-place removal of expired resets, which fills each hole with the last entry, leaves
  exactly the entries that have not expired, each as often as before.
\<close>

theorem expired_resets_removed:
  "mset (expire_loop now 0 rs) = mset (filter (\<lambda>r. \<not> rst_expired now r) rs)"
  using expire_loop_filter [of 0 now rs] by simp

section \<open>Answering unknown packets\<close>

lemma refresh_rst_length: "refresh_rst p now rs = Some rs' \<Longrightarrow> length rs' = length rs"
  by (induction p now rs arbitrary: rs' rule: refresh_rst.induct) (auto split: if_splits)

lemma refresh_rst_None: "refresh_rst p now rs = None \<longleftrightarrow> (\<forall>r \<in> set rs. \<not> p r)"
  by (induction rs) auto

text \<open>
  C25: a packet for no connection is answered with at most one reset, and none when the same packet was
  answered before and that is remembered; at most 1001 answers are remembered.
\<close>

theorem reject_unknown_bounded:
  assumes "reject_unknown E a cid sq h = Some h'" and "length (rst_info h) \<le> 1001"
  shows "length (rst_info h') \<le> 1001 \<and>
    (if \<exists>r \<in> set (rst_info h). rst_matches a cid sq r then events h' = events h
     else if 1000 < length (rst_info h) then events h' = events h
     else (\<exists>b. events h' = events h @ [Ev_sendto b (fst (get_sockaddr_storage (endian E) a)) 0] \<and>
       (\<exists>pf. decode_pf b = Some pf \<and> pf_type pf = ST_RESET \<and> pf_connid pf = ucast cid \<and> pf_ack_nr pf = sq)))"
proof -
  have r: "rst_info (refresh_clock E h) = rst_info h" "events (refresh_clock E h) = events h"
    by (simp_all add: refresh_clock_def call_get_milliseconds_def query_def)
  show ?thesis
  proof (cases "\<exists>r \<in> set (rst_info h). rst_matches a cid sq r")
    case True
    then obtain rs where rs: "refresh_rst (rst_matches a cid sq) (current_ms (refresh_clock E h)) (rst_info h) = Some rs"
      using refresh_rst_None [of "rst_matches a cid sq" _ "rst_info h"] by fastforce
    then show ?thesis using assms True refresh_rst_length [OF rs] r by (auto simp: reject_unknown_def)
  next
    case False
    then have n: "refresh_rst (rst_matches a cid sq) (current_ms (refresh_clock E h)) (rst_info h) = None"
      using refresh_rst_None by fast
    have dec: "decode_pf (take 20 (encode_pf pf)) = Some pf" for pf
      using decode_encode_append [of pf "[]"] by simp
    show ?thesis
    proof (cases "1000 < length (rst_info h)")
      case full: True
      then show ?thesis using assms False n r by (simp add: reject_unknown_def RST_INFO_LIMIT_def)
    next
      case room: False
      have "set_type ST_RESET (set_version 1 zero_pf) = zero_pf\<lparr>pf_ver_type := 0x31\<rparr>" by code_simp
      then have ty: "pf_type ((set_type ST_RESET (set_version 1 zero_pf))\<lparr>pf_ext := x, pf_connid := y, pf_ack_nr := z,
          pf_seq_nr := v, pf_windowsize := w\<rparr>) = ST_RESET" for x y z v w
        by (simp add: pf_type_def ST_RESET_def)
      show ?thesis
        using room assms False n r dec ty
        by (auto simp: reject_unknown_def RST_INFO_LIMIT_def send_rst_def send_to_addr_impl_def call_get_random_def query_def
            Let_def bind_eq_Some_conv emit_def register_sent_packet_def HEADER_SIZE_def PF_SIZE_def ub_unless_def
            split: prod.splits if_splits)
    qed
  qed
qed

section \<open>The registry\<close>

text \<open>
  A registered number names a socket with the key it is registered under; the cached socket is registered.
\<close>

definition registry_ok :: "world \<Rightarrow> bool" where
  "registry_ok w \<longleftrightarrow>
     (\<forall>k n. map_of (sockets (ctx w)) k = Some n \<longrightarrow> (\<exists>s. heap w n = Some s \<and> self s = n \<and> socket_key s = k)) \<and>
     (\<forall>n. last_utp_socket (ctx w) = Some n \<longrightarrow>
        (\<exists>s. heap w n = Some s \<and> map_of (sockets (ctx w)) (socket_key s) = Some n))"

text \<open>
  C16: the cache of the last socket is transparent: a packet's address and connection id find the socket
  registered under them, or none, whatever was cached, and the registry stays consistent.
\<close>

theorem find_connection_is_lookup:
  assumes "registry_ok w"
  shows "\<exists>w'. find_connection a cid w = Some (lookup_socket a cid w, w') \<and> registry_ok w' \<and>
    heap w' = heap w \<and> sockets (ctx w') = sockets (ctx w) \<and> events (ctx w') = events (ctx w)"
proof (cases "\<exists>n s. last_utp_socket (ctx w) = Some n \<and> heap w n = Some s \<and> addr (conn s) = a \<and> conn_id_recv (conn s) = cid")
  case True
  then obtain n s where n: "last_utp_socket (ctx w) = Some n" "heap w n = Some s" "addr (conn s) = a" "conn_id_recv (conn s) = cid"
    by blast
  then have "lookup_socket a cid w = Some n" using assms by (auto simp: registry_ok_def lookup_socket_def socket_key_def)
  then show ?thesis using n assms by (simp add: find_connection_def)
next
  case False
  have c: "(case last_utp_socket (ctx w) of None \<Rightarrow> Some None
      | Some n \<Rightarrow> do { s \<leftarrow> heap w n; Some (if addr (conn s) = a \<and> conn_id_recv (conn s) = cid then Some n else None) }) = Some None"
    using False assms by (auto simp: registry_ok_def split: option.split)
  show ?thesis
  proof (cases "lookup_socket a cid w")
    case None
    then show ?thesis using c assms by (simp add: find_connection_def)
  next
    case (Some n)
    then obtain s where s: "heap w n = Some s" "socket_key s = \<lparr>key_addr = a, key_recv_id = cid\<rparr>"
      using assms by (auto simp: registry_ok_def lookup_socket_def)
    have "registry_ok (upd_ctx (\<lambda>h. h\<lparr>last_utp_socket := Some n\<rparr>) w)"
      using assms s Some by (simp add: registry_ok_def upd_ctx_def lookup_socket_def)
    then show ?thesis using c Some by (simp add: find_connection_def) (simp add: upd_ctx_def)
  qed
qed

text \<open>
  C12: nothing points to a destroyed socket. Destroying a registered socket returns and leaves it neither in the
  heap nor in the registry, the deferred-ACK list or the cache; its last event is
  \<open>UTP_STATE_DESTROYING\<close>, and every other socket is registered as before.
\<close>

theorem destroyed_socket_forgotten:
  assumes "registry_ok w" and "host_ok E (ctx w)" and "heap w n = Some s" and "self s = n"
    and "map_of (sockets (ctx w)) (socket_key s) = Some n"
  shows "\<exists>w'. destroy_socket E n w = Some w' \<and> registry_ok w' \<and> heap w' = (heap w)(n := None) \<and>
    n \<notin> ack_pending (ctx w') \<and> last_utp_socket (ctx w') \<noteq> Some n \<and>
    map_of (sockets (ctx w')) = (map_of (sockets (ctx w)))(socket_key s := None) \<and>
    (\<forall>k. map_of (sockets (ctx w')) k \<noteq> Some n) \<and>
    events (ctx w') = events (ctx w) @ [Ev_on_state_change n UTP_STATE_DESTROYING]"
proof -
  let ?w1 = "upd_ctx (\<lambda>h. h\<lparr>sockets := AList.delete (socket_key s) (sockets h)\<rparr>) w"
  let ?h = "on_socket_destroyed n (emit (Ev_on_state_change n UTP_STATE_DESTROYING) (ctx ?w1))"
  have ok: "host_ok E ?h"
    using assms(2) host_ok_cong [of ?h "ctx w" E] by (auto simp: on_socket_destroyed_def emit_def upd_ctx_def)
  obtain h' where h': "remove_from_ack_list E ?h s = Some h'" "same_host ?h h'" "ack_pending h' = ack_pending ?h - {self s}"
    "events h' = events ?h"
    by (rule remove_ack_total [OF ok]) blast
  let ?w' = "?w1\<lparr>ctx := h', heap := (heap ?w1)(n := None)\<rparr>"
  have d: "destroy_socket E n w = Some ?w'"
    using assms(3,5) h'(1) by (simp add: destroy_socket_def delete_socket_def upd_ctx_def)
  have "sockets ?h = AList.delete (socket_key s) (sockets (ctx w))"
    by (simp add: on_socket_destroyed_def emit_def upd_ctx_def)
  then have so: "map_of (sockets h') = (map_of (sockets (ctx w)))(socket_key s := None)"
    using h'(2) by (simp add: same_host_def AList.delete_conv')
  have la: "last_utp_socket h' = (if last_utp_socket (ctx w) = Some n then None else last_utp_socket (ctx w))"
    using h'(2) by (simp add: same_host_def on_socket_destroyed_def emit_def upd_ctx_def)
  have only: "k = socket_key s" if "map_of (sockets (ctx w)) k = Some n" for k
    using assms(1,3) that unfolding registry_ok_def by fastforce
  then have no: "map_of (sockets h') k \<noteq> Some n" for k by (auto simp: so)
  have "registry_ok ?w'"
    unfolding registry_ok_def
  proof (intro conjI allI impI)
    fix k m assume "map_of (sockets (ctx ?w')) k = Some m"
    then show "\<exists>s. heap ?w' m = Some s \<and> self s = m \<and> socket_key s = k"
      using assms(1) no [of k] by (auto simp: registry_ok_def so upd_ctx_def split: if_splits)
  next
    fix m assume "last_utp_socket (ctx ?w') = Some m"
    then have m: "last_utp_socket (ctx w) = Some m" "m \<noteq> n" by (auto simp: la split: if_splits)
    then obtain t where "heap w m = Some t" "map_of (sockets (ctx w)) (socket_key t) = Some m"
      using assms(1) by (auto simp: registry_ok_def)
    then show "\<exists>s. heap ?w' m = Some s \<and> map_of (sockets (ctx ?w')) (socket_key s) = Some m"
      using m(2) assms(5) by (intro exI [of _ t]) (auto simp: so upd_ctx_def)
  qed
  moreover have "events h' = events (ctx w) @ [Ev_on_state_change n UTP_STATE_DESTROYING]"
    using h'(4) by (simp add: on_socket_destroyed_def emit_def upd_ctx_def)
  ultimately show ?thesis
    using d so no h'(3) la assms(4) by (intro exI [of _ ?w']) (simp add: upd_ctx_def)
qed

section \<open>Connection ids\<close>

text \<open>
  C24: a connection id chosen for an outgoing connection fits 16 bits and is free with that address, so that
  registering the socket under it never displaces another connection.
\<close>

theorem chosen_id_free:
  assumes "choose_seed E a h = Some (seed, h')"
  shows "unat seed < 2 ^ 16 \<and> \<not> has_socket a seed h' \<and> sockets h' = sockets h \<and>
    (addr (conn s) = a \<and> conn_id_recv (conn s) = seed \<longrightarrow> (\<exists>h''. register_socket s h' = Some h'' \<and>
       map_of (sockets h'') = (map_of (sockets h))(socket_key s \<mapsto> self s)))"
proof -
  have "unat (fst r) < 2 ^ 16 \<and> \<not> has_socket a (fst r) (snd r) \<and> sockets (snd r) = sockets h"
    if "choose_seed E a h = Some r" for r
  proof (rule choose_seed.raw_induct [where P = "\<lambda>E a h r. unat (fst r) < 2 ^ 16 \<and> \<not> has_socket a (fst r) (snd r) \<and>
      sockets (snd r) = sockets h", OF _ that], goal_cases)
    case (1 f E a h r)
    obtain v h1 where v: "call_get_random E h = (v, h1)" by (cases "call_get_random E h")
    have s: "sockets h1 = sockets h" using v by (auto simp: call_get_random_def query_def)
    have m: "unat (v AND 0xffff) < 2 ^ 16"
      using unat_and_mask [of v 16] by (simp add: mask_eq_exp_minus_1)
    show ?case
    proof (cases "has_socket a (v AND 0xffff) h1")
      case True
      then have "f E a h1 = Some r" using 1(2) v by simp
      then show ?thesis using 1(1) [of E a h1 r] s by simp
    next
      case False
      then show ?thesis using 1(2) v s m by auto
    qed
  qed
  from this [OF assms] have r: "unat seed < 2 ^ 16" "\<not> has_socket a seed h'" "sockets h' = sockets h" by simp_all
  then show ?thesis
    by (auto simp: register_socket_def has_socket_def socket_key_def Let_def map_add_def fun_eq_iff map_of_append
        split: option.split)
qed

section \<open>Errors reported to the application\<close>

lemma on_reset_outcome:
  "state (conn (snd (on_reset E n h s))) = (if close_requested (send s) then CS_DESTROY else CS_RESET)"
  "\<exists>ev. events (fst (on_reset E n h s)) = events h @ [ev, Ev_on_error (self s) UTP_ECONNRESET]"
  by (auto simp: on_reset_def Let_def split_def set_state_def emit_def get_udp_overhead_def
      call_get_udp_overhead_def query_def)

lemma on_icmp_error_outcome:
  assumes "state (conn s) \<noteq> CS_IDLE"
  shows "state (conn (snd (on_icmp_error h s))) = (if close_requested (send s) then CS_DESTROY else CS_RESET)"
    and "events (fst (on_icmp_error h s)) = events h @ [Ev_on_error (self s)
      (if state (conn s) = CS_SYN_SENT then UTP_ECONNREFUSED else UTP_ECONNRESET)]"
  using assms by (simp_all add: on_icmp_error_def Let_def set_state_def emit_def)

text \<open>
  A reset is always reported as \<open>UTP_ECONNRESET\<close>: the state the error is chosen by has already been
  overwritten, so a refused connection (a reset that answers the SYN) is never reported as
  \<open>UTP_ECONNREFUSED\<close>, while an ICMP error in the same state is.
\<close>

theorem reset_never_refused:
  assumes "state (conn s) = CS_SYN_SENT"
  shows "(\<exists>ev. events (fst (on_reset E n h s)) = events h @ [ev, Ev_on_error (self s) UTP_ECONNRESET]) \<and>
    events (fst (on_icmp_error h s)) = events h @ [Ev_on_error (self s) UTP_ECONNREFUSED]"
  using assms on_reset_outcome(2) [of E n h s] on_icmp_error_outcome(2) [of s h] by simp

text \<open>
  C28: a socket closed while its SYN is unanswered does not stay marked for destruction: closing it there sets
  \<open>CS_DESTROY\<close> without recording that a close was requested, so a reset or an ICMP error that arrives
  before the next timeout check moves it to \<open>CS_RESET\<close> and reports an error on the closed socket.
\<close>

theorem closed_socket_revived:
  assumes "state (conn s) = CS_SYN_SENT" and "\<not> close_requested (send s)"
  shows "\<exists>h1 s1. socket_close E h s = Some (h1, s1) \<and> state (conn s1) = CS_DESTROY \<and> self s1 = self s \<and>
    state (conn (snd (on_reset E n h1 s1))) = CS_RESET \<and> state (conn (snd (on_icmp_error h1 s1))) = CS_RESET \<and>
    events (fst (on_icmp_error h1 s1)) = events h1 @ [Ev_on_error (self s) UTP_ECONNRESET]"
proof -
  obtain h1 s0 where b: "backoff_rto_for_close E h s = (h1, s0)" by (cases "backoff_rto_for_close E h s")
  let ?s = "set_state CS_DESTROY s0"
  have s0: "self s0 = self s" "send s0 = send s"
    using b by (auto simp: backoff_rto_for_close_def set_cc_def split_def Let_def)
  have s: "state (conn ?s) = CS_DESTROY" "self ?s = self s" "\<not> close_requested (send ?s)"
    using s0 assms(2) by (simp_all add: set_state_def)
  have c: "socket_close E h s = Some (h1, ?s)"
    unfolding socket_close_def state_close_def assms(1) b by simp
  show ?thesis
    by (rule exI [of _ h1], rule exI [of _ ?s])
      (simp add: c s on_reset_outcome(1) on_icmp_error_outcome)
qed

section \<open>Writing through the C interface\<close>

lemma ssize_small: "unat (n :: u64) < 2 ^ 63 \<Longrightarrow> sint n = int (unat n)"
proof -
  assume n: "unat n < 2 ^ 63"
  have u: "int (unat n) = uint n" by simp
  have "int (unat n) < int (2 ^ 63)" using n by (simp only: of_nat_less_iff)
  then have l: "uint n < 2 ^ 63" unfolding u by simp
  have "sint n = signed_take_bit 63 (uint n)" by (simp add: sint_uint)
  also have "\<dots> = uint n"
    by (rule signed_take_bit_int_eq_self [OF order_trans [of _ 0] l]) simp_all
  finally show ?thesis unfolding u .
qed

lemma utp_write_prefix:
  assumes "utp_write E (Some n) buf w = Some (r, w')" and "heap w n = Some s" and "sender_wf (ctx w) s"
    and "sane_mtu s" and "age (ctx w') < 2 ^ 31" and "length buf < 2 ^ 63"
  obtains s' where "heap w' = (heap w)(n \<mapsto> s')" and "sender_wf (ctx w') s'" and "sane_mtu s'"
    and "0 \<le> r" and "nat r \<le> length buf" and "queued s' = queued s @ take (nat r) buf"
proof -
  obtain k h' s' where k: "writev E [buf] (ctx w) s = Some (k, h', s')" "r = sint k"
    "w' = w\<lparr>ctx := h', heap := (heap w)(n \<mapsto> s')\<rparr>"
    using assms(1,2) by (auto simp: utp_write_def utp_writev_def on_socket_def bind_eq_Some_conv split: if_splits)
  have a: "age h' < 2 ^ 31" using assms(5) k(3) by simp
  have m: "sum_list (map length [buf]) < 2 ^ 64" using assms(6) by simp
  have i: "sender_ok (ctx w) s" using assms(3) by (simp add: sender_wf_def)
  have t: "take UTP_IOV_MAX [buf] = [buf]" by (simp add: UTP_IOV_MAX_def)
  have wf: "sender_wf h' s'" by (rule writev_wf [OF k(1) assms(3) a assms(4) m])
  have i1: "sender_ok (refresh_clock E (ctx w)) s" using i by (simp add: sender_ok_def)
  have q: "unat k \<le> length buf \<and> queued s' = queued s @ take (unat k) buf \<and> mtu_last (mtu s') = mtu_last (mtu s)"
    using writev_writes [OF k(1) i assms(4) a m] i1 a unfolding t by (auto simp: writes_def)
  then have "r = int (unat k)" using ssize_small [of k] assms(6) k(2) by simp
  then show thesis using wf q k(3) assms(4) by (intro that [of s']) (simp_all add: sane_mtu_def)
qed

lemma utp_write_age:
  assumes "utp_write E (Some n) buf w = Some (r, w')" and "length buf < 2 ^ 63"
  shows "age (ctx w) \<le> age (ctx w')"
proof -
  obtain s k h' s' where k: "writev E [buf] (ctx w) s = Some (k, h', s')" "ctx w' = h'"
    using assms(1) by (auto simp: utp_write_def utp_writev_def on_socket_def bind_eq_Some_conv split: if_splits)
  then show ?thesis using writev_time [OF k(1)] by simp
qed

text \<open>
  C15: \<open>utp_write\<close> on a well-formed socket returns how many of the bytes it accepted, queues exactly those
  behind what was queued before, keeps the socket well formed, and touches no other socket.
\<close>

theorem utp_write_accepts_prefix:
  assumes "utp_write E (Some n) buf w = Some (r, w')" and "heap w n = Some s" and "sender_wf (ctx w) s"
    and "sane_mtu s" and "age (ctx w') < 2 ^ 31" and "length buf < 2 ^ 63"
  shows "0 \<le> r \<and> nat r \<le> length buf \<and> (\<forall>m. m \<noteq> n \<longrightarrow> heap w' m = heap w m) \<and>
    (\<exists>s'. heap w' n = Some s' \<and> sender_wf (ctx w') s' \<and> queued s' = queued s @ take (nat r) buf)"
  by (rule utp_write_prefix [OF assms]) auto

end
