(* ===== verification/Byte_Sink.thy ===== *)
theory Byte_Sink
  imports Context_Correct
begin

text \<open>
  What programs on top of the library rely on when they write: \<open>utp_write\<close> takes a prefix of what it is
  given. The promise is a locale, so that the loops of the programs that write are verified against it.
\<close>

section \<open>A place bytes are written to\<close>

text \<open>
  What a writer relies on: a call takes a prefix of what it is given, adds it to what was taken before, and says
  how long it is. The promise holds while the sink is \<open>inside\<close> its bounds after the call, which only get nearer.
\<close>

locale byte_sink =
  fixes put :: "bytes \<Rightarrow> 's \<Rightarrow> (int \<times> 's) option" and contents :: "'s \<Rightarrow> bytes" and good :: "'s \<Rightarrow> bool"
    and inside :: "'s \<Rightarrow> bool"
  assumes put_prefix: "put b s = Some (r, s') \<Longrightarrow> good s \<Longrightarrow> inside s' \<Longrightarrow> length b < 2 ^ 63 \<Longrightarrow>
      good s' \<and> 0 \<le> r \<and> nat r \<le> length b \<and> contents s' = contents s @ take (nat r) b"
    and put_nearer: "put b s = Some (r, s') \<Longrightarrow> length b < 2 ^ 63 \<Longrightarrow> inside s' \<Longrightarrow> inside s"
begin

lemma flush_step:
  assumes put: "put (drop (unat (k :: u64)) front) s = Some (n, s1)" and l: "length front < 2 ^ 63" and k: "unat k \<le> length front"
    and i: "inside s1" and g: "good s"
  defines "k1 \<equiv> k + word_of_int n"
  shows "0 \<le> n \<and> good s1 \<and> unat k1 \<le> length front \<and> contents s1 @ drop (unat k1) front = contents s @ drop (unat k) front"
proof -
  have b: "length (drop (unat k) front) < 2 ^ 63" using l by simp
  have p: "0 \<le> n" "good s1" "nat n \<le> length front - unat k" "contents s1 = contents s @ take (nat n) (drop (unat k) front)"
    using put_prefix [OF put g i b] by simp_all
  have "nat n < 2 ^ 63" using p(3) l by simp
  then have small: "n < 2 ^ 64" using p(1) by (simp add: nat_less_iff)
  have nn: "unat (word_of_int n :: u64) = nat n"
    using p(1) small by (simp add: unat_eq_nat_uint uint_word_of_int)
  have "unat k + nat n < 2 ^ 64" using p(3) l k by simp
  then have k1: "unat k1 = unat k + nat n" unfolding k1_def by (simp add: unat_word_ariths nn)
  have "take (nat n) (drop (unat k) front) @ drop (unat k + nat n) front = drop (unat k) front"
    by (metis append_take_drop_id drop_drop add.commute)
  then show ?thesis using p k by (simp add: k1)
qed

end

text \<open>The bytes in the send queue of a socket, and the state in which \<open>utp_write\<close> keeps its promise.\<close>

definition stream_of :: "nat \<Rightarrow> world \<Rightarrow> bytes" where
  "stream_of s w = (case heap w s of None \<Rightarrow> [] | Some t \<Rightarrow> queued t)"

definition writable_in :: "nat \<Rightarrow> world \<Rightarrow> bool" where
  "writable_in s w \<longleftrightarrow> (\<exists>t. heap w s = Some t \<and> sender_wf (ctx w) t \<and> sane_mtu t)"

interpretation out: byte_sink "utp_write E (Some s)" "stream_of s" "writable_in s" "\<lambda>w. age (ctx w) < 2 ^ 31" for E s
proof
  fix b w r w'
  assume put: "utp_write E (Some s) b w = Some (r, w')" and good: "writable_in s w" and age: "age (ctx w') < 2 ^ 31"
    and l: "length b < 2 ^ 63"
  obtain t where t: "heap w s = Some t" "sender_wf (ctx w) t" "sane_mtu t" using good by (auto simp: writable_in_def)
  obtain t' where "heap w' = (heap w)(s \<mapsto> t')" "sender_wf (ctx w') t'" "sane_mtu t'" "0 \<le> r" "nat r \<le> length b"
    "queued t' = queued t @ take (nat r) b"
    by (rule utp_write_prefix [OF put t age l])
  then show "writable_in s w' \<and> 0 \<le> r \<and> nat r \<le> length b \<and> stream_of s w' = stream_of s w @ take (nat r) b"
    by (simp add: writable_in_def stream_of_def t)
next
  fix b w r w'
  assume "utp_write E (Some s) b w = Some (r, w')" and "length b < 2 ^ 63" and "age (ctx w') < 2 ^ 31"
  then show "age (ctx w) < 2 ^ 31" using utp_write_age by fastforce
qed

end
