(* ===== verification/Chat_Protocol.thy ===== *)
theory Chat_Protocol
  imports Wire_Format
begin

text \<open>
  The framing of the chat example, \<^verbatim>\<open>examples/uv-utp-chat/common/protocol.h\<close>: messages on a byte stream
  as a length, a type and a body, and the parser that takes them out of whatever slices the stream
  arrives in.
\<close>

section \<open>Messages\<close>

text \<open>An \<open>enum class\<close> over a byte holds any byte; a received frame may name no message.\<close>

type_synonym MsgType = u8

definition join :: MsgType where "join = 1"
definition text_msg :: MsgType where "text_msg = 2"
definition sys :: MsgType where "sys = 3"

definition kMaxFrame :: u32 where "kMaxFrame = 64 * 1024"

record Frame =
  fr_type :: MsgType
  fr_body :: bytes

definition le32 :: "u32 \<Rightarrow> bytes" where
  "le32 n = [ucast n, ucast (drop_bit 8 n), ucast (drop_bit 16 n), ucast (drop_bit 24 n)]"

text \<open>The length is computed in 32 bits, and the vector holds as many bytes as it says.\<close>

definition encode :: "MsgType \<Rightarrow> bytes \<Rightarrow> bytes option" where
  "encode type body =
     (let n = 1 + of_nat (length body) :: u32;
          f = replicate (unat (4 + n)) 0
      in do {
        f \<leftarrow> write_bytes 0 (le32 n @ [type]) f;
        write_bytes 5 body f
      })"

section \<open>The parser\<close>

record FrameParser =
  fp_buf :: bytes
  fp_broken :: bool

definition new_FrameParser :: FrameParser where
  "new_FrameParser = \<lparr>fp_buf = [], fp_broken = False\<rparr>"

definition feed :: "bytes \<Rightarrow> FrameParser \<Rightarrow> FrameParser" where
  "feed d p = p\<lparr>fp_buf := fp_buf p @ d\<rparr>"

fun frame_length :: "bytes \<Rightarrow> u32" where
  "frame_length (a # b # c # d # _) =
     ucast a OR push_bit 8 (ucast b) OR push_bit 16 (ucast c) OR push_bit 24 (ucast d)"
| "frame_length _ = 0"

definition next_frame :: "FrameParser \<Rightarrow> Frame option \<times> FrameParser" where
  "next_frame p =
     (if fp_broken p \<or> length (fp_buf p) < 4 then (None, p)
      else let n = frame_length (fp_buf p)
           in if n < 1 \<or> kMaxFrame < n then (None, p\<lparr>fp_broken := True, fp_buf := []\<rparr>)
              else if length (fp_buf p) < 4 + unat n then (None, p)
              else (Some \<lparr>fr_type = fp_buf p ! 4, fr_body = drop 5 (take (4 + unat n) (fp_buf p))\<rparr>,
                    p\<lparr>fp_buf := drop (4 + unat n) (fp_buf p)\<rparr>))"

lemma next_frame_shorter:
  assumes "next_frame p = (Some f, p')" shows "length (fp_buf p') < length (fp_buf p)"
  using assms by (auto simp: next_frame_def Let_def split: if_splits)

text \<open>The loop around \<open>next\<close> every user of the parser runs: the frames that are complete.\<close>

function drain :: "FrameParser \<Rightarrow> Frame list \<times> FrameParser" where
  "drain p = (case next_frame p of
     (None, p') \<Rightarrow> ([], p')
   | (Some f, p') \<Rightarrow> (let (fs, q) = drain p' in (f # fs, q)))"
  by pat_completeness auto
termination
  by (relation "measure (\<lambda>p. length (fp_buf p))") (auto dest: next_frame_shorter [OF sym])

declare drain.simps [simp del]

text \<open>What a connection does with a slice of the stream.\<close>

definition receive :: "bytes \<Rightarrow> FrameParser \<Rightarrow> Frame list \<times> FrameParser" where
  "receive d p = drain (feed d p)"

primrec receive_all :: "bytes list \<Rightarrow> FrameParser \<Rightarrow> Frame list \<times> FrameParser" where
  "receive_all [] p = ([], p)"
| "receive_all (d # ds) p =
     (let (fs, p) = receive d p; (gs, p) = receive_all ds p in (fs @ gs, p))"

section \<open>Encoded frames\<close>

lemma le32_length [simp]: "length (le32 n) = 4"
  by (simp add: le32_def)

lemma frame_length_le32 [simp]: "frame_length (le32 n @ xs) = n"
proof -
  have "frame_length (le32 n @ xs) = of_be32 (be32 n)"
    by (simp add: le32_def be32_def or.assoc or.left_commute or.commute)
  then show ?thesis by simp
qed

lemma encode_small:
  assumes "length body < 2 ^ 32 - 5"
  shows "encode type body = Some (le32 (1 + of_nat (length body)) @ type # body)"
proof -
  have u: "unat (5 + of_nat (length body) :: u32) = length body + 5"
    using assms by (subst unat_plus_if') (simp add: unsigned_of_nat take_bit_eq_mod)
  have l: "(4 + (1 + of_nat (length body)) :: u32) = 5 + of_nat (length body)" by simp
  show ?thesis
    unfolding encode_def Let_def l u by (simp add: write_bytes_def)
qed

definition fits :: "Frame \<Rightarrow> bool" where
  "fits f \<longleftrightarrow> length (fr_body f) < 64 * 1024"

definition encoded :: "Frame \<Rightarrow> bytes" where
  "encoded f = le32 (1 + of_nat (length (fr_body f))) @ fr_type f # fr_body f"

lemma encode_fits: "fits f \<Longrightarrow> encode (fr_type f) (fr_body f) = Some (encoded f)"
  unfolding fits_def encoded_def by (rule encode_small) simp

lemma unat_frame_length:
  "length b < 2 ^ 32 - 1 \<Longrightarrow> unat (1 + of_nat (length b) :: u32) = length b + 1"
  by (subst unat_plus_if') (simp add: unsigned_of_nat take_bit_eq_mod)

lemma next_encoded:
  assumes "fits f" and "\<not> fp_broken p" and "fp_buf p = encoded f @ rest"
  shows "next_frame p = (Some f, p\<lparr>fp_buf := rest\<rparr>)"
proof -
  let ?n = "1 + of_nat (length (fr_body f)) :: u32"
  have n: "unat ?n = length (fr_body f) + 1" using assms(1) by (intro unat_frame_length) (simp add: fits_def)
  have b: "fp_buf p = le32 ?n @ fr_type f # fr_body f @ rest" using assms(3) by (simp add: encoded_def)
  have "\<not> (?n < 1 \<or> kMaxFrame < ?n)"
    using n assms(1) by (simp add: word_less_nat_alt kMaxFrame_def fits_def)
  moreover have "drop 5 (take (4 + unat ?n) (fp_buf p)) = fr_body f" "drop (4 + unat ?n) (fp_buf p) = rest" "fp_buf p ! 4 = fr_type f"
    unfolding b n by (simp_all add: nth_append)
  ultimately show ?thesis
    using assms(2) n by (simp add: next_frame_def b Let_def)
qed

lemma drain_encoded:
  assumes "list_all fits fs" and "\<not> fp_broken p" and "fp_buf p = concat (map encoded fs) @ rest"
  shows "drain p = (let (gs, q) = drain (p\<lparr>fp_buf := rest\<rparr>) in (fs @ gs, q))"
  using assms
proof (induction fs arbitrary: p)
  case Nil
  then have "p\<lparr>fp_buf := rest\<rparr> = p" by simp
  then show ?case by simp
next
  case (Cons f fs)
  have "next_frame p = (Some f, p\<lparr>fp_buf := concat (map encoded fs) @ rest\<rparr>)"
    using Cons.prems by (intro next_encoded) simp_all
  moreover have "drain (p\<lparr>fp_buf := concat (map encoded fs) @ rest\<rparr>) = (let (gs, q) = drain (p\<lparr>fp_buf := rest\<rparr>) in (fs @ gs, q))"
    using Cons.IH [of "p\<lparr>fp_buf := concat (map encoded fs) @ rest\<rparr>"] Cons.prems by simp
  ultimately show ?case by (subst drain.simps) (simp add: split_def Let_def)
qed

section \<open>Slices\<close>

lemma frame_length_append: "4 \<le> length xs \<Longrightarrow> frame_length (xs @ ys) = frame_length xs"
  by (cases xs rule: frame_length.cases) auto

lemma next_frame_broken: "fp_broken p \<Longrightarrow> next_frame p = (None, p)"
  by (simp add: next_frame_def)

lemma drain_broken: "fp_broken p \<Longrightarrow> drain p = ([], p)"
  by (subst drain.simps) (simp add: next_frame_broken)

text \<open>A frame that is complete is the same frame with more of the stream behind it.\<close>

lemma next_frame_feed:
  assumes "next_frame p = (Some f, p')" shows "next_frame (feed d p) = (Some f, feed d p')"
proof -
  let ?n = "frame_length (fp_buf p)"
  have k: "\<not> fp_broken p" "4 + unat ?n \<le> length (fp_buf p)" "\<not> (?n < 1 \<or> kMaxFrame < ?n)"
    "f = \<lparr>fr_type = fp_buf p ! 4, fr_body = drop 5 (take (4 + unat ?n) (fp_buf p))\<rparr>" "p' = p\<lparr>fp_buf := drop (4 + unat ?n) (fp_buf p)\<rparr>"
    using assms by (auto simp: next_frame_def Let_def not_less split: if_splits)
  have n0: "0 < unat ?n" using k(3) by (simp add: word_less_nat_alt)
  show ?thesis
    using k n0 by (simp add: next_frame_def feed_def frame_length_append Let_def nth_append)
qed

lemma next_frame_breaks:
  assumes "next_frame p = (None, p')" and "fp_broken p'" and "\<not> fp_broken p"
  shows "\<exists>p''. next_frame (feed d p) = (None, p'') \<and> fp_broken p''"
proof -
  let ?n = "frame_length (fp_buf p)"
  have k: "4 \<le> length (fp_buf p)" "?n < 1 \<or> kMaxFrame < ?n"
    using assms by (auto simp: next_frame_def Let_def not_less split: if_splits)
  have "next_frame (feed d p) = (None, (feed d p)\<lparr>fp_broken := True, fp_buf := []\<rparr>)"
    unfolding next_frame_def Let_def using k assms(3) by (simp add: feed_def frame_length_append)
  then show ?thesis by simp
qed

lemma next_frame_waits:
  assumes "next_frame p = (None, p')" and "\<not> fp_broken p'" shows "p' = p"
  using assms by (auto simp: next_frame_def Let_def split: if_splits)

text \<open>
  Taking out what is complete and going on with the rest gives the same frames as waiting for more of the
  stream first. A broken parser has thrown its buffer away; it gives no more frames either way.
\<close>

definition same_parser :: "FrameParser \<Rightarrow> FrameParser \<Rightarrow> bool" where
  "same_parser p q \<longleftrightarrow> fp_broken p = fp_broken q \<and> (fp_broken p \<or> p = q)"

lemma drain_feed:
  "drain p = (fs, p') \<Longrightarrow> \<exists>gs q q'. drain (feed d p') = (gs, q) \<and> drain (feed d p) = (fs @ gs, q') \<and> same_parser q q'"
proof (induction p arbitrary: fs p' rule: drain.induct)
  case (1 p)
  obtain r p1 where n: "next_frame p = (r, p1)" by (cases "next_frame p")
  show ?case
  proof (cases r)
    case None
    have "drain p = ([], p1)" by (subst drain.simps) (simp add: n None)
    then have fs: "fs = []" "p' = p1" using 1(2) by simp_all
    show ?thesis
    proof (cases "fp_broken p1")
      case False
      then have "p1 = p" using n None next_frame_waits by blast
      then show ?thesis using fs by (cases "drain (feed d p)") (simp add: same_parser_def)
    next
      case b: True
      have "\<exists>q'. drain (feed d p) = ([], q') \<and> fp_broken q'"
      proof (cases "fp_broken p")
        case True
        then show ?thesis using drain_broken [of "feed d p"] by (simp add: feed_def)
      next
        case False
        then obtain p2 where "next_frame (feed d p) = (None, p2)" "fp_broken p2"
          using next_frame_breaks [of p p1 d] n None b by blast
        then show ?thesis by (subst drain.simps) simp
      qed
      moreover have "drain (feed d p') = ([], feed d p')" "fp_broken (feed d p')"
        using drain_broken [of "feed d p'"] b fs by (simp_all add: feed_def)
      ultimately show ?thesis using fs by (auto simp: same_parser_def)
    qed
  next
    case (Some f)
    obtain fs1 p2 where d: "drain p1 = (fs1, p2)" by (cases "drain p1")
    have "drain p = (f # fs1, p2)" by (subst drain.simps) (simp add: n Some d)
    then have fs: "fs = f # fs1" "p' = p2" using 1(2) by simp_all
    obtain gs q q' where i: "drain (feed d p2) = (gs, q)" "drain (feed d p1) = (fs1 @ gs, q')" "same_parser q q'"
      using "1.IH" [OF n [symmetric] Some d] by blast
    have "drain (feed d p) = (f # fs1 @ gs, q')"
      using next_frame_feed [of p f p1 d] n Some i(2) by (subst drain.simps) simp
    then show ?thesis using i fs by auto
  qed
qed

lemma drain_idle: "drain p = (fs, p') \<Longrightarrow> drain p' = ([], p')"
proof (induction p arbitrary: fs p' rule: drain.induct)
  case (1 p)
  obtain r p1 where n: "next_frame p = (r, p1)" by (cases "next_frame p")
  show ?case
  proof (cases r)
    case None
    have "drain p = ([], p1)" by (subst drain.simps) (simp add: n None)
    then have p': "p' = p1" using 1(2) by simp
    show ?thesis
    proof (cases "fp_broken p1")
      case True
      then show ?thesis unfolding p' by (rule drain_broken)
    next
      case False
      then have "p1 = p" using n None next_frame_waits by blast
      then show ?thesis unfolding p' by (subst drain.simps) (simp add: n None)
    qed
  next
    case (Some f)
    obtain fs1 p2 where d: "drain p1 = (fs1, p2)" by (cases "drain p1")
    have "drain p = (f # fs1, p2)" by (subst drain.simps) (simp add: n Some d)
    then show ?thesis using 1(2) "1.IH" [OF n [symmetric] Some d] by simp
  qed
qed

lemma receive_all_drain:
  assumes "drain p = ([], p)"
  shows "\<exists>gs q q'. receive_all ds p = (gs, q) \<and> drain (feed (concat ds) p) = (gs, q') \<and> same_parser q q'"
  using assms
proof (induction ds arbitrary: p)
  case Nil
  then show ?case by (simp add: feed_def same_parser_def)
next
  case (Cons d ds)
  obtain fs p1 where d: "drain (feed d p) = (fs, p1)" by (cases "drain (feed d p)")
  obtain gs q q1 where i: "receive_all ds p1 = (gs, q)" "drain (feed (concat ds) p1) = (gs, q1)" "same_parser q q1"
    using Cons.IH [OF drain_idle [OF d]] by blast
  obtain q2 where "drain (feed (concat ds) (feed d p)) = (fs @ gs, q2)" "same_parser q1 q2"
    using drain_feed [OF d, of "concat ds"] i(2) by auto
  moreover have "feed (concat ds) (feed d p) = feed (concat (d # ds)) p" by (simp add: feed_def)
  moreover have "receive_all (d # ds) p = (fs @ gs, q)" using d i(1) by (simp add: receive_def)
  ultimately show ?case using i(3) by (auto simp: same_parser_def)
qed

lemma drain_new: "drain new_FrameParser = ([], new_FrameParser)"
  by (subst drain.simps) (simp add: next_frame_def new_FrameParser_def)

section \<open>Properties\<close>

text \<open>
  C37: framing is a round trip whatever the slices. A sequence of messages, each encoded, whose bytes arrive cut
  anywhere, gives exactly those messages in order, and the parser is empty again in the end.
\<close>

theorem frames_round_trip:
  assumes "list_all fits fs" and "map (\<lambda>f. encode (fr_type f) (fr_body f)) fs = map Some es" and "concat ds = concat es"
  shows "receive_all ds new_FrameParser = (fs, new_FrameParser)"
proof -
  have "map Some es = map Some (map encoded fs)"
    unfolding assms(2) [symmetric] using assms(1) by (simp add: encode_fits list_all_iff)
  then have es: "concat ds = concat (map encoded fs)"
    using assms(3) by (simp only: inj_map_eq_map [OF inj_Some])
  obtain gs q q' where r: "receive_all ds new_FrameParser = (gs, q)" "drain (feed (concat ds) new_FrameParser) = (gs, q')"
    "same_parser q q'"
    using receive_all_drain [OF drain_new] by blast
  have "drain (feed (concat ds) new_FrameParser) = (fs, new_FrameParser)"
    using drain_encoded [OF assms(1), of "feed (concat ds) new_FrameParser" "[]"] drain_new
    by (simp add: feed_def new_FrameParser_def es)
  then show ?thesis using r by (auto simp: same_parser_def new_FrameParser_def)
qed

theorem frames_round_trip_witness:
  "receive_all [[3, 0, 0], [0, 2, 104, 105, 1, 0, 0, 0, 3]] new_FrameParser =
     ([\<lparr>fr_type = text_msg, fr_body = [104, 105]\<rparr>, \<lparr>fr_type = sys, fr_body = []\<rparr>], new_FrameParser)"
proof (rule frames_round_trip)
  show "map (\<lambda>f. encode (fr_type f) (fr_body f)) [\<lparr>fr_type = text_msg, fr_body = [104, 105]\<rparr>, \<lparr>fr_type = sys, fr_body = []\<rparr>] =
      map Some [[3, 0, 0, 0, 2, 104, 105], [1, 0, 0, 0, 3]]"
    by code_simp
qed (simp_all add: fits_def)

lemma next_frame_small:
  assumes "next_frame p = (None, p')" and "\<not> fp_broken p"
  shows "length (fp_buf p') < 4 + 64 * 1024"
proof -
  let ?n = "frame_length (fp_buf p)"
  have "unat ?n \<le> 64 * 1024" if "\<not> kMaxFrame < ?n"
    using that by (simp add: kMaxFrame_def not_less word_le_nat_alt)
  then show ?thesis using assms by (auto simp: next_frame_def Let_def split: if_splits)
qed

lemma drain_bounded:
  "drain p = (fs, p') \<Longrightarrow> \<not> fp_broken p \<Longrightarrow> length (fp_buf p') < 4 + 64 * 1024"
proof (induction p arbitrary: fs p' rule: drain.induct)
  case (1 p)
  obtain r p1 where n: "next_frame p = (r, p1)" by (cases "next_frame p")
  show ?case
  proof (cases r)
    case None
    have "drain p = ([], p1)" by (subst drain.simps) (simp add: n None)
    then show ?thesis using 1(2,3) next_frame_small n None by simp
  next
    case (Some f)
    obtain fs1 p2 where d: "drain p1 = (fs1, p2)" by (cases "drain p1")
    have "drain p = (f # fs1, p2)" by (subst drain.simps) (simp add: n Some d)
    moreover have "\<not> fp_broken p1" using n Some 1(3) by (auto simp: next_frame_def Let_def split: if_splits)
    ultimately show ?thesis using 1(2) "1.IH" [OF n [symmetric] Some d] by simp
  qed
qed

text \<open>
  C40: what waits in a parser that is not broken is less than one frame of the largest size, however long the
  peer's stream; a broken parser gives no frame but keeps every byte it is fed from then on.
\<close>

theorem waiting_bytes_bounded:
  assumes "receive d p = (fs, p')"
  shows "if fp_broken p then fs = [] \<and> fp_broken p' \<and> length (fp_buf p') = length (fp_buf p) + length d
    else length (fp_buf p') < 4 + 64 * 1024"
proof (cases "fp_broken p")
  case True
  moreover have "fp_broken (feed d p)" using True by (simp add: feed_def)
  ultimately show ?thesis using assms drain_broken [of "feed d p"] by (auto simp: receive_def feed_def)
next
  case False
  then show ?thesis using drain_bounded [of "feed d p" fs p'] assms by (simp add: receive_def feed_def)
qed

theorem waiting_bytes_bounded_witness:
  "length (fp_buf (snd (receive [7, 0, 0, 0, 2, 104] new_FrameParser))) < 4 + 64 * 1024"
  using waiting_bytes_bounded [of "[7, 0, 0, 0, 2, 104]" new_FrameParser "fst (receive [7, 0, 0, 0, 2, 104] new_FrameParser)"
      "snd (receive [7, 0, 0, 0, 2, 104] new_FrameParser)"]
  by (simp add: new_FrameParser_def)

end
