(* ===== verification/Chat_Node.thy ===== *)
theory Chat_Node
  imports Byte_Sink Chat_Protocol
begin

text \<open>
  The glue between the library and an event loop in the chat example,
  \<^verbatim>\<open>examples/uv-utp-chat/common/utp_uv.cpp\<close>: a table of connections by number, each with a queue of frames
  waiting to be written. A node owns the \<open>world\<close> of its context; a socket's user data is the number of
  its connection. libuv only calls the functions here, so its handles are left out, but for the flag that
  says they are being closed. The order in which the table is walked is an argument.
\<close>

section \<open>State\<close>

record Connection =
  cn_sock :: "nat option"
  cn_connected :: bool
  cn_closing :: bool
  cn_unconsumed :: u64
  cn_outq :: "bytes list"
  cn_out_off :: u64
  cn_name :: bytes
  cn_parser :: FrameParser

record 'a UtpUvNode =
  nd_lib :: world
  nd_userdata :: "nat \<Rightarrow> u64 option"
  nd_accept_incoming :: bool
  nd_shutdown :: bool
  nd_handles_closing :: bool
  nd_next_id :: u64
  nd_conns :: "(u64 \<times> Connection) list"
  nd_app :: 'a

text \<open>What the application hooks in; an empty \<open>std::function\<close> is \<open>None\<close>.\<close>

type_synonym 'a hook = "u64 \<Rightarrow> 'a UtpUvNode \<Rightarrow> 'a UtpUvNode option"

record 'a Hooks =
  hk_on_accept :: "'a hook option"
  hk_on_connect :: "'a hook option"
  hk_on_read :: "(bytes \<Rightarrow> 'a hook) option"
  hk_on_eof :: "'a hook option"
  hk_on_error :: "(int \<Rightarrow> 'a hook) option"
  hk_on_destroy :: "'a hook option"

definition run_hook :: "'a hook option \<Rightarrow> 'a hook" where
  "run_hook f i n = (case f of None \<Rightarrow> Some n | Some g \<Rightarrow> g i n)"

definition new_UtpUvNode :: "env \<Rightarrow> bool \<Rightarrow> bool \<Rightarrow> 'a \<Rightarrow> 'a UtpUvNode option" where
  "new_UtpUvNode E accept_incoming debug_log a =
     do {
       w \<leftarrow> (if debug_log
             then do {
               (_, w) \<leftarrow> utp_context_set_option E (Some ()) 16 1 new_world;
               (_, w) \<leftarrow> utp_context_set_option E (Some ()) 18 1 w;
               (_, w) \<leftarrow> utp_context_set_option E (Some ()) 17 1 w;
               Some w
             }
             else Some new_world);
       Some \<lparr>nd_lib = w, nd_userdata = (\<lambda>_. None), nd_accept_incoming = accept_incoming, nd_shutdown = False,
             nd_handles_closing = False, nd_next_id = 1, nd_conns = [], nd_app = a\<rparr>
     }"

definition find :: "u64 \<Rightarrow> 'a UtpUvNode \<Rightarrow> Connection option" where
  "find i n = map_of (nd_conns n) i"

definition upd_conn :: "u64 \<Rightarrow> (Connection \<Rightarrow> Connection) \<Rightarrow> 'a UtpUvNode \<Rightarrow> 'a UtpUvNode" where
  "upd_conn i f n = n\<lparr>nd_conns := map (\<lambda>(k, c). (k, if k = i then f c else c)) (nd_conns n)\<rparr>"

section \<open>Writing\<close>

text \<open>
  The loop of \<open>flush\<close> over the queue, with \<open>put\<close> for the call of \<open>utp_write\<close>; \<open>off\<close> bytes of the first frame
  have been accepted before.
\<close>

partial_function (option) outq_loop ::
  "(bytes \<Rightarrow> 's \<Rightarrow> (int \<times> 's) option) \<Rightarrow> bytes list \<Rightarrow> u64 \<Rightarrow> 's \<Rightarrow> (bytes list \<times> u64 \<times> 's) option" where
  "outq_loop put q k s =
     (case q of
        [] \<Rightarrow> Some (q, k, s)
      | front # rest \<Rightarrow> do {
          ub_unless (unat k \<le> length front);
          (n, s) \<leftarrow> put (drop (unat k) front) s;
          if n \<le> 0 then Some (q, k, s)
          else let k = k + word_of_int n
               in if k = of_nat (length front) then outq_loop put rest 0 s
                  else outq_loop put q k s
        })"

definition flush :: "env \<Rightarrow> u64 \<Rightarrow> 'a UtpUvNode \<Rightarrow> 'a UtpUvNode option" where
  "flush E i n =
     do {
       c \<leftarrow> find i n;
       case cn_sock c of
         None \<Rightarrow> Some n
       | Some s \<Rightarrow>
           if \<not> cn_connected c then Some n
           else do {
             (q, k, w) \<leftarrow> outq_loop (utp_write E (Some s)) (cn_outq c) (cn_out_off c) (nd_lib n);
             Some (upd_conn i (\<lambda>c. c\<lparr>cn_outq := q, cn_out_off := k\<rparr>) (n\<lparr>nd_lib := w\<rparr>))
           }
     }"

definition node_write :: "env \<Rightarrow> u64 \<Rightarrow> bytes \<Rightarrow> 'a UtpUvNode \<Rightarrow> 'a UtpUvNode option" where
  "node_write E i frame n =
     do {
       c \<leftarrow> find i n;
       if cn_sock c = None \<or> cn_closing c then Some n
       else flush E i (upd_conn i (\<lambda>c. c\<lparr>cn_outq := cn_outq c @ [frame]\<rparr>) n)
     }"

section \<open>Connections\<close>

definition adopt :: "nat \<Rightarrow> 'a UtpUvNode \<Rightarrow> (u64 \<times> 'a UtpUvNode) option" where
  "adopt sock n =
     (let i = nd_next_id n
      in do {
        ub_unless (find i n = None);
        Some (i, n\<lparr>nd_next_id := i + 1, nd_userdata := (nd_userdata n)(sock \<mapsto> i),
                   nd_conns := nd_conns n @ [(i, \<lparr>cn_sock = Some sock, cn_connected = False, cn_closing = False,
                     cn_unconsumed = 0, cn_outq = [], cn_out_off = 0, cn_name = [], cn_parser = new_FrameParser\<rparr>)]\<rparr>)
      })"

definition node_connect :: "env \<Rightarrow> sockaddr \<Rightarrow> 'a UtpUvNode \<Rightarrow> (u64 \<times> 'a UtpUvNode) option" where
  "node_connect E to n =
     do {
       (s, w) \<leftarrow> utp_create_socket E (Some ()) (nd_lib n);
       sock \<leftarrow> s;
       (i, n) \<leftarrow> adopt sock (n\<lparr>nd_lib := w\<rparr>);
       (_, w) \<leftarrow> utp_connect E s to SIZEOF_SOCKADDR_IN (nd_lib n);
       Some (i, n\<lparr>nd_lib := w\<rparr>)
     }"

definition node_close :: "env \<Rightarrow> u64 \<Rightarrow> 'a UtpUvNode \<Rightarrow> 'a UtpUvNode option" where
  "node_close E i n =
     do {
       c \<leftarrow> find i n;
       if cn_sock c = None \<or> cn_closing c then Some n
       else do {
         w \<leftarrow> utp_close E (cn_sock c) (nd_lib n);
         Some (upd_conn i (\<lambda>c. c\<lparr>cn_closing := True\<rparr>) (n\<lparr>nd_lib := w\<rparr>))
       }
     }"

definition maybe_close_handles :: "'a UtpUvNode \<Rightarrow> 'a UtpUvNode" where
  "maybe_close_handles n =
     (if \<not> nd_shutdown n \<or> nd_handles_closing n \<or> nd_conns n \<noteq> [] then n
      else n\<lparr>nd_handles_closing := True\<rparr>)"

text \<open>\<open>for_each\<close> on the connections, by their numbers in the order of the table.\<close>

primrec for_each :: "'a hook \<Rightarrow> u64 list \<Rightarrow> 'a UtpUvNode \<Rightarrow> 'a UtpUvNode option" where
  "for_each f [] n = Some n"
| "for_each f (i # is) n = f i n \<bind> for_each f is"

definition begin_shutdown :: "env \<Rightarrow> (u64 list \<Rightarrow> u64 list) \<Rightarrow> 'a UtpUvNode \<Rightarrow> 'a UtpUvNode option" where
  "begin_shutdown E order n =
     (if nd_shutdown n then Some n
      else do {
        n \<leftarrow> for_each (node_close E) (order (map fst (nd_conns n))) (n\<lparr>nd_shutdown := True\<rparr>);
        Some (maybe_close_handles n)
      })"

definition consumed :: "env \<Rightarrow> u64 \<Rightarrow> u64 \<Rightarrow> 'a UtpUvNode \<Rightarrow> 'a UtpUvNode option" where
  "consumed E i k n =
     (case find i n of
        None \<Rightarrow> Some n
      | Some c \<Rightarrow> do {
          c_assert (ndebug (bld E)) (k \<le> cn_unconsumed c);
          let n = upd_conn i (\<lambda>c. c\<lparr>cn_unconsumed := cn_unconsumed c - k\<rparr>) n;
          if cn_sock c \<noteq> None \<and> \<not> cn_closing c
          then do {
            w \<leftarrow> utp_read_drained E (cn_sock c) (nd_lib n);
            Some (n\<lparr>nd_lib := w\<rparr>)
          }
          else Some n
        })"

definition on_destroying :: "'a Hooks \<Rightarrow> u64 \<Rightarrow> 'a UtpUvNode \<Rightarrow> 'a UtpUvNode option" where
  "on_destroying H i n =
     do {
       n \<leftarrow> run_hook (hk_on_destroy H) i (upd_conn i (\<lambda>c. c\<lparr>cn_sock := None\<rparr>) n);
       Some (maybe_close_handles (n\<lparr>nd_conns := AList.delete i (nd_conns n)\<rparr>))
     }"

section \<open>What the library calls\<close>

definition conn_of :: "utp_callback_arguments \<Rightarrow> 'a UtpUvNode \<Rightarrow> u64 option" where
  "conn_of a n = (case arg_socket a of None \<Rightarrow> None | Some s \<Rightarrow> nd_userdata n s)"

definition s_on_accept :: "'a Hooks \<Rightarrow> utp_callback_arguments \<Rightarrow> 'a UtpUvNode \<Rightarrow> 'a UtpUvNode option" where
  "s_on_accept H a n =
     do {
       s \<leftarrow> arg_socket a;
       (i, n) \<leftarrow> adopt s n;
       run_hook (hk_on_accept H) i (upd_conn i (\<lambda>c. c\<lparr>cn_connected := True\<rparr>) n)
     }"

definition s_on_read :: "env \<Rightarrow> 'a Hooks \<Rightarrow> utp_callback_arguments \<Rightarrow> 'a UtpUvNode \<Rightarrow> 'a UtpUvNode option" where
  "s_on_read E H a n =
     do {
       n \<leftarrow> (case conn_of a n of
               None \<Rightarrow> Some n
             | Some i \<Rightarrow>
                 (case hk_on_read H of
                    None \<Rightarrow> Some n
                  | Some f \<Rightarrow> do { b \<leftarrow> arg_buf a; f (take (unat (arg_len a)) b) i n }));
       case arg_socket a of
         None \<Rightarrow> Some n
       | Some s \<Rightarrow> do {
           w \<leftarrow> utp_read_drained E (Some s) (nd_lib n);
           Some (n\<lparr>nd_lib := w\<rparr>)
         }
     }"

definition s_on_state :: "env \<Rightarrow> 'a Hooks \<Rightarrow> utp_callback_arguments \<Rightarrow> 'a UtpUvNode \<Rightarrow> 'a UtpUvNode option" where
  "s_on_state E H a n =
     (case conn_of a n of
        None \<Rightarrow> Some n
      | Some i \<Rightarrow>
          if arg_value a = Arg_state (utp_state_number UTP_STATE_CONNECT)
          then do {
            n \<leftarrow> run_hook (hk_on_connect H) i (upd_conn i (\<lambda>c. c\<lparr>cn_connected := True\<rparr>) n);
            flush E i n
          }
          else if arg_value a = Arg_state (utp_state_number UTP_STATE_WRITABLE) then flush E i n
          else if arg_value a = Arg_state (utp_state_number UTP_STATE_EOF) then run_hook (hk_on_eof H) i n
          else if arg_value a = Arg_state (utp_state_number UTP_STATE_DESTROYING) then on_destroying H i n
          else Some n)"

definition s_on_error :: "env \<Rightarrow> 'a Hooks \<Rightarrow> utp_callback_arguments \<Rightarrow> 'a UtpUvNode \<Rightarrow> 'a UtpUvNode option" where
  "s_on_error E H a n =
     (case conn_of a n of
        None \<Rightarrow> Some n
      | Some i \<Rightarrow> do {
          n \<leftarrow> (case hk_on_error H of
                  None \<Rightarrow> Some n
                | Some f \<Rightarrow> (case arg_value a of Arg_error_code e \<Rightarrow> f e i n | _ \<Rightarrow> None));
          node_close E i n
        })"

definition s_on_firewall :: "'a UtpUvNode \<Rightarrow> u64" where
  "s_on_firewall n = (if nd_accept_incoming n then 0 else 1)"

definition s_read_buffer_size :: "utp_callback_arguments \<Rightarrow> 'a UtpUvNode \<Rightarrow> u64 option" where
  "s_read_buffer_size a n =
     (case conn_of a n of None \<Rightarrow> Some 0 | Some i \<Rightarrow> map_option cn_unconsumed (find i n))"

section \<open>What the event loop calls\<close>

definition s_recv :: "env \<Rightarrow> int \<Rightarrow> bytes \<Rightarrow> sockaddr option \<Rightarrow> 'a UtpUvNode \<Rightarrow> 'a UtpUvNode option" where
  "s_recv E nread buf sa n =
     (case sa of
        None \<Rightarrow> Some n
      | Some sa \<Rightarrow>
          if nread \<le> 0 then Some n
          else do {
            (_, w) \<leftarrow> utp_process_udp E (Some ()) (take (nat nread) buf) sa (sockaddr_len sa) (nd_lib n);
            Some (n\<lparr>nd_lib := w\<rparr>)
          })"

definition s_timer :: "env \<Rightarrow> (nat list \<Rightarrow> nat list) \<Rightarrow> 'a UtpUvNode \<Rightarrow> 'a UtpUvNode option" where
  "s_timer E order n =
     do {
       w \<leftarrow> utp_check_timeouts E order (Some ()) (nd_lib n);
       Some (n\<lparr>nd_lib := w\<rparr>)
     }"

definition s_check :: "env \<Rightarrow> 'a UtpUvNode \<Rightarrow> 'a UtpUvNode option" where
  "s_check E n =
     do {
       w \<leftarrow> utp_issue_deferred_acks E (Some ()) (nd_lib n);
       Some (n\<lparr>nd_lib := w\<rparr>)
     }"

section \<open>Flushing a queue\<close>

text \<open>The bytes that still wait in a queue.\<close>

definition pending :: "bytes list \<Rightarrow> u64 \<Rightarrow> bytes" where
  "pending q k = drop (unat k) (concat q)"

definition frames_small :: "bytes list \<Rightarrow> bool" where
  "frames_small q \<longleftrightarrow> (\<forall>f \<in> set q. length f < 2 ^ 63)"

definition offset_ok :: "bytes list \<Rightarrow> u64 \<Rightarrow> bool" where
  "offset_ok q k \<longleftrightarrow> (case q of [] \<Rightarrow> k = 0 | f # _ \<Rightarrow> unat k \<le> length f)"

context byte_sink
begin

definition flushes :: "bytes list \<Rightarrow> u64 \<Rightarrow> 's \<Rightarrow> bytes list \<times> u64 \<times> 's \<Rightarrow> bool" where
  "flushes q k s r \<longleftrightarrow> (case r of (q', k', s') \<Rightarrow> frames_small q \<longrightarrow> inside s' \<longrightarrow>
     inside s \<and> (good s \<and> offset_ok q k \<longrightarrow>
       good s' \<and> offset_ok q' k' \<and> contents s' @ pending q' k' = contents s @ pending q k))"

lemma outq_loop_flushes:
  assumes "outq_loop put q k s = Some r" shows "flushes q k s r"
proof -
  have "p = put \<longrightarrow> flushes q k s r" if "outq_loop p q k s = Some r" for p
  proof (rule outq_loop.raw_induct [where P = "\<lambda>p q k s r. p = put \<longrightarrow> flushes q k s r", OF _ that], goal_cases)
    case (1 f p q k s r)
    show ?case
    proof (cases q)
      case Nil
      then show ?thesis using 1(2) by (auto simp: flushes_def)
    next
      case (Cons front rest)
      show ?thesis
      proof (intro impI)
        assume pp: "p = put"
        obtain n s1 where k: "unat k \<le> length front" "put (drop (unat k) front) s = Some (n, s1)"
          and r: "(if n \<le> 0 then Some (front # rest, k, s1)
            else let k = k + word_of_int n
                 in if k = of_nat (length front) then f put rest 0 s1 else f put (front # rest) k s1) = Some r"
          using 1(2) unfolding Cons pp by (auto simp: bind_eq_Some_conv ub_unless_Some_iff)
        obtain q' k' s' where r': "r = (q', k', s')" by (cases r)
        let ?k1 = "k + word_of_int n"
        show "flushes q k s r"
          unfolding flushes_def r' prod.case
        proof (intro impI)
          assume sm: "frames_small q" and i: "inside s'"
          have l: "length front < 2 ^ 63" and sm': "frames_small rest" using sm by (simp_all add: frames_small_def Cons)
          have near: "inside s1 \<Longrightarrow> inside s" using put_nearer [OF k(2)] l by simp
          note step = flush_step [OF k(2) l k(1)]
          show "inside s \<and> (good s \<and> offset_ok q k \<longrightarrow>
              good s' \<and> offset_ok q' k' \<and> contents s' @ pending q' k' = contents s @ pending q k)"
          proof (cases "n \<le> 0")
            case True
            then have e: "q' = q" "k' = k" "s' = s1" using r r' by (simp_all add: Cons)
            have "n = 0" if "good s" using step [OF _ that] i e True by simp
            then show ?thesis using i near step e by (auto simp: pending_def Cons)
          next
            case False
            show ?thesis
            proof (cases "?k1 = of_nat (length front)")
              case True
              have u: "unat ?k1 = length front" unfolding True using l by (simp add: unsigned_of_nat take_bit_eq_mod)
              have "f put rest 0 s1 = Some r" using r False True by simp
              from 1(1) [OF this] have "flushes rest 0 s1 r" by simp
              then have h: "inside s1" "good s1 \<and> offset_ok rest 0 \<Longrightarrow>
                  good s' \<and> offset_ok q' k' \<and> contents s' @ pending q' k' = contents s1 @ pending rest 0"
                using sm' i by (simp_all add: flushes_def r')
              have "offset_ok rest 0" by (simp add: offset_ok_def split: list.split)
              then show ?thesis using h near step [OF h(1)] u k(1) by (auto simp: pending_def Cons)
            next
              case go: False
              have "f put (front # rest) ?k1 s1 = Some r" using r False go by simp
              from 1(1) [OF this] have "flushes q ?k1 s1 r" by (simp add: Cons)
              then have h: "inside s1" "good s1 \<and> offset_ok q ?k1 \<Longrightarrow>
                  good s' \<and> offset_ok q' k' \<and> contents s' @ pending q' k' = contents s1 @ pending q ?k1"
                using sm i by (simp_all add: flushes_def r')
              show ?thesis using h near step [OF h(1)] k(1) by (auto simp: pending_def offset_ok_def Cons)
            qed
          qed
        qed
      qed
    qed
  qed
  then show ?thesis using assms by blast
qed

end

section \<open>Properties\<close>

lemma find_upd: "find j (upd_conn i f n) = (if j = i then map_option f (find j n) else find j n)"
proof -
  have "map_of (map (\<lambda>(k, c). (k, if k = i then f c else c)) xs) j = (if j = i then map_option f (map_of xs j) else map_of xs j)" for xs
    by (induction xs) auto
  then show ?thesis by (simp add: find_def upd_conn_def)
qed

lemma find_lib [simp]: "find j (n\<lparr>nd_lib := w\<rparr>) = find j n"
  by (simp add: find_def)

lemma upd_conn_fields [simp]:
  "nd_lib (upd_conn i f n) = nd_lib n" "nd_app (upd_conn i f n) = nd_app n" "nd_next_id (upd_conn i f n) = nd_next_id n"
  "map fst (nd_conns (upd_conn i f n)) = map fst (nd_conns n)"
  by (simp_all add: upd_conn_def split_def)

lemma flush_pending:
  assumes "flush E i n = Some n'" and "find i n = Some c" and "cn_sock c = Some s"
    and "writable_in s (nd_lib n)" and "age (ctx (nd_lib n')) < 2 ^ 31"
    and "frames_small (cn_outq c)" and "offset_ok (cn_outq c) (cn_out_off c)"
  shows "\<exists>c'. find i n' = Some c' \<and> cn_sock c' = Some s \<and> writable_in s (nd_lib n') \<and> offset_ok (cn_outq c') (cn_out_off c') \<and>
    stream_of s (nd_lib n') @ pending (cn_outq c') (cn_out_off c') = stream_of s (nd_lib n) @ pending (cn_outq c) (cn_out_off c) \<and>
    (\<forall>j. j \<noteq> i \<longrightarrow> find j n' = find j n)"
proof (cases "cn_connected c")
  case False
  then have "n' = n" using assms(1-3) by (simp add: flush_def)
  then show ?thesis using assms by simp
next
  case True
  obtain q k w where f: "outq_loop (utp_write E (Some s)) (cn_outq c) (cn_out_off c) (nd_lib n) = Some (q, k, w)"
    and n': "n' = upd_conn i (\<lambda>c. c\<lparr>cn_outq := q, cn_out_off := k\<rparr>) (n\<lparr>nd_lib := w\<rparr>)"
    using assms(1-3) True by (auto simp: flush_def bind_eq_Some_conv)
  have "writable_in s w \<and> offset_ok q k \<and> stream_of s w @ pending q k = stream_of s (nd_lib n) @ pending (cn_outq c) (cn_out_off c)"
    using out.outq_loop_flushes [OF f, unfolded out.flushes_def prod.case] assms(4-7) n' by simp
  then show ?thesis using assms(2,3) by (simp add: n' find_upd)
qed

text \<open>
  C36: a frame written to a connection of a node is neither lost, reordered nor repeated: the bytes in the
  socket's send queue followed by those still waiting at the node are what they were before followed by
  the frame, whether the connection is established, its window is full, or the frame was taken in pieces; the
  other connections are untouched.
\<close>

theorem node_write_in_order:
  assumes "node_write E i frame n = Some n'" and "find i n = Some c" and "cn_sock c = Some s" and "\<not> cn_closing c"
    and "writable_in s (nd_lib n)" and "age (ctx (nd_lib n')) < 2 ^ 31"
    and "frames_small (frame # cn_outq c)" and "offset_ok (cn_outq c) (cn_out_off c)"
  shows "\<exists>c'. find i n' = Some c' \<and> writable_in s (nd_lib n') \<and> offset_ok (cn_outq c') (cn_out_off c') \<and>
    stream_of s (nd_lib n') @ pending (cn_outq c') (cn_out_off c') =
      stream_of s (nd_lib n) @ pending (cn_outq c) (cn_out_off c) @ frame \<and>
    (\<forall>j. j \<noteq> i \<longrightarrow> find j n' = find j n)"
proof -
  let ?n = "upd_conn i (\<lambda>c. c\<lparr>cn_outq := cn_outq c @ [frame]\<rparr>) n"
  let ?c = "c\<lparr>cn_outq := cn_outq c @ [frame]\<rparr>"
  have f: "flush E i ?n = Some n'" using assms(1-4) by (simp add: node_write_def)
  have c: "find i ?n = Some ?c" using assms(2) by (simp add: find_upd)
  have small: "frames_small (cn_outq ?c)" using assms(7) by (simp add: frames_small_def)
  have ok: "offset_ok (cn_outq ?c) (cn_out_off ?c)" using assms(8) by (simp add: offset_ok_def split: list.splits)
  have "unat (cn_out_off c) \<le> length (concat (cn_outq c))"
    using assms(8) by (auto simp: offset_ok_def split: list.splits)
  then have p: "pending (cn_outq ?c) (cn_out_off ?c) = pending (cn_outq c) (cn_out_off c) @ frame"
    by (simp add: pending_def)
  have s: "cn_sock ?c = Some s" and w: "writable_in s (nd_lib ?n)" using assms(3,5) by simp_all
  show ?thesis
    using flush_pending [OF f c s w assms(6) small ok] unfolding p by (auto simp: find_upd)
qed

end
