(* ===== verification/Chat_Server.thy ===== *)
theory Chat_Server
  imports Chat_Node
begin

text \<open>
  The chat server and the client of the example, \<^verbatim>\<open>examples/uv-utp-chat/server.cpp\<close> and \<^verbatim>\<open>client.cpp\<close>: the
  hooks they give to the node. The thread pool is the list of its results that have not come back;
  a worker only computes, so a job is its result, and jobs come back in any order.
\<close>

section \<open>The server\<close>

text \<open>A checksum the workers compute for show.\<close>

definition fnv1a :: "bytes \<Rightarrow> u64" where
  "fnv1a d = fold (\<lambda>b h. (h XOR ucast b) * 0x100000001b3) d 0xcbf29ce484222325"

record Job =
  job_origin :: u64
  job_consumed :: u64
  job_frame :: bytes

type_synonym ChatServer = "Job list UtpUvNode"

text \<open>The suffixes of the notices, in UTF-8, and the separator between name and message.\<close>

definition joined :: bytes where "joined = [0x20, 0xe5, 0x8a, 0xa0, 0xe5, 0x85, 0xa5, 0xe4, 0xba, 0x86]"
definition left :: bytes where "left = [0x20, 0xe7, 0xa6, 0xbb, 0xe5, 0xbc, 0x80, 0xe4, 0xba, 0x86]"
definition says :: bytes where "says = [0x3a, 0x20]"

definition broadcast ::
  "env \<Rightarrow> (u64 list \<Rightarrow> u64 list) \<Rightarrow> bytes \<Rightarrow> u64 \<Rightarrow> 'a UtpUvNode \<Rightarrow> 'a UtpUvNode option" where
  "broadcast E order frame except n =
     for_each (\<lambda>i n. do {
         c \<leftarrow> find i n;
         if i \<noteq> except \<and> cn_name c \<noteq> [] then node_write E i frame n else Some n
       }) (order (map fst (nd_conns n))) n"

text \<open>What a worker does with a message.\<close>

definition work_on :: "u64 \<Rightarrow> bytes \<Rightarrow> bytes \<Rightarrow> Job option" where
  "work_on origin name body =
     do {
       frame \<leftarrow> encode text_msg (name @ says @ body);
       Some \<lparr>job_origin = origin, job_consumed = of_nat (length body), job_frame = frame\<rparr>
     }"

definition submit :: "Job \<Rightarrow> ChatServer \<Rightarrow> ChatServer" where
  "submit j n = n\<lparr>nd_app := nd_app n @ [j]\<rparr>"

definition handle_frame ::
  "env \<Rightarrow> (u64 list \<Rightarrow> u64 list) \<Rightarrow> u64 \<Rightarrow> Frame \<Rightarrow> ChatServer \<Rightarrow> ChatServer option" where
  "handle_frame E order i f n =
     (if fr_type f = join
      then do {
        frame \<leftarrow> encode sys (fr_body f @ joined);
        broadcast E order frame i (upd_conn i (\<lambda>c. c\<lparr>cn_name := fr_body f\<rparr>) n)
      }
      else if fr_type f = text_msg
      then do {
        let n = upd_conn i (\<lambda>c. c\<lparr>cn_unconsumed := cn_unconsumed c + of_nat (length (fr_body f))\<rparr>) n;
        c \<leftarrow> find i n;
        j \<leftarrow> work_on i (cn_name c) (fr_body f);
        Some (submit j n)
      }
      else Some n)"

primrec handle_frames ::
  "env \<Rightarrow> (u64 list \<Rightarrow> u64 list) \<Rightarrow> u64 \<Rightarrow> Frame list \<Rightarrow> ChatServer \<Rightarrow> ChatServer option" where
  "handle_frames E order i [] n = Some n"
| "handle_frames E order i (f # fs) n = handle_frame E order i f n \<bind> handle_frames E order i fs"

text \<open>No handler touches the parser, so the frames are taken out of it first.\<close>

definition server_on_read :: "env \<Rightarrow> (u64 list \<Rightarrow> u64 list) \<Rightarrow> bytes \<Rightarrow> Job list hook" where
  "server_on_read E order d i n =
     do {
       c \<leftarrow> find i n;
       let (fs, p) = receive d (cn_parser c);
       n \<leftarrow> handle_frames E order i fs (upd_conn i (\<lambda>c. c\<lparr>cn_parser := p\<rparr>) n);
       if fp_broken p then node_close E i n else Some n
     }"

definition server_on_eof :: "env \<Rightarrow> (u64 list \<Rightarrow> u64 list) \<Rightarrow> Job list hook" where
  "server_on_eof E order i n =
     do {
       c \<leftarrow> find i n;
       n \<leftarrow> (if cn_name c \<noteq> []
             then do {
               frame \<leftarrow> encode sys (cn_name c @ left);
               broadcast E order frame i n
             }
             else Some n);
       node_close E i n
     }"

definition server_hooks :: "env \<Rightarrow> (u64 list \<Rightarrow> u64 list) \<Rightarrow> Job list Hooks" where
  "server_hooks E order =
     \<lparr>hk_on_accept = Some (\<lambda>i n. Some n), hk_on_connect = None, hk_on_read = Some (server_on_read E order),
      hk_on_eof = Some (server_on_eof E order), hk_on_error = Some (\<lambda>e i n. Some n),
      hk_on_destroy = Some (\<lambda>i n. Some n)\<rparr>"

text \<open>A result is back on the loop's thread.\<close>

definition deliver :: "env \<Rightarrow> (u64 list \<Rightarrow> u64 list) \<Rightarrow> Job \<Rightarrow> ChatServer \<Rightarrow> ChatServer option" where
  "deliver E order j n =
     do {
       n \<leftarrow> broadcast E order (job_frame j) (job_origin j) n;
       consumed E (job_origin j) (job_consumed j) n
     }"

section \<open>The client\<close>

record ClientApp =
  ca_rr :: u64
  ca_conn_ids :: "u64 list"
  ca_linebuf :: bytes
  ca_quitting :: bool

type_synonym ChatClient = "ClientApp UtpUvNode"

text \<open>The next connection in turn that can be written to, in at most as many tries as there are connections.\<close>

primrec send_tries :: "env \<Rightarrow> nat \<Rightarrow> bytes \<Rightarrow> ChatClient \<Rightarrow> ChatClient option" where
  "send_tries E 0 line n = Some n"
| "send_tries E (Suc k) line n =
     (let a = nd_app n;
          i = ca_conn_ids a ! (unat (ca_rr a) mod length (ca_conn_ids a));
          n = n\<lparr>nd_app := a\<lparr>ca_rr := ca_rr a + 1\<rparr>\<rparr>
      in case find i n of
           None \<Rightarrow> send_tries E k line n
         | Some c \<Rightarrow>
             if cn_connected c \<and> \<not> cn_closing c
             then do { f \<leftarrow> encode text_msg line; node_write E i f n }
             else send_tries E k line n)"

definition send_line :: "env \<Rightarrow> bytes \<Rightarrow> ChatClient \<Rightarrow> ChatClient option" where
  "send_line E line n = send_tries E (length (ca_conn_ids (nd_app n))) line n"

definition quit :: "env \<Rightarrow> (u64 list \<Rightarrow> u64 list) \<Rightarrow> ChatClient \<Rightarrow> ChatClient option" where
  "quit E order n =
     (if ca_quitting (nd_app n) then Some n
      else begin_shutdown E order (n\<lparr>nd_app := (nd_app n)\<lparr>ca_quitting := True\<rparr>\<rparr>))"

text \<open>The complete lines at the front of the buffer, and the rest.\<close>

function split_lines :: "bytes \<Rightarrow> bytes list \<times> bytes" where
  "split_lines b =
     (case dropWhile (\<lambda>x. x \<noteq> 10) b of
        [] \<Rightarrow> ([], b)
      | _ # rest \<Rightarrow> (let (ls, r) = split_lines rest in (takeWhile (\<lambda>x. x \<noteq> 10) b # ls, r)))"
  by pat_completeness auto
termination
proof (relation "measure length")
  fix b :: bytes and x xs assume "dropWhile (\<lambda>x. x \<noteq> 10) b = x # xs"
  then have "length (x # xs) \<le> length b" by (metis length_dropWhile_le)
  then show "(xs, b) \<in> measure length" by simp
qed simp

declare split_lines.simps [simp del]

primrec send_lines :: "env \<Rightarrow> bytes list \<Rightarrow> ChatClient \<Rightarrow> ChatClient option" where
  "send_lines E [] n = Some n"
| "send_lines E (l # ls) n = (if l \<noteq> [] then send_line E l n else Some n) \<bind> send_lines E ls"

definition on_stdin :: "env \<Rightarrow> (u64 list \<Rightarrow> u64 list) \<Rightarrow> int \<Rightarrow> bytes \<Rightarrow> ChatClient \<Rightarrow> ChatClient option" where
  "on_stdin E order nread buf n =
     (if nread < 0 then quit E order n
      else (let (ls, r) = split_lines (ca_linebuf (nd_app n) @ take (nat nread) buf)
            in send_lines E ls (n\<lparr>nd_app := (nd_app n)\<lparr>ca_linebuf := r\<rparr>\<rparr>)))"

definition client_on_connect :: "env \<Rightarrow> ClientApp hook" where
  "client_on_connect E i n =
     do {
       c \<leftarrow> find i n;
       f \<leftarrow> encode join (cn_name c);
       node_write E i f n
     }"

text \<open>A client prints what it reads; a broken parser is left as it is.\<close>

definition client_on_read :: "bytes \<Rightarrow> ClientApp hook" where
  "client_on_read d i n =
     do {
       c \<leftarrow> find i n;
       Some (upd_conn i (\<lambda>c. c\<lparr>cn_parser := snd (receive d (cn_parser c))\<rparr>) n)
     }"

definition client_on_destroy :: "env \<Rightarrow> (u64 list \<Rightarrow> u64 list) \<Rightarrow> ClientApp hook" where
  "client_on_destroy E order i n = (if length (nd_conns n) = 1 then quit E order n else Some n)"

text \<open>The connections opened at the start, one for each name.\<close>

primrec client_connect :: "env \<Rightarrow> sockaddr \<Rightarrow> bytes list \<Rightarrow> ChatClient \<Rightarrow> ChatClient option" where
  "client_connect E to [] n = Some n"
| "client_connect E to (name # names) n =
     do {
       (i, n) \<leftarrow> node_connect E to n;
       let n = upd_conn i (\<lambda>c. c\<lparr>cn_name := name\<rparr>) n;
       client_connect E to names (n\<lparr>nd_app := (nd_app n)\<lparr>ca_conn_ids := ca_conn_ids (nd_app n) @ [i]\<rparr>\<rparr>)
     }"

definition client_hooks :: "env \<Rightarrow> (u64 list \<Rightarrow> u64 list) \<Rightarrow> ClientApp Hooks" where
  "client_hooks E order =
     \<lparr>hk_on_accept = None, hk_on_connect = Some (client_on_connect E), hk_on_read = Some client_on_read,
      hk_on_eof = Some (node_close E), hk_on_error = Some (\<lambda>e i n. Some n),
      hk_on_destroy = Some (client_on_destroy E order)\<rparr>"

section \<open>What is in the pipeline\<close>

definition pool_of :: "u64 \<Rightarrow> Job list \<Rightarrow> u64" where
  "pool_of i js = sum_list (map job_consumed (filter (\<lambda>j. job_origin j = i) js))"

definition pool_bytes :: "Job list \<Rightarrow> nat" where
  "pool_bytes js = sum_list (map (\<lambda>j. unat (job_consumed j)) js)"

text \<open>What every connection has unconsumed is what its messages in the pool hold; numbers are fresh.\<close>

definition accounted :: "ChatServer \<Rightarrow> bool" where
  "accounted n \<longleftrightarrow> (\<forall>i c. find i n = Some c \<longrightarrow> cn_unconsumed c = pool_of i (nd_app n) \<and> i < nd_next_id n) \<and>
     (\<forall>j \<in> set (nd_app n). job_origin j < nd_next_id n)"

definition same_accounts :: "'a UtpUvNode \<Rightarrow> 'a UtpUvNode \<Rightarrow> bool" where
  "same_accounts n n' \<longleftrightarrow> nd_app n' = nd_app n \<and> nd_next_id n' = nd_next_id n \<and>
     (\<forall>i. map_option cn_unconsumed (find i n') = map_option cn_unconsumed (find i n))"

lemma same_accounts_refl [simp]: "same_accounts n n" "same_accounts n (n\<lparr>nd_lib := w\<rparr>)" "same_accounts n (n\<lparr>nd_shutdown := b\<rparr>)"
  by (simp_all add: same_accounts_def find_def)

lemma same_accounts_trans: "same_accounts n n1 \<Longrightarrow> same_accounts n1 n' \<Longrightarrow> same_accounts n n'"
  by (simp add: same_accounts_def)

lemma same_accounts_upd: "(\<And>c. cn_unconsumed (f c) = cn_unconsumed c) \<Longrightarrow> same_accounts n (upd_conn i f n)"
  by (auto simp: same_accounts_def find_upd option.map_comp comp_def)

lemma same_accounts_lib_upd:
  "(\<And>c. cn_unconsumed (f c) = cn_unconsumed c) \<Longrightarrow> same_accounts n (upd_conn i f (n\<lparr>nd_lib := w\<rparr>))"
  by (rule same_accounts_trans [OF same_accounts_refl(2) same_accounts_upd])

lemma same_accounts_accounted: "same_accounts n n' \<Longrightarrow> accounted n \<Longrightarrow> accounted n'"
proof -
  assume s: "same_accounts n n'" and a: "accounted n"
  have "\<exists>c'. find i n = Some c' \<and> cn_unconsumed c' = cn_unconsumed c" if "find i n' = Some c" for i c
  proof -
    have "map_option cn_unconsumed (find i n') = map_option cn_unconsumed (find i n)"
      using s unfolding same_accounts_def by blast
    then show ?thesis using that by (cases "find i n") simp_all
  qed
  then show "accounted n'" using s a unfolding accounted_def same_accounts_def by metis
qed

lemma flush_accounts: "post (flush E i n) (\<lambda>n'. same_accounts n n')"
proof (rule postI)
  fix n' assume f: "flush E i n = Some n'"
  show "same_accounts n n'"
  proof (cases "n' = n")
    case False
    then obtain q k w where "n' = upd_conn i (\<lambda>c. c\<lparr>cn_outq := q, cn_out_off := k\<rparr>) (n\<lparr>nd_lib := w\<rparr>)"
      using f by (auto simp: flush_def bind_eq_Some_conv split: option.splits if_splits)
    then show ?thesis using same_accounts_lib_upd [of "\<lambda>c. c\<lparr>cn_outq := q, cn_out_off := k\<rparr>" n i w] by simp
  qed simp
qed

lemma node_write_accounts: "post (node_write E i frame n) (\<lambda>n'. same_accounts n n')"
proof (rule postI)
  fix n' assume f: "node_write E i frame n = Some n'"
  let ?n = "upd_conn i (\<lambda>c. c\<lparr>cn_outq := cn_outq c @ [frame]\<rparr>) n"
  have u: "same_accounts n ?n" by (rule same_accounts_upd) simp
  have "n' = n \<or> flush E i ?n = Some n'" using f by (auto simp: node_write_def bind_eq_Some_conv split: if_splits)
  then show "same_accounts n n'"
  proof
    assume "flush E i ?n = Some n'"
    from postD [OF flush_accounts this] show ?thesis by (rule same_accounts_trans [OF u])
  qed simp
qed

lemma node_close_accounts: "post (node_close E i n) (\<lambda>n'. same_accounts n n')"
proof (rule postI)
  fix n' assume f: "node_close E i n = Some n'"
  then have "n' = n \<or> (\<exists>w. n' = upd_conn i (\<lambda>c. c\<lparr>cn_closing := True\<rparr>) (n\<lparr>nd_lib := w\<rparr>))"
    by (auto simp: node_close_def bind_eq_Some_conv split: if_splits)
  then show "same_accounts n n'"
    using same_accounts_lib_upd [of "\<lambda>c. c\<lparr>cn_closing := True\<rparr>" n i] by auto
qed

lemma for_each_accounts:
  assumes "\<And>i n. post (f i n) (\<lambda>n'. same_accounts n n')" shows "post (for_each f is n) (\<lambda>n'. same_accounts n n')"
proof (induction "is" arbitrary: n)
  case Nil
  then show ?case by (simp add: post_simps)
next
  case (Cons i "is")
  show ?case
  proof (rule postI)
    fix n' assume "for_each f (i # is) n = Some n'"
    then obtain n1 where "f i n = Some n1" "for_each f is n1 = Some n'" by (auto simp: bind_eq_Some_conv)
    then show "same_accounts n n'"
      using postD [OF assms] postD [OF Cons.IH] same_accounts_trans by blast
  qed
qed

lemma broadcast_accounts: "post (broadcast E order frame except n) (\<lambda>n'. same_accounts n n')"
  unfolding broadcast_def
proof (rule for_each_accounts)
  fix i and n :: "'a UtpUvNode"
  show "post (do { c \<leftarrow> find i n; if i \<noteq> except \<and> cn_name c \<noteq> [] then node_write E i frame n else Some n }) (same_accounts n)"
  proof (cases "find i n")
    case (Some c)
    then show ?thesis using node_write_accounts [of E i frame n] by (simp add: post_simps)
  qed (simp add: post_simps)
qed

text \<open>Operations that keep the accounts right, where they return.\<close>

definition keeps_accounts :: "(ChatServer \<Rightarrow> ChatServer option) \<Rightarrow> bool" where
  "keeps_accounts f \<longleftrightarrow> (\<forall>n n'. f n = Some n' \<longrightarrow> accounted n \<longrightarrow> accounted n')"

lemma keeps_accountsI: "(\<And>n. post (f n) (\<lambda>n'. same_accounts n n')) \<Longrightarrow> keeps_accounts f"
  unfolding keeps_accounts_def post_def using same_accounts_accounted by blast

lemma keeps_accountsD: "keeps_accounts f \<Longrightarrow> f n = Some n' \<Longrightarrow> accounted n \<Longrightarrow> accounted n'"
  by (simp add: keeps_accounts_def)

lemma accounted_upd: "(\<And>c. cn_unconsumed (f c) = cn_unconsumed c) \<Longrightarrow> accounted n \<Longrightarrow> accounted (upd_conn i f n)"
  by (rule same_accounts_accounted [OF same_accounts_upd])

lemma pool_of_append: "pool_of i (xs @ ys) = pool_of i xs + pool_of i ys"
  by (simp add: pool_of_def)

lemma find_submit [simp]: "find j (submit x m) = find j m"
  by (simp add: submit_def find_def)

lemma submit_fields [simp]: "nd_app (submit x m) = nd_app m @ [x]" "nd_next_id (submit x m) = nd_next_id m"
  by (simp_all add: submit_def)

lemma submit_accounted:
  assumes "accounted n" and "find i n = Some c"
  shows "accounted (submit \<lparr>job_origin = i, job_consumed = k, job_frame = b\<rparr>
    (upd_conn i (\<lambda>c. c\<lparr>cn_unconsumed := cn_unconsumed c + k\<rparr>) n))"
proof -
  have "pool_of j [\<lparr>job_origin = i, job_consumed = k, job_frame = b\<rparr>] = (if j = i then k else 0)" for j
    by (simp add: pool_of_def)
  then show ?thesis using assms by (auto simp: accounted_def find_upd pool_of_append split: if_splits)
qed

lemma handle_frame_accounts: "keeps_accounts (handle_frame E order i f)"
  unfolding keeps_accounts_def
proof (intro allI impI)
  fix n n' assume r: "handle_frame E order i f n = Some n'" and a: "accounted n"
  consider (joins) "fr_type f = join" | (says) "fr_type f \<noteq> join" "fr_type f = text_msg" | (other) "n' = n"
    using r by (auto simp: handle_frame_def split: if_splits)
  then show "accounted n'"
  proof cases
    case joins
    then obtain b where "broadcast E order b i (upd_conn i (\<lambda>c. c\<lparr>cn_name := fr_body f\<rparr>) n) = Some n'"
      using r by (auto simp: handle_frame_def bind_eq_Some_conv)
    from postD [OF broadcast_accounts this] show ?thesis
      by (rule same_accounts_accounted) (rule accounted_upd [OF _ a], simp)
  next
    case says
    let ?k = "of_nat (length (fr_body f)) :: u64"
    let ?n = "upd_conn i (\<lambda>c. c\<lparr>cn_unconsumed := cn_unconsumed c + ?k\<rparr>) n"
    obtain c b where c: "find i ?n = Some c" and
      n': "n' = submit \<lparr>job_origin = i, job_consumed = ?k, job_frame = b\<rparr> ?n"
      using r says by (auto simp: handle_frame_def work_on_def bind_eq_Some_conv Let_def)
    obtain c0 where "find i n = Some c0" using c by (auto simp: find_upd)
    then show ?thesis unfolding n' by (rule submit_accounted [OF a])
  next
    case other
    then show ?thesis using a by simp
  qed
qed

lemma handle_frames_accounts: "keeps_accounts (handle_frames E order i fs)"
proof (induction fs)
  case (Cons f fs)
  then show ?case
    using handle_frame_accounts [of E order i f] by (auto simp: keeps_accounts_def bind_eq_Some_conv)
qed (simp add: keeps_accounts_def)

lemma node_close_keeps: "keeps_accounts (node_close E i)"
  by (rule keeps_accountsI) (rule node_close_accounts)

lemma server_on_read_accounts: "keeps_accounts (server_on_read E order d i)"
  unfolding keeps_accounts_def
proof (intro allI impI)
  fix n n' assume r: "server_on_read E order d i n = Some n'" and a: "accounted n"
  obtain c where c: "find i n = Some c" using r by (auto simp: server_on_read_def bind_eq_Some_conv)
  obtain fs p where p: "receive d (cn_parser c) = (fs, p)" by (cases "receive d (cn_parser c)")
  obtain n1 where n1: "handle_frames E order i fs (upd_conn i (\<lambda>c. c\<lparr>cn_parser := p\<rparr>) n) = Some n1"
    and n': "n' = n1 \<or> node_close E i n1 = Some n'"
    using r c p by (auto simp: server_on_read_def bind_eq_Some_conv Let_def split: if_splits)
  have "accounted n1"
    by (rule keeps_accountsD [OF handle_frames_accounts n1]) (rule accounted_upd [OF _ a], simp)
  then show "accounted n'" using n' keeps_accountsD [OF node_close_keeps] by blast
qed

lemma server_on_eof_accounts: "keeps_accounts (server_on_eof E order i)"
  unfolding keeps_accounts_def
proof (intro allI impI)
  fix n n' assume r: "server_on_eof E order i n = Some n'" and a: "accounted n"
  obtain n1 where n1: "n1 = n \<or> (\<exists>b. broadcast E order b i n = Some n1)" and n': "node_close E i n1 = Some n'"
    using r by (auto simp: server_on_eof_def bind_eq_Some_conv split: if_splits)
  have "accounted n1" using n1 a same_accounts_accounted postD [OF broadcast_accounts] by blast
  then show "accounted n'" by (rule keeps_accountsD [OF node_close_keeps n'])
qed

lemma find_conns: "nd_conns n' = nd_conns n \<Longrightarrow> find i n' = find i n"
  by (simp add: find_def)

lemma accounted_cong: "nd_conns n' = nd_conns n \<Longrightarrow> nd_app n' = nd_app n \<Longrightarrow> nd_next_id n' = nd_next_id n \<Longrightarrow> accounted n \<Longrightarrow> accounted n'"
  by (simp add: accounted_def find_conns [of n' n])

lemma on_destroying_accounts: "keeps_accounts (on_destroying (server_hooks E order) i)"
  unfolding keeps_accounts_def
proof (intro allI impI)
  fix n n' assume r: "on_destroying (server_hooks E order) i n = Some n'" and a: "accounted n"
  let ?n = "upd_conn i (\<lambda>c. c\<lparr>cn_sock := None\<rparr>) n"
  let ?m = "?n\<lparr>nd_conns := AList.delete i (nd_conns ?n)\<rparr>"
  have n': "n' = maybe_close_handles ?m"
    using r by (simp add: on_destroying_def run_hook_def server_hooks_def)
  have "accounted ?n" by (rule accounted_upd [OF _ a]) simp
  moreover have "find j ?m = (if j = i then None else find j ?n)" for j
    by (simp add: find_def AList.delete_conv')
  ultimately have "accounted ?m" by (auto simp: accounted_def)
  then show "accounted n'" unfolding n' by (rule accounted_cong [rotated 3]) (simp_all add: maybe_close_handles_def)
qed

lemma less_succ: "(i :: u64) \<noteq> - 1 \<Longrightarrow> j < i + 1 \<longleftrightarrow> j \<le> i"
  using inc_less_eq_iff [of i j] by (auto simp: not_less [symmetric])

lemma adopt_accounts:
  assumes "adopt s n = Some (i, n')" and a: "accounted n" and "nd_next_id n \<noteq> - 1"
  shows "accounted n'"
proof -
  define c where "c = \<lparr>cn_sock = Some s, cn_connected = False, cn_closing = False, cn_unconsumed = 0, cn_outq = [],
    cn_out_off = 0, cn_name = [], cn_parser = new_FrameParser\<rparr>"
  have "adopt s n = (if find (nd_next_id n) n = None
      then Some (nd_next_id n, n\<lparr>nd_next_id := nd_next_id n + 1, nd_userdata := (nd_userdata n)(s \<mapsto> nd_next_id n),
        nd_conns := nd_conns n @ [(nd_next_id n, c)]\<rparr>) else None)"
    by (simp add: adopt_def Let_def ub_unless_def c_def)
  then have ii: "i = nd_next_id n" "n' = n\<lparr>nd_next_id := i + 1, nd_userdata := (nd_userdata n)(s \<mapsto> i),
      nd_conns := nd_conns n @ [(i, c)]\<rparr>"
    using assms(1) by (simp_all split: if_splits)
  have i: "i = nd_next_id n" and c: "cn_unconsumed c = 0" using ii by (simp_all add: c_def)
  have n': "nd_conns n' = nd_conns n @ [(i, c)]" "nd_app n' = nd_app n" "nd_next_id n' = i + 1"
    unfolding ii(2) by simp_all
  have less: "j < i + 1 \<longleftrightarrow> j \<le> i" for j using less_succ assms(3) i by blast
  have "find i n \<noteq> Some d" for d using a less_irrefl [of i] unfolding accounted_def i by blast
  then have none: "find i n = None" by (cases "find i n") blast+
  have "job_origin j < i" if "j \<in> set (nd_app n)" for j using a that unfolding accounted_def i by blast
  note fresh = none this
  have "job_origin j \<noteq> i" if "j \<in> set (nd_app n)" for j using fresh(2) [OF that] by blast
  then have "filter (\<lambda>j. job_origin j = i) (nd_app n) = []" by (auto simp: filter_empty_conv)
  then have pool: "pool_of i (nd_app n) = 0" by (simp add: pool_of_def)
  have f: "find j n' = (if j = i then Some c else find j n)" for j
    using fresh(1) by (simp add: find_def n' map_add_def split: option.split)
  have old: "cn_unconsumed d = pool_of j (nd_app n) \<and> j \<le> i" if "find j n = Some d" for j d
    using a that i by (auto simp: accounted_def intro: less_imp_le)
  show ?thesis
    unfolding accounted_def n' f less using old fresh(2) pool c by (auto intro: less_imp_le)
qed

lemma lib_accounted: "accounted n \<Longrightarrow> accounted (n\<lparr>nd_lib := w\<rparr>)"
  by (rule same_accounts_accounted [OF same_accounts_refl(2)])

lemma deliver_accounts:
  assumes "deliver E order j (n\<lparr>nd_app := xs @ ys\<rparr>) = Some n'" and a: "accounted n" and "nd_app n = xs @ j # ys"
  shows "accounted n'"
proof -
  let ?n = "n\<lparr>nd_app := xs @ ys\<rparr>" and ?i = "job_origin j" and ?k = "job_consumed j"
  obtain n1 where n1: "broadcast E order (job_frame j) ?i ?n = Some n1" "consumed E ?i ?k n1 = Some n'"
    using assms(1) by (auto simp: deliver_def bind_eq_Some_conv)
  have s: "same_accounts ?n n1" by (rule postD [OF broadcast_accounts n1(1)])
  have f: "find i ?n = find i n" for i by (simp add: find_def)
  have p: "pool_of i (nd_app n) = pool_of i (xs @ ys) + (if i = ?i then ?k else 0)" for i
    by (simp add: assms(3) pool_of_append) (simp add: pool_of_def)
  have n1': "nd_app n1 = xs @ ys" "nd_next_id n1 = nd_next_id n" using s by (simp_all add: same_accounts_def)
  have old: "cn_unconsumed c = pool_of i (xs @ ys) + (if i = ?i then ?k else 0) \<and> i < nd_next_id n" if c: "find i n1 = Some c" for i c
  proof -
    have "map_option cn_unconsumed (find i n1) = map_option cn_unconsumed (find i n)"
      using s f unfolding same_accounts_def by metis
    then obtain d where "find i n = Some d" "cn_unconsumed d = cn_unconsumed c"
      using c by (cases "find i n") simp_all
    then show ?thesis using a p unfolding accounted_def by metis
  qed
  have jobs: "\<forall>j \<in> set (xs @ ys). job_origin j < nd_next_id n"
    using a assms(3) by (auto simp: accounted_def)
  show ?thesis
  proof (cases "find ?i n1")
    case None
    then have "n' = n1" using n1(2) by (simp add: consumed_def)
    moreover have "i \<noteq> ?i" if "find i n1 = Some c" for i c using that None by auto
    ultimately show ?thesis using old jobs by (auto simp: accounted_def n1')
  next
    case (Some c)
    let ?m = "upd_conn ?i (\<lambda>c. c\<lparr>cn_unconsumed := cn_unconsumed c - ?k\<rparr>) n1"
    have "accounted ?m" using old jobs by (auto simp: accounted_def find_upd n1' split: if_splits)
    moreover have "n' = ?m \<or> (\<exists>w. n' = ?m\<lparr>nd_lib := w\<rparr>)"
      using n1(2) Some by (auto simp: consumed_def bind_eq_Some_conv Let_def split: if_splits)
    ultimately show ?thesis using lib_accounted by blast
  qed
qed

section \<open>Runs of the server\<close>

text \<open>
  What happens to a server: calls of its callbacks, results of the pool in any order, its shutdown, and
  anything the library does to its own state.
\<close>

inductive server_step :: "env \<Rightarrow> (u64 list \<Rightarrow> u64 list) \<Rightarrow> ChatServer \<Rightarrow> ChatServer \<Rightarrow> bool" for E order where
  accept: "s_on_accept (server_hooks E order) a n = Some n' \<Longrightarrow> nd_next_id n \<noteq> - 1 \<Longrightarrow> server_step E order n n'"
| reading: "s_on_read E (server_hooks E order) a n = Some n' \<Longrightarrow> server_step E order n n'"
| change: "s_on_state E (server_hooks E order) a n = Some n' \<Longrightarrow> server_step E order n n'"
| failing: "s_on_error E (server_hooks E order) a n = Some n' \<Longrightarrow> server_step E order n n'"
| result: "nd_app n = xs @ j # ys \<Longrightarrow> deliver E order j (n\<lparr>nd_app := xs @ ys\<rparr>) = Some n' \<Longrightarrow> server_step E order n n'"
| shutdown: "begin_shutdown E order n = Some n' \<Longrightarrow> server_step E order n n'"
| library: "server_step E order n (n\<lparr>nd_lib := w\<rparr>)"

inductive server_run :: "env \<Rightarrow> (u64 list \<Rightarrow> u64 list) \<Rightarrow> ChatServer \<Rightarrow> bool" for E order where
  starts: "new_UtpUvNode E True debug [] = Some n \<Longrightarrow> server_run E order n"
| goes_on: "server_run E order n \<Longrightarrow> server_step E order n n' \<Longrightarrow> server_run E order n'"

lemma s_on_state_accounts: "keeps_accounts (s_on_state E (server_hooks E order) a)"
  unfolding keeps_accounts_def
proof (intro allI impI)
  fix n n' assume r: "s_on_state E (server_hooks E order) a n = Some n'" and acc: "accounted n"
  show "accounted n'"
  proof (cases "conn_of a n")
    case None
    then show ?thesis using r acc by (simp add: s_on_state_def)
  next
    case (Some i)
    let ?n = "upd_conn i (\<lambda>c. c\<lparr>cn_connected := True\<rparr>) n"
    have u: "accounted ?n" by (rule accounted_upd [OF _ acc]) simp
    have "flush E i ?n = Some n' \<or> flush E i n = Some n' \<or> server_on_eof E order i n = Some n' \<or>
        on_destroying (server_hooks E order) i n = Some n' \<or> n' = n"
      using r Some by (auto simp: s_on_state_def run_hook_def server_hooks_def split: if_splits)
    then show ?thesis
      using u acc same_accounts_accounted postD [OF flush_accounts]
        keeps_accountsD [OF server_on_eof_accounts] keeps_accountsD [OF on_destroying_accounts] by blast
  qed
qed

lemma s_on_read_accounts: "keeps_accounts (s_on_read E (server_hooks E order) a)"
  unfolding keeps_accounts_def
proof (intro allI impI)
  fix n n' assume r: "s_on_read E (server_hooks E order) a n = Some n'" and acc: "accounted n"
  obtain n1 where f: "(case conn_of a n of None \<Rightarrow> Some n
      | Some i \<Rightarrow> do { b \<leftarrow> arg_buf a; server_on_read E order (take (unat (arg_len a)) b) i n }) = Some n1"
    and g: "(case arg_socket a of None \<Rightarrow> Some n1
      | Some s \<Rightarrow> do { w \<leftarrow> utp_read_drained E (Some s) (nd_lib n1); Some (n1\<lparr>nd_lib := w\<rparr>) }) = Some n'"
    using r by (auto simp: s_on_read_def server_hooks_def bind_eq_Some_conv cong: option.case_cong)
  have n1: "n1 = n \<or> (\<exists>i d. server_on_read E order d i n = Some n1)"
    using f by (auto simp: bind_eq_Some_conv split: option.splits)
  have n': "n' = n1 \<or> (\<exists>w. n' = n1\<lparr>nd_lib := w\<rparr>)"
    using g by (auto simp: bind_eq_Some_conv split: option.splits)
  have "accounted n1" using n1 acc keeps_accountsD [OF server_on_read_accounts] by blast
  then show "accounted n'" using n' lib_accounted by blast
qed

lemma begin_shutdown_accounts: "keeps_accounts (begin_shutdown E order)"
  unfolding keeps_accounts_def
proof (intro allI impI)
  fix n n' :: ChatServer
  assume r: "begin_shutdown E order n = Some n'" and acc: "accounted n"
  show "accounted n'"
  proof (cases "nd_shutdown n")
    case True
    then show ?thesis using r acc by (simp add: begin_shutdown_def)
  next
    case False
    then obtain m where m: "for_each (node_close E) (order (map fst (nd_conns n))) (n\<lparr>nd_shutdown := True\<rparr>) = Some m"
      and n': "n' = maybe_close_handles m"
      using r by (auto simp: begin_shutdown_def bind_eq_Some_conv)
    have "accounted (n\<lparr>nd_shutdown := True\<rparr>)"
      by (rule same_accounts_accounted [OF same_accounts_refl(3) acc])
    then have "accounted m"
      by (rule same_accounts_accounted [OF postD [OF for_each_accounts [OF node_close_accounts] m]])
    then show ?thesis unfolding n' by (rule accounted_cong [rotated 3]) (simp_all add: maybe_close_handles_def)
  qed
qed

lemma server_step_accounted: "server_step E order n n' \<Longrightarrow> accounted n \<Longrightarrow> accounted n'"
proof (induction rule: server_step.induct)
  case (accept a n n')
  obtain s i m where "adopt s n = Some (i, m)" "n' = upd_conn i (\<lambda>c. c\<lparr>cn_connected := True\<rparr>) m"
    using accept.hyps(1) by (auto simp: s_on_accept_def run_hook_def server_hooks_def bind_eq_Some_conv)
  moreover from this have "accounted m" using adopt_accounts accept.prems accept.hyps(2) by blast
  ultimately show ?case using accounted_upd by simp
next
  case (failing a n n')
  then show ?case
    using keeps_accountsD [OF node_close_keeps]
    by (auto simp: s_on_error_def server_hooks_def bind_eq_Some_conv split: option.splits arg_value.splits)
next
  case (result n xs j ys n')
  then show ?case using deliver_accounts by blast
qed (blast intro: lib_accounted keeps_accountsD [OF s_on_read_accounts] keeps_accountsD [OF s_on_state_accounts]
    keeps_accountsD [OF begin_shutdown_accounts])+

lemma server_run_accounted: "server_run E order n \<Longrightarrow> accounted n"
proof (induction rule: server_run.induct)
  case (starts debug n)
  then have "nd_conns n = []" "nd_app n = []" by (auto simp: new_UtpUvNode_def bind_eq_Some_conv split: if_splits)
  then show ?case by (simp add: accounted_def find_def)
next
  case (goes_on n n')
  then show ?case using server_step_accounted by blast
qed

lemma unat_pool_of:
  "pool_bytes js < 2 ^ 64 \<Longrightarrow> unat (pool_of i js) = pool_bytes (filter (\<lambda>j. job_origin j = i) js)"
proof (induction js)
  case (Cons j js)
  have le: "pool_bytes (filter (\<lambda>j. job_origin j = i) js) \<le> pool_bytes js" for i
    by (induction js) (simp_all add: pool_bytes_def)
  have IH: "unat (pool_of i js) = pool_bytes (filter (\<lambda>j. job_origin j = i) js)" using Cons by (simp add: pool_bytes_def)
  have s: "unat (job_consumed j) + pool_bytes (filter (\<lambda>j. job_origin j = i) js) < 2 ^ 64"
    using Cons.prems le [of i] by (simp add: pool_bytes_def)
  have p: "pool_of i (j # js) = (if job_origin j = i then job_consumed j + pool_of i js else pool_of i js)"
    by (simp add: pool_of_def)
  show ?case
    unfolding p using IH s by (simp add: unat_word_ariths) (simp add: pool_bytes_def)
qed (simp add: pool_of_def pool_bytes_def)

text \<open>
  C38: the back-pressure of the server is exact. In every state a server reaches, what a connection
  reports as its unread bytes is what its messages hold that the thread pool has not given back, so the
  assertion in \<open>consumed\<close> holds whenever one of them comes back, whatever was written to the others
  in between.
\<close>

theorem backpressure_exact:
  assumes "server_run E order n" and "pool_bytes (nd_app n) < 2 ^ 64"
  shows "(\<forall>i c. find i n = Some c \<longrightarrow>
      unat (cn_unconsumed c) = pool_bytes (filter (\<lambda>j. job_origin j = i) (nd_app n))) \<and>
    (\<forall>j \<in> set (nd_app n). \<forall>js n1 c. broadcast E order (job_frame j) (job_origin j) (n\<lparr>nd_app := js\<rparr>) = Some n1 \<longrightarrow>
      find (job_origin j) n1 = Some c \<longrightarrow> job_consumed j \<le> cn_unconsumed c)"
proof (intro conjI ballI allI impI)
  have a: "accounted n" by (rule server_run_accounted [OF assms(1)])
  show e: "unat (cn_unconsumed c) = pool_bytes (filter (\<lambda>j. job_origin j = i) (nd_app n))" if "find i n = Some c" for i c
    using a that unat_pool_of [OF assms(2)] by (simp add: accounted_def)
  fix j js n1 c
  assume j: "j \<in> set (nd_app n)" and b: "broadcast E order (job_frame j) (job_origin j) (n\<lparr>nd_app := js\<rparr>) = Some n1"
    and c: "find (job_origin j) n1 = Some c"
  have "map_option cn_unconsumed (find (job_origin j) n1) = map_option cn_unconsumed (find (job_origin j) (n\<lparr>nd_app := js\<rparr>))"
    using postD [OF broadcast_accounts b] unfolding same_accounts_def by blast
  also have "find (job_origin j) (n\<lparr>nd_app := js\<rparr>) = find (job_origin j) n" by (simp add: find_def)
  finally obtain d where d: "find (job_origin j) n = Some d" "cn_unconsumed d = cn_unconsumed c"
    using c by (cases "find (job_origin j) n") simp_all
  have "unat (job_consumed j) \<in> set (map (\<lambda>j. unat (job_consumed j)) (filter (\<lambda>k. job_origin k = job_origin j) (nd_app n)))"
    using j by auto
  then have "unat (job_consumed j) \<le> pool_bytes (filter (\<lambda>k. job_origin k = job_origin j) (nd_app n))"
    unfolding pool_bytes_def by (rule member_le_sum_list) simp
  then show "job_consumed j \<le> cn_unconsumed c" using e [OF d(1)] d(2) by (simp add: word_le_nat_alt)
qed

section \<open>A message that is too long with its name\<close>

lemma long_frame_breaks:
  assumes "64 * 1024 \<le> length b" and "length b < 2 ^ 32 - 5" and "encode ty b = Some frame"
    and "\<not> fp_broken p" and "fp_buf p = []"
  shows "\<exists>q. receive frame p = ([], q) \<and> fp_broken q"
proof -
  let ?n = "1 + of_nat (length b) :: u32"
  have f: "frame = le32 ?n @ ty # b" using encode_small [of b ty] assms(2,3) by simp
  have "unat ?n = length b + 1" using assms(2) by (intro unat_frame_length) simp
  then have "kMaxFrame < ?n" using assms(1) by (simp add: kMaxFrame_def word_less_nat_alt)
  then have "next_frame (feed frame p) = (None, (feed frame p)\<lparr>fp_broken := True, fp_buf := []\<rparr>)"
    using assms(4,5) by (simp add: next_frame_def feed_def f Let_def)
  then have "drain (feed frame p) = ([], (feed frame p)\<lparr>fp_broken := True, fp_buf := []\<rparr>)"
    by (subst drain.simps) simp
  then show ?thesis by (simp add: receive_def)
qed

text \<open>
  C39: one client can silence the others. The server accepts a message as long as a frame may be, puts the
  sender's name in front and relays the result without looking at its length: when the two exceed the
  limit, the frame breaks the parser of whoever receives it, from then on nothing the server sends is
  shown, and all of it is kept.
\<close>

theorem relayed_frame_breaks:
  assumes "fr_type f = text_msg" and "fits f" and "find i n = Some c" and "length (cn_name c) < 2 ^ 31"
    and "64 * 1024 \<le> length (cn_name c) + 2 + length (fr_body f)" and "\<not> fp_broken p" and "fp_buf p = []"
  shows "\<exists>n' j q. handle_frame E order i f n = Some n' \<and> nd_app n' = nd_app n @ [j] \<and>
    receive (job_frame j) p = ([], q) \<and> (\<forall>d. \<exists>q'. receive d q = ([], q') \<and> length (fp_buf q') = length (fp_buf q) + length d)"
proof -
  let ?b = "cn_name c @ says @ fr_body f"
  have l: "64 * 1024 \<le> length ?b" "length ?b < 2 ^ 32 - 5" using assms(2,4,5) by (simp_all add: says_def fits_def)
  then obtain frame where e: "encode text_msg ?b = Some frame" using encode_small by blast
  let ?j = "\<lparr>job_origin = i, job_consumed = of_nat (length (fr_body f)), job_frame = frame\<rparr>"
  let ?n = "upd_conn i (\<lambda>c. c\<lparr>cn_unconsumed := cn_unconsumed c + of_nat (length (fr_body f))\<rparr>) n"
  have "handle_frame E order i f n = Some (submit ?j ?n)"
    using assms(1,3) e by (simp add: handle_frame_def find_upd work_on_def text_msg_def join_def)
  moreover have "nd_app (submit ?j ?n) = nd_app n @ [?j]" by simp
  moreover obtain q where q: "receive frame p = ([], q)" "fp_broken q"
    using long_frame_breaks [OF l e assms(6,7)] by blast
  moreover have "\<exists>q'. receive d q = ([], q') \<and> length (fp_buf q') = length (fp_buf q) + length d" for d
    using drain_broken [of "feed d q"] q(2) by (simp add: receive_def feed_def)
  ultimately show ?thesis by (intro exI [of _ "submit ?j ?n"] exI [of _ ?j] exI [of _ q]) simp
qed

definition talker :: ChatServer where
  "talker = \<lparr>nd_lib = new_world, nd_userdata = (\<lambda>_. None), nd_accept_incoming = True, nd_shutdown = False,
     nd_handles_closing = False, nd_next_id = 2,
     nd_conns = [(1, \<lparr>cn_sock = None, cn_connected = True, cn_closing = False, cn_unconsumed = 0, cn_outq = [],
       cn_out_off = 0, cn_name = [97], cn_parser = new_FrameParser\<rparr>)], nd_app = []\<rparr>"

theorem relayed_frame_breaks_witness:
  "\<exists>n' j q. handle_frame sample_env id 1 \<lparr>fr_type = text_msg, fr_body = replicate 65535 33\<rparr> talker = Some n' \<and> nd_app n' = [j] \<and>
     receive (job_frame j) new_FrameParser = ([], q) \<and> fst (receive [1, 0, 0, 0, 3] q) = []"
proof -
  let ?f = "\<lparr>fr_type = text_msg, fr_body = replicate 65535 33\<rparr>"
  obtain c where c: "find 1 talker = Some c" "cn_name c = [97]" by (simp add: find_def talker_def)
  have "nd_app talker = []" by (simp add: talker_def)
  moreover have "\<exists>n' j q. handle_frame sample_env id 1 ?f talker = Some n' \<and> nd_app n' = nd_app talker @ [j] \<and>
      receive (job_frame j) new_FrameParser = ([], q) \<and>
      (\<forall>d. \<exists>q'. receive d q = ([], q') \<and> length (fp_buf q') = length (fp_buf q) + length d)"
    by (rule relayed_frame_breaks [of ?f 1 talker c new_FrameParser sample_env id])
      (simp_all add: c fits_def new_FrameParser_def)
  ultimately show ?thesis by (auto, metis fst_conv)
qed

end
