(* ===== verification/Scenarios.thy ===== *)
theory Scenarios
  imports Delivery_Run Context_Correct Chat_Server
begin

text \<open>
  Concrete sockets and packets at which the theorems about whole operations are applied.
\<close>

section \<open>A connected receiver\<close>

definition stream_socket :: UtpSocket where
  "stream_socket = set_state CS_CONNECTED (new_UtpSocket 3 new_UtpContext)"

definition data_packet :: "u16 \<Rightarrow> u8 \<Rightarrow> bytes \<Rightarrow> ParsedPacket" where
  "data_packet nr ty d = \<lparr>pp_bytes = d, pp_payload = 0, pp_end = length d, pp_selack = None,
     pp_seq_nr = nr, pp_ack_nr = 0, pp_type = ty, pp_timestamp = 0, pp_reply_micro = 0, pp_windowsize = 9\<rparr>"

text \<open>The header of a data packet with sequence number 1 and the payload \<open>[5, 6]\<close>.\<close>

definition data_datagram :: bytes where
  "data_datagram = [1, 0, 0, 0, 0, 0, 0, 0, 0, 0, 0, 0, 0, 0, 64, 0, 0, 1, 0, 0, 5, 6]"

lemma stream_socket_inv: "stream_inv 1 D ending 0 (recv stream_socket)"
proof -
  have w: "waiting (recv stream_socket) = replicate 16 None" by code_simp
  have s: "sb_slots (inbuf (recv stream_socket)) = 16" by code_simp
  have "sb_wf (inbuf (recv stream_socket))"
    using wf_initialize by (auto simp: sb_wf_def stream_socket_def set_state_def new_UtpSocket_def)
  moreover have "ack_nr (recv stream_socket) = 0" "reorder_count (recv stream_socket) = 0"
    "\<not> got_fin (recv stream_socket)" "\<not> got_fin_reached (recv stream_socket)"
    by (simp_all add: stream_socket_def set_state_def new_UtpSocket_def)
  ultimately show ?thesis
    unfolding stream_inv_def recv_ok_def w s by (auto simp: held_def)
qed

lemma parse_data_datagram: "parse_packet data_datagram stream_socket =
    Some (Some ((data_packet 1 ST_DATA [5, 6])\<lparr>pp_bytes := data_datagram, pp_payload := 20, pp_end := 22,
      pp_windowsize := 16384\<rparr>), stream_socket)"
  by code_simp



definition context_after :: "event list \<Rightarrow> UtpContext" where
  "context_after evs = new_UtpContext\<lparr>events := evs\<rparr>"

lemma host_for_new: "host_for sample_env n (context_after evs)"
  by (simp add: host_for_def host_ok_def ack_list_ok_def ack_pending_def context_after_def new_UtpContext_def
      sample_env_def to_i32_def)

definition arrival_context :: "event list \<Rightarrow> UtpContext" where
  "arrival_context evs = (context_after evs)\<lparr>tick := 2, current_ms := 5000, nraw_recv := [1, 0, 0, 0, 0]\<rparr>"

lemma arrival:
  assumes "n = 20 \<or> n = 22"
  shows "call_get_microseconds sample_env (refresh_clock sample_env (record_raw_recv n (context_after evs))) =
    (5000000, arrival_context evs)"
proof -
  have "bucket_index (packet_size_bucket 22) = 0" "bucket_index (packet_size_bucket 20) = 0" by code_simp+
  then have b: "bucket_index (packet_size_bucket n) = 0" using assms by auto
  show ?thesis
    by (simp add: record_raw_recv_def b refresh_clock_def call_get_milliseconds_def call_get_microseconds_def query_def
        sample_env_def arrival_context_def context_after_def new_UtpContext_def Let_def eval_nat_numeral)
qed

lemma process_incoming_window:
  assumes "parse_packet packet s = Some (Some pp, s)" and "\<not> invalid_ack pp s"
    and "pp_type pp \<noteq> ST_RESET" and "state (conn s) \<noteq> CS_SYN_SENT"
    and "seq_distance pp s < 1024" and "length packet = 20 \<or> length packet = 22"
  shows "process_incoming sample_env packet False (context_after evs) s =
    process_window_packet sample_env pp 5000000 (seq_distance pp s) (arrival_context evs)
      (set_timing (\<lambda>t. t\<lparr>last_got_packet := 5000\<rparr>) s)"
proof -
  have 1: "current_ms (arrival_context evs) = 5000" by (simp add: arrival_context_def context_after_def)
  have 0: "call_get_microseconds sample_env (refresh_clock sample_env
      (record_raw_recv (of_nat (length packet)) (context_after evs))) = (5000000, arrival_context evs)"
    by (rule arrival) (use assms(6) in auto)
  have 2: "\<not> (REORDER_BUFFER_MAX_SIZE \<le> ucast (seq_distance pp s))"
    using assms(5) by (simp add: REORDER_BUFFER_MAX_SIZE_def word_le_nat_alt word_less_nat_alt not_le)
  have 3: "seq_distance pp (set_timing f s) = seq_distance pp s" for f by (simp add: seq_distance_def set_timing_def)
  show ?thesis
    unfolding process_incoming_def using assms(1-4) 1 2 by (simp add: 0 c_assert_def 3)
qed

lemma data_datagram_accepted:
  "map_option (\<lambda>_. ()) (process_incoming sample_env data_datagram False (context_after []) stream_socket) = Some ()"
proof (subst process_incoming_window [OF parse_data_datagram])
  show "map_option (\<lambda>_. ()) (process_window_packet sample_env
      ((data_packet 1 ST_DATA [5, 6])\<lparr>pp_bytes := data_datagram, pp_payload := 20, pp_end := 22, pp_windowsize := 16384\<rparr>)
      5000000 (seq_distance ((data_packet 1 ST_DATA [5, 6])\<lparr>pp_bytes := data_datagram, pp_payload := 20, pp_end := 22,
        pp_windowsize := 16384\<rparr>) stream_socket) (arrival_context [])
      (set_timing (\<lambda>t. t\<lparr>last_got_packet := 5000\<rparr>) stream_socket)) = Some ()"
    by code_simp
qed (code_simp+)

section \<open>A sender with a packet in flight\<close>

definition flying_socket :: UtpSocket where
  "flying_socket =
     (let s = stream_socket
      in s\<lparr>send := (send s)\<lparr>seq_nr := 2, cur_window_packets := 1,
             outbuf := (outbuf (send s))\<lparr>sb_buf := (replicate 16 None)[1 := Some \<lparr>opk_length = 22, opk_payload = 2,
               opk_time_sent = 4000000, opk_transmissions = 1, opk_need_resend = False,
               opk_data = replicate 22 0\<rparr>]\<rparr>\<rparr>,
           cc := (cc s)\<lparr>cur_window := 2\<rparr>\<rparr>)"

text \<open>A pure acknowledgement of packet 1.\<close>

definition ack_datagram :: bytes where
  "ack_datagram = [33, 0, 0, 0, 0, 0, 0, 0, 0, 0, 0, 0, 0, 0, 64, 0, 0, 1, 0, 1]"

lemma parse_ack_datagram: "parse_packet ack_datagram flying_socket =
    Some (Some ((data_packet 1 ST_STATE [])\<lparr>pp_bytes := ack_datagram, pp_payload := 20, pp_end := 20,
      pp_ack_nr := 1, pp_windowsize := 16384\<rparr>), flying_socket)"
  by code_simp

lemma flying_socket_ok: "sender_ok (context_after [Ev_on_connect 3]) flying_socket" "head_ok flying_socket"
proof -
  let ?p = "\<lparr>opk_length = 22, opk_payload = 2, opk_time_sent = 4000000, opk_transmissions = 1,
    opk_need_resend = False, opk_data = replicate 22 0\<rparr>"
  have w: "win flying_socket = Some ?p # replicate 15 None" by code_simp
  have f: "flight (Some ?p # replicate 15 None) = 2" by code_simp
  have "outbuf (send flying_socket) = (sb_initialize 16)\<lparr>sb_buf := (replicate 16 None)[1 := Some ?p]\<rparr>"
    "cur_window_packets (send flying_socket) = 1" "cur_window (cc flying_socket) = 2"
    by (simp_all add: flying_socket_def stream_socket_def set_state_def new_UtpSocket_def Let_def)
  moreover have "sb_wf ((sb_initialize 16)\<lparr>sb_buf := (replicate 16 None)[1 := Some ?p]\<rparr>)"
    using wf_initialize by (auto simp: sb_wf_def sb_wf_at_def sb_initialize_def intro!: exI [of _ 4])
  ultimately show "sender_ok (context_after [Ev_on_connect 3]) flying_socket" "head_ok flying_socket"
    unfolding sender_ok_def win_inv_def head_ok_def w f
    by (auto simp: age_def context_after_def packet_ok_def HEADER_SIZE_def PF_SIZE_def nth_Cons')
qed

lemma ack_datagram_accepted:
  "map_option (\<lambda>(_, h, s). (cur_window_packets (send s), length (events h)))
     (process_incoming sample_env ack_datagram False (context_after [Ev_on_connect 3]) flying_socket) = Some (0, 1)"
proof (subst process_incoming_window [OF parse_ack_datagram])
  show "map_option (\<lambda>(_, h, s). (cur_window_packets (send s), length (events h))) (process_window_packet sample_env
      ((data_packet 1 ST_STATE [])\<lparr>pp_bytes := ack_datagram, pp_payload := 20, pp_end := 20,
        pp_ack_nr := 1, pp_windowsize := 16384\<rparr>)
      5000000 (seq_distance ((data_packet 1 ST_STATE [])\<lparr>pp_bytes := ack_datagram, pp_payload := 20, pp_end := 20,
        pp_ack_nr := 1, pp_windowsize := 16384\<rparr>) flying_socket) (arrival_context [Ev_on_connect 3])
      (set_timing (\<lambda>t. t\<lparr>last_got_packet := 5000\<rparr>) flying_socket)) = Some (0, 1)"
    by code_simp
qed (code_simp+)

section \<open>Theorems applied\<close>

theorem incoming_streams_witness:
  "\<exists>r h' s'. process_incoming sample_env data_datagram False (context_after []) stream_socket = Some (r, h', s') \<and>
   (\<exists>n' \<ge> 0. stream_inv 1 [[5, 6], [7]] True n' (recv s') \<and> self s' = self stream_socket \<and>
      host_for sample_env (self stream_socket) h' \<and>
      reads (self stream_socket) h' = [] @ stream_reads (recv s') [[5, 6], [7]] True n')"
proof -
  obtain r h' s' where o: "process_incoming sample_env data_datagram False (context_after []) stream_socket = Some (r, h', s')"
    using data_datagram_accepted by (auto simp: map_option_case split: option.splits)
  have "\<exists>n' \<ge> 0. stream_inv 1 [[5, 6], [7]] True n' (recv s') \<and> self s' = self stream_socket \<and>
      host_for sample_env (self stream_socket) h' \<and>
      reads (self stream_socket) h' = [] @ stream_reads (recv s') [[5, 6], [7]] True n'"
  proof (rule incoming_streams [OF o host_for_new _ _ stream_socket_inv])
    show "ring_shape stream_socket" using wf_initialize
      by (auto simp: ring_shape_def sb_wf_def stream_socket_def set_state_def new_UtpSocket_def)
    show "state (conn stream_socket) \<noteq> CS_SYN_SENT" by (simp add: stream_socket_def set_state_def)
    show "reads (self stream_socket) (context_after []) = [] @ stream_reads (recv stream_socket) [[5, 6], [7]] True 0"
      by (simp add: reads_def context_after_def stream_reads_def given_def)
    fix pp s0 assume "parse_packet data_datagram stream_socket = Some (Some pp, s0)"
    then have "stream_packet 1 [[5, 6], [7]] True 0 pp"
      unfolding parse_data_datagram by (auto simp: stream_packet_def data_packet_def pp_data_def data_datagram_def st_defs)
    then show "\<exists>j. stream_packet 1 [[5, 6], [7]] True j pp \<and> in_reach 0 j"
      by (intro exI [of _ 0]) (simp add: in_reach_def)
  qed
  with o show ?thesis by blast
qed

theorem incoming_accounts_witness:
  "\<exists>r h' s'. process_incoming sample_env ack_datagram False (context_after [Ev_on_connect 3]) flying_socket = Some (r, h', s') \<and>
     sender_wf h' s'"
proof -
  obtain r h' s' where o: "process_incoming sample_env ack_datagram False (context_after [Ev_on_connect 3]) flying_socket = Some (r, h', s')"
    and a: "length (events h') = 1" using ack_datagram_accepted by (auto simp: map_option_case split: option.splits)
  have "sender_wf (context_after [Ev_on_connect 3]) flying_socket"
    using flying_socket_ok by (simp add: sender_wf_def) (simp add: flying_socket_def Let_def)
  then have "sender_wf h' s'" by (rule incoming_accounts [OF o]) (simp add: age_def a)
  with o show ?thesis by blast
qed


section \<open>Sessions\<close>

declare choose_seed.simps [code] write_loop.simps [code] writev_loop.simps [code]

text \<open>A socket that has sent its SYN.\<close>

lemma opened:
  obtains h s where "connection sample_env h s" and "cur_window_packets (send s) = 1" and "\<not> got_fin_reached (recv s)"
proof -
  let ?c = "socket_connect sample_env (Sockaddr_in 80 [127, 0, 0, 1]) 16 new_UtpContext (new_UtpSocket 3 new_UtpContext)"
  have c: "map_option (\<lambda>(r, h, s). (r, length (events h), cur_window_packets (send s), got_fin_reached (recv s))) ?c =
      Some (0, 2, 1, False)"
    by code_simp
  then obtain r h s where k: "?c = Some (r, h, s)" by (cases ?c) auto
  with c have v: "length (events h) = 2" "cur_window_packets (send s) = 1" "\<not> got_fin_reached (recv s)" by simp_all
  have "connection sample_env h s" by (rule connection.connects [OF k]) (simp add: age_def v(1))
  then show thesis using that v(2,3) by blast
qed

theorem connection_well_formed_witness:
  "\<exists>h s. connection sample_env h s \<and> cur_window_packets (send s) = 1 \<and> sender_wf h s \<and> recv_wf (recv s)"
proof -
  obtain h s where k: "connection sample_env h s" and w: "cur_window_packets (send s) = 1" by (rule opened)
  show ?thesis using k w connection_well_formed [OF k] by blast
qed

theorem check_invariant_holds_witness:
  "\<exists>h s. connection sample_env h s \<and> check_invariant sample_env s = Some () \<and> out_at (oldest64 s) s \<noteq> None"
proof -
  obtain h s where k: "connection sample_env h s" and w: "cur_window_packets (send s) = 1" "\<not> got_fin_reached (recv s)"
    by (rule opened)
  have "(cur_window_packets (send s) = 0 \<or> out_at (oldest64 s) s \<noteq> None)" "check_invariant sample_env s = Some ()"
    using check_invariant_holds [OF k] w(2) by simp_all
  then show ?thesis using k w(1) by (intro exI [of _ h] exI [of _ s]) simp
qed

text \<open>A socket with room to send, and three bytes written to it.\<close>

definition writing_socket :: UtpSocket where
  "writing_socket =
     (let s = set_cc (\<lambda>c. c\<lparr>max_window := 3000\<rparr>) stream_socket
      in s\<lparr>mtu := (mtu s)\<lparr>mtu_floor := 576, mtu_ceiling := 1402, mtu_last := 1402\<rparr>\<rparr>)"

lemma writing_socket_ok: "sender_wf h writing_socket" "sane_mtu writing_socket" "self writing_socket = 3"
proof -
  have "fresh writing_socket"
    by (simp add: fresh_def writing_socket_def stream_socket_def set_state_def set_cc_def new_UtpSocket_def
        new_LedbatController_def Let_def)
  then show "sender_wf h writing_socket" by (rule fresh_wf)
  show "sane_mtu writing_socket"
    by (simp add: sane_mtu_def writing_socket_def Let_def HEADER_SIZE_def PF_SIZE_def)
  show "self writing_socket = 3"
    by (simp add: writing_socket_def stream_socket_def set_state_def set_cc_def new_UtpSocket_def Let_def)
qed

lemma write_runs:
  "map_option (\<lambda>(n, h, s). (n, length (events h), cur_window_packets (send s), queued s))
     (writev sample_env [[5, 6], [7]] new_UtpContext writing_socket) = Some (3, 2, 1, [5, 6, 7])"
  by code_simp

theorem writev_queues_witness:
  "\<exists>h' s'. writev sample_env [[5, 6], [7]] new_UtpContext writing_socket = Some (3, h', s') \<and>
     cur_window_packets (send s') = 1 \<and> queued s' = queued writing_socket @ [5, 6, 7] \<and> sender_ok h' s'"
proof -
  obtain h' s' where k: "writev sample_env [[5, 6], [7]] new_UtpContext writing_socket = Some (3, h', s')"
    and v: "length (events h') = 2" "cur_window_packets (send s') = 1"
    using write_runs by (auto simp: map_option_case split: option.splits)
  have i: "sender_ok new_UtpContext writing_socket" "head_ok writing_socket"
    using writing_socket_ok(1) by (simp_all add: sender_wf_def)
  have "queued s' = queued writing_socket @ [5, 6, 7] \<and> sender_ok h' s'"
    using writev_queues [OF k i writing_socket_ok(2)] v(1) by (simp add: age_def UTP_IOV_MAX_def)
  then show ?thesis using k v(2) by blast
qed

text \<open>The same socket behind the C interface.\<close>

definition writing_world :: world where
  "writing_world = \<lparr>ctx = new_UtpContext, heap = (\<lambda>_. None)(3 \<mapsto> writing_socket), next_socket = 4\<rparr>"

theorem utp_write_accepts_prefix_witness:
  "\<exists>w' s'. utp_write sample_env (Some 3) [5, 6, 7] writing_world = Some (3, w') \<and> heap w' 3 = Some s' \<and>
     queued s' = queued writing_socket @ [5, 6, 7]"
proof -
  have "map_option (\<lambda>(n, h, s). (sint n, length (events h)))
     (writev sample_env [[5, 6, 7]] new_UtpContext writing_socket) = Some (3, 2)"
    by code_simp
  then obtain n h' s' where k: "writev sample_env [[5, 6, 7]] new_UtpContext writing_socket = Some (n, h', s')"
    and v: "sint n = 3" "length (events h') = 2"
    by (auto simp: map_option_case split: option.splits)
  let ?w = "writing_world\<lparr>ctx := h', heap := (heap writing_world)(3 \<mapsto> s')\<rparr>"
  have u: "utp_write sample_env (Some 3) [5, 6, 7] writing_world = Some (3, ?w)"
    using k v(1) by (simp add: utp_write_def utp_writev_def on_socket_def writing_world_def)
  have w: "heap writing_world 3 = Some writing_socket" "sender_wf (ctx writing_world) writing_socket"
    by (simp_all add: writing_world_def writing_socket_ok)
  have a: "age (ctx ?w) < 2 ^ 31" by (simp add: age_def v(2))
  have "\<exists>s'. heap ?w 3 = Some s' \<and> sender_wf (ctx ?w) s' \<and> queued s' = queued writing_socket @ take (nat 3) [5, 6, 7]"
    using utp_write_accepts_prefix [OF u w writing_socket_ok(2) a] by simp
  then have "\<exists>s'. heap ?w 3 = Some s' \<and> queued s' = queued writing_socket @ [5, 6, 7]" by (simp add: numeral_3_eq_3)
  then show ?thesis using u by blast
qed

section \<open>Robustness and errors\<close>

theorem deliver_data_robust_witness:
  "\<exists>c h' s'. deliver_data sample_env (data_packet 700 ST_FIN [9]) (seq_distance (data_packet 700 ST_FIN [9]) stream_socket)
     (context_after []) stream_socket = Some (c, h', s') \<and> recv_wf (recv s')"
proof -
  have "recv_wf (recv stream_socket)"
    using stream_socket_inv [of "[]" False] by (auto simp: recv_wf_def stream_inv_def recv_ok_def)
  from deliver_data_robust [OF host_for_new this, of "data_packet 700 ST_FIN [9]"] show ?thesis by blast
qed

definition ended_socket :: UtpSocket where
  "ended_socket = set_recv (\<lambda>r. r\<lparr>got_fin := True, eof_pkt := 0, got_fin_reached := True\<rparr>) stream_socket"

theorem data_after_eof_witness:
  "\<exists>c h' s'. deliver_data sample_env (data_packet 1 ST_DATA [5, 6]) (seq_distance (data_packet 1 ST_DATA [5, 6]) ended_socket)
     (context_after []) ended_socket = Some (c, h', s') \<and> reads 3 h' = [Payload [5, 6]]"
proof -
  have e: "got_fin_reached (recv ended_socket)" "reorder_count (recv ended_socket) = 0" "\<not> read_shutdown (recv ended_socket)"
    "self ended_socket = 3" "ack_nr (recv ended_socket) = 0"
    by (simp_all add: ended_socket_def set_recv_def stream_socket_def set_state_def new_UtpSocket_def)
  have p: "pp_seq_nr (data_packet 1 ST_DATA [5, 6]) = ack_nr (recv ended_socket) + 1"
    "pp_data (data_packet 1 ST_DATA [5, 6]) = [5, 6]"
    by (simp_all add: data_packet_def pp_data_def e)
  show ?thesis
    using data_after_eof [OF e(1-3) p(1), of sample_env "context_after []"] unfolding p(2) e(4)
    by (auto simp: reads_def context_after_def)
qed

theorem reset_never_refused_witness:
  "events (fst (on_icmp_error new_UtpContext (set_state CS_SYN_SENT (new_UtpSocket 3 new_UtpContext)))) =
     [Ev_on_error 3 UTP_ECONNREFUSED]"
  using reset_never_refused [of "set_state CS_SYN_SENT (new_UtpSocket 3 new_UtpContext)" sample_env 20 new_UtpContext]
  by (simp add: set_state_def new_UtpSocket_def new_UtpContext_def)

theorem closed_socket_revived_witness:
  "\<exists>h1 s1. socket_close sample_env new_UtpContext (set_state CS_SYN_SENT (new_UtpSocket 3 new_UtpContext)) = Some (h1, s1) \<and>
     state (conn s1) = CS_DESTROY \<and> state (conn (snd (on_icmp_error h1 s1))) = CS_RESET"
proof -
  let ?s = "set_state CS_SYN_SENT (new_UtpSocket 3 new_UtpContext)"
  have "state (conn ?s) = CS_SYN_SENT" "\<not> close_requested (send ?s)" by (simp_all add: set_state_def new_UtpSocket_def)
  from closed_socket_revived [OF this, of sample_env new_UtpContext] show ?thesis by blast
qed

section \<open>A context with sockets\<close>

definition one_socket :: world where "one_socket = snd (create_socket new_world)"

lemma one_socket_heap: "heap one_socket m = (if m = 0 then Some (new_UtpSocket 0 (ctx one_socket)) else None)"
  by (simp add: one_socket_def create_socket_def new_world_def Let_def)

lemma new_socket_recv: "recv_wf (recv (new_UtpSocket n h))" "self (new_UtpSocket n h) = n"
proof -
  have "inbuf (recv (new_UtpSocket n h)) = inbuf (recv stream_socket)"
    "reorder_count (recv (new_UtpSocket n h)) = reorder_count (recv stream_socket)"
    "got_fin_reached (recv (new_UtpSocket n h)) = got_fin_reached (recv stream_socket)"
    "ack_nr (recv (new_UtpSocket n h)) = ack_nr (recv stream_socket)"
    by (simp_all add: stream_socket_def set_state_def new_UtpSocket_def)
  moreover have "recv_wf (recv stream_socket)"
    using stream_socket_inv [of "[]" False] by (auto simp: recv_wf_def stream_inv_def recv_ok_def)
  ultimately show "recv_wf (recv (new_UtpSocket n h))"
    using recv_wf_cong [of "recv (new_UtpSocket n h)" "recv stream_socket"] by simp
qed (simp add: new_UtpSocket_def)

text \<open>The socket waits for a deferred acknowledgement.\<close>

definition pending_world :: world where
  "pending_world = upd_ctx (\<lambda>h. h\<lparr>ack_sockets := [0], ack_index := (\<lambda>_. - 1)(0 := 0)\<rparr>) one_socket"


text \<open>The socket is registered under its key, and cached.\<close>

definition known_world :: world where
  "known_world = upd_ctx (\<lambda>h. h\<lparr>sockets := [(socket_key (new_UtpSocket 0 (ctx one_socket)), 0)], last_utp_socket := Some 0\<rparr>) one_socket"

lemma known_world_ok: "registry_ok known_world" "host_ok sample_env (ctx known_world)"
  "heap known_world 0 = Some (new_UtpSocket 0 (ctx one_socket))"
  "map_of (sockets (ctx known_world)) (socket_key (new_UtpSocket 0 (ctx one_socket))) = Some 0"
  "events (ctx known_world) = []"
proof -
  have k: "heap known_world = heap one_socket" "ack_sockets (ctx known_world) = []" "ack_index (ctx known_world) = (\<lambda>_. - 1)"
    "sockets (ctx known_world) = [(socket_key (new_UtpSocket 0 (ctx one_socket)), 0)]"
    "last_utp_socket (ctx known_world) = Some 0"
    by (simp_all add: known_world_def upd_ctx_def one_socket_def create_socket_def new_world_def Let_def new_UtpContext_def fun_eq_iff)
  show "registry_ok known_world" by (simp add: registry_ok_def k one_socket_heap new_socket_recv)
  show "host_ok sample_env (ctx known_world)" by (simp add: host_ok_def ack_list_ok_def k sample_env_def to_i32_def)
  show "heap known_world 0 = Some (new_UtpSocket 0 (ctx one_socket))" by (simp add: k one_socket_heap)
  show "map_of (sockets (ctx known_world)) (socket_key (new_UtpSocket 0 (ctx one_socket))) = Some 0" by (simp add: k)
  show "events (ctx known_world) = []"
    by (simp add: known_world_def upd_ctx_def one_socket_def create_socket_def new_world_def Let_def new_UtpContext_def)
qed

theorem find_connection_is_lookup_witness:
  "\<exists>w'. find_connection (addr (conn (new_UtpSocket 0 (ctx one_socket))))
     (conn_id_recv (conn (new_UtpSocket 0 (ctx one_socket)))) known_world = Some (Some 0, w')"
  using find_connection_is_lookup [OF known_world_ok(1), of "addr (conn (new_UtpSocket 0 (ctx one_socket)))"
      "conn_id_recv (conn (new_UtpSocket 0 (ctx one_socket)))"] known_world_ok(4)
  by (auto simp: lookup_socket_def socket_key_def)

theorem destroyed_socket_forgotten_witness:
  "\<exists>w'. destroy_socket sample_env 0 known_world = Some w' \<and> heap w' 0 = None \<and> last_utp_socket (ctx w') \<noteq> Some 0 \<and>
     events (ctx w') = [Ev_on_state_change 0 UTP_STATE_DESTROYING]"
  using destroyed_socket_forgotten [OF known_world_ok(1-3) new_socket_recv(2) known_world_ok(4)] known_world_ok(5) by auto

theorem reject_unknown_bounded_witness:
  "\<exists>h' b. reject_unknown sample_env empty_Address 7 9 new_UtpContext = Some h' \<and> length (rst_info h') \<le> 1001 \<and>
     events h' = [Ev_sendto b (fst (get_sockaddr_storage Little empty_Address)) 0]"
proof -
  have "reject_unknown sample_env empty_Address 7 9 new_UtpContext \<noteq> None" by code_simp
  then obtain h' where k: "reject_unknown sample_env empty_Address 7 9 new_UtpContext = Some h'" by blast
  have n: "rst_info new_UtpContext = []" "events new_UtpContext = []" by (simp_all add: new_UtpContext_def)
  have e: "endian sample_env = Little" by (simp add: sample_env_def)
  have "length (rst_info h') \<le> 1001 \<and> (\<exists>b. events h' = [Ev_sendto b (fst (get_sockaddr_storage Little empty_Address)) 0])"
    using reject_unknown_bounded [OF k] unfolding n e by auto
  then show ?thesis using k by blast
qed

theorem chosen_id_free_witness:
  "\<exists>seed h'. choose_seed sample_env empty_Address new_UtpContext = Some (seed, h') \<and> unat seed < 2 ^ 16 \<and>
     \<not> has_socket empty_Address seed h'"
proof -
  have "map_option fst (choose_seed sample_env empty_Address new_UtpContext) = Some (cb_random sample_env 0 AND 0xffff)"
    by code_simp
  then obtain seed h' where k: "choose_seed sample_env empty_Address new_UtpContext = Some (seed, h')" by auto
  show ?thesis using chosen_id_free [OF k] k by blast
qed

section \<open>The chat example\<close>

declare outq_loop.simps [code]

text \<open>A node whose connection 1 is the socket with room to send, with one byte of a frame accepted before.\<close>

definition writing_node :: ChatServer where
  "writing_node = talker\<lparr>nd_lib := writing_world, nd_userdata := (\<lambda>_. None)(3 \<mapsto> 1),
     nd_conns := [(1, \<lparr>cn_sock = Some 3, cn_connected = True, cn_closing = False, cn_unconsumed = 0, cn_outq = [[9, 8]],
       cn_out_off = 1, cn_name = [97], cn_parser = new_FrameParser\<rparr>)]\<rparr>"

theorem node_write_in_order_witness:
  "\<exists>n' c'. node_write sample_env 1 [5, 6] writing_node = Some n' \<and> find 1 n' = Some c' \<and>
     stream_of 3 (nd_lib n') @ pending (cn_outq c') (cn_out_off c') = stream_of 3 writing_world @ [8, 5, 6]"
proof -
  have e: "map_option (\<lambda>n. length (events (ctx (nd_lib n)))) (node_write sample_env 1 [5, 6] writing_node) = Some 2"
    by code_simp
  obtain n' where n': "node_write sample_env 1 [5, 6] writing_node = Some n'" using e by (cases "node_write sample_env 1 [5, 6] writing_node") auto
  have a: "age (ctx (nd_lib n')) < 2 ^ 31" using e by (simp add: n' age_def)
  obtain c where c: "find 1 writing_node = Some c" "cn_sock c = Some 3" "\<not> cn_closing c" "cn_outq c = [[9, 8]]" "cn_out_off c = 1"
    by (simp add: writing_node_def find_def)
  have l: "nd_lib writing_node = writing_world" by (simp add: writing_node_def)
  then have w: "writable_in 3 (nd_lib writing_node)"
    using writing_socket_ok(1,2) by (simp add: writable_in_def writing_world_def)
  have s: "frames_small ([5, 6] # cn_outq c)" "offset_ok (cn_outq c) (cn_out_off c)"
    by (simp_all add: c frames_small_def offset_ok_def)
  show ?thesis
    using node_write_in_order [OF n' c(1-3) w a s] n' by (auto simp: c l pending_def)
qed

definition call_for :: "callback_name \<Rightarrow> bytes \<Rightarrow> utp_callback_arguments" where
  "call_for name b = \<lparr>arg_context = 0, arg_socket = Some 3, arg_len = of_nat (length b), arg_flags = 0, arg_callback_type = name,
     arg_buf = Some b, arg_value = Arg_address None, arg_extra = Arg_address_len 0\<rparr>"

text \<open>A message of two bytes is in the pool.\<close>

definition busy_server :: "ChatServer option" where
  "busy_server =
     do {
       n \<leftarrow> new_UtpUvNode sample_env True False [];
       n \<leftarrow> s_on_accept (server_hooks sample_env id) (call_for UTP_ON_ACCEPT []) n;
       s_on_read sample_env (server_hooks sample_env id) (call_for UTP_ON_READ [3, 0, 0, 0, 2, 7, 8]) (n\<lparr>nd_lib := writing_world\<rparr>)
     }"

theorem backpressure_exact_witness:
  "\<exists>n c j. server_run sample_env id n \<and> nd_app n = [j] \<and> find 1 n = Some c \<and> unat (cn_unconsumed c) = 2"
proof -
  have v: "map_option (\<lambda>n. (map (\<lambda>j. (job_origin j, job_consumed j)) (nd_app n), find 1 n = None)) busy_server =
      Some ([(1, 2)], False)"
    by code_simp
  then obtain n where n: "busy_server = Some n" "map (\<lambda>j. (job_origin j, job_consumed j)) (nd_app n) = [(1, 2)]" "find 1 n \<noteq> None"
    by (cases busy_server) auto
  obtain n0 n1 where s: "new_UtpUvNode sample_env True False [] = Some n0"
    "s_on_accept (server_hooks sample_env id) (call_for UTP_ON_ACCEPT []) n0 = Some n1"
    "s_on_read sample_env (server_hooks sample_env id) (call_for UTP_ON_READ [3, 0, 0, 0, 2, 7, 8]) (n1\<lparr>nd_lib := writing_world\<rparr>) = Some n"
    using n(1) by (auto simp: busy_server_def bind_eq_Some_conv)
  have "nd_next_id n0 = 1" using s(1) by (auto simp: new_UtpUvNode_def bind_eq_Some_conv)
  then have "nd_next_id n0 \<noteq> - 1" by simp
  then have run: "server_run sample_env id n"
    using server_run.starts [OF s(1)] server_step.accept [OF s(2)] server_step.library [of sample_env id n1 writing_world]
      server_step.reading [OF s(3)] server_run.goes_on by blast
  obtain j where j: "nd_app n = [j]" "job_origin j = 1" "job_consumed j = 2" using n(2) by (cases "nd_app n") auto
  obtain c where c: "find 1 n = Some c" using n(3) by blast
  have "pool_bytes (nd_app n) < 2 ^ 64" by (simp add: j pool_bytes_def)
  then have "unat (cn_unconsumed c) = 2" using backpressure_exact [OF run] c j by (simp add: pool_bytes_def)
  then show ?thesis using run j(1) c by blast
qed

end
