(* ===== verification/Remote_Faults.thy ===== *)
theory Remote_Faults
  imports Timer_Steps Parse_Correct
begin

text \<open>
  Assertions a peer can fail with the fields of a packet.
\<close>

section \<open>The average of the reported delays\<close>

text \<open>The distance of the delay the peer reports from the base the averages are measured from.\<close>

lemma delay_distance_max: "delay_distance base (base + 0x7fffffff) = INT_MAX"
proof -
  have "base - (base + 0x7fffffff) = (0x80000001 :: u32)" and "base + 0x7fffffff - base = (0x7fffffff :: u32)"
    by simp_all
  then show ?thesis by (simp add: delay_distance_def INT_MAX_def)
qed

lemma close_slot_extreme:
  assumes "current_delay_samples c = 1" and "current_delay_sum c = INT_MAX"
  shows "close_slot B c = (if ndebug B then close_slot B c else None)"
  using assms by (simp add: close_slot_def c_assert_def)

lemma update_delay_extreme:
  assumes "\<not> ndebug B" and "average_delay_base c \<noteq> 0" and "current_delay_samples c = 0" and "current_delay_sum c = 0"
    and "sint (average_sample_time c) < sint t"
  shows "update_delay_average B (average_delay_base c + 0x7fffffff) t c = None"
proof -
  let ?c = "c\<lparr>current_delay_sum := INT_MAX, current_delay_samples := 1\<rparr>"
  have "close_slot B ?c = None" using close_slot_extreme [of ?c B] assms(1) by simp
  then show ?thesis
    using assms by (simp add: update_delay_average_def delay_distance_max Let_def)
qed

text \<open>What the steps before leave of the averages.\<close>

lemma acked_loop_cc: "post (acked_loop E now n i acc h s) (\<lambda>(a, r, s'). cc s' = cc s)"
proof (induction n arbitrary: i acc s)
  case 0
  then show ?case by (simp add: post_simps)
next
  case (Suc n)
  have IH: "post (acked_loop E now n j a h (s\<lparr>mtu := d\<rparr>)) (\<lambda>(a, r, s'). cc s' = cc s)" for j a d
    by (rule post_mono [OF Suc.IH]) auto
  show ?case
    using Suc.IH [of "i + 1" acc s] IH
    by (auto simp: Let_def post_simps split_def split: option.split intro!: postI dest: postD)
qed

lemma their_sample_averages:
  "average_delay_base (cc (their_sample d time h s)) = average_delay_base (cc s)"
  "current_delay_samples (cc (their_sample d time h s)) = current_delay_samples (cc s)"
  "current_delay_sum (cc (their_sample d time h s)) = current_delay_sum (cc s)"
  "average_sample_time (cc (their_sample d time h s)) = average_sample_time (cc s)"
  by (simp_all add: their_sample_def Let_def set_cc_def)

text \<open>A slot of the averages that the next sample closes, being its only one.\<close>

definition slot_due :: "u64 \<Rightarrow> LedbatController \<Rightarrow> bool" where
  "slot_due t c \<longleftrightarrow> average_delay_base c \<noteq> 0 \<and> current_delay_samples c = 0 \<and> current_delay_sum c = 0 \<and>
     sint (average_sample_time c) < sint t"

lemma our_sample_extreme:
  assumes "\<not> ndebug (bld E)" and "slot_due (current_ms h) (cc s)" and "d = average_delay_base (cc s) + 0x7fffffff" and "d \<noteq> 0"
  shows "our_sample E d h s = None"
  using assms update_delay_extreme [of "bld E" "cc (set_cc (\<lambda>c. c\<lparr>our_hist := add_sample d (current_ms h) (our_hist c)\<rparr>) s)" "current_ms h"]
  by (simp add: our_sample_def slot_due_def set_cc_def Let_def)

lemma extreme_sample_fails:
  assumes "\<not> ndebug (bld E)" and "slot_due (current_ms h) (cc s)" and "pp_selack pp = None"
    and "pp_reply_micro pp = average_delay_base (cc s) + 0x7fffffff" and "pp_reply_micro pp \<notin> {0, 0x7fffffff}"
  shows "process_window_packet E pp time seqnr h s = None"
proof -
  have u: "uint (pp_reply_micro pp) \<noteq> INT_MAX"
  proof
    assume "uint (pp_reply_micro pp) = INT_MAX"
    then have "uint (pp_reply_micro pp) = uint (0x7fffffff :: u32)" by (simp add: INT_MAX_def)
    then show False using assms(5) by (simp only: word_uint_eq_iff [symmetric]) simp
  qed
  have p: "process_acks E pp acks time h t = None" if "cc t = cc s" for acks t
  proof -
    obtain now h1 where n: "call_get_microseconds E h = (now, h1)" by (cases "call_get_microseconds E h")
    then have ms: "current_ms h1 = current_ms h" by (auto simp: call_get_microseconds_def query_def)
    show ?thesis
    proof (cases "acked_loop E now acks 0 (0, INT64_MAX) h1 t")
      case None
      then show ?thesis by (simp add: process_acks_def n)
    next
      case (Some r)
      obtain a m t1 where r: "r = (a, m, t1)" by (cases r)
      have c: "cc t1 = cc s" using postD [OF acked_loop_cc Some] that unfolding r by simp
      have "our_sample E (pp_reply_micro pp) h1 (their_sample d x h1
          (set_timing f (set_timing g t1))) = None" for d x f g
        by (rule our_sample_extreme)
          (use assms c ms in \<open>simp_all add: slot_due_def their_sample_averages set_timing_def\<close>)
      then show ?thesis
        by (simp add: process_acks_def n Some r assms(3) u Let_def)
    qed
  qed
  show ?thesis
  proof (cases "count_duplicate_ack E pp h s")
    case None
    then show ?thesis by (simp add: process_window_packet_def Let_def)
  next
    case (Some t)
    then have "cc t = cc s" by (auto simp: count_duplicate_ack_def Let_def bind_eq_Some_conv split: if_splits)
    then show ?thesis using p Some by (simp add: process_window_packet_def Let_def)
  qed
qed

text \<open>
  C17: a peer can fail an assertion of a debug build. Once a base is set, a packet whose reply delay lies
  \<open>2 ^ 31 - 1\<close> microseconds above it, arriving as the only sample of a five-second slot that is over,
  makes the mean \<open>INT_MAX\<close>, which \<open>update_delay_average\<close> asserts it never is; whatever else the
  packet acknowledges, processing it has no result.
\<close>

theorem peer_fails_delay_assertion:
  assumes "\<not> ndebug (bld E)" and "slot_due (current_ms h) (cc s)" and "pp_selack pp = None"
    and "pp_reply_micro pp = average_delay_base (cc s) + 0x7fffffff" and "pp_reply_micro pp \<notin> {0, 0x7fffffff}"
  shows "process_window_packet E pp time seqnr h s = None"
  by (rule extreme_sample_fails [OF assms])

definition extreme_packet :: ParsedPacket where
  "extreme_packet = \<lparr>pp_bytes = replicate 20 0, pp_payload = 20, pp_end = 20, pp_selack = None, pp_seq_nr = 1,
     pp_ack_nr = 0, pp_type = ST_STATE, pp_timestamp = 0, pp_reply_micro = 0x80000004, pp_windowsize = 9\<rparr>"

definition sampled_socket :: UtpSocket where
  "sampled_socket = set_cc (\<lambda>c. c\<lparr>average_delay_base := 5\<rparr>) (new_UtpSocket 3 new_UtpContext)"

theorem peer_fails_delay_assertion_witness:
  "process_window_packet sample_env extreme_packet 0 0 (new_UtpContext\<lparr>current_ms := 7\<rparr>) sampled_socket = None"
  by (rule peer_fails_delay_assertion)
    (simp_all add: sample_env_def sample_build_def slot_due_def sampled_socket_def set_cc_def new_UtpSocket_def
      new_LedbatController_def extreme_packet_def)

end
