(* ===== verification/Ready_Sending.thy ===== *)
theory Ready_Sending
  imports Timer_Steps
begin

text \<open>
  The operations of the acknowledgement half of a packet return: a connection that is \<open>ready\<close> stays ready
  through transmissions, acknowledged packets, the advance of the window and the selective-ACK bitmap, and
  none of them fails an assertion, overflows a signed operation or leaves an array.
\<close>

section \<open>A connection that is ready for a packet\<close>

text \<open>The clock does not run backwards, and not past 1000 seconds, in the queries still to come.\<close>

definition steady :: "env \<Rightarrow> nat \<Rightarrow> bool" where
  "steady E k \<longleftrightarrow> (\<forall>n n'. k \<le> n \<longrightarrow> n \<le> n' \<longrightarrow> unat (cb_microseconds E n' - cb_microseconds E n) \<le> 10 ^ 9)"

text \<open>A packet of the window is shorter than 64 KiB and was sent within the last 1000 seconds.\<close>

definition recent :: "env \<Rightarrow> nat \<Rightarrow> OutgoingPacket \<Rightarrow> bool" where
  "recent E k p \<longleftrightarrow> unat (opk_payload p) < 2 ^ 16 \<and>
     (opk_transmissions p \<noteq> 0 \<longrightarrow> (\<forall>n \<ge> k. unat (cb_microseconds E n - opk_time_sent p) \<le> 10 ^ 9))"

text \<open>The application reports one MTU for the peer, at least the floor, and the search stays below it.\<close>

definition mtu_fit :: "env \<Rightarrow> sockaddr \<Rightarrow> MtuDiscovery \<Rightarrow> bool" where
  "mtu_fit E a m \<longleftrightarrow> mtu_wf m \<and> 576 \<le> mtu_floor m \<and>
     (\<forall>n. cb_udp_mtu E n a = cb_udp_mtu E 0 a) \<and> mtu_ceiling m \<le> ucast (cb_udp_mtu E 0 a)"

text \<open>The round-trip estimate is below six days, the times are far from the ends of their type.\<close>

definition rtt_fit :: "LedbatController \<Rightarrow> bool" where
  "rtt_fit c \<longleftrightarrow> uint (rtt c) \<le> 2 ^ 29 - 1 \<and> uint (rtt_var c) \<le> 2 ^ 29 - 1"

definition decay_fit :: "u64 \<Rightarrow> LedbatController \<Rightarrow> bool" where
  "decay_fit t c \<longleftrightarrow> \<bar>sint t\<bar> < 2 ^ 62 \<and> \<bar>last_rwin_decay c\<bar> < 2 ^ 62"

definition ready :: "env \<Rightarrow> nat \<Rightarrow> UtpContext \<Rightarrow> UtpSocket \<Rightarrow> bool" where
  "ready E T h s \<longleftrightarrow> host_for E (self s) h \<and> steady E (tick h) \<and> win_inv T s \<and>
     (\<forall>p. Some p \<in> set (win s) \<longrightarrow> recent E (tick h) p) \<and> mtu_fit E (peer E s) (mtu s) \<and>
     rtt_fit (cc s) \<and> decay_fit (current_ms h) (cc s)"

lemma steady_mono: "steady E k \<Longrightarrow> k \<le> k' \<Longrightarrow> steady E k'"
  unfolding steady_def by (meson order_trans)

lemma recent_mono: "recent E k p \<Longrightarrow> k \<le> k' \<Longrightarrow> recent E k' p"
  unfolding recent_def by (meson order_trans)

lemma ready_packet:
  assumes "ready E T h s" and "out_at v s = Some p"
  shows "packet_ok T p" and "recent E (tick h) p" and "20 \<le> length (opk_data p)"
    and "unat (opk_length p) = length (opk_data p)" and "unat (opk_length p) = 20 + unat (opk_payload p)"
proof -
  have w: "win_inv T s" and r: "Some q \<in> set (win s) \<longrightarrow> recent E (tick h) q" for q
    using assms(1) by (simp_all add: ready_def)
  note i = win_inv_at [OF w assms(2)]
  show k: "packet_ok T p" by (rule i(2))
  show q: "recent E (tick h) p" using r nth_mem [OF i(4)] i(3) by simp
  show "unat (opk_length p) = length (opk_data p)" using k by (simp add: packet_ok_def)
  then show "20 \<le> length (opk_data p)" and "unat (opk_length p) = 20 + unat (opk_payload p)"
    using k q by (simp_all add: packet_ok_def recent_def HEADER_SIZE_def PF_SIZE_def unat_word_ariths)
qed

text \<open>A step that leaves the window alone.\<close>

lemma ready_other:
  assumes "ready E T h s" and "untouched s s'" and "mtu_fit E (peer E s') (mtu s')" and "rtt_fit (cc s')"
    and "decay_fit (current_ms h') (cc s')" and "host_for E (self s) h'" and "tick h \<le> tick h'" and "T \<le> T'"
  shows "ready E T' h' s'"
  unfolding ready_def
proof (intro conjI allI impI)
  have w: "win s' = win s" by (rule untouched_win [OF assms(2)])
  show "win_inv T' s'" using assms(1) untouched_win_inv [OF assms(2)] win_inv_mono [OF _ assms(8)] by (simp add: ready_def)
  show "recent E (tick h') p" if "Some p \<in> set (win s')" for p
    using assms(1) that recent_mono [OF _ assms(7)] by (simp add: ready_def w)
  show "host_for E (self s') h'" using assms(2,6) by (simp add: untouched_def)
  show "steady E (tick h')" using assms(1) steady_mono [OF _ assms(7)] by (simp add: ready_def)
qed (use assms in simp_all)

text \<open>With the MTU search and the controller's times as they were.\<close>

lemma ready_same:
  assumes "ready E T h s" and "untouched s s'" and "mtu s' = mtu s" and "peer E s' = peer E s" and "cc s' = cc s"
  shows "ready E T h s'"
  using assms(1,3-5) by (intro ready_other [OF assms(1,2)]) (simp_all add: ready_def)

lemma ready_host:
  assumes "ready E T h s" and "host_for E (self s) h'" and "tick h \<le> tick h'" and "current_ms h' = current_ms h"
  shows "ready E T h' s"
  using assms by (intro ready_other [OF assms(1)]) (simp_all add: ready_def)

section \<open>Transmissions\<close>

lemma ucast_16_64_32: "ucast (ucast (x :: u16) :: u64) = (ucast x :: u32)"
  by transfer (simp add: min_def)

lemma rediscover_mtu_yields:
  assumes "mtu_fit E (peer E s) (mtu s)"
  shows "yields (rediscover_mtu E ms h s) (\<lambda>(h', s'). \<exists>m t. h' = h\<lparr>tick := t\<rparr> \<and> tick h \<le> t \<and>
     s' = s\<lparr>mtu := m\<rparr> \<and> mtu_fit E (peer E s) m)"
proof (cases "should_rediscover ms (mtu s)")
  case False
  then show ?thesis
    using assms by (auto simp: rediscover_mtu_def yields_simps intro!: exI [of _ "mtu s"] exI [of _ "tick h"])
next
  case True
  let ?u = "ucast (cb_udp_mtu E 0 (peer E s)) :: u32"
  let ?m = "(mtu s)\<lparr>mtu_ceiling := ?u, mtu_floor := 576, mtu_discover_time := ms + 30 * 60 * 1000\<rparr>"
  have f: "mtu_wf (mtu s)" "576 \<le> mtu_floor (mtu s)" "mtu_ceiling (mtu s) \<le> ?u"
    and k: "cb_udp_mtu E n (peer E s) = cb_udp_mtu E 0 (peer E s)" for n
    using assms by (auto simp: mtu_fit_def)
  have le: "576 \<le> ?u" using f by (auto simp: mtu_wf_def)
  have b: "unat ?u < 2 ^ 31" by (simp add: less_trans [OF u16_lt])
  have "576 < mtu_probe_size (mtu s) \<and> mtu_probe_size (mtu s) \<le> ?u" if "mtu_probe_seq (mtu s) \<noteq> 0"
    using f that unfolding mtu_wf_def by (meson le_less_trans order_trans)
  then have fit: "mtu_fit E (peer E s) ?m"
    using assms le b by (auto simp: mtu_fit_def mtu_wf_def)
  have "rediscover_mtu E ms h s = Some (h\<lparr>tick := Suc (tick h)\<rparr>, s\<lparr>mtu := ?m\<rparr>)"
    unfolding rediscover_mtu_def if_P [OF True]
    by (simp add: get_udp_mtu_def call_get_udp_mtu_def query_def mtu_reset_def k [of "tick h"] ucast_16_64_32 le Let_def)
  then show ?thesis
    by (rule yieldsI) (use fit in \<open>auto intro!: exI [of _ ?m] exI [of _ "Suc (tick h)"]\<close>)
qed

lemma unat_ucast32_64: "unat (ucast (x :: u32) :: u64) = unat x"
  by (simp add: unsigned_ucast_eq take_bit_eq_mod mod_less less_trans [OF u32_lt])

lemma choose_probe_yields:
  assumes "mtu_fit E (peer E s) (mtu s)"
  shows "yields (choose_probe E p s) (\<lambda>(probe, s'). \<exists>m. s' = s\<lparr>mtu := m\<rparr> \<and> mtu_fit E (peer E s) m)"
proof (cases "probe_candidate s p")
  case False
  then show ?thesis using assms by (auto simp: choose_probe_def yields_simps intro!: exI [of _ "mtu s"])
next
  case True
  let ?c = "mtu_ceiling (mtu s)" and ?f = "mtu_floor (mtu s)" and ?n = "ucast (opk_length p) :: u32"
  have c: "ucast ?f < opk_length p" "opk_length p \<le> ucast ?c" using True by (simp_all add: probe_candidate_def)
  have n: "unat ?f < unat (opk_length p)" "unat (opk_length p) \<le> unat ?c"
    using c unfolding word_le_nat_alt word_less_nat_alt unat_ucast32_64 by simp_all
  have u: "unat ?n = unat (opk_length p)"
  proof -
    have "unat (opk_length p) < 2 ^ 32" by (rule le_less_trans [OF n(2)]) simp
    then show ?thesis by (simp add: unsigned_ucast_eq take_bit_eq_mod)
  qed
  have "mtu_wf (set_probe (ucast (seq_nr (send s) - 1)) ?n (mtu s))"
    using n u assms by (intro set_probe_wf) (simp_all add: word_le_nat_alt word_less_nat_alt mtu_fit_def mtu_wf_def)
  then have "mtu_fit E (peer E s) (set_probe (ucast (seq_nr (send s) - 1)) ?n (mtu s))"
    using assms by (simp add: mtu_fit_def set_probe_def)
  moreover have "choose_probe E p s = Some (True, s\<lparr>mtu := set_probe (ucast (seq_nr (send s) - 1)) ?n (mtu s)\<rparr>)"
    using True c less_imp_le [OF c(1)] by (simp add: choose_probe_def set_probe_def Let_def)
  ultimately show ?thesis by (intro yieldsI) auto
qed

lemma begin_transmission_yields:
  assumes r: "ready E T h s" and p: "out_at v s = Some p"
  shows "yields (begin_transmission E v h s) (\<lambda>(p', probe, h', s'). \<exists>b m t. length b = length (opk_data p) \<and>
     drop PF_SIZE b = drop PF_SIZE (opk_data p) \<and>
     p' = sent b (cb_microseconds E (Suc (tick h))) p \<and> s' = s\<lparr>cc := counted p (cc s), mtu := m\<rparr> \<and>
     mtu_fit E (peer E s) m \<and> h' = h\<lparr>tick := t\<rparr> \<and> Suc (Suc (tick h)) \<le> t)"
proof -
  define s1 where "s1 = (if opk_transmissions p = 0 \<or> opk_need_resend p
                then set_cc (add_in_flight (opk_payload p)) s else s)"
  have s1: "s1 = s\<lparr>cc := counted p (cc s)\<rparr>" by (simp add: s1_def counted_def set_cc_def)
  let ?t = "cb_microseconds E (Suc (tick h))"
  obtain b where b: "update_pf (\<lambda>pf. pf\<lparr>pf_ack_nr := ack_nr (recv s1)\<rparr>) (opk_data p) = Some b"
    using update_pf_defined [OF ready_packet(3) [OF r p]] by blast
  let ?p = "p\<lparr>opk_need_resend := False, opk_data := b, opk_time_sent := ?t\<rparr>"
  have eq: "begin_transmission E v h s =
    do {
      (h, s) \<leftarrow> rediscover_mtu E (cb_milliseconds E (tick h)) (h\<lparr>tick := Suc (Suc (tick h))\<rparr>) s1;
      (probe, s) \<leftarrow> choose_probe E ?p s;
      Some (inc_transmissions ?p, probe, h, s)
    }"
    using b p unfolding begin_transmission_def call_get_milliseconds_def call_get_microseconds_def query_def s1_def Let_def
    by simp
  have m1: "mtu_fit E (peer E s1) (mtu s1)" "peer E s1 = peer E s" using r by (simp_all add: s1 ready_def peer_def)
  show ?thesis unfolding eq
  proof (rule yields_bind [OF rediscover_mtu_yields [OF m1(1)]], clarify)
    fix m t assume t: "tick (h\<lparr>tick := Suc (Suc (tick h))\<rparr>) \<le> t" and m: "mtu_fit E (peer E s1) m"
    have m2: "mtu_fit E (peer E (s1\<lparr>mtu := m\<rparr>)) (mtu (s1\<lparr>mtu := m\<rparr>))" using m by (simp add: peer_def)
    show "yields (choose_probe E ?p (s1\<lparr>mtu := m\<rparr>) \<bind> (\<lambda>(probe, s).
        Some (inc_transmissions ?p, probe, h\<lparr>tick := Suc (Suc (tick h)), tick := t\<rparr>, s)))
      (\<lambda>(p', probe, h', s'). \<exists>b m t. length b = length (opk_data p) \<and> drop PF_SIZE b = drop PF_SIZE (opk_data p) \<and>
         p' = sent b ?t p \<and> s' = s\<lparr>cc := counted p (cc s), mtu := m\<rparr> \<and>
         mtu_fit E (peer E s) m \<and> h' = h\<lparr>tick := t\<rparr> \<and> Suc (Suc (tick h)) \<le> t)"
    proof (rule yields_bind [OF choose_probe_yields [OF m2]], clarify)
      fix probe m' assume m': "mtu_fit E (peer E (s1\<lparr>mtu := m\<rparr>)) m'"
      show "yields (Some (inc_transmissions ?p, probe, h\<lparr>tick := Suc (Suc (tick h)), tick := t\<rparr>, s1\<lparr>mtu := m, mtu := m'\<rparr>))
        (\<lambda>(p', probe, h', s'). \<exists>b m t. length b = length (opk_data p) \<and> drop PF_SIZE b = drop PF_SIZE (opk_data p) \<and>
           p' = sent b ?t p \<and> s' = s\<lparr>cc := counted p (cc s), mtu := m\<rparr> \<and>
           mtu_fit E (peer E s) m \<and> h' = h\<lparr>tick := t\<rparr> \<and> Suc (Suc (tick h)) \<le> t)"
        using m' t length_update_pf [OF b] drop_update_pf [OF b]
        by (auto simp: yields_simps s1 sent_def peer_def PF_SIZE_def intro!: exI [of _ b] exI [of _ m'] exI [of _ t])
    qed
  qed
qed

lemma send_to_addr_tick: "send_to_addr_impl E b k a flags h = Some h' \<Longrightarrow> tick h' = tick h"
  by (auto simp: send_to_addr_impl_def register_sent_packet_def Let_def emit_def bind_eq_Some_conv split: prod.splits)

lemma remove_ack_tick: "remove_from_ack_list E h s = Some h' \<Longrightarrow> tick h' = tick h"
  by (drule remove_ack_frame, erule ssubst) simp

lemma send_data_tick: "send_data E b n type flags h s = Some (b', h', s') \<Longrightarrow> tick h \<le> tick h'"
  by (auto simp: send_data_def get_overhead_def get_udp_overhead_def call_get_udp_overhead_def
      call_get_microseconds_def query_def emit_def Let_def bind_eq_Some_conv
      dest!: send_to_addr_tick remove_ack_tick split: if_splits)

lemma sent_time [simp]: "opk_time_sent (sent d t p) = t"
  by (simp add: sent_def inc_transmissions_def)

text \<open>A transmission counts one more on the packet it sends.\<close>

lemma send_packet_ready:
  assumes r: "ready E T h s" and T: "T < 2 ^ 31 - 1" and p: "out_at v s = Some p"
  shows "yields (send_packet E v h s) (\<lambda>(h', s'). ready E (Suc T) h' s')"
proof -
  obtain p1 probe h1 s1 b m t where bt: "begin_transmission E v h s = Some (p1, probe, h1, s1)"
    and b: "length b = length (opk_data p)"
    and p1: "p1 = sent b (cb_microseconds E (Suc (tick h))) p" and s1: "s1 = s\<lparr>cc := counted p (cc s), mtu := m\<rparr>"
    and m: "mtu_fit E (peer E s) m" and h1: "h1 = h\<lparr>tick := t\<rparr>" "Suc (Suc (tick h)) \<le> t"
    using begin_transmission_yields [OF r p] unfolding yields_def by blast
  note k = ready_packet [OF r p]
  have hf: "host_for E (self s) h" and hk: "host_ok E h1" using r host_ok_cong [of h1 h E]
    by (simp_all add: ready_def host_for_def h1)
  have n: "unat (opk_length p1) \<le> length (opk_data p1)" "20 \<le> length (opk_data p1)"
    using k(3,4) b by (simp_all add: p1)
  obtain b2 h2 s2 where sd: "send_data E (opk_data p1) (opk_length p1) (packet_bandwidth s1 p1)
         (if probe then UTP_UDP_DONTFRAG else 0) h1 s1 = Some (b2, h2, s2)"
    and s2: "s2 = s1\<lparr>timing := (timing s1)\<lparr>last_sent_packet := current_ms h1\<rparr>\<rparr>"
    and u: "update_pf (\<lambda>pf. pf\<lparr>pf_tv_usec := ucast (cb_microseconds E (tick h1)), pf_reply_micro := reply_micro (timing s1)\<rparr>)
       (opk_data p1) = Some b2"
    and h2: "host_ok E h2" "same_host h1 h2" "ack_pending h2 = ack_pending h1 - {self s1}"
    by (rule send_data_total [OF hk n]) blast
  let ?p = "sent b2 (cb_microseconds E (Suc (tick h))) p"
  let ?s = "set_out v ?p (s\<lparr>cc := counted p (cc s)\<rparr>)"
  let ?s' = "set_out v (p1\<lparr>opk_data := b2\<rparr>) s2"
  have sp: "send_packet E v h s = Some (h2, ?s')" by (simp add: send_packet_def bt sd)
  have e: "p1\<lparr>opk_data := b2\<rparr> = ?p" by (simp add: p1 sent_def inc_transmissions_def)
  have tk: "Suc (Suc (tick h)) \<le> tick h2" using send_data_tick [OF sd] h1 by simp
  have ms: "current_ms h2 = current_ms h" using h2(2) by (simp add: same_host_def h1)
  have w: "win_inv T s" using r by (simp add: ready_def)
  have tr: "unat (opk_transmissions ?p) = Suc (unat (opk_transmissions p))"
    using inc_transmissions_unat [of p] k(1) T by (simp add: packet_ok_def)
  then have nz: "opk_transmissions ?p \<noteq> 0" by (metis nat.distinct(1) unat_0)
  have pk: "packet_ok (Suc T) ?p"
    using k(1,4) tr b length_update_pf [OF u] by (simp add: packet_ok_def p1)
  have "cur_window (counted p (cc s)) = cur_window (cc s) - weight p + weight ?p"
    using nz by (auto simp: counted_def weight_def add_in_flight_def)
  then have wi: "win_inv (Suc T) ?s" by (intro win_inv_set_out [OF win_inv_mono [OF w] p pk]) simp_all
  have un: "untouched ?s ?s'" unfolding e by (simp add: s2 s1 untouched_def) (simp add: set_out_def set_send_def)
  have rec: "recent E (tick h2) ?p"
    using k(2) r tk by (auto simp: recent_def ready_def steady_def)
  have all: "recent E (tick h2) q" if "Some q \<in> set (win ?s')" for q
  proof -
    have sb: "sb_wf (outbuf (send s))" using w by (simp add: win_inv_def)
    have "Some q \<in> set ((win s)[pos_of v s := Some ?p])"
      using that untouched_win [OF un] set_out_cc(3) [OF sb] by simp
    then have "q = ?p \<or> Some q \<in> set (win s)" using set_update_subset_insert [of "win s" "pos_of v s" "Some ?p"] by auto
    then show ?thesis using rec r recent_mono [of E "tick h" q "tick h2"] tk by (auto simp: ready_def)
  qed
  have "ack_pending h1 = ack_pending h" by (simp add: h1 ack_pending_def)
  then have "host_for E (self s) h2" using host_for_minus [OF hf h2(1)] h2(3) by (simp add: s1)
  then have "ready E (Suc T) h2 ?s'"
    unfolding ready_def
    using wi untouched_win_inv [OF un] all m r steady_mono [of E "tick h" "tick h2"] tk ms
    by (simp add: ready_def s2 s1 peer_def rtt_fit_def decay_fit_def counted_def add_in_flight_def)
      (simp add: set_out_def set_send_def)
  then show ?thesis by (simp add: sp yields_simps)
qed

section \<open>Acknowledged packets\<close>

text \<open>The bytes of one packet are among the bytes in flight: their sum does not wrap.\<close>

lemma flight_sum:
  assumes "\<forall>x \<in> set xs. unat (slot_weight x) < 2 ^ 16" and "length xs \<le> 2 ^ 16"
  shows "unat (flight xs) = (\<Sum>x \<leftarrow> xs. unat (slot_weight x)) \<and> unat (flight xs) \<le> length xs * 2 ^ 16"
  using assms
proof (induction xs)
  case (Cons x xs)
  have a: "unat (flight xs) = (\<Sum>x \<leftarrow> xs. unat (slot_weight x))" "unat (flight xs) \<le> length xs * 2 ^ 16"
    using Cons by simp_all
  have "unat (slot_weight x) < 2 ^ 16" "length xs < 2 ^ 16" using Cons.prems by simp_all
  then have "unat (slot_weight x + flight xs) = unat (slot_weight x) + unat (flight xs)"
    using a(2) by (simp add: unat_word_ariths)
  then show ?case using a Cons.prems by simp
qed simp

lemma ready_flight:
  assumes r: "ready E T h s" and p: "out_at v s = Some p" and "opk_transmissions p \<noteq> 0" "\<not> opk_need_resend p"
  shows "opk_payload p \<le> cur_window (cc s)"
proof -
  have w: "win_inv T s" and rec: "Some q \<in> set (win s) \<Longrightarrow> recent E (tick h) q" for q
    using r by (simp_all add: ready_def)
  note i = win_inv_at [OF w p]
  have sb: "sb_wf (outbuf (send s))" and c: "cur_window (cc s) = flight (win s)" using w by (simp_all add: win_inv_def)
  have "length (win s) \<le> 2 ^ 16" using dvd_imp_le [OF slots_dvd16 [OF sb]] by simp
  moreover have "\<forall>x \<in> set (win s). unat (slot_weight x) < 2 ^ 16"
    using rec by (auto simp: slot_weight_def weight_def recent_def split: option.split)
  ultimately have f: "unat (flight (win s)) = (\<Sum>x \<leftarrow> win s. unat (slot_weight x))" using flight_sum by blast
  have "Some p \<in> set (win s)" using nth_mem [OF i(4)] i(3) by simp
  then have "unat (slot_weight (Some p)) \<le> (\<Sum>x \<leftarrow> win s. unat (slot_weight x))"
    by (intro member_le_sum_list) (auto simp del: slot_weight_simps)
  then show ?thesis using assms(3,4) unfolding c by (simp add: word_le_nat_alt f weight_def)
qed

lemma update_rtt_yields:
  assumes "rtt_fit c" and "uint e \<le> 2 ^ 29 - 1"
  shows "yields (update_rtt e t c) (\<lambda>c'. rtt_fit c' \<and> cur_window c' = cur_window c \<and> last_rwin_decay c' = last_rwin_decay c)"
proof -
  obtain c' where c': "update_rtt e t c = Some c'" "uint (rtt c') \<le> 2 ^ 29 - 1" "uint (rtt_var c') \<le> 2 ^ 29 - 1"
    using update_rtt_bounded [of c "2 ^ 29 - 1" e t] assms by (auto simp: rtt_fit_def)
  have "last_rwin_decay c' = last_rwin_decay c"
    using c'(1) by (auto simp: update_rtt_def Let_def bind_eq_Some_conv split: if_splits)
  then show ?thesis using c' postD [OF update_rtt_flight c'(1)] by (simp add: yields_simps rtt_fit_def)
qed

lemma ack_timing_yields:
  assumes "rtt_fit (cc s)" and "recent E (tick h) p"
  shows "yields (ack_timing E p h s) (\<lambda>(h', s'). \<exists>c t. s' = s\<lparr>cc := c\<rparr> \<and> h' = h\<lparr>tick := t\<rparr> \<and> tick h \<le> t \<and>
     rtt_fit c \<and> cur_window c = cur_window (cc s) \<and> last_rwin_decay c = last_rwin_decay (cc s))"
proof (cases "opk_transmissions p = 1")
  case True
  let ?a = "cb_microseconds E (tick h) - opk_time_sent p"
  have "unat ?a \<le> 10 ^ 9" using assms(2) True by (simp add: recent_def)
  then have "unat (?a div 1000) \<le> 10 ^ 6" by (simp add: unat_div)
  then have "unat (ucast (?a div 1000) :: u32) \<le> 10 ^ 6" by (simp add: unsigned_ucast_eq take_bit_eq_mod)
  then have "int (unat (ucast (?a div 1000) :: u32)) \<le> int (10 ^ 6)" by (simp only: of_nat_le_iff)
  also have "int (10 ^ 6) \<le> 2 ^ 29 - 1" by simp
  finally have e: "uint (ucast (?a div 1000) :: u32) \<le> 2 ^ 29 - 1" by (simp only: uint_nat)
  show ?thesis
    unfolding ack_timing_def if_P [OF True] call_get_microseconds_def query_def Let_def prod.case
    by (rule yields_bind [OF update_rtt_yields [OF assms(1) e]])
      (auto simp: yields_simps intro!: exI [of _ "Suc (tick h)"])
next
  case False
  let ?c = "(cc s)\<lparr>retransmit_timeout := rto (cc s), rto_timeout := current_ms h + ucast (rto (cc s))\<rparr>"
  show ?thesis
    using False assms(1)
    by (auto simp: ack_timing_def yields_simps set_cc_def rtt_fit_def intro!: exI [of _ ?c] exI [of _ "tick h"])
qed

lemma drop_at_ready:
  assumes r: "ready E T h s" and p: "out_at v s = Some p" and c: "cur_window c = cur_window (cc s) - weight p"
    and k: "rtt_fit c" "last_rwin_decay c = last_rwin_decay (cc s)" and t: "tick h \<le> t"
  shows "ready E T (h\<lparr>tick := t\<rparr>) ((drop_at v s)\<lparr>cc := c\<rparr>)"
proof -
  let ?s = "(drop_at v s)\<lparr>cc := c\<rparr>" and ?h = "h\<lparr>tick := t\<rparr>"
  have w: "win_inv T s" and rec: "Some q \<in> set (win s) \<Longrightarrow> recent E (tick h) q" for q
    using r by (simp_all add: ready_def)
  have sb: "sb_wf (outbuf (send s))" using w by (simp add: win_inv_def)
  have "recent E t q" if "Some q \<in> set (win ?s)" for q
    using that set_update_subset_insert [of "win s" "pos_of v s" None] drop_at_cc [OF sb, where v = v and c = c]
      recent_mono [OF rec t] by auto
  moreover have "mtu ?s = mtu s" by (simp add: drop_at_def set_send_def)
  moreover have "host_for E (self s) ?h" using r host_for_cong [of ?h h] by (simp add: ready_def)
  ultimately show ?thesis
    using win_inv_drop_at [OF w p c] k r steady_mono [OF _ t] by (simp add: ready_def peer_def decay_fit_def)
qed

lemma ack_packet_ready:
  assumes r: "ready E T h s"
  shows "yields (ack_packet E sq h s) (\<lambda>(st, h', s'). ready E T h' s')"
proof (cases "\<exists>p. out_at (ucast sq) s = Some p \<and> opk_transmissions p \<noteq> 0")
  case False
  then show ?thesis using r by (cases "out_at (ucast sq) s") (simp_all add: ack_packet_def yields_simps)
next
  case True
  then obtain p where p: "out_at (ucast sq) s = Some p" "opk_transmissions p \<noteq> 0" by blast
  let ?d = "drop_at (ucast sq) s"
  have rt: "rtt_fit (cc ?d)" "recent E (tick h) p" using r ready_packet(2) [OF r p(1)] by (simp_all add: ready_def)
  obtain c t where a: "ack_timing E p h ?d = Some (h\<lparr>tick := t\<rparr>, ?d\<lparr>cc := c\<rparr>)" "tick h \<le> t"
    and c: "rtt_fit c" "cur_window c = cur_window (cc s)" "last_rwin_decay c = last_rwin_decay (cc s)"
    using ack_timing_yields [OF rt] unfolding yields_def by (auto simp: drop_at_fields)
  let ?c = "c\<lparr>cur_window := cur_window c - weight p, retransmit_count := 0\<rparr>"
  have "opk_need_resend p \<or> opk_payload p \<le> cur_window c" using ready_flight [OF r p] c(2) by auto
  then have "ack_packet E sq h s = Some (0, h\<lparr>tick := t\<rparr>, ?d\<lparr>cc := ?c\<rparr>)"
    using a(1) p by (cases "opk_need_resend p")
      (simp_all add: ack_packet_def drop_at_def set_cc_def weight_def cc_remove_in_flight_def remove_in_flight_def)
  moreover have "ready E T (h\<lparr>tick := t\<rparr>) (?d\<lparr>cc := ?c\<rparr>)"
    by (rule drop_at_ready [OF r p(1) _ _ _ a(2)]) (use c in \<open>simp_all add: rtt_fit_def\<close>)
  ultimately show ?thesis by (simp add: yields_simps peer_def)
qed

text \<open>The front of the window moves past slots that are empty.\<close>

lemma pop_front_ready:
  assumes r: "ready E T h s" and c: "0 < cur_window_packets (send s)" and n: "out_at (oldest64 s) s = None"
  shows "ready E T h (pop_front s)"
proof -
  have w: "win_inv T s" using r by (simp add: ready_def)
  have sb: "sb_wf (outbuf (send s))" using w by (simp add: win_inv_def)
  have "win s \<noteq> []" using slots_pos [OF sb] by (metis win_length length_0_conv not_numeral_le_zero)
  then have "set (win (pop_front s)) = set (win s)"
    unfolding win_pop_front [OF sb c] by (cases "win s") auto
  moreover have "mtu (pop_front s) = mtu s" by (simp add: pop_front_def set_send_def)
  ultimately show ?thesis
    using win_inv_pop_front [OF w c n] r by (simp add: ready_def peer_def)
qed

lemma ack_loop_ready:
  "ready E T h s \<Longrightarrow> n \<le> unat (cur_window_packets (send s)) \<Longrightarrow>
   yields (ack_loop E n h s) (\<lambda>(h', s'). ready E T h' s')"
proof (induction n arbitrary: h s)
  case 0
  then show ?case by (simp add: yields_simps)
next
  case (Suc n)
  have sb: "sb_wf (outbuf (send s))" using Suc.prems(1) by (simp add: ready_def win_inv_def)
  show ?case unfolding ack_loop.simps
  proof (rule yields_bind [OF ack_packet_ready [OF Suc.prems(1)]], clarify)
    fix st h1 s1
    assume a: "ack_packet E (oldest16 s) h s = Some (st, h1, s1)" and r1: "ready E T h1 s1"
    let ?s = "set_send (\<lambda>d. d\<lparr>cur_window_packets := cur_window_packets d - 1\<rparr>) s1"
    have same: "seq_nr (send s1) = seq_nr (send s)" "cur_window_packets (send s1) = cur_window_packets (send s)"
      and e: "st \<noteq> 2 \<Longrightarrow> out_at (ucast (oldest16 s)) s1 = None"
      using postD [OF ack_packet_work [of E "oldest16 s" h s True] a] sb by auto
    have pos: "0 < cur_window_packets (send s1)" using Suc.prems(2) same by (simp add: word_less_nat_alt)
    have "yields (ack_loop E n h1 ?s) (\<lambda>(h', s'). ready E T h' s')" if "st \<noteq> 2"
    proof -
      have b1: "sb_wf (outbuf (send s1))" using r1 by (simp add: ready_def win_inv_def)
      have "oldest16 s1 = oldest16 s" by (simp add: oldest16_def same)
      then have "out_at (oldest64 s1) s1 = None" using e [OF that] oldest_same_slot [OF b1] by simp
      then have "ready E T h1 (pop_front s1)" using pos by (intro pop_front_ready [OF r1])
      moreover have "n \<le> unat (cur_window_packets (send (pop_front s1)))"
        using Suc.prems(2) same unat_pred [of "cur_window_packets (send s1)"] pos by simp
      ultimately have "yields (ack_loop E n h1 (pop_front s1)) (\<lambda>(h', s'). ready E T h' s')"
        by (rule Suc.IH)
      then show ?thesis unfolding pop_front_def [symmetric] .
    qed
    then show "yields (if st = 2 then Some (h1, s1) else ack_loop E n h1 ?s) (\<lambda>(h', s'). ready E T h' s')"
      using r1 by (simp add: yields_simps)
  qed
qed

lemma skip_acked_ready: "ready E T h s \<Longrightarrow> ready E T h (skip_acked s)"
proof (induction s rule: skip_acked.induct)
  case (1 s)
  let ?f = "0 < cur_window_packets (send s) \<and> out_at (oldest64 s) s = None"
  show ?case
  proof (cases ?f)
    case True
    have e: "skip_acked s = skip_acked (pop_front s)"
      unfolding pop_front_def by (rule trans [OF skip_acked.simps if_P [OF True]])
    have "ready E T h (pop_front s)"
      by (rule pop_front_ready [OF 1(2) conjunct1 [OF True] conjunct2 [OF True]])
    then show ?thesis unfolding e unfolding pop_front_def by (rule 1(1) [OF True])
  next
    case False
    have e: "skip_acked s = s" by (rule trans [OF skip_acked.simps if_not_P [OF False]])
    show ?thesis unfolding e by (rule 1(2))
  qed
qed

section \<open>Advancing the window\<close>

lemma ready_count: "ready E T h s \<Longrightarrow> T \<le> T' \<Longrightarrow> ready E T' h s"
  using win_inv_mono by (auto simp: ready_def)

lemma ready_emit: "ready E T h s \<Longrightarrow> ready E T (emit ev h) s"
proof (rule ready_host)
  assume "ready E T h s"
  then show "host_for E (self s) (emit ev h)"
    using host_for_cong [of "emit ev h" h] by (simp add: ready_def emit_def)
qed (simp_all add: emit_def)

lemma ready_timing: "ready E T h s \<Longrightarrow> ready E T h (set_timing f s)"
  by (erule ready_same) (simp, simp_all add: set_timing_def peer_def)

lemma ack_state_change_ready:
  assumes "ready E T h s"
  shows "ready E T (fst (ack_state_change pp n h s)) (snd (ack_state_change pp n h s))"
proof -
  have st: "ready E T h' (set_state c t)" if "ready E T h' t" "c \<noteq> CS_SYN_SENT" for h' t c
    using that(2) by (intro ready_same [OF that(1)]) (simp, simp_all add: set_state_def peer_def)
  have f: "ready E T h' (set_send (\<lambda>d. d\<lparr>fin_sent_acked := True\<rparr>) t)" if "ready E T h' t" for h' t
    by (rule ready_same [OF that]) (simp_all add: set_send_def peer_def untouched_def)
  show ?thesis
    unfolding ack_state_change_def Let_def
    using assms f st by (auto intro!: ready_emit)
qed

lemma fast_retry_ready:
  assumes "ready E T h s" and "T < 2 ^ 31 - 1"
  shows "yields (fast_retry E h s) (\<lambda>(h', s'). ready E (Suc T) h' s')"
proof -
  have stay: "ready E (Suc T) h s" "ready E (Suc T) h (set_timing f s)" for f
    using ready_count [OF ready_timing [OF assms(1)]] ready_count [OF assms(1)] by simp_all
  have send: "yields (send_packet E (oldest64 s) h (set_timing f s)) (\<lambda>(h', s'). ready E (Suc T) h' s')"
    if "out_at (oldest64 s) s = Some p" for p f
    by (rule send_packet_ready [OF ready_timing [OF assms(1)] assms(2)])
      (use that in \<open>simp add: out_at_def set_timing_def\<close>)
  show ?thesis
    unfolding fast_retry_def using stay send by (auto simp: yields_simps split: option.split)
qed

text \<open>A lone packet not yet sent is sent.\<close>

definition send_last :: "env \<Rightarrow> UtpContext \<Rightarrow> UtpSocket \<Rightarrow> (UtpContext \<times> UtpSocket) option" where
  "send_last E h s = (if cur_window_packets (send s) = 1
     then do {
       p \<leftarrow> out_at (seq64 s - 1) s;
       if opk_transmissions p = 0 then send_packet E (seq64 s - 1) h s else Some (h, s)
     }
     else Some (h, s))"

lemma send_last_ready:
  assumes r: "ready E T h s" and T: "T < 2 ^ 31 - 1" and hd: "head_ok s"
  shows "yields (send_last E h s) (\<lambda>(h', s'). ready E (Suc T) h' s')"
proof (cases "cur_window_packets (send s) = 1")
  case False
  then show ?thesis using ready_count [OF r] by (simp add: send_last_def yields_simps)
next
  case True
  have "sb_wf (outbuf (send s))" using r by (simp add: ready_def win_inv_def)
  then have "out_at (oldest64 s) s = win s ! 0" by (simp add: out_at_win)
  moreover have "seq64 s - 1 = oldest64 s" using True by (simp add: oldest64_def window64_def)
  ultimately obtain p where "out_at (seq64 s - 1) s = Some p" using hd True by (auto simp: head_ok_def)
  then show ?thesis
    using True send_packet_ready [OF r T] ready_count [OF r] by (simp add: send_last_def yields_simps)
qed

lemma advance_send_window_ready:
  assumes r: "ready E T h s" and T: "T < 2 ^ 31 - 2"
  shows "yields (advance_send_window E pp acks h s) (\<lambda>(h', s'). ready E (T + 2) h' s')"
proof (cases "acks \<le> unat (cur_window_packets (send s))")
  case False
  then show ?thesis using ready_count [OF r] by (simp add: advance_send_window_def yields_simps)
next
  case True
  define s1 where "s1 = set_send (\<lambda>d. d\<lparr>max_window_user := ucast (pp_windowsize pp)\<rparr>) s"
  define s2 where "s2 = (if max_window_user (send s1) = 0
               then set_cc (\<lambda>c. c\<lparr>zerowindow_time := current_ms h + 15000\<rparr>) s1 else s1)"
  define h3 where "h3 = fst (ack_state_change pp acks h s2)"
  define s3 where "s3 = snd (ack_state_change pp acks h s2)"
  define s4 where "s4 = (if wrapping_compare_less (ucast (fast_resend_seq_nr (timing s3)))
                    (ucast (pp_ack_nr pp + 1)) (ucast ACK_NR_MASK)
               then set_timing (\<lambda>t. t\<lparr>fast_resend_seq_nr := pp_ack_nr pp + 1\<rparr>) s3 else s3)"
  have eq: "advance_send_window E pp acks h s = do {
      (h, s) \<leftarrow> ack_loop E acks h3 s4;
      let s = skip_acked s;
      c_assert (ndebug (bld E)) (cur_window_packets (send s) = 0 \<or> out_at (oldest64 s) s \<noteq> None);
      (h, s) \<leftarrow> send_last E h s;
      fast_retry E h s
    }"
    unfolding advance_send_window_def send_last_def s4_def s3_def h3_def s2_def s1_def Let_def
    using True by (simp only: if_True split_def)
  have "untouched s s2" by (simp add: untouched_def s1_def s2_def set_defs)
  then have "ready E T h s2"
    using r by (intro ready_other [OF r]) (simp_all add: s1_def s2_def set_defs peer_def ready_def rtt_fit_def decay_fit_def)
  then have "ready E T h3 s3" unfolding h3_def s3_def by (rule ack_state_change_ready)
  then have r4: "ready E T h3 s4" by (simp add: s4_def ready_timing)
  have "acks \<le> unat (cur_window_packets (send s4))"
    using True by (simp add: s4_def s3_def s2_def s1_def ack_state_change_def Let_def set_defs)
  note al = ack_loop_ready [OF r4 this]
  show ?thesis unfolding eq
  proof (rule yields_bind [OF al], clarify)
    fix h5 s5 assume r5: "ready E T h5 s5"
    let ?s = "skip_acked s5"
    have "sb_wf (outbuf (send s5))" using r5 by (simp add: ready_def win_inv_def)
    then have k: "head_ok ?s" "sb_wf (outbuf (send ?s))" using skip_acked_work [of s5 E h5] by simp_all
    have as: "cur_window_packets (send ?s) = 0 \<or> out_at (oldest64 ?s) ?s \<noteq> None"
      using k by (simp add: head_ok_def out_at_win)
    have "yields (send_last E h5 ?s) (\<lambda>(h', s'). ready E (Suc T) h' s')"
      using T by (intro send_last_ready [OF skip_acked_ready [OF r5] _ k(1)]) simp
    then have "yields (send_last E h5 ?s \<bind> (\<lambda>(h, s). fast_retry E h s)) (\<lambda>(h', s'). ready E (T + 2) h' s')"
    proof (rule yields_bind, clarify)
      fix h6 s6 assume "ready E (Suc T) h6 s6"
      from fast_retry_ready [OF this] T show "yields (fast_retry E h6 s6) (\<lambda>(h', s'). ready E (T + 2) h' s')" by simp
    qed
    then show "yields (let s = ?s in
        c_assert (ndebug (bld E)) (cur_window_packets (send s) = 0 \<or> out_at (oldest64 s) s \<noteq> None) \<bind>
        (\<lambda>_. send_last E h5 s \<bind> (\<lambda>(h, s). fast_retry E h s))) (\<lambda>(h', s'). ready E (T + 2) h' s')"
      using as by (simp add: c_assert_def)
  qed
qed

section \<open>Selective acknowledgements\<close>

text \<open>The assertion of the bitmap loop: a bit never stands for the oldest packet.\<close>

lemma unat_slot: "sb_wf b \<Longrightarrow> unat (x AND sb_mask b) = unat x mod sb_slots b"
  by (auto simp: sb_wf_def sb_wf_at_def unat_and_mask sb_slots_def)

lemma bit_not_oldest:
  assumes w: "win_shape s" and i: "\<not> outside_window v s"
  shows "ucast v AND sb_mask (outbuf (send s)) \<noteq> (seq64 s - window64 s) AND sb_mask (outbuf (send s))"
proof
  let ?b = "outbuf (send s)" and ?x = "ucast (ucast v :: u16) :: u64"
  let ?m = "sb_slots ?b"
  assume "ucast v AND sb_mask ?b = (seq64 s - window64 s) AND sb_mask ?b"
  then have e: "ucast v AND sb_mask ?b = oldest64 s AND sb_mask ?b" by (simp only: oldest64_def)
  have b: "sb_wf ?b" and n: "cur_window_packets (send s) \<noteq> 0"
    and c: "unat (cur_window_packets (send s)) \<le> ?m" using w by (simp_all add: win_shape_def ring_shape_def)
  note d = slots_dvd16 [OF b] and d64 = slots_dvd64 [OF b]
  have "unat (ucast y :: u64) = unat y" for y :: u16
    by (simp add: unsigned_ucast_eq take_bit_eq_mod mod_less less_trans [OF u16_lt])
  then have "unat ?x = unat (ucast v :: u16)" .
  also have "\<dots> = unat v mod 2 ^ 16" by (simp add: unsigned_ucast_eq take_bit_eq_mod)
  finally have "unat ?x = unat v mod 2 ^ 16" .
  then have "unat ?x mod ?m = unat v mod ?m" using mod_mod_cancel [OF d] by simp
  also have "\<dots> = unat (oldest64 s) mod ?m"
    using arg_cong [OF e, of unat] unfolding unat_slot [OF b] unat_ucast32_64 .
  finally have "(unat (?x - oldest64 s) + unat (oldest64 s)) mod ?m = (0 + unat (oldest64 s)) mod ?m"
    using word_diff_mod [of ?m ?x "oldest64 s"] d64 by simp
  then have "pos_of ?x s = 0" unfolding pos_of_def by (drule_tac mod_cancel_nat) simp
  then show False using inside_window [OF b n c i] by simp
qed

lemma push_resend_yields:
  assumes "length rs \<le> 126" shows "yields (push_resend v rs) (\<lambda>rs'. length rs' \<le> 126)"
  using assms by (auto simp: push_resend_def MAX_EACK_def Let_def yields_simps)

definition scanning :: "env \<Rightarrow> nat \<Rightarrow> nat \<times> u32 list \<times> UtpContext \<times> UtpSocket \<Rightarrow> bool" where
  "scanning E T st \<longleftrightarrow> (case st of (c, rs, h, s) \<Rightarrow> ready E T h s \<and> win_shape s \<and> length rs \<le> 126)"

lemma sack_step_ready:
  assumes st: "scanning E T st" and bits: "0 < n \<Longrightarrow> mask_bit bm (n - 1) \<noteq> None"
  shows "yields (sack_step E base bm n st) (scanning E T)"
proof -
  obtain c rs h s where e: "st = (c, rs, h, s)" by (cases st)
  have r: "ready E T h s" and w: "win_shape s" and l: "length rs \<le> 126" using st by (simp_all add: e scanning_def)
  let ?v = "selack_seq base n"
  show ?thesis
  proof (cases "outside_window ?v s")
    case True
    then show ?thesis using st by (simp add: sack_step_def e yields_simps)
  next
    case False
    obtain b where b: "(if 0 < n then mask_bit bm (n - 1) else Some False) = Some b" using bits by (cases "0 < n") auto
    let ?c = "if b then c + 1 else c"
    have as: "ucast ?v AND sb_mask (outbuf (send s)) \<noteq> (seq64 s - window64 s) AND sb_mask (outbuf (send s))"
      by (rule bit_not_oldest [OF w False])
    obtain k h1 s1 where a: "ack_packet E (ucast ?v) h s = Some (k, h1, s1)" "ready E T h1 s1"
      using ack_packet_ready [OF r, of "ucast ?v"] by (auto simp: yields_def)
    have "pos_of (ucast (ucast ?v :: u16)) s \<noteq> 0" using inside_window [OF _ _ _ False] w by (simp add: win_shape_def ring_shape_def)
    then have "work E False h s h1 s1" using postD [OF ack_packet_work a(1)] by auto
    then have w1: "win_shape s1" by (rule work_win_shape [OF _ w])
    obtain rs' where p: "push_resend ?v rs = Some rs'" "length rs' \<le> 126"
      using push_resend_yields [OF l] by (auto simp: yields_def)
    have eq: "sack_step E base bm n st = (case out_at (ucast ?v) s of
        None \<Rightarrow> Some (?c, rs, h, s)
      | Some q \<Rightarrow> if opk_transmissions q = 0 then Some (?c, rs, h, s)
          else if b then Some (?c, rs, h1, s1)
          else if may_resend ?v ?c s then Some (?c, rs', h, s) else Some (?c, rs, h, s))"
      using False b as a(1) p(1) by (simp add: sack_step_def e Let_def c_assert_def split: option.split)
    show ?thesis
      unfolding eq using r w l a(2) w1 p(2) by (simp add: yields_simps scanning_def split: option.split)
  qed
qed

lemma sack_loop_ready:
  "scanning E T st \<Longrightarrow> (\<And>i. i < n \<Longrightarrow> mask_bit bm i \<noteq> None) \<Longrightarrow> yields (sack_loop E base bm n st) (scanning E T)"
proof (induction n arbitrary: st)
  case 0
  then show ?case by (simp add: sack_step_ready)
next
  case (Suc n)
  show ?case unfolding sack_loop.simps
    by (rule yields_bind [OF sack_step_ready [OF Suc.prems(1)]]) (use Suc in simp_all)
qed

lemma resend_loop_ready:
  "ready E T h s \<Longrightarrow> i < 4 \<Longrightarrow> T + (4 - i) < 2 ^ 31 - 1 \<Longrightarrow>
   yields (resend_loop E vs i bo h s) (\<lambda>(bo', h', s'). ready E (T + (4 - i)) h' s')"
proof (induction vs arbitrary: T i bo h s)
  case Nil
  then show ?case using ready_count [of E T h s "T + (4 - i)"] by (simp add: yields_simps)
next
  case (Cons v vs)
  show ?case
  proof (cases "out_at (ucast v) s")
    case None
    then show ?thesis using Cons by simp
  next
    case (Some p)
    have T: "T < 2 ^ 31 - 1" using Cons.prems(3) by simp
    show ?thesis unfolding resend_loop.simps Some option.case
    proof (rule yields_bind [OF send_packet_ready [OF Cons.prems(1) T Some]], clarify)
      fix h1 s1 assume "ready E (Suc T) h1 s1"
      then have r: "ready E (Suc T) h1 (set_timing (\<lambda>t. t\<lparr>fast_resend_seq_nr := ucast v + 1\<rparr>) s1)" (is "ready _ _ _ ?s")
        by (rule ready_timing)
      show "yields (let s = ?s in if 4 \<le> i + 1 then Some (True, h1, s) else resend_loop E vs (i + 1) True h1 s)
          (\<lambda>(bo', h', s'). ready E (T + (4 - i)) h' s')"
      proof (cases "4 \<le> i + 1")
        case True
        then show ?thesis using ready_count [OF r] Cons.prems(2) by (simp add: yields_simps)
      next
        case False
        have "yields (resend_loop E vs (i + 1) True h1 ?s) (\<lambda>(bo', h', s'). ready E (Suc T + (4 - (i + 1))) h' s')"
          using False Cons.prems by (intro Cons.IH [OF r]) simp_all
        moreover have "Suc T + (4 - (i + 1)) = T + (4 - i)" using False by simp
        ultimately show ?thesis using False by simp
      qed
    qed
  qed
qed

lemma maybe_decay_yields:
  assumes "decay_fit t c" and "rtt_fit c"
  shows "yields (maybe_decay_win B t c) (\<lambda>c'. decay_fit t c' \<and> rtt_fit c' \<and> cur_window c' = cur_window c)"
proof -
  have "in_i64 (sint t - last_rwin_decay c)" using assms(1) by (auto simp: decay_fit_def in_i64_def)
  then show ?thesis
    using assms by (simp add: maybe_decay_win_def can_decay_win_def yields_simps Let_def decay_fit_def rtt_fit_def)
qed

lemma selective_ack_ready:
  assumes r: "ready E T h s" and T: "T < 2 ^ 31 - 5" and bits: "\<And>i. i < unat len * 8 \<Longrightarrow> mask_bit bm i \<noteq> None"
  shows "yields (selective_ack E base bm len h s) (\<lambda>(h', s'). ready E (T + 4) h' s')"
proof (cases "cur_window_packets (send s) = 0")
  case True
  then show ?thesis using ready_count [OF r] by (simp add: selective_ack_def yields_simps)
next
  case False
  have "scanning E T (0, [], h, s)"
    using r False sender_ok_shape [of h s] by (simp add: scanning_def win_shape_def ring_shape_def ready_def win_inv_def)
  note sl = sack_loop_ready [OF this bits]
  show ?thesis unfolding selective_ack_def if_not_P [OF False]
  proof (rule yields_bind [OF sl], assumption, clarify)
    fix c rs h1 s1
    assume "scanning E T (c, rs, h1, s1)"
    then have r1: "ready E T h1 s1" and l: "length rs \<le> 126" by (simp_all add: scanning_def)
    obtain rs' where p: "(if may_resend (base - 1) c s1
           then (if length rs < MAX_EACK then Some (rs @ [(base - 1) AND ucast ACK_NR_MASK]) else None)
           else Some rs) = Some rs'"
      using l by (cases "may_resend (base - 1) c s1") (simp_all add: MAX_EACK_def)
    have rl: "yields (resend_loop E (rev rs') 0 False h1 s1) (\<lambda>(bo, h', s'). ready E (T + (4 - 0)) h' s')"
      by (rule resend_loop_ready [OF r1]) (use T in simp_all)
    show "yields (do {
          resends \<leftarrow> (if may_resend (base - 1) c s1
             then (if length rs < MAX_EACK then Some (rs @ [(base - 1) AND ucast ACK_NR_MASK]) else None)
             else Some rs);
          (back_off, h, s) \<leftarrow> resend_loop E (rev resends) 0 False h1 s1;
          s \<leftarrow> (if back_off then do { c \<leftarrow> maybe_decay_win (bld E) (current_ms h) (cc s); Some (s\<lparr>cc := c\<rparr>) } else Some s);
          Some (h, s\<lparr>duplicate_ack := of_nat c\<rparr>)
        }) (\<lambda>(h', s'). ready E (T + 4) h' s')"
      unfolding p bind.bind_lunit
    proof (rule yields_bind [OF rl], clarify)
      fix bo h2 s2
      assume "ready E (T + (4 - 0)) h2 s2"
      then have r2: "ready E (T + 4) h2 s2" by simp
      have d: "ready E (T + 4) h2 (s2\<lparr>cc := c', duplicate_ack := k\<rparr>)"
        if "decay_fit (current_ms h2) c'" "rtt_fit c'" "cur_window c' = cur_window (cc s2)" for c' k
        using r2 that by (intro ready_other [OF r2]) (simp_all add: untouched_def ready_def peer_def)
      have f: "decay_fit (current_ms h2) (cc s2)" "rtt_fit (cc s2)" using r2 by (simp_all add: ready_def)
      show "yields (do {
            s \<leftarrow> (if bo then do { c \<leftarrow> maybe_decay_win (bld E) (current_ms h2) (cc s2); Some (s2\<lparr>cc := c\<rparr>) } else Some s2);
            Some (h2, s\<lparr>duplicate_ack := of_nat c\<rparr>)
          }) (\<lambda>(h', s'). ready E (T + 4) h' s')"
        using d [of "cc s2"] f yields_mono [OF maybe_decay_yields [OF f]] d
        by (auto simp: yields_simps)
    qed
  qed
qed

end
