(* ===== verification/Ready_Measuring.thy ===== *)
theory Ready_Measuring
  imports Ready_Sending
begin

text \<open>
  The measurements a packet gives return: round trips of the acknowledged packets, the average of the reported
  delays and the congestion controller (\<open>process_acks\<close>).
\<close>

section \<open>Measurements\<close>

text \<open>
  The smallest round trip seen so far is not negative, at most the \<open>M\<close> of the start, and below 1000 seconds
  once bytes were acknowledged.
\<close>

definition timed :: "int \<Rightarrow> u64 \<times> int \<Rightarrow> bool" where
  "timed M acc \<longleftrightarrow> 0 \<le> snd acc \<and> snd acc \<le> M \<and> (fst acc \<noteq> 0 \<longrightarrow> snd acc \<le> 10 ^ 9)"

lemma sample_rtt_timed:
  assumes "recent E k p" and "opk_transmissions p \<noteq> 0" and "k \<le> n" and "0 \<le> m" and "m \<le> M"
  shows "timed M (a, sample_rtt (cb_microseconds E n) p m)"
proof -
  let ?d = "cb_microseconds E n - opk_time_sent p"
  have d: "unat ?d \<le> 10 ^ 9" using assms(1-3) by (simp add: recent_def)
  then have "int (unat ?d) \<le> int (10 ^ 9)" by (simp only: of_nat_le_iff)
  then have u: "uint ?d \<le> 10 ^ 9" by (simp only: uint_nat of_nat_power of_nat_numeral)
  have "sint ?d = uint ?d"
    using u signed_take_bit_int_eq_self [of 63 "uint ?d"] unsigned_greater_eq [of ?d, where 'a = int]
    by (simp add: sint_uint)
  then have "0 \<le> sint ?d" "sint ?d \<le> 10 ^ 9" using u by simp_all
  then show ?thesis using assms(4,5) by (auto simp: timed_def sample_rtt_def min_def)
qed

lemma payload_int: "recent E k p \<Longrightarrow> 0 \<le> to_i32 (uint (opk_payload p))"
proof -
  assume "recent E k p"
  then have "int (unat (opk_payload p)) < int (2 ^ 16)" unfolding recent_def by (simp only: of_nat_less_iff)
  then have "uint (opk_payload p) < 2 ^ 16" by (simp only: uint_nat of_nat_power of_nat_numeral)
  moreover have "- (2 ^ 31) \<le> uint (opk_payload p)" by (rule order_trans [of _ 0]) simp_all
  ultimately show ?thesis unfolding to_i32_def by (subst signed_take_bit_int_eq_self) simp_all
qed

lemma handle_probe_ack_fit:
  assumes "mtu_fit E a m" shows "yields (handle_probe_ack nd sq t m) (\<lambda>(b, m'). mtu_fit E a m')"
proof (cases "is_probe sq m")
  case False
  then show ?thesis using assms by (simp add: handle_probe_ack_def yields_simps)
next
  case True
  have wf: "mtu_wf m" and f: "576 \<le> mtu_floor m" using assms by (simp_all add: mtu_fit_def)
  have pr: "mtu_floor m < mtu_probe_size m" "mtu_probe_size m \<le> mtu_ceiling m"
    using wf True by (simp_all add: mtu_wf_def is_probe_def)
  obtain m' where m': "handle_probe_ack nd sq t m = Some (True, m')" "mtu_wf m'" "mtu_floor m' = mtu_probe_size m"
    and su: "search_update nd t (m\<lparr>mtu_floor := mtu_probe_size m\<rparr>) = Some m'"
    by (rule probe_ack_step [OF wf True])
  have "mtu_ceiling m' \<le> mtu_ceiling m"
    using search_update_wf [OF _ _ su] pr wf by (simp add: mtu_wf_def)
  moreover have "576 \<le> mtu_floor m'" using f pr(1) m'(3) by simp
  ultimately have "mtu_fit E a m'" using assms m'(2) by (auto simp: mtu_fit_def intro: order_trans)
  then show ?thesis using m'(1) by (simp add: yields_simps)
qed

lemma ready_mtu:
  assumes "ready E T h s" and "mtu_fit E (peer E s) m" shows "ready E T h (s\<lparr>mtu := m\<rparr>)"
  using assms by (intro ready_other [OF assms(1)]) (simp_all add: ready_def peer_def)

lemma acked_loop_yields:
  "ready E T h s \<Longrightarrow> timed M acc \<Longrightarrow>
   yields (acked_loop E (cb_microseconds E (tick h)) n i acc h1 s) (\<lambda>(a, r, s'). timed M (a, r) \<and> ready E T h s' \<and>
     (\<exists>m. s' = s\<lparr>mtu := m\<rparr>))"
proof (induction n arbitrary: i acc s)
  case 0
  then show ?case by (auto simp: yields_simps intro!: exI [of _ "mtu s"])
next
  case (Suc n)
  let ?sq = "oldest16 s + of_nat i" and ?now = "cb_microseconds E (tick h)"
  have skip: "yields (acked_loop E ?now n (i + 1) acc h1 s) (\<lambda>(a, r, s'). timed M (a, r) \<and> ready E T h s' \<and> (\<exists>m. s' = s\<lparr>mtu := m\<rparr>))"
    by (rule Suc.IH [OF Suc.prems])
  show ?case
  proof (cases "\<exists>p. out_at (ucast ?sq) s = Some p \<and> opk_transmissions p \<noteq> 0")
    case False
    then show ?thesis using skip by (auto simp: Let_def split: option.split)
  next
    case True
    then obtain p where p: "out_at (ucast ?sq) s = Some p" "opk_transmissions p \<noteq> 0" by blast
    note rec = ready_packet(2) [OF Suc.prems(1) p(1)]
    have fit: "mtu_fit E (peer E s) (mtu s)" using Suc.prems(1) by (simp add: ready_def)
    obtain b d where d: "handle_probe_ack (ndebug (bld E)) (ucast ?sq) (current_ms h1) (mtu s) = Some (b, d)"
      "mtu_fit E (peer E s) d"
      using handle_probe_ack_fit [OF fit, of "ndebug (bld E)" "ucast ?sq" "current_ms h1"] unfolding yields_def by blast
    have t: "timed M (fst acc + opk_payload p, sample_rtt ?now p (snd acc))"
      using Suc.prems(2) by (intro sample_rtt_timed [OF rec p(2)]) (simp_all add: timed_def)
    have "yields (acked_loop E ?now n (i + 1) (fst acc + opk_payload p, sample_rtt ?now p (snd acc)) h1 (s\<lparr>mtu := d\<rparr>))
        (\<lambda>(a, r, s'). timed M (a, r) \<and> ready E T h s' \<and> (\<exists>m. s' = s\<lparr>mtu := d, mtu := m\<rparr>))"
      by (rule Suc.IH [OF ready_mtu [OF Suc.prems(1) d(2)] t])
    then show ?thesis
      using p d(1) payload_int [OF rec] by (simp add: Let_def c_assert_def)
  qed
qed

lemma sab_step_yields:
  assumes r: "ready E T h s" and t: "timed M acc" and bits: "\<And>i. i < unat len * 8 \<Longrightarrow> mask_bit bm i \<noteq> None"
  shows "yields (sab_step E (cb_microseconds E (tick h)) base bm len n s acc) (timed M)"
proof (cases "outside_window (selack_seq base n) s \<or>
    (\<forall>p. out_at (ucast (selack_seq base n)) s = Some p \<longrightarrow> opk_transmissions p = 0)")
  case True
  then show ?thesis using t by (auto simp: sab_step_def Let_def yields_simps split: option.split)
next
  case False
  then obtain p where p: "out_at (ucast (selack_seq base n)) s = Some p" "opk_transmissions p \<noteq> 0" by blast
  note rec = ready_packet(2) [OF r p(1)]
  obtain b where b: "(if 0 < n \<and> n - 1 < unat len * 8 then mask_bit bm (n - 1) else Some False) = Some b"
    using bits [of "n - 1"] that by (cases "0 < n \<and> n - 1 < unat len * 8") force+
  have "timed M (fst acc + opk_payload p, sample_rtt (cb_microseconds E (tick h)) p (snd acc))"
    using t by (intro sample_rtt_timed [OF rec p(2)]) (simp_all add: timed_def)
  then show ?thesis
    using False p t payload_int [OF rec] unfolding sab_step_def Let_def p(1) option.case b
    by (simp add: yields_simps)
qed

lemma sab_loop_yields:
  assumes r: "ready E T h s" and bits: "\<And>i. i < unat len * 8 \<Longrightarrow> mask_bit bm i \<noteq> None"
  shows "timed M acc \<Longrightarrow> yields (sab_loop E (cb_microseconds E (tick h)) base bm len n s acc) (timed M)"
proof (induction n arbitrary: acc)
  case 0
  then show ?case using sab_step_yields [OF r _ bits] by simp
next
  case (Suc n)
  show ?case unfolding sab_loop.simps
    by (rule yields_bind [OF sab_step_yields [OF r Suc.prems bits]]) (simp_all add: Suc.IH)
qed

section \<open>The average of the delays\<close>

text \<open>Averages and samples within nine minutes of their base.\<close>

definition average_fit :: "LedbatController \<Rightarrow> bool" where
  "average_fit c \<longleftrightarrow> \<bar>average_delay c\<bar> < 2 ^ 30 \<and> 0 \<le> current_delay_samples c \<and>
     current_delay_samples c < 2 ^ 31 - 1 \<and>
     \<bar>current_delay_sum c\<bar> \<le> current_delay_samples c * (2 ^ 30 - 1) \<and> \<bar>clock_drift c\<bar> < 2 ^ 31"

definition near :: "u32 \<Rightarrow> LedbatController \<Rightarrow> bool" where
  "near d c \<longleftrightarrow> \<bar>delay_distance (if average_delay_base c = 0 then d else average_delay_base c) d\<bar> < 2 ^ 30"

text \<open>What the measurements leave of the controller.\<close>

definition same_times :: "LedbatController \<Rightarrow> LedbatController \<Rightarrow> bool" where
  "same_times c c' \<longleftrightarrow> rtt c' = rtt c \<and> rtt_var c' = rtt_var c \<and> last_rwin_decay c' = last_rwin_decay c \<and>
     cur_window c' = cur_window c"

lemma mean_bound:
  fixes s k b :: int assumes "\<bar>s\<bar> \<le> k * b" and "0 < k" shows "\<bar>s sdiv k\<bar> \<le> b"
proof -
  have e: "s sdiv k = sgn s * (\<bar>s\<bar> div k)" using assms(2) by (simp add: signed_divide_int_def)
  have "\<bar>s\<bar> div k \<le> (k * b) div k" by (rule zdiv_mono1 [OF assms])
  then have "\<bar>s\<bar> div k \<le> b" using assms(2) by simp
  moreover have "0 \<le> \<bar>s\<bar> div k" using assms(2) by (simp add: pos_imp_zdiv_nonneg_iff)
  moreover have "0 \<le> b" using calculation by simp
  ultimately show ?thesis unfolding e by (auto simp: abs_mult sgn_if)
qed

lemma close_slot_yields:
  assumes a: "\<bar>average_delay c\<bar> < 2 ^ 30" and n: "0 < current_delay_samples c"
    and s: "\<bar>current_delay_sum c\<bar> \<le> current_delay_samples c * (2 ^ 30 - 1)" and d: "\<bar>clock_drift c\<bar> < 2 ^ 31"
  shows "yields (close_slot B c) (\<lambda>c'. same_times c c' \<and> \<bar>clock_drift c'\<bar> < 2 ^ 31)"
proof -
  define mean where "mean = current_delay_sum c sdiv current_delay_samples c"
  have m: "\<bar>mean\<bar> \<le> 2 ^ 30 - 1" unfolding mean_def by (rule mean_bound [OF s n])
  have tm: "to_i32 mean = mean" unfolding to_i32_def by (rule signed_take_bit_int_eq_self) (use m in simp_all)
  let ?p = "average_delay c" and ?q = "(clock_drift c * 7 + (mean - average_delay c)) sdiv 8"
  have dr: "\<bar>mean - ?p\<bar> \<le> 2 ^ 31 - 1" using a m by simp
  have "\<bar>clock_drift c * 7 + (mean - ?p)\<bar> \<le> 8 * (2 ^ 31 - 1)" using dr d by simp
  from mean_bound [OF this] have q: "\<bar>?q\<bar> \<le> 2 ^ 31 - 1" by simp
  then have tq: "to_i32 ?q = ?q" unfolding to_i32_def by (intro signed_take_bit_int_eq_self) simp_all
  have i: "mean < INT_MAX" "- INT_MAX < mean" using m by (auto simp: INT_MAX_def)
  consider "0 < ?p" "0 < mean" | "?p < 0" "mean < 0" | "\<not> (0 < ?p \<and> 0 < mean)" "\<not> (?p < 0 \<and> mean < 0)" by blast
  then show ?thesis
    unfolding close_slot_def
    by cases (use a m i dr q in \<open>auto simp: Let_def tm tq mean_def [symmetric] yields_simps same_times_def
      in_i32_def min_def max_def\<close>)
qed

lemma update_delay_yields:
  assumes a: "average_fit c" and d: "near x c"
  shows "yields (update_delay_average B x t c) (\<lambda>c'. same_times c c' \<and> \<bar>clock_drift c'\<bar> < 2 ^ 31)"
proof -
  define c1 where "c1 = (if average_delay_base c = 0 then c\<lparr>average_delay_base := x\<rparr> else c)"
  let ?s = "current_delay_sum c1 + delay_distance (average_delay_base c1) x" and ?n = "current_delay_samples c1 + 1"
  let ?c = "c1\<lparr>current_delay_sum := ?s, current_delay_samples := ?n\<rparr>"
  have k: "same_times c ?c" by (simp add: same_times_def c1_def)
  have f: "average_delay c1 = average_delay c" "current_delay_samples c1 = current_delay_samples c"
    "current_delay_sum c1 = current_delay_sum c" "clock_drift c1 = clock_drift c" by (simp_all add: c1_def)
  have dd: "\<bar>delay_distance (average_delay_base c1) x\<bar> \<le> 2 ^ 30 - 1" using d by (auto simp: near_def c1_def)
  have sn: "\<bar>?s\<bar> \<le> ?n * (2 ^ 30 - 1)" using a dd unfolding average_fit_def f by (auto simp: algebra_simps)
  have n: "0 < ?n" "?n < 2 ^ 31" using a by (simp_all add: average_fit_def f)
  have "?n * (2 ^ 30 - 1) < 2 ^ 31 * (2 ^ 30 - 1)" using n by simp
  then have "\<bar>?s\<bar> < 2 ^ 62" using sn by simp
  then have i: "in_i64 ?s" "in_i32 ?n" using n by (auto simp: in_i64_def in_i32_def)
  have cs: "yields (close_slot B ?c) (\<lambda>c'. same_times ?c c' \<and> \<bar>clock_drift c'\<bar> < 2 ^ 31)"
    by (rule close_slot_yields) (use a sn n in \<open>simp_all add: average_fit_def f\<close>)
  have "yields (close_slot B ?c) (\<lambda>c'. same_times c c' \<and> \<bar>clock_drift c'\<bar> < 2 ^ 31)"
    by (rule yields_mono [OF cs]) (use k in \<open>simp add: same_times_def\<close>)
  then show ?thesis
    unfolding update_delay_average_def c1_def [symmetric] Let_def
    using i k a by (simp add: yields_simps average_fit_def f)
qed

lemma ready_measured:
  assumes "ready E T h s" and "same_times (cc s) c" shows "ready E T h (s\<lparr>cc := c\<rparr>)"
  using assms by (intro ready_other [OF assms(1)]) (simp_all add: untouched_def same_times_def ready_def peer_def rtt_fit_def decay_fit_def)

lemma grow_window_times:
  "rtt (grow_window B n p t d w c) = rtt c" "rtt_var (grow_window B n p t d w c) = rtt_var c"
  "last_rwin_decay (grow_window B n p t d w c) = last_rwin_decay c"
  by (simp_all add: grow_window_def Let_def)

lemma apply_ccontrol_times: "post (apply_ccontrol B n d r ms sb t p c) (\<lambda>(_, c'). same_times c c')"
  by (auto simp: post_def apply_ccontrol_def Let_def bind_eq_Some_conv grow_window_times same_times_def)

text \<open>
  What a packet may say of the delays: no sample, or one near the base of the averages of a connection
  whose window can be clamped.
\<close>

definition sample_fit :: "ParsedPacket \<Rightarrow> UtpSocket \<Rightarrow> bool" where
  "sample_fit pp s \<longleftrightarrow> pp_reply_micro pp = 0 \<or> pp_reply_micro pp = 0x7fffffff \<or>
     average_fit (cc s) \<and> near (pp_reply_micro pp) (cc s) \<and> MIN_WINDOW_SIZE \<le> opt_sndbuf (send s)"

definition selack_fit :: "ParsedPacket \<Rightarrow> bool" where
  "selack_fit pp \<longleftrightarrow> (\<forall>pos. pp_selack pp = Some pos \<longrightarrow> (\<exists>len. selack_len pos pp = Some len \<and>
     (\<forall>i < unat len * 8. mask_bit (selack_mask pos pp) i \<noteq> None)))"

lemma average_cong:
  assumes "average_delay c' = average_delay c" "current_delay_samples c' = current_delay_samples c"
    "current_delay_sum c' = current_delay_sum c" "clock_drift c' = clock_drift c" "average_delay_base c' = average_delay_base c"
  shows "average_fit c' = average_fit c" and "near d c' = near d c"
  by (simp_all add: average_fit_def near_def assms)

lemma our_sample_yields:
  assumes r: "ready E T h s" and d: "d = 0 \<or> average_fit (cc s) \<and> near d (cc s)"
  shows "yields (our_sample E d h s) (\<lambda>s'. ready E T h s' \<and> (d \<noteq> 0 \<longrightarrow> \<bar>clock_drift (cc s')\<bar> < 2 ^ 31) \<and> (\<exists>c. s' = s\<lparr>cc := c\<rparr>))"
proof (cases "d = 0")
  case True
  then show ?thesis using r by (auto simp: our_sample_def yields_simps intro!: exI [of _ "cc s"])
next
  case False
  let ?c = "(cc s)\<lparr>our_hist := add_sample d (current_ms h) (our_hist (cc s))\<rparr>"
  have "average_fit ?c" "near d ?c" using d False average_cong [of ?c "cc s"] by simp_all
  note u = update_delay_yields [OF this, of "bld E" "current_ms h"]
  have k: "ready E T h (s\<lparr>cc := ?c, cc := c\<rparr>)" if "same_times ?c c" for c
    using ready_measured [OF r, of c] that by (simp add: same_times_def)
  have "our_sample E d h s = do { c \<leftarrow> update_delay_average (bld E) d (current_ms h) ?c; Some (s\<lparr>cc := ?c, cc := c\<rparr>) }"
    using False by (simp add: our_sample_def set_cc_def Let_def)
  then show ?thesis
    by (simp add: yields_simps) (rule yields_mono [OF u], use k in auto)
qed

text \<open>The selective-ACK half of the measurement.\<close>

lemma sack_measure_yields:
  assumes r: "ready E T h s" and t: "timed M (a, m)" and bits: "\<And>i. i < unat len * 8 \<Longrightarrow> mask_bit bm i \<noteq> None"
  shows "yields (selective_ack_bytes E base bm len m h s) (\<lambda>(b, m', h'). timed M (a + b, m') \<and> ready E T h' s)"
proof (cases "cur_window_packets (send s) = 0")
  case True
  then show ?thesis using r t by (simp add: selective_ack_bytes_def yields_simps)
next
  case False
  have t0: "timed m (0, m)" using t by (simp add: timed_def)
  have h: "ready E T (h\<lparr>tick := Suc (tick h)\<rparr>) s"
    using r host_for_cong [of "h\<lparr>tick := Suc (tick h)\<rparr>" h] by (intro ready_host [OF r]) (simp_all add: ready_def)
  show ?thesis
    unfolding selective_ack_bytes_def if_not_P [OF False] call_get_microseconds_def query_def Let_def prod.case
  proof (rule yields_bind [OF sab_loop_yields [OF r bits t0]], assumption, clarify)
    fix b m' assume b: "timed m (b, m')"
    have "timed M (a + b, m')" using b t by (auto simp: timed_def)
    then show "yields (Some (b, m', h\<lparr>tick := tick h + 1\<rparr>)) (\<lambda>(b, m', h'). timed M (a + b, m') \<and> ready E T h' s)"
      using h by (simp add: yields_simps)
  qed
qed

lemma ready_tick: "ready E T h s \<Longrightarrow> ready E T (h\<lparr>tick := Suc (tick h)\<rparr>) s"
proof (rule ready_host)
  assume "ready E T h s"
  then show "host_for E (self s) (h\<lparr>tick := Suc (tick h)\<rparr>)"
    using host_for_cong [of "h\<lparr>tick := Suc (tick h)\<rparr>" h] by (simp add: ready_def)
qed simp_all

lemma process_acks_ready:
  assumes r: "ready E T h s" and sm: "sample_fit pp s" and sel: "selack_fit pp"
  shows "yields (process_acks E pp acks time h s) (\<lambda>(a, h', s'). ready E T h' s')"
proof -
  let ?h = "h\<lparr>tick := tick h + 1\<rparr>" and ?M = INT64_MAX
  have t0: "timed ?M (0, INT64_MAX)" by (simp add: timed_def INT64_MAX_def)
  obtain a1 r1 m1 where al: "acked_loop E (cb_microseconds E (tick h)) acks 0 (0, INT64_MAX) ?h s = Some (a1, r1, s\<lparr>mtu := m1\<rparr>)"
    and t1: "timed ?M (a1, r1)" and k1: "ready E T h (s\<lparr>mtu := m1\<rparr>)"
    using acked_loop_yields [OF r t0, of acks 0 ?h] unfolding yields_def by auto
  let ?s1 = "s\<lparr>mtu := m1\<rparr>"
  have k1': "ready E T ?h ?s1" using ready_tick [OF k1] by simp
  obtain a2 r2 h2 where sb: "(case pp_selack pp of
            None \<Rightarrow> Some (a1, r1, ?h)
          | Some pos \<Rightarrow> do {
              len \<leftarrow> selack_len pos pp;
              (b, min_rtt, h) \<leftarrow> selective_ack_bytes E (ucast (pp_ack_nr pp + 2)) (selack_mask pos pp) len r1 ?h ?s1;
              Some (a1 + b, min_rtt, h)
            }) = Some (a2, r2, h2)"
    and t2: "timed ?M (a2, r2)" and k2: "ready E T h2 ?s1"
  proof (cases "pp_selack pp")
    case None
    then show thesis using that t1 k1' by simp
  next
    case (Some pos)
    then obtain len where len: "selack_len pos pp = Some len" "i < unat len * 8 \<Longrightarrow> mask_bit (selack_mask pos pp) i \<noteq> None" for i
      using sel unfolding selack_fit_def by blast
    show thesis
      using sack_measure_yields [OF k1' t1 len(2), where base = "ucast (pp_ack_nr pp + 2)" and len = len] that Some len(1)
      unfolding yields_def by auto
  qed
  define td :: u32 where "td = (if pp_timestamp pp = 0 then 0 else ucast (time - ucast (pp_timestamp pp)))"
  define ad where "ad = (if uint (pp_reply_micro pp) = INT_MAX then 0 else pp_reply_micro pp)"
  define s2 where "s2 = their_sample td time h2
     (set_timing (\<lambda>t. t\<lparr>reply_micro := td\<rparr>) (set_timing (\<lambda>t. t\<lparr>last_measured_delay := current_ms h2\<rparr>) ?s1))"
  have c2: "same_times (cc s) (cc s2)" "average_fit (cc s2) = average_fit (cc s)" "near ad (cc s2) = near ad (cc s)"
    and f2: "send s2 = send s" "conn s2 = conn s"
    by (simp_all add: s2_def their_sample_def Let_def set_cc_def set_timing_def same_times_def average_fit_def near_def)
  have k3: "ready E T h2 s2"
  proof -
    let ?t = "set_timing (\<lambda>t. t\<lparr>reply_micro := td\<rparr>) (set_timing (\<lambda>t. t\<lparr>last_measured_delay := current_ms h2\<rparr>) ?s1)"
    have "ready E T h2 ?t" using k2 by (intro ready_timing)
    from ready_measured [OF this, of "cc s2"] c2(1)
    have "ready E T h2 (?t\<lparr>cc := cc s2\<rparr>)" by (simp add: set_timing_def)
    moreover have "?t\<lparr>cc := cc s2\<rparr> = s2" by (simp add: s2_def their_sample_def Let_def set_cc_def)
    ultimately show ?thesis by simp
  qed
  have ad: "ad = 0 \<or> average_fit (cc s) \<and> near ad (cc s) \<and> MIN_WINDOW_SIZE \<le> opt_sndbuf (send s)"
    using sm by (auto simp: sample_fit_def ad_def INT_MAX_def)
  have eq: "process_acks E pp acks time h s = do {
      s \<leftarrow> our_sample E ad h2 s2;
      c_assert (ndebug (bld E)) (0 \<le> r2);
      let s = cap_our_delay r2 s;
      if ad \<noteq> 0 \<and> 1 \<le> a2
      then do {
        (our_delay, c) \<leftarrow> apply_ccontrol (bld E) a2 ad r2 (current_ms h2)
           (opt_sndbuf (send s)) (conn_target_delay (conn s)) (get_packet_size s) (cc s);
        let s = s\<lparr>cc := c\<rparr>;
        let h = emit (Ev_on_delay_sample (self s) (our_delay sdiv 1000)) h2;
        let (_, h) = call_get_microseconds E h;
        Some (a2, h, s)
      }
      else Some (a2, h2, s)
    }"
    by (simp only: process_acks_def call_get_microseconds_def query_def Let_def prod.case al sb bind.bind_lunit
        s2_def td_def ad_def)
  have os: "yields (our_sample E ad h2 s2) (\<lambda>s'. ready E T h2 s' \<and> (ad \<noteq> 0 \<longrightarrow> \<bar>clock_drift (cc s')\<bar> < 2 ^ 31) \<and>
      (\<exists>c. s' = s2\<lparr>cc := c\<rparr>))"
    by (rule our_sample_yields [OF k3]) (use ad c2 in auto)
  show ?thesis unfolding eq
  proof (rule yields_bind [OF os], elim conjE exE)
    fix s3 c3
    assume k4: "ready E T h2 s3" and dr: "ad \<noteq> 0 \<longrightarrow> \<bar>clock_drift (cc s3)\<bar> < 2 ^ 31" and s3: "s3 = s2\<lparr>cc := c3\<rparr>"
    let ?s = "cap_our_delay r2 s3"
    have cs: "same_times (cc s3) (cc ?s)" "clock_drift (cc ?s) = clock_drift (cc s3)" "?s = s3\<lparr>cc := cc ?s\<rparr>" "send ?s = send s"
      by (simp_all add: cap_our_delay_def Let_def set_cc_def same_times_def s3 f2)
    have k5: "ready E T h2 ?s" using ready_measured [OF k4 cs(1)] cs(3) by simp
    have fin: "yields (apply_ccontrol (bld E) a2 ad r2 (current_ms h2)
           (opt_sndbuf (send ?s)) (conn_target_delay (conn ?s)) (get_packet_size ?s) (cc ?s)) (\<lambda>(d, c). same_times (cc ?s) c)"
      if "ad \<noteq> 0" "1 \<le> a2"
    proof -
      have n: "0 < a2" using that(2) by (simp add: word_le_nat_alt word_less_nat_alt)
      have "sane_delay r2 (cc ?s)" using t2 n dr that(1) cs(2) by (auto simp: sane_delay_def timed_def)
      moreover have "MIN_WINDOW_SIZE \<le> opt_sndbuf (send ?s)" using ad that(1) cs(4) by simp
      ultimately obtain d c where "apply_ccontrol (bld E) a2 ad r2 (current_ms h2)
           (opt_sndbuf (send ?s)) (conn_target_delay (conn ?s)) (get_packet_size ?s) (cc ?s) = Some (d, c)"
        using apply_ccontrol_defined [OF _ n] by metis
      then show ?thesis using postD [OF apply_ccontrol_times] by (auto simp: yields_def)
    qed
    have out: "ready E T (h\<lparr>tick := Suc (tick h)\<rparr>) (?s\<lparr>cc := c\<rparr>)" if "same_times (cc ?s) c" "h = emit ev h2" for h ev c
      unfolding that(2) by (rule ready_tick [OF ready_emit [OF ready_measured [OF k5 that(1)]]])
    show "yields (do {
          c_assert (ndebug (bld E)) (0 \<le> r2);
          let s = ?s;
          if ad \<noteq> 0 \<and> 1 \<le> a2
          then do {
            (our_delay, c) \<leftarrow> apply_ccontrol (bld E) a2 ad r2 (current_ms h2)
               (opt_sndbuf (send s)) (conn_target_delay (conn s)) (get_packet_size s) (cc s);
            let s = s\<lparr>cc := c\<rparr>;
            let h = emit (Ev_on_delay_sample (self s) (our_delay sdiv 1000)) h2;
            let (_, h) = call_get_microseconds E h;
            Some (a2, h, s)
          }
          else Some (a2, h2, s)
        }) (\<lambda>(a, h', s'). ready E T h' s')"
    proof (cases "ad \<noteq> 0 \<and> 1 \<le> a2")
      case False
      have "0 \<le> r2" using t2 by (simp add: timed_def)
      then show ?thesis using k5 unfolding Let_def if_not_P [OF False] by (simp add: yields_simps)
    next
      case True
      have "0 \<le> r2" using t2 by (simp add: timed_def)
      then show ?thesis
        unfolding Let_def if_P [OF True] call_get_microseconds_def query_def
        by (simp add: yields_simps) (rule yields_mono [OF fin], use True out in \<open>auto simp: yields_simps\<close>)
    qed
  qed
qed

end
