(* ===== verification/Packet_Processed.thy ===== *)
theory Packet_Processed
  imports Ready_Measuring Connection_Life Parse_Correct
begin

text \<open>
  \<open>process_incoming\<close> returns: on a well-formed connection with a sane clock and delay samples no packet of
  any content fails an assertion, overflows a signed operation or touches memory outside its arrays.
\<close>

section \<open>The whole of a packet\<close>

lemma handle_probe_loss_fit:
  assumes "mtu_fit E a m" and p: "mtu_probe_seq m \<noteq> 0"
  shows "yields (handle_probe_loss nd t m) (mtu_fit E a)"
proof -
  have wf: "mtu_wf m" and f: "576 \<le> mtu_floor m" using assms by (simp_all add: mtu_fit_def)
  obtain m' where m': "handle_probe_loss nd t m = Some m'" "mtu_wf m'" "mtu_floor m' = mtu_floor m"
    and w: "mtu_width m' < mtu_width m"
    by (rule probe_loss_step [OF wf p])
  have "mtu_ceiling m' \<le> mtu_ceiling m"
    using w m'(2,3) wf by (simp add: mtu_width_def word_le_nat_alt mtu_wf_def)
  then have "mtu_fit E a m'" using assms(1) m'(2,3) by (auto simp: mtu_fit_def intro: order_trans)
  then show ?thesis using m'(1) by (simp add: yields_simps)
qed

lemma count_duplicate_ack_ready:
  assumes r: "ready E T h s"
  shows "yields (count_duplicate_ack E pp h s) (\<lambda>s'. ready E T h s' \<and> cc s' = cc s \<and> send s' = send s)"
proof -
  have fit: "mtu_fit E (peer E s) (mtu s)" using r by (simp add: ready_def)
  have d: "ready E T h (s\<lparr>duplicate_ack := k\<rparr>)" for k
    by (rule ready_same [OF r]) (simp_all add: peer_def)
  have m: "ready E T h (s\<lparr>duplicate_ack := k, mtu := m\<rparr>)" if "mtu_fit E (peer E s) m" for k m
    using ready_mtu [OF d] that by (simp add: peer_def)
  have c: "mtu_fit E (peer E s) (clear_probe (mtu s))"
    using fit clear_probe_wf by (simp add: mtu_fit_def)
  have l: "yields (handle_probe_loss (ndebug (bld E)) (current_ms h) (mtu s)) (\<lambda>x. ready E T h (s\<lparr>duplicate_ack := k, mtu := x\<rparr>))"
    if "mtu_probe_seq (mtu s) \<noteq> 0" for k
    by (rule yields_mono [OF handle_probe_loss_fit [OF fit that] m])
  show ?thesis
    unfolding count_duplicate_ack_def Let_def using r d c l m by (auto simp: yields_simps)
qed

lemma leave_full_ready:
  assumes "ready E T h s" shows "ready E T (fst (leave_full h s)) (snd (leave_full h s))"
proof -
  have f: "ready E T h (snd (is_full n h s))" for n
    using assms
    by (intro ready_other [OF assms is_full_untouched])
      (auto simp: is_full_def set_cc_def mark_window_full_def ready_def peer_def rtt_fit_def decay_fit_def)
  have "ready E T (emit ev h) (set_state CS_CONNECTED (snd (is_full n h s)))" for n ev
  proof (rule ready_emit, rule ready_same [OF f])
    show "untouched (snd (is_full n h s)) (set_state CS_CONNECTED (snd (is_full n h s)))" by simp
  qed (simp_all add: set_state_def peer_def)
  then show ?thesis using assms f by (auto simp: leave_full_def split_def Let_def)
qed

lemma ready_shape: "ready E T h s \<Longrightarrow> ring_shape s"
  by (simp add: ready_def win_inv_def ring_shape_def)

lemma ack_half_ready:
  assumes r: "ready E T h s" and T: "T < 2 ^ 31 - 7" and sm: "sample_fit pp s" and sel: "selack_fit pp" and hd: "head_ok s"
  shows "yields (ack_half E pp time h s) (\<lambda>(h', s'). ready E (T + 6) h' s')"
proof -
  obtain s1 where cd: "count_duplicate_ack E pp h s = Some s1" and r1: "ready E T h s1"
    and c1: "cc s1 = cc s" "send s1 = send s"
    using count_duplicate_ack_ready [OF r] by (auto simp: yields_def)
  have "sample_fit pp s1" using sm by (simp add: sample_fit_def c1)
  then obtain a h2 s2 where pa: "process_acks E pp (count_acks pp s) time h s1 = Some (a, h2, s2)" and r2: "ready E T h2 s2"
    using process_acks_ready [OF r1 _ sel, of "count_acks pp s" time] by (auto simp: yields_def)
  have "head_ok s1" using untouched_head_ok [OF postD [OF count_duplicate_ack_untouched cd]] hd by simp
  then have hd2: "head_ok s2" using postD [OF process_acks_work pa] work_head_ok ready_shape [OF r1] by fastforce
  obtain h3 s3 where aw: "advance_send_window E pp (count_acks pp s) h2 s2 = Some (h3, s3)" and r3: "ready E (T + 2) h3 s3"
    using advance_send_window_ready [OF r2, of pp "count_acks pp s"] T by (auto simp: yields_def)
  have b2: "sb_wf (outbuf (send s2))" using ready_shape [OF r2] by (simp add: ring_shape_def)
  have hd3: "head_ok s3"
    using postD [OF advance_send_window_work [OF b2] aw] ready_shape [OF r2] hd2 by auto
  obtain h4 s4 where sa: "(case pp_selack pp of None \<Rightarrow> Some (h3, s3)
        | Some pos \<Rightarrow> do {
            len \<leftarrow> selack_len pos pp;
            selective_ack E (ucast (pp_ack_nr pp) + 2) (selack_mask pos pp) len h3 s3
          }) = Some (h4, s4)" and r4: "ready E (T + 6) h4 s4" and hd4: "head_ok s4"
  proof (cases "pp_selack pp")
    case None
    then show thesis using that [of h3 s3] ready_count [OF r3] hd3 by simp
  next
    case (Some pos)
    then obtain len where len: "selack_len pos pp = Some len" "i < unat len * 8 \<Longrightarrow> mask_bit (selack_mask pos pp) i \<noteq> None" for i
      using sel unfolding selack_fit_def by blast
    have "T + 2 < 2 ^ 31 - 5" using T by simp
    then obtain h4 s4 where sk: "selective_ack E (ucast (pp_ack_nr pp) + 2) (selack_mask pos pp) len h3 s3 = Some (h4, s4)"
      and "ready E (T + 2 + 4) h4 s4"
      using selective_ack_ready [OF r3 _ len(2), where base = "ucast (pp_ack_nr pp) + 2" and len = len]
      unfolding yields_def by blast
    then have r4: "ready E (T + 6) h4 s4" by (simp add: add.commute)
    have "work E False h3 s3 h4 s4"
      using postD [OF selective_ack_work sk] ready_shape [OF r3] by (simp add: win_shape_def)
    then have "head_ok s4" using work_head_ok ready_shape [OF r3] hd3 by blast
    then show thesis using that [of h4 s4] Some len(1) sk r4 by simp
  qed
  have "sb_wf (outbuf (send s4))" using ready_shape [OF r4] by (simp add: ring_shape_def)
  then have "cur_window_packets (send s4) = 0 \<or> out_at (oldest64 s4) s4 \<noteq> None"
    using hd4 by (simp add: head_ok_def out_at_win)
  then have "ack_half E pp time h s = Some (leave_full h4 s4)"
    unfolding ack_half_def Let_def cd bind.bind_lunit pa prod.case aw sa by (simp add: c_assert_def)
  then show ?thesis using leave_full_ready [OF r4] by (simp add: yields_simps split_def)
qed

text \<open>What a connection must satisfy besides its invariants: clock, packets, MTU and estimates in range.\<close>

definition orderly :: "env \<Rightarrow> UtpContext \<Rightarrow> UtpSocket \<Rightarrow> bool" where
  "orderly E h s \<longleftrightarrow> steady E (tick h) \<and> (\<forall>p. Some p \<in> set (win s) \<longrightarrow> recent E (tick h) p) \<and>
     mtu_fit E (peer E s) (mtu s) \<and> rtt_fit (cc s) \<and> decay_fit (cb_milliseconds E (tick h)) (cc s)"

text \<open>The context and the socket when the packet is taken up.\<close>

definition taken_up :: "env \<Rightarrow> bytes \<Rightarrow> UtpContext \<Rightarrow> UtpContext" where
  "taken_up E packet h = (let h = refresh_clock E (record_raw_recv (of_nat (length packet)) h) in h\<lparr>tick := Suc (tick h)\<rparr>)"

definition met :: "env \<Rightarrow> ParsedPacket \<Rightarrow> UtpContext \<Rightarrow> UtpSocket \<Rightarrow> UtpSocket" where
  "met E pp h s = set_timing (\<lambda>t. t\<lparr>last_got_packet := current_ms h\<rparr>)
     (if state (conn s) = CS_SYN_SENT then set_recv (\<lambda>r. r\<lparr>ack_nr := pp_seq_nr pp - 1\<rparr>) s else s)"

lemma taken_up_ready:
  assumes "sender_wf h s" and "host_for E (self s) h" and "orderly E h s"
  shows "ready E (age h) (taken_up E packet h) s"
proof -
  let ?h = "taken_up E packet h"
  have f: "tick ?h = Suc (Suc (tick h))" "current_ms ?h = cb_milliseconds E (tick h)"
    "host_for E (self s) ?h = host_for E (self s) h"
    by (simp_all add: taken_up_def refresh_clock_def record_raw_recv_def call_get_milliseconds_def query_def Let_def
        host_for_def host_ok_def ack_list_ok_def ack_pending_def)
  have "recent E (tick ?h) p" if "Some p \<in> set (win s)" for p
    using assms(3) that recent_mono [of E "tick h" p "tick ?h"] by (simp add: orderly_def f)
  then show ?thesis
    using assms steady_mono [of E "tick h" "tick ?h"] by (simp add: ready_def orderly_def sender_wf_def sender_ok_def f)
qed

lemma met_fields:
  "send (met E pp h s) = send s" "cc (met E pp h s) = cc s" "mtu (met E pp h s) = mtu s" "self (met E pp h s) = self s"
  "conn (met E pp h s) = conn s" "recv (met E pp h s) = at_start pp s"
  by (simp_all add: met_def set_recv_def set_timing_def at_start_def)

lemma ready_cong:
  assumes "send s' = send s" and "cc s' = cc s" and "mtu s' = mtu s" and "self s' = self s" and "addr (conn s') = addr (conn s)"
  shows "ready E T h s' = ready E T h s"
proof -
  have w: "win s' = win s" by (rule win_cong) (simp_all add: assms(1))
  show ?thesis by (simp only: ready_def win_inv_def w assms peer_def)
qed

text \<open>The window packet: acknowledgements, then data.\<close>

lemma process_window_packet_ready:
  assumes r: "ready E T h s" and T: "T < 2 ^ 31 - 7" and sm: "sample_fit pp s" and sel: "selack_fit pp" and hd: "head_ok s"
    and w: "recv_wf (recv s)"
  shows "yields (process_window_packet E pp time (seq_distance pp s) h s) (\<lambda>_. True)"
  unfolding process_window_packet_split
proof (rule yields_bind [OF ack_half_ready [OF r T sm sel hd]], clarify)
  fix h1 s1 assume a: "ack_half E pp time h s = Some (h1, s1)" and r1: "ready E (T + 6) h1 s1"
  have "recv s1 = recv s" using ack_half_receiver(2) [OF a ready_shape [OF r]] .
  then have "recv_wf (recv s1)" "seq_distance pp s1 = seq_distance pp s" using w by (simp_all add: seq_distance_def)
  then have "yields (deliver_data E pp (seq_distance pp s) h1 s1) (\<lambda>_. True)"
    using deliver_data_any [of s1 E h1 pp] r1 unfolding delivers_def ready_def yields_def by auto
  then show "yields (if pp_type pp = ST_STATE then Some (0, h1, s1)
      else if state (conn s1) \<noteq> CS_CONNECTED \<and> state (conn s1) \<noteq> CS_CONNECTED_FULL then Some (0, h1, s1)
      else deliver_data E pp (seq_distance pp s) h1 s1) (\<lambda>_. True)"
    by (simp add: yields_simps)
qed


end
