(* ===== verification/Processed_Scenarios.thy ===== *)
theory Processed_Scenarios
  imports Scenarios Timer_Processed
begin

text \<open>
  A sender with a packet in flight, whose retransmission timer has expired, on which a packet and the timer run to
  their end.
\<close>

definition probing_socket :: UtpSocket where
  "probing_socket = flying_socket\<lparr>mtu := (mtu flying_socket)\<lparr>mtu_floor := 576, mtu_ceiling := 1402, mtu_last := 1402\<rparr>,
     cc := (cc flying_socket)\<lparr>rto_timeout := 4000, retransmit_timeout := 1000\<rparr>\<rparr>"

abbreviation probing_context :: UtpContext where
  "probing_context \<equiv> context_after [Ev_on_connect 3]"

lemma probing_socket_fields:
  "send probing_socket = send flying_socket" "recv probing_socket = recv stream_socket"
  "state (conn probing_socket) = CS_CONNECTED" "self probing_socket = 3" "cur_window (cc probing_socket) = cur_window (cc flying_socket)"
  "rtt (cc probing_socket) = 0" "rtt_var (cc probing_socket) = 800" "last_rwin_decay (cc probing_socket) = 0"
  "cur_window_packets (send flying_socket) = 1"
  by (simp_all add: probing_socket_def flying_socket_def stream_socket_def set_state_def new_UtpSocket_def
      new_LedbatController_def Let_def)

lemma probing_socket_wf: "sender_wf probing_context probing_socket" "receiver_inv probing_socket"
proof -
  have "sender_ok probing_context probing_socket" "head_ok probing_socket"
    using flying_socket_ok sender_ok_cong [of probing_socket flying_socket] by (simp_all add: probing_socket_fields)
  then show "sender_wf probing_context probing_socket" by (simp add: sender_wf_def probing_socket_fields)
  have "recv_wf (recv stream_socket)"
    using stream_socket_inv [of "[]" False] by (auto simp: recv_wf_def stream_inv_def recv_ok_def)
  then show "receiver_inv probing_socket" by (simp add: receiver_inv_def probing_socket_fields)
qed

lemma probing_socket_ranges:
  "steady sample_env n" "Some p \<in> set (win probing_socket) \<Longrightarrow> recent sample_env n p"
  "mtu_fit sample_env a (mtu probing_socket)" "rtt_fit (cc probing_socket)"
  "\<bar>sint t\<bar> < 2 ^ 62 \<Longrightarrow> decay_fit t (cc probing_socket)"
proof -
  have w: "win probing_socket = win flying_socket" by (rule win_cong) (simp_all add: probing_socket_fields)
  have "win flying_socket = Some \<lparr>opk_length = 22, opk_payload = 2, opk_time_sent = 4000000, opk_transmissions = 1,
    opk_need_resend = False, opk_data = replicate 22 0\<rparr> # replicate 15 None" by code_simp
  then show "Some p \<in> set (win probing_socket) \<Longrightarrow> recent sample_env n p"
    unfolding w by (auto simp: recent_def sample_env_def)
  show "steady sample_env n" by (simp add: steady_def sample_env_def)
  show "mtu_fit sample_env a (mtu probing_socket)"
    by (simp add: mtu_fit_def mtu_wf_def sample_env_def probing_socket_def flying_socket_def stream_socket_def
        set_state_def new_UtpSocket_def new_MtuDiscovery_def Let_def)
qed (simp_all add: rtt_fit_def decay_fit_def probing_socket_fields)

lemma parse_ack_probing: "parse_packet ack_datagram probing_socket =
    Some (Some ((data_packet 1 ST_STATE [])\<lparr>pp_bytes := ack_datagram, pp_payload := 20, pp_end := 20,
      pp_ack_nr := 1, pp_windowsize := 16384\<rparr>), probing_socket)"
  by code_simp



end
