(* ===== verification/Ucat.thy ===== *)
theory Ucat
  imports Byte_Sink
begin

text \<open>
  The netcat of the library, \<^verbatim>\<open>examples/ucat.c\<close>: what comes in on standard input is written to one uTP
  connection through a buffer, what the connection reads goes to standard output. The state is the
  program's globals with the \<open>world\<close> of its context; \<open>p\<close> is an offset into the buffer, the byte counts are
  the \<open>int\<close> of the source. What the operating system answers (\<open>poll\<close>, \<open>read\<close>, \<open>recvfrom\<close>, \<open>recvmsg\<close>,
  \<open>write\<close>, the name service, \<open>getopt\<close>, \<open>atoi\<close>) is an argument; \<open>Inl\<close> is a call of \<open>exit\<close>. Debugging output is left out.
\<close>

section \<open>State\<close>

record ucat =
  uk_debug :: int
  uk_listen :: int
  uk_buf_size :: int
  uk_lib :: world
  uk_s :: "nat option"
  uk_buf :: bytes
  uk_p :: nat
  uk_buf_len :: int
  uk_eof_flag :: bool
  uk_utp_eof_flag :: bool
  uk_utp_shutdown_flag :: bool
  uk_quit_flag :: bool
  uk_exit_code :: int
  uk_stdout :: bytes

type_synonym 'a program = "(int + 'a) option"

definition and_then :: "'a program \<Rightarrow> ('a \<Rightarrow> 'b program) \<Rightarrow> 'b program" where
  "and_then r f = (case r of None \<Rightarrow> None | Some (Inl c) \<Rightarrow> Some (Inl c) | Some (Inr x) \<Rightarrow> f x)"

text \<open>\<open>die\<close> and \<open>pdie\<close> print and exit.\<close>

definition die :: "'a program" where "die = Some (Inl 1)"

definition running :: "'a option \<Rightarrow> 'a program" where
  "running m = map_option Inr m"

section \<open>Standard input to the connection\<close>

text \<open>
  The loop over the buffer, with \<open>put\<close> for the call of \<open>utp_write\<close>. A pointer may point into the buffer or
  right behind it. The boolean says whether the socket took nothing.
\<close>

partial_function (option) buffer_loop ::
  "(bytes \<Rightarrow> 's \<Rightarrow> (int \<times> 's) option) \<Rightarrow> bytes \<Rightarrow> nat \<Rightarrow> int \<Rightarrow> 's \<Rightarrow> (bool \<times> nat \<times> int \<times> 's) option" where
  "buffer_loop put m p n s =
     do {
       ub_unless (0 \<le> n \<and> nat n \<le> length m);
       if int p < n
       then do {
         (r, s) \<leftarrow> put (take (nat n - p) (drop p m)) s;
         let sent = (word_of_int r :: u64);
         if sent = 0 then Some (True, p, n, s)
         else do {
           ub_unless (p + unat sent \<le> length m);
           let p = p + unat sent;
           if int p = n then buffer_loop put m 0 0 s else buffer_loop put m p n s
         }
       }
       else Some (False, p, n, s)
     }"

definition write_buffer :: "env \<Rightarrow> ucat \<Rightarrow> (bool \<times> ucat) option" where
  "write_buffer E u =
     (case uk_s u of
        None \<Rightarrow> Some (False, u)
      | Some s \<Rightarrow> do {
          (full, p, n, w) \<leftarrow> buffer_loop (utp_write E (Some s)) (uk_buf u) (uk_p u) (uk_buf_len u) (uk_lib u);
          Some (full, u\<lparr>uk_lib := w, uk_p := p, uk_buf_len := n\<rparr>)
        })"

text \<open>What follows the label \<open>out\<close>.\<close>

definition finish_writing :: "env \<Rightarrow> ucat \<Rightarrow> ucat option" where
  "finish_writing E u =
     (if uk_buf_len u = 0 \<and> uk_eof_flag u
      then if uk_s u \<noteq> None
           then do {
             let u = u\<lparr>uk_utp_shutdown_flag := True\<rparr>;
             w \<leftarrow> (if \<not> uk_utp_eof_flag u then utp_shutdown E (uk_s u) SHUT_WR (uk_lib u)
                   else utp_close E (uk_s u) (uk_lib u));
             Some (u\<lparr>uk_lib := w\<rparr>)
           }
           else Some (u\<lparr>uk_quit_flag := True\<rparr>)
      else Some u)"

definition write_data :: "env \<Rightarrow> ucat \<Rightarrow> ucat option" where
  "write_data E u =
     do {
       (full, u) \<leftarrow> write_buffer E u;
       if full then Some u else finish_writing E u
     }"

text \<open>What \<open>read\<close> on standard input answers; no bytes are the end of the file.\<close>

datatype read_result = Read bytes | Interrupted | Read_failed

definition reads_stdin :: "ucat \<Rightarrow> bool" where
  "reads_stdin u \<longleftrightarrow> uk_buf_size u - uk_buf_len u \<noteq> 0 \<and> \<not> uk_eof_flag u"

definition store_input :: "read_result \<Rightarrow> ucat \<Rightarrow> ucat program" where
  "store_input r u =
     (case r of
        Read d \<Rightarrow>
          if d = [] then running (Some (u\<lparr>uk_eof_flag := True\<rparr>))
          else running (do {
            ub_unless (0 \<le> uk_buf_len u);
            b \<leftarrow> write_bytes (nat (uk_buf_len u)) d (uk_buf u);
            Some (u\<lparr>uk_buf := b, uk_buf_len := uk_buf_len u + int (length d)\<rparr>)
          })
      | Interrupted \<Rightarrow> running (Some (u\<lparr>uk_buf_len := uk_buf_len u - 1\<rparr>))
      | Read_failed \<Rightarrow> die)"

definition stdin_ready :: "env \<Rightarrow> read_result \<Rightarrow> ucat \<Rightarrow> ucat program" where
  "stdin_ready E r u = and_then (store_input r u) (\<lambda>u. running (write_data E u))"

section \<open>The connection to standard output\<close>

text \<open>
  The results of the calls of \<open>write\<close> in order, -1 for a failure: \<open>left\<close> bytes from \<open>p\<close> on are to be
  written. A list that ends too early leaves the loop in the call.
\<close>

fun output_loop :: "int list \<Rightarrow> bytes \<Rightarrow> int \<Rightarrow> int \<Rightarrow> bytes \<Rightarrow> bytes option" where
  "output_loop rs d p left out =
     (if left = 0 then Some out
      else case rs of
             [] \<Rightarrow> None
           | r # rs \<Rightarrow> do {
               ub_unless (0 \<le> p \<and> 0 \<le> left \<and> p + left \<le> int (length d));
               output_loop rs d (p + r) (left - r) (out @ take (nat r) (drop (nat p) d))
             })"

declare output_loop.simps [simp del]

definition callback_on_read :: "env \<Rightarrow> int list \<Rightarrow> utp_callback_arguments \<Rightarrow> ucat \<Rightarrow> ucat option" where
  "callback_on_read E rs a u =
     do {
       b \<leftarrow> arg_buf a;
       out \<leftarrow> output_loop rs b 0 (sint (arg_len a)) (uk_stdout u);
       w \<leftarrow> utp_read_drained E (arg_socket a) (uk_lib u);
       Some (u\<lparr>uk_stdout := out, uk_lib := w\<rparr>)
     }"

section \<open>The other callbacks\<close>

definition callback_on_firewall :: "ucat \<Rightarrow> u64" where
  "callback_on_firewall u = (if uk_listen u = 0 then 1 else if uk_s u \<noteq> None then 1 else 0)"

definition callback_on_accept :: "env \<Rightarrow> utp_callback_arguments \<Rightarrow> ucat \<Rightarrow> ucat option" where
  "callback_on_accept E a u =
     do {
       c_assert (ndebug (bld E)) (uk_s u = None);
       write_data E (u\<lparr>uk_s := arg_socket a\<rparr>)
     }"

definition callback_on_error :: "env \<Rightarrow> utp_callback_arguments \<Rightarrow> ucat \<Rightarrow> ucat option" where
  "callback_on_error E a u =
     (case arg_value a of
        Arg_error_code e \<Rightarrow> do {
          ub_unless (0 \<le> e \<and> nat e < length utp_error_code_names);
          w \<leftarrow> utp_close E (uk_s u) (uk_lib u);
          Some (u\<lparr>uk_lib := w, uk_s := None, uk_quit_flag := True, uk_exit_code := uk_exit_code u + 1\<rparr>)
        }
      | _ \<Rightarrow> None)"

definition callback_on_state_change :: "env \<Rightarrow> utp_callback_arguments \<Rightarrow> ucat \<Rightarrow> ucat option" where
  "callback_on_state_change E a u =
     (case arg_value a of
        Arg_state st \<Rightarrow> do {
          ub_unless (0 \<le> st \<and> nat st < length utp_state_names);
          if st = utp_state_number UTP_STATE_CONNECT \<or> st = utp_state_number UTP_STATE_WRITABLE
          then write_data E u
          else if st = utp_state_number UTP_STATE_EOF
          then do {
            let u = u\<lparr>uk_utp_eof_flag := True\<rparr>;
            if uk_utp_shutdown_flag u
            then do {
              w \<leftarrow> utp_close E (arg_socket a) (uk_lib u);
              Some (u\<lparr>uk_lib := w\<rparr>)
            }
            else Some u
          }
          else if st = utp_state_number UTP_STATE_DESTROYING
          then do {
            utp_get_stats (ndebug (bld E)) (arg_socket a);
            Some (u\<lparr>uk_s := None, uk_quit_flag := True\<rparr>)
          }
          else Some u
        }
      | _ \<Rightarrow> None)"

text \<open>The signal handler.\<close>

definition handler :: "env \<Rightarrow> ucat \<Rightarrow> ucat option" where
  "handler E u =
     do {
       w \<leftarrow> (if uk_s u \<noteq> None then utp_close E (uk_s u) (uk_lib u) else Some (uk_lib u));
       Some (u\<lparr>uk_lib := w, uk_quit_flag := True, uk_exit_code := uk_exit_code u + 1\<rparr>)
     }"

section \<open>ICMP\<close>

definition IP_RECVERR :: int where "IP_RECVERR = 11"
definition SOL_IP :: int where "SOL_IP = 0"
definition SO_EE_ORIGIN_ICMP :: int where "SO_EE_ORIGIN_ICMP = 2"

record sock_extended_err =
  ee_origin :: int
  ee_type :: int
  ee_code :: int
  ee_info :: u32
  ee_offender :: sockaddr

record cmsg =
  cmsg_type :: int
  cmsg_level :: int
  cmsg_data :: "sock_extended_err option"

record errqueue_message =
  em_data :: bytes
  em_remote :: sockaddr
  em_cmsgs :: "cmsg list"

definition handle_cmsg :: "env \<Rightarrow> bytes \<Rightarrow> sockaddr \<Rightarrow> cmsg \<Rightarrow> world \<Rightarrow> world option" where
  "handle_cmsg E d remote m w =
     (if cmsg_type m \<noteq> IP_RECVERR then Some w
      else if cmsg_level m \<noteq> SOL_IP then Some w
      else if \<not> is_Sockaddr_in remote then Some w
      else case cmsg_data m of
             None \<Rightarrow> Some w
           | Some e \<Rightarrow>
               if ee_origin e \<noteq> SO_EE_ORIGIN_ICMP then Some w
               else if \<not> is_Sockaddr_in (ee_offender e) then Some w
               else if sin_port (ee_offender e) \<noteq> 0 then Some w
               else map_option snd
                 (if ee_type e = 3 \<and> ee_code e = 4
                  then utp_process_icmp_fragmentation E (Some ()) d remote SIZEOF_SOCKADDR_IN (ucast (ee_info e)) w
                  else utp_process_icmp_error E (Some ()) d remote SIZEOF_SOCKADDR_IN w))"

primrec handle_cmsgs :: "env \<Rightarrow> bytes \<Rightarrow> sockaddr \<Rightarrow> cmsg list \<Rightarrow> world \<Rightarrow> world option" where
  "handle_cmsgs E d remote [] w = Some w"
| "handle_cmsgs E d remote (m # ms) w = handle_cmsg E d remote m w \<bind> handle_cmsgs E d remote ms"

text \<open>What \<open>recvmsg\<close> and \<open>recvfrom\<close> answer until they would block; \<open>None\<close> is another error.\<close>

fun handle_icmp :: "env \<Rightarrow> errqueue_message option list \<Rightarrow> ucat \<Rightarrow> ucat program" where
  "handle_icmp E [] u = running (Some u)"
| "handle_icmp E (None # ms) u = die"
| "handle_icmp E (Some m # ms) u =
     and_then (running (do {
         w \<leftarrow> handle_cmsgs E (take 4096 (em_data m)) (em_remote m) (em_cmsgs m) (uk_lib u);
         Some (u\<lparr>uk_lib := w\<rparr>)
       }))
       (handle_icmp E ms)"

section \<open>The loop\<close>

fun receive_loop :: "env \<Rightarrow> (bytes \<times> sockaddr) option list \<Rightarrow> ucat \<Rightarrow> ucat program" where
  "receive_loop E [] u =
     running (do {
       w \<leftarrow> utp_issue_deferred_acks E (Some ()) (uk_lib u);
       Some (u\<lparr>uk_lib := w\<rparr>)
     })"
| "receive_loop E (None # ds) u = die"
| "receive_loop E (Some (d, sa) # ds) u =
     and_then (running (do {
         (_, w) \<leftarrow> utp_process_udp E (Some ()) (take 4096 d) sa (sockaddr_len sa) (uk_lib u);
         Some (u\<lparr>uk_lib := w\<rparr>)
       }))
       (receive_loop E ds)"

text \<open>What one round of the loop finds. Standard input is only polled while there is room in the buffer.\<close>

datatype poll_result = Poll_interrupted | Poll_failed | Poll_timeout | Poll_ready

record round =
  rd_poll :: poll_result
  rd_stdin :: "read_result option"
  rd_errqueue :: "errqueue_message option list option"
  rd_datagrams :: "(bytes \<times> sockaddr) option list option"

definition network_loop :: "env \<Rightarrow> (nat list \<Rightarrow> nat list) \<Rightarrow> round \<Rightarrow> ucat \<Rightarrow> ucat program" where
  "network_loop E order r u =
     and_then
       (case rd_poll r of
          Poll_failed \<Rightarrow> die
        | Poll_interrupted \<Rightarrow> running (Some u)
        | Poll_timeout \<Rightarrow> running (Some u)
        | Poll_ready \<Rightarrow>
            and_then (if reads_stdin u
                      then case rd_stdin r of None \<Rightarrow> running (Some u) | Some x \<Rightarrow> stdin_ready E x u
                      else running (Some u)) (\<lambda>u.
            and_then (case rd_errqueue r of None \<Rightarrow> running (Some u) | Some ms \<Rightarrow> handle_icmp E ms u) (\<lambda>u.
            case rd_datagrams r of None \<Rightarrow> running (Some u) | Some ds \<Rightarrow> receive_loop E ds u)))
       (\<lambda>u. running (do {
          w \<leftarrow> utp_check_timeouts E order (Some ()) (uk_lib u);
          Some (u\<lparr>uk_lib := w\<rparr>)
        }))"

section \<open>Starting and ending\<close>

text \<open>The options, the characters \<open>getopt\<close> finds with their arguments.\<close>

record options =
  op_debug :: int
  op_listen :: int
  op_buf_size :: int
  op_numeric :: int
  op_local_address :: string
  op_local_port :: "string option"
  op_remote_address :: "string option"
  op_remote_port :: "string option"

definition default_options :: options where
  "default_options = \<lparr>op_debug = 0, op_listen = 0, op_buf_size = 4096, op_numeric = 0,
     op_local_address = ''0.0.0.0'', op_local_port = None, op_remote_address = None, op_remote_port = None\<rparr>"

definition usage :: "'a program" where "usage = Some (Inl 1)"

fun scan_options :: "(string \<Rightarrow> int) \<Rightarrow> (char \<times> string) list \<Rightarrow> options \<Rightarrow> options program" where
  "scan_options atoi [] o1 = running (Some o1)"
| "scan_options atoi ((c, arg) # cs) o1 =
     (if c = CHR ''h'' then usage
      else if c = CHR ''d'' then scan_options atoi cs (o1\<lparr>op_debug := op_debug o1 + 1\<rparr>)
      else if c = CHR ''l'' then scan_options atoi cs (o1\<lparr>op_listen := op_listen o1 + 1\<rparr>)
      else if c = CHR ''p'' then scan_options atoi cs (o1\<lparr>op_local_port := Some arg\<rparr>)
      else if c = CHR ''B'' then scan_options atoi cs (o1\<lparr>op_buf_size := atoi arg\<rparr>)
      else if c = CHR ''s'' then scan_options atoi cs (o1\<lparr>op_local_address := arg\<rparr>)
      else if c = CHR ''n'' then scan_options atoi cs (o1\<lparr>op_numeric := op_numeric o1 + 1\<rparr>)
      else die)"

definition positional :: "string list \<Rightarrow> options \<Rightarrow> options" where
  "positional args o1 =
     (case args of
        [] \<Rightarrow> o1
      | [a] \<Rightarrow> o1\<lparr>op_remote_address := Some a\<rparr>
      | a # b # _ \<Rightarrow> o1\<lparr>op_remote_address := Some a, op_remote_port := Some b\<rparr>)"

definition read_options :: "(string \<Rightarrow> int) \<Rightarrow> (char \<times> string) list \<Rightarrow> string list \<Rightarrow> options program" where
  "read_options atoi cs args =
     and_then (scan_options atoi cs default_options) (\<lambda>o1.
       let o1 = positional args o1
       in if op_listen o1 \<noteq> 0 \<and> (op_remote_port o1 \<noteq> None \<or> op_remote_address o1 \<noteq> None) then usage
          else if op_listen o1 = 0 \<and> (op_remote_port o1 = None \<or> op_remote_address o1 = None) then usage
          else running (Some o1))"

text \<open>
  What the program finds at the start: the memory \<open>malloc\<close> gives, whether the calls on the UDP socket up to \<open>getsockname\<close>
  succeed, and what the name service answers for an address and a port.
\<close>

definition ucat_setup ::
  "env \<Rightarrow> bytes option \<Rightarrow> bool \<Rightarrow> (string \<Rightarrow> string \<Rightarrow> sockaddr option) \<Rightarrow> options \<Rightarrow> ucat program" where
  "ucat_setup E memory bound getaddrinfo o1 =
     (case memory of
        None \<Rightarrow> die
      | Some buf \<Rightarrow>
          if \<not> bound then die
          else
            and_then (running (do {
                w \<leftarrow> (if 2 \<le> op_debug o1
                      then do {
                        (_, w) \<leftarrow> utp_context_set_option E (Some ()) 16 1 new_world;
                        (_, w) \<leftarrow> utp_context_set_option E (Some ()) 17 1 w;
                        (_, w) \<leftarrow> utp_context_set_option E (Some ()) 18 1 w;
                        Some w
                      }
                      else Some new_world);
                Some \<lparr>uk_debug = op_debug o1, uk_listen = op_listen o1, uk_buf_size = op_buf_size o1, uk_lib = w,
                      uk_s = None, uk_buf = buf, uk_p = 0, uk_buf_len = 0, uk_eof_flag = False,
                      uk_utp_eof_flag = False, uk_utp_shutdown_flag = False, uk_quit_flag = False,
                      uk_exit_code = 0, uk_stdout = []\<rparr>
              }))
              (\<lambda>u. if uk_listen u \<noteq> 0 then running (Some u)
                   else
                     and_then (running (do {
                         (s, w) \<leftarrow> utp_create_socket E (Some ()) (uk_lib u);
                         c_assert (ndebug (bld E)) (s \<noteq> None);
                         Some (u\<lparr>uk_s := s, uk_lib := w\<rparr>)
                       }))
                       (\<lambda>u. case op_remote_address o1 of
                          None \<Rightarrow> None
                        | Some host \<Rightarrow>
                            case op_remote_port o1 of
                              None \<Rightarrow> None
                            | Some service \<Rightarrow>
                                case getaddrinfo host service of
                                  None \<Rightarrow> die
                                | Some sa \<Rightarrow> running (do {
                                    (_, w) \<leftarrow> utp_connect E (uk_s u) sa (sockaddr_len sa) (uk_lib u);
                                    Some (u\<lparr>uk_lib := w\<rparr>)
                                  }))))"

text \<open>After the loop: data left over is an error; the context goes last.\<close>

definition leave :: "env \<Rightarrow> (nat list \<Rightarrow> nat list) \<Rightarrow> ucat \<Rightarrow> (int \<times> world) option" where
  "leave E order u =
     do {
       let code = (if uk_buf_len u \<noteq> 0 then uk_exit_code u + 1 else uk_exit_code u);
       utp_get_context_stats (ndebug (bld E)) (Some ()) (uk_lib u);
       w \<leftarrow> utp_destroy E order (Some ()) (uk_lib u);
       Some (code, w)
     }"

section \<open>What waits in the buffer\<close>

definition unsent :: "bytes \<Rightarrow> nat \<Rightarrow> int \<Rightarrow> bytes" where
  "unsent m p n = take (nat n - p) (drop p m)"

text \<open>The buffer is empty and its pointer at the start, or the pointer is before the end of the data.\<close>

definition span_ok :: "bytes \<Rightarrow> nat \<Rightarrow> int \<Rightarrow> bool" where
  "span_ok m p n \<longleftrightarrow> (n = 0 \<and> p = 0 \<or> int p < n) \<and> n \<le> int (length m) \<and> length m < 2 ^ 31"

lemma unsent_empty [simp]: "unsent m p 0 = []"
  by (simp add: unsent_def)

lemma unsent_advance:
  assumes "k \<le> nat n - p" shows "take k (unsent m p n) @ unsent m (p + k) n = unsent m p n"
proof -
  have "unsent m (p + k) n = drop k (unsent m p n)"
    using assms by (simp add: unsent_def drop_take add.commute)
  then show ?thesis by simp
qed

context byte_sink
begin

definition forwards :: "bytes \<Rightarrow> nat \<Rightarrow> int \<Rightarrow> 's \<Rightarrow> bool \<times> nat \<times> int \<times> 's \<Rightarrow> bool" where
  "forwards m p n s r \<longleftrightarrow> (case r of (full, p', n', s') \<Rightarrow> inside s' \<longrightarrow> length m < 2 ^ 31 \<longrightarrow>
     inside s \<and> (good s \<and> span_ok m p n \<longrightarrow>
       good s' \<and> span_ok m p' n' \<and> (\<not> full \<longrightarrow> n' = 0) \<and>
       (\<exists>b. contents s' = contents s @ b \<and> unsent m p n = b @ unsent m p' n')))"

lemma write_step:
  assumes put: "put (unsent m p n) s = Some (r, s1)" and i: "inside s1" and g: "good s" and ok: "span_ok m p n" and lt: "int p < n"
  defines "k \<equiv> unat (word_of_int r :: u64)"
  shows "good s1 \<and> k \<le> nat n - p \<and> contents s1 = contents s @ take k (unsent m p n)"
proof -
  have l: "length (unsent m p n) = nat n - p" "length (unsent m p n) < 2 ^ 63"
    using ok unfolding unsent_def span_ok_def by auto
  have r: "good s1" "0 \<le> r" "nat r \<le> nat n - p" "contents s1 = contents s @ take (nat r) (unsent m p n)"
    using put_prefix [OF put g i l(2)] l(1) by simp_all
  have "nat r < 2 ^ 63" using r(3) l by simp
  then have "k = nat r" unfolding k_def using r(2) by (simp add: unat_eq_nat_uint uint_word_of_int nat_less_iff)
  then show ?thesis using r by simp
qed

lemma buffer_loop_forwards:
  assumes "buffer_loop put m p n s = Some r" shows "forwards m p n s r"
proof -
  have "f = put \<longrightarrow> forwards m p n s r" if "buffer_loop f m p n s = Some r" for f
  proof (rule buffer_loop.raw_induct [where P = "\<lambda>f m p n s r. f = put \<longrightarrow> forwards m p n s r", OF _ that], goal_cases)
    case (1 loop f m p n s r)
    show ?case
    proof (cases "int p < n")
      case False
      then have r: "r = (False, p, n, s)" using 1(2) by (auto simp: bind_eq_Some_conv)
      then show ?thesis using False by (auto simp: forwards_def span_ok_def)
    next
      case lt: True
      show ?thesis
      proof (intro impI)
        assume f: "f = put"
        obtain k s1 where put: "put (unsent m p n) s = Some (k, s1)"
          and n: "0 \<le> n" "nat n \<le> length m"
          and r: "(if (word_of_int k :: u64) = 0 then Some (True, p, n, s1)
            else do {
              ub_unless (p + unat (word_of_int k :: u64) \<le> length m);
              if int (p + unat (word_of_int k :: u64)) = n then loop put m 0 0 s1
              else loop put m (p + unat (word_of_int k :: u64)) n s1
            }) = Some r"
          using 1(2) lt unfolding f by (auto simp: bind_eq_Some_conv ub_unless_Some_iff unsent_def Let_def cong: if_cong)
        let ?k = "unat (word_of_int k :: u64)"
        obtain full p' n' s' where r': "r = (full, p', n', s')" by (cases r)
        show "forwards m p n s r"
          unfolding forwards_def r' prod.case
        proof (intro impI)
          assume i: "inside s'" and m: "length m < 2 ^ 31"
          have "length (unsent m p n) < 2 ^ 63" using m by (simp add: unsent_def)
          then have near: "inside s1 \<Longrightarrow> inside s" using put_nearer [OF put] by blast
          note step = write_step [OF put _ _ _ lt]
          show "inside s \<and> (good s \<and> span_ok m p n \<longrightarrow> good s' \<and> span_ok m p' n' \<and> (\<not> full \<longrightarrow> n' = 0) \<and>
              (\<exists>b. contents s' = contents s @ b \<and> unsent m p n = b @ unsent m p' n'))"
          proof (cases "(word_of_int k :: u64) = 0")
            case True
            then have e: "full" "p' = p" "n' = n" "s' = s1" using r r' by simp_all
            then show ?thesis using near i step True by (auto simp: e)
          next
            case False
            define q where "q = (if int (p + ?k) = n then 0 else p + ?k)"
            define c where "c = (if int (p + ?k) = n then 0 else n)"
            have "loop put m q c s1 = Some r"
              using r False by (auto simp: q_def c_def bind_eq_Some_conv split: if_splits)
            from 1(1) [OF this] have "forwards m q c s1 r" by simp
            then have h: "inside s1" "good s1 \<and> span_ok m q c \<Longrightarrow> good s' \<and> span_ok m p' n' \<and> (\<not> full \<longrightarrow> n' = 0) \<and>
                (\<exists>b. contents s' = contents s1 @ b \<and> unsent m q c = b @ unsent m p' n')"
              using i m by (simp_all add: forwards_def r')
            have "good s' \<and> span_ok m p' n' \<and> (\<not> full \<longrightarrow> n' = 0) \<and>
              (\<exists>b. contents s' = contents s @ b \<and> unsent m p n = b @ unsent m p' n')" if g: "good s \<and> span_ok m p n"
            proof -
              have st: "good s1" "?k \<le> nat n - p" "contents s1 = contents s @ take ?k (unsent m p n)"
                using g step [OF h(1)] by simp_all
              have "span_ok m (if int (p + j) = n then 0 else p + j) (if int (p + j) = n then 0 else n)" if "j \<le> nat n - p" for j
                using g lt that by (auto simp: span_ok_def)
              from this [OF st(2)] have ok: "span_ok m q c" unfolding q_def c_def .
              have "unsent m (if int (p + j) = n then 0 else p + j) (if int (p + j) = n then 0 else n) = unsent m (p + j) n" for j
                by (auto simp: unsent_def nat_int_add)
              from this [of ?k] have u: "unsent m q c = unsent m (p + ?k) n" unfolding q_def c_def .
              obtain b where b: "good s'" "span_ok m p' n'" "\<not> full \<longrightarrow> n' = 0" "contents s' = contents s1 @ b"
                "unsent m q c = b @ unsent m p' n'" using h(2) st(1) ok by blast
              have "unsent m p n = (take ?k (unsent m p n) @ b) @ unsent m p' n'"
                using unsent_advance [OF st(2), of m] b(5) unfolding u by simp
              moreover have "contents s' = contents s @ (take ?k (unsent m p n) @ b)" using b(4) st(3) by simp
              ultimately show ?thesis using b(1-3) by blast
            qed
            then show ?thesis using near h(1) by blast
          qed
        qed
      qed
    qed
  qed
  then show ?thesis using assms by blast
qed

end

section \<open>Runs\<close>

definition waiting_input :: "ucat \<Rightarrow> bytes" where
  "waiting_input u = unsent (uk_buf u) (uk_p u) (uk_buf_len u)"

text \<open>
  The bytes \<open>b\<close> a round of writing adds to the send queue of the connection, whose socket is well formed, as
  every socket is in every state it reaches.
\<close>

definition passes_on :: "env \<Rightarrow> ucat \<Rightarrow> bytes \<Rightarrow> bool" where
  "passes_on E u b \<longleftrightarrow>
     (case uk_s u of
        None \<Rightarrow> b = []
      | Some s \<Rightarrow> writable_in s (uk_lib u) \<and>
          (\<forall>full u'. write_buffer E u = Some (full, u') \<longrightarrow>
             age (ctx (uk_lib u')) < 2 ^ 31 \<and> stream_of s (uk_lib u') = stream_of s (uk_lib u) @ b))"

definition writes_on :: "utp_callback_arguments \<Rightarrow> bool" where
  "writes_on a \<longleftrightarrow> arg_value a = Arg_state (utp_state_number UTP_STATE_CONNECT) \<or>
     arg_value a = Arg_state (utp_state_number UTP_STATE_WRITABLE)"

text \<open>
  What happens to the program, with the bytes read from standard input so far and the bytes passed on to
  connections so far: input, the callbacks, the signal, and anything the library does to its own state.
\<close>

inductive ucat_run :: "env \<Rightarrow> bytes \<Rightarrow> bytes \<Rightarrow> ucat \<Rightarrow> bool" for E where
  starts: "ucat_setup E (Some m) True getaddrinfo o1 = Some (Inr u) \<Longrightarrow> int (length m) = op_buf_size o1 \<Longrightarrow>
    op_buf_size o1 < 2 ^ 31 \<Longrightarrow> ucat_run E [] [] u"
| input: "ucat_run E i a u \<Longrightarrow> reads_stdin u \<Longrightarrow> store_input (Read d) u = Some (Inr u1) \<Longrightarrow>
    stdin_ready E (Read d) u = Some (Inr u') \<Longrightarrow> passes_on E u1 b \<Longrightarrow> ucat_run E (i @ d) (a @ b) u'"
| accept: "ucat_run E i a u \<Longrightarrow> callback_on_accept E args u = Some u' \<Longrightarrow>
    passes_on E (u\<lparr>uk_s := arg_socket args\<rparr>) b \<Longrightarrow> ucat_run E i (a @ b) u'"
| change: "ucat_run E i a u \<Longrightarrow> callback_on_state_change E args u = Some u' \<Longrightarrow>
    (if writes_on args then passes_on E u b else b = []) \<Longrightarrow> ucat_run E i (a @ b) u'"
| failing: "ucat_run E i a u \<Longrightarrow> callback_on_error E args u = Some u' \<Longrightarrow> ucat_run E i a u'"
| reading: "ucat_run E i a u \<Longrightarrow> callback_on_read E rs args u = Some u' \<Longrightarrow> ucat_run E i a u'"
| interrupt: "ucat_run E i a u \<Longrightarrow> handler E u = Some u' \<Longrightarrow> ucat_run E i a u'"
| library: "ucat_run E i a u \<Longrightarrow> ucat_run E i a (u\<lparr>uk_lib := w\<rparr>)"

definition buffer_ok :: "ucat \<Rightarrow> bool" where
  "buffer_ok u \<longleftrightarrow> span_ok (uk_buf u) (uk_p u) (uk_buf_len u) \<and>
     (uk_utp_shutdown_flag u \<longrightarrow> uk_eof_flag u \<and> uk_buf_len u = 0)"

text \<open>What an operation does that leaves the buffer alone.\<close>

definition same_buffer :: "ucat \<Rightarrow> ucat \<Rightarrow> bool" where
  "same_buffer u u' \<longleftrightarrow> uk_buf u' = uk_buf u \<and> uk_p u' = uk_p u \<and> uk_buf_len u' = uk_buf_len u \<and>
     uk_eof_flag u' = uk_eof_flag u \<and>
     (uk_utp_shutdown_flag u' \<longrightarrow> uk_utp_shutdown_flag u \<or> uk_eof_flag u \<and> uk_buf_len u = 0)"

lemma same_buffer_ok: "same_buffer u u' \<Longrightarrow> buffer_ok u \<Longrightarrow> buffer_ok u' \<and> waiting_input u' = waiting_input u"
  by (auto simp: same_buffer_def buffer_ok_def waiting_input_def)

lemma finish_writing_buffer: "post (finish_writing E u) (same_buffer u)"
  by (auto simp: finish_writing_def post_simps same_buffer_def Let_def intro!: postI)

lemma write_buffer_passes:
  assumes w: "write_buffer E u = Some (full, u')" and p: "passes_on E u b" and ok: "buffer_ok u"
  shows "buffer_ok u' \<and> waiting_input u = b @ waiting_input u' \<and> uk_eof_flag u' = uk_eof_flag u"
proof (cases "uk_s u")
  case None
  then show ?thesis using w p ok by (simp add: write_buffer_def passes_on_def)
next
  case (Some s)
  obtain q n v where l: "buffer_loop (utp_write E (Some s)) (uk_buf u) (uk_p u) (uk_buf_len u) (uk_lib u) = Some (full, q, n, v)"
    and u': "u' = u\<lparr>uk_lib := v, uk_p := q, uk_buf_len := n\<rparr>"
    using w Some by (auto simp: write_buffer_def bind_eq_Some_conv)
  have h: "writable_in s (uk_lib u)" "age (ctx v) < 2 ^ 31" "stream_of s v = stream_of s (uk_lib u) @ b"
    using p w Some by (auto simp: passes_on_def u')
  have span: "span_ok (uk_buf u) (uk_p u) (uk_buf_len u)" using ok by (simp add: buffer_ok_def)
  have r: "span_ok (uk_buf u) q n" "\<exists>b. stream_of s v = stream_of s (uk_lib u) @ b \<and>
      unsent (uk_buf u) (uk_p u) (uk_buf_len u) = b @ unsent (uk_buf u) q n"
    using out.buffer_loop_forwards [OF l, unfolded out.forwards_def prod.case] h(1,2) span
    by (auto simp: span_ok_def)
  have "n = 0" if "uk_buf_len u = 0"
  proof -
    have "uk_p u = 0" using span that by (simp add: span_ok_def)
    then have "buffer_loop (utp_write E (Some s)) (uk_buf u) (uk_p u) (uk_buf_len u) (uk_lib u) = Some (False, 0, 0, uk_lib u)"
      using that by (subst buffer_loop.simps) simp
    then show ?thesis using l by simp
  qed
  then show ?thesis using r h(3) ok by (auto simp: u' buffer_ok_def waiting_input_def)
qed

lemma passes_on_exists:
  assumes w: "write_buffer E u = Some (full, u')" and s: "uk_s u = Some s" "writable_in s (uk_lib u)"
    and a: "age (ctx (uk_lib u')) < 2 ^ 31" and ok: "buffer_ok u"
  shows "\<exists>b. passes_on E u b"
proof -
  obtain q n v where l: "buffer_loop (utp_write E (Some s)) (uk_buf u) (uk_p u) (uk_buf_len u) (uk_lib u) = Some (full, q, n, v)"
    and u': "u' = u\<lparr>uk_lib := v, uk_p := q, uk_buf_len := n\<rparr>"
    using w s(1) by (auto simp: write_buffer_def bind_eq_Some_conv)
  have "\<exists>b. stream_of s v = stream_of s (uk_lib u) @ b"
    using out.buffer_loop_forwards [OF l, unfolded out.forwards_def prod.case] s(2) a ok
    by (auto simp: u' buffer_ok_def span_ok_def)
  then show ?thesis using w s a by (auto simp: passes_on_def u')
qed

lemma write_data_passes:
  assumes "write_data E u = Some u'" and "passes_on E u b" and "buffer_ok u"
  shows "buffer_ok u' \<and> waiting_input u = b @ waiting_input u'"
proof -
  obtain full u1 where u1: "write_buffer E u = Some (full, u1)" "u' = u1 \<or> finish_writing E u1 = Some u'"
    using assms(1) by (auto simp: write_data_def bind_eq_Some_conv split: if_splits)
  have "buffer_ok u1" "waiting_input u = b @ waiting_input u1" using write_buffer_passes [OF u1(1) assms(2,3)] by simp_all
  moreover have "same_buffer u1 u'" using u1(2) postD [OF finish_writing_buffer] by (auto simp: same_buffer_def)
  ultimately show ?thesis using same_buffer_ok by auto
qed

lemma store_input_ok:
  assumes s: "store_input (Read d) u = Some (Inr u')" and ok: "buffer_ok u" and r: "reads_stdin u"
  shows "buffer_ok u' \<and> waiting_input u' = waiting_input u @ d \<and> uk_lib u' = uk_lib u \<and> uk_s u' = uk_s u"
proof (cases "d = []")
  case True
  then have u': "u' = u\<lparr>uk_eof_flag := True\<rparr>" using s by (simp add: store_input_def running_def)
  then show ?thesis using ok True by (auto simp: buffer_ok_def waiting_input_def)
next
  case False
  let ?n = "nat (uk_buf_len u)"
  have fits: "?n + length d \<le> length (uk_buf u)" "0 \<le> uk_buf_len u" and
    u': "u' = u\<lparr>uk_buf := take ?n (uk_buf u) @ d @ drop (?n + length d) (uk_buf u), uk_buf_len := uk_buf_len u + int (length d)\<rparr>"
    using s False by (auto simp: store_input_def running_def write_bytes_Some_iff bind_eq_Some_conv ub_unless_Some_iff)
  have span: "span_ok (uk_buf u) (uk_p u) (uk_buf_len u)" and fl: "\<not> uk_utp_shutdown_flag u"
    using ok r by (auto simp: buffer_ok_def reads_stdin_def)
  have p: "uk_p u \<le> ?n" using span by (auto simp: span_ok_def)
  have len: "nat (uk_buf_len u + int (length d)) = ?n + length d" using fits(2) by (simp add: nat_add_distrib)
  have "0 < length d" using False by simp
  then have "span_ok (uk_buf u') (uk_p u) (uk_buf_len u + int (length d))"
    using span fits False by (auto simp: span_ok_def u')
  moreover have "waiting_input u' = waiting_input u @ d"
    using p fits by (simp add: waiting_input_def unsent_def u' len drop_take)
  ultimately show ?thesis using fl by (simp add: buffer_ok_def u')
qed

lemma callback_on_state_change_quiet:
  "\<not> writes_on a \<Longrightarrow> post (callback_on_state_change E a u) (same_buffer u)"
  by (cases "arg_value a") (auto simp: callback_on_state_change_def post_simps same_buffer_def writes_on_def Let_def intro!: postI)

lemma callback_on_state_change_writes:
  "writes_on a \<Longrightarrow> callback_on_state_change E a u = Some u' \<Longrightarrow> write_data E u = Some u'"
  by (auto simp: callback_on_state_change_def writes_on_def bind_eq_Some_conv)

lemma quiet_callbacks:
  "post (callback_on_error E a u) (same_buffer u)" "post (callback_on_read E rs a u) (same_buffer u)" "post (handler E u) (same_buffer u)"
  by (cases "arg_value a"; auto simp: callback_on_error_def callback_on_read_def handler_def post_simps same_buffer_def intro!: postI)+

lemma ucat_run_inv: "ucat_run E i a u \<Longrightarrow> buffer_ok u \<and> i = a @ waiting_input u"
proof (induction rule: ucat_run.induct)
  case (starts m getaddrinfo o1 u)
  then have "uk_buf u = m" "uk_p u = 0" "uk_buf_len u = 0" "\<not> uk_utp_shutdown_flag u"
    by (auto simp: ucat_setup_def and_then_def running_def die_def bind_eq_Some_conv split: option.splits if_splits sum.splits)
  then show ?case using starts(2,3) by (simp add: buffer_ok_def span_ok_def waiting_input_def)
next
  case (input i a u d u1 u' b)
  have s: "buffer_ok u1" "waiting_input u1 = waiting_input u @ d" using store_input_ok input by blast+
  have "write_data E u1 = Some u'" using input.hyps(3,4) by (auto simp: stdin_ready_def and_then_def running_def)
  then show ?case using write_data_passes [OF _ input.hyps(5) s(1)] s(2) input.IH by auto
next
  case (accept i a u args u' b)
  let ?u = "u\<lparr>uk_s := arg_socket args\<rparr>"
  have "write_data E ?u = Some u'" using accept.hyps(2) by (auto simp: callback_on_accept_def bind_eq_Some_conv)
  moreover have "buffer_ok ?u" "waiting_input ?u = waiting_input u" using accept.IH by (simp_all add: buffer_ok_def waiting_input_def)
  ultimately show ?case using write_data_passes [OF _ accept.hyps(3)] accept.IH by auto
next
  case (change i a u args u' b)
  show ?case
  proof (cases "writes_on args")
    case True
    then show ?thesis
      using write_data_passes [OF callback_on_state_change_writes [OF _ change.hyps(2)], of b] change.hyps(3) change.IH by auto
  next
    case False
    then show ?thesis
      using postD [OF callback_on_state_change_quiet [OF False] change.hyps(2)] same_buffer_ok change.hyps(3) change.IH by auto
  qed
next
  case (failing i a u args u')
  then show ?case using postD [OF quiet_callbacks(1)] same_buffer_ok by metis
next
  case (reading i a u rs args u')
  then show ?case using postD [OF quiet_callbacks(2)] same_buffer_ok by metis
next
  case (interrupt i a u u')
  then show ?case using postD [OF quiet_callbacks(3)] same_buffer_ok by metis
next
  case (library i a u w)
  then show ?case by (simp add: buffer_ok_def waiting_input_def)
qed

section \<open>Properties\<close>


lemma output_loop_step:
  "left \<noteq> 0 \<Longrightarrow> output_loop (r # rs) d p left out =
     (if 0 \<le> p \<and> 0 \<le> left \<and> p + left \<le> int (length d)
      then output_loop rs d (p + r) (left - r) (out @ take (nat r) (drop (nat p) d)) else None)"
  by (subst output_loop.simps) (simp add: ub_unless_def)

lemma output_loop_done [simp]: "output_loop rs d p 0 out = Some out"
  by (subst output_loop.simps) simp

lemma output_loop_whole:
  assumes "\<forall>r \<in> set rs. 0 < r" and "sum_list rs = int (length d) - int p" and "p \<le> length d"
  shows "output_loop rs d (int p) (int (length d) - int p) out = Some (out @ drop p d)"
  using assms
proof (induction rs arbitrary: p out)
  case Nil
  then show ?case by simp
next
  case (Cons r rs)
  have r: "0 < r" "0 \<le> sum_list rs" using Cons.prems(1) by (auto intro!: sum_list_nonneg)
  define q where "q = p + nat r"
  have q: "int q = int p + r" "q \<le> length d" using r Cons.prems(2) by (simp_all add: q_def)
  have "output_loop (r # rs) d (int p) (int (length d) - int p) out =
      output_loop rs d (int q) (int (length d) - int q) (out @ take (nat r) (drop p d))"
    using r Cons.prems(2,3) q by (subst output_loop_step) (simp_all add: algebra_simps)
  also have "\<dots> = Some ((out @ take (nat r) (drop p d)) @ drop q d)"
    by (rule Cons.IH) (use Cons.prems q in simp_all)
  also have "\<dots> = Some (out @ drop p d)"
    using append_take_drop_id [of "nat r" "drop p d"] by (simp add: q_def add.commute)
  finally show ?case .
qed

text \<open>
  C33: Output copes with short writes but not with failed ones. When every \<open>write\<close> takes at least a byte, what a
  connection delivers is appended to standard output; a failure after \<open>k\<close> bytes steps back, so byte \<open>k\<close> is
  written again; a failure of the first \<open>write\<close> steps in front of the packet.
\<close>

theorem failed_write_repeats:
  assumes "\<forall>r \<in> set rs. 0 < r" and "sum_list rs = int (length d)" and "0 < k" and "k < length d"
  shows "output_loop rs d 0 (int (length d)) out = Some (out @ d) \<and>
    output_loop [int k, - 1, int (length d - k + 1)] d 0 (int (length d)) out = Some (out @ take k d @ drop (k - 1) d) \<and>
    output_loop (- 1 # rs) d 0 (int (length d)) out = None"
proof (intro conjI)
  show "output_loop rs d 0 (int (length d)) out = Some (out @ d)"
    using output_loop_whole [of rs d 0 out] assms(1,2) by simp
  show "output_loop [int k, - 1, int (length d - k + 1)] d 0 (int (length d)) out = Some (out @ take k d @ drop (k - 1) d)"
  proof -
    have "d \<noteq> []" "nat (int k - 1) = k - 1" using assms(3,4) by auto
    then show ?thesis using assms(3,4) by (simp add: output_loop_step nat_diff_distrib of_nat_diff)
  qed
  have "rs \<noteq> []" "d \<noteq> []" using assms(2-4) by auto
  then show "output_loop (- 1 # rs) d 0 (int (length d)) out = None"
    by (cases rs) (simp_all add: output_loop_step)
qed

theorem failed_write_repeats_witness:
  "output_loop [2, - 1, 2] [7, 8, 9] 0 3 [] = Some [7, 8, 8, 9]"
  using failed_write_repeats [of "[3]" "[7, 8, 9]" 2 "[]"] by simp

text \<open>
  A read from standard input that is interrupted shortens the buffer: its result -1 is added to the length, so the
  last byte waiting is dropped, and an empty buffer has a negative length, with which writing goes
  in front of the memory.
\<close>

theorem interrupted_read_loses:
  assumes "span_ok (uk_buf u) (uk_p u) (uk_buf_len u)"
  shows "\<exists>u'. store_input Interrupted u = Some (Inr u') \<and> waiting_input u' = butlast (waiting_input u) \<and>
    (uk_buf_len u = 0 \<longrightarrow> (\<forall>s. uk_s u = Some s \<longrightarrow> stdin_ready E Interrupted u = None) \<and> store_input (Read [x]) u' = None)"
proof -
  let ?u = "u\<lparr>uk_buf_len := uk_buf_len u - 1\<rparr>"
  have "waiting_input ?u = butlast (waiting_input u)"
  proof (cases "uk_buf_len u = 0")
    case True
    then show ?thesis by (simp add: waiting_input_def unsent_def)
  next
    case False
    then have "nat (uk_buf_len u) \<le> length (uk_buf u)" "0 < uk_buf_len u" using assms by (auto simp: span_ok_def)
    then show ?thesis by (simp add: waiting_input_def unsent_def butlast_take nat_diff_distrib diff_commute)
  qed
  moreover have "store_input Interrupted u = Some (Inr ?u)" by (simp add: store_input_def running_def)
  moreover have "write_data E ?u = None" if "uk_buf_len u = 0" "uk_s u = Some s" for s
    using that by (simp add: write_data_def write_buffer_def) (subst buffer_loop.simps, simp)
  ultimately show ?thesis
    by (auto simp: stdin_ready_def and_then_def running_def store_input_def)
qed

end
