(* ===== verification/Program_Scenarios.thy ===== *)
theory Program_Scenarios
  imports Scenarios Ucat
begin

text \<open>
  The properties of the programs that use the library, applied to concrete runs.
\<close>

section \<open>The netcat\<close>

declare buffer_loop.simps [code]

definition listening :: options where
  "listening = default_options\<lparr>op_listen := 1, op_buf_size := 4\<rparr>"

definition accept_call :: utp_callback_arguments where
  "accept_call = \<lparr>arg_context = 0, arg_socket = Some 3, arg_len = 0, arg_flags = 0, arg_callback_type = UTP_ON_ACCEPT,
     arg_buf = None, arg_value = Arg_address None, arg_extra = Arg_address_len 0\<rparr>"

text \<open>A listener with a buffer of four bytes accepts the socket with room to send and reads two bytes.\<close>

definition listener :: ucat where
  "listener = \<lparr>uk_debug = 0, uk_listen = 1, uk_buf_size = 4, uk_lib = writing_world, uk_s = None, uk_buf = [0, 0, 0, 0],
     uk_p = 0, uk_buf_len = 0, uk_eof_flag = False, uk_utp_eof_flag = False, uk_utp_shutdown_flag = False,
     uk_quit_flag = False, uk_exit_code = 0, uk_stdout = []\<rparr>"

lemma listener_run: "ucat_run E [] [] listener"
proof -
  let ?u = "listener\<lparr>uk_lib := new_world\<rparr>"
  have "ucat_setup E (Some [0, 0, 0, 0]) True (\<lambda>_ _. None) listening = Some (Inr ?u)"
    by (simp add: ucat_setup_def listening_def default_options_def running_def and_then_def listener_def)
  then have "ucat_run E [] [] ?u" by (rule ucat_run.starts) (simp_all add: listening_def)
  then have "ucat_run E [] [] (?u\<lparr>uk_lib := writing_world\<rparr>)" by (rule ucat_run.library)
  then show ?thesis by (simp add: listener_def)
qed

lemma quiet_write: "uk_s u = Some s \<Longrightarrow> uk_buf_len u = 0 \<Longrightarrow> write_buffer E u = Some (False, u)"
  unfolding write_buffer_def by (subst buffer_loop.simps) simp


theorem interrupted_read_loses_witness:
  "\<exists>u'. store_input Interrupted (listener\<lparr>uk_buf := [5, 6, 0, 0], uk_buf_len := 2\<rparr>) = Some (Inr u') \<and> waiting_input u' = [5]"
  using interrupted_read_loses [of "listener\<lparr>uk_buf := [5, 6, 0, 0], uk_buf_len := 2\<rparr>"]
  by (simp add: span_ok_def listener_def waiting_input_def unsent_def)

end
