(* ===== verification/Fuzz_Harness.thy ===== *)
theory Fuzz_Harness
  imports C_Api Remote_Faults
begin

text \<open>
  The fuzzing harness, \<^verbatim>\<open>fuzz/fuzz_process_udp.cpp\<close>: a context with deterministic callbacks is fed datagrams, ICMP
  messages and timer ticks cut out of the input. Its state is its clock and the \<open>world\<close> of the context. The answers
  of its random generator are a parameter, as functions of the calls made before; the call of
  \<open>utp_read_drained\<close> out of its \<open>on_read\<close> is left out, as all calls out of callbacks are.
\<close>

section \<open>Model\<close>

definition peer_addr :: "endianness \<Rightarrow> sockaddr" where
  "peer_addr e = Sockaddr_in (host_to_network16 e 6881) [127, 0, 0, 2]"

text \<open>The generator: its state and its answer after \<open>k\<close> calls before.\<close>

primrec g_rng_state :: "nat \<Rightarrow> u32" where
  "g_rng_state 0 = 0x5EED5EED"
| "g_rng_state (Suc k) = g_rng_state k * 1664525 + 1013904223"

definition cb_get_random :: "nat \<Rightarrow> u64" where
  "cb_get_random k = ucast (drop_bit 8 (g_rng_state (Suc k)))"

definition fuzz_env :: "build \<Rightarrow> endianness \<Rightarrow> (nat \<Rightarrow> u32) \<Rightarrow> u64 \<Rightarrow> env" where
  "fuzz_env B e random now =
     \<lparr>bld = B, endian = e, cb_milliseconds = (\<lambda>_. now), cb_microseconds = (\<lambda>_. now * 1000), cb_random = random,
      cb_udp_mtu = (\<lambda>_. default_udp_mtu), cb_udp_overhead = (\<lambda>_. default_udp_overhead),
      cb_read_buffer_size = (\<lambda>_. 0), cb_firewall = (\<lambda>_ _. False)\<rparr>"

definition fuzz_step ::
  "build \<Rightarrow> endianness \<Rightarrow> (nat \<Rightarrow> u32) \<Rightarrow> (nat list \<Rightarrow> nat list) \<Rightarrow> u8 \<Rightarrow> bytes \<Rightarrow> u64 \<times> world \<Rightarrow> (u64 \<times> world) option" where
  "fuzz_step B e random order selector payload st =
     (case st of (now, w) \<Rightarrow>
        let from = peer_addr e; E = fuzz_env B e random now
        in if selector AND 3 = 0 \<or> selector AND 3 = 1
           then do {
             (_, w) \<leftarrow> utp_process_udp E (Some ()) payload from SIZEOF_SOCKADDR_IN w;
             Some (now, w)
           }
           else if selector AND 3 = 2
           then if 2 \<le> length payload
                then do {
                  let mtu = ucast (payload ! 0) OR push_bit 8 (ucast (payload ! 1));
                  (_, w) \<leftarrow> utp_process_icmp_fragmentation E (Some ()) (drop 2 payload) from SIZEOF_SOCKADDR_IN mtu w;
                  Some (now, w)
                }
                else do {
                  (_, w) \<leftarrow> utp_process_icmp_error E (Some ()) payload from SIZEOF_SOCKADDR_IN w;
                  Some (now, w)
                }
           else do {
             let now = now + 500 + ucast selector * 37;
             let E = fuzz_env B e random now;
             w \<leftarrow> utp_check_timeouts E order (Some ()) w;
             w \<leftarrow> utp_issue_deferred_acks E (Some ()) w;
             Some (now, w)
           })"

text \<open>A selector, a length and that many bytes, or what is left.\<close>

function fuzz_loop ::
  "build \<Rightarrow> endianness \<Rightarrow> (nat \<Rightarrow> u32) \<Rightarrow> (nat list \<Rightarrow> nat list) \<Rightarrow> bytes \<Rightarrow> u64 \<times> world \<Rightarrow> (u64 \<times> world) option" where
  "fuzz_loop B e random order data st =
     (case data of
        selector # n # rest \<Rightarrow> do {
          st \<leftarrow> fuzz_step B e random order selector (take (unat n) rest) st;
          fuzz_loop B e random order (drop (unat n) rest) st
        }
      | _ \<Rightarrow> Some st)"
  by pat_completeness auto
termination
  by (relation "measure (\<lambda>(B, e, random, order, data, st). length data)") auto

declare fuzz_loop.simps [simp del]

primrec fuzz_ticks ::
  "build \<Rightarrow> endianness \<Rightarrow> (nat \<Rightarrow> u32) \<Rightarrow> (nat list \<Rightarrow> nat list) \<Rightarrow> nat \<Rightarrow> u64 \<times> world \<Rightarrow> (u64 \<times> world) option" where
  "fuzz_ticks B e random order 0 st = Some st"
| "fuzz_ticks B e random order (Suc k) st =
     (case st of (now, w) \<Rightarrow> do {
        let now = now + 30000;
        w \<leftarrow> utp_check_timeouts (fuzz_env B e random now) order (Some ()) w;
        fuzz_ticks B e random order k (now, w)
      })"

definition LLVMFuzzerTestOneInput ::
  "build \<Rightarrow> endianness \<Rightarrow> (nat \<Rightarrow> u32) \<Rightarrow> (nat list \<Rightarrow> nat list) \<Rightarrow> bytes \<Rightarrow> world option" where
  "LLVMFuzzerTestOneInput B e random order data =
     do {
       st \<leftarrow> fuzz_loop B e random order data (1000000, new_world);
       (now, w) \<leftarrow> fuzz_ticks B e random order 4 st;
       utp_destroy (fuzz_env B e random now) order (Some ()) w
     }"

section \<open>Evaluating a packet that acknowledges nothing\<close>

text \<open>What is left of \<open>process_acks\<close> then; the equations keep the evaluation from unfolding the rest.\<close>

definition ack_nothing :: "env \<Rightarrow> ParsedPacket \<Rightarrow> u64 \<Rightarrow> UtpContext \<Rightarrow> UtpSocket \<Rightarrow> (u64 \<times> UtpContext \<times> UtpSocket) option" where
  "ack_nothing E pp time h s =
     (let (now, h) = call_get_microseconds E h;
          s = set_timing (\<lambda>t. t\<lparr>last_measured_delay := current_ms h\<rparr>) s;
          their_delay = (if pp_timestamp pp = 0 then 0 else ucast (time - ucast (pp_timestamp pp)));
          s = set_timing (\<lambda>t. t\<lparr>reply_micro := their_delay\<rparr>) s;
          s = their_sample their_delay time h s;
          actual_delay = (if uint (pp_reply_micro pp) = INT_MAX then 0 else pp_reply_micro pp)
      in map_option (\<lambda>s. (0, h, cap_our_delay INT64_MAX s)) (our_sample E actual_delay h s))"

lemma process_acks_0: "pp_selack pp = None \<Longrightarrow> process_acks E pp 0 time h s = ack_nothing E pp time h s"
  unfolding process_acks_def ack_nothing_def by (cases "call_get_microseconds E h")
    (auto simp: Let_def INT64_MAX_def map_option_case split: option.splits)

definition process_acks_with where "process_acks_with n E pp time h s = process_acks E pp n time h s"

lemma process_acks_code [code]:
  "process_acks E pp 0 time h s =
     (case pp_selack pp of None \<Rightarrow> ack_nothing E pp time h s | Some pos \<Rightarrow> process_acks_with 0 E pp time h s)"
  "process_acks E pp (Suc n) time h s = process_acks_with (Suc n) E pp time h s"
  by (auto simp: process_acks_0 process_acks_with_def split: option.split)

lemma process_acks_with_code [code]: "process_acks_with (Suc n) E pp time h s = process_acks_with (Suc n) E pp time h s"
  by simp

section \<open>An input that aborts\<close>

declare issue_loop.simps [code] double_size.simps [code] choose_seed.simps [code]

definition fuzz_frame :: "u8 \<Rightarrow> bytes \<Rightarrow> bytes" where
  "fuzz_frame selector b = [selector, of_nat (length b)] @ b"

definition crafted_ack :: "u32 \<Rightarrow> bytes" where
  "crafted_ack delay = [0x21, 0, 0, 2, 0, 0, 0, 0] @ be32 delay @ [0, 0, 16, 0, 0, 2, 0x74, 0x32]"

lemma fuzz_loop_frame:
  "length b < 256 \<Longrightarrow> fuzz_loop B e random order (fuzz_frame selector b @ rest) =
     (\<lambda>st. fuzz_step B e random order selector b st \<bind> fuzz_loop B e random order rest)"
  by (rule ext, subst fuzz_loop.simps) (simp add: fuzz_frame_def unsigned_of_nat take_bit_eq_mod)

definition opening_syn :: bytes where
  "opening_syn = [0x41, 0, 0, 1, 0, 0, 0, 0, 0, 0, 0, 0, 0, 0, 16, 0, 0, 1, 0, 0]"

text \<open>The generator is asked once, for the sequence number of the connection.\<close>

definition first_random :: "nat \<Rightarrow> u32" where
  "first_random _ = ucast (cb_get_random 0)"

definition crash_input :: bytes where
  "crash_input =
     fuzz_frame 0 opening_syn @
     fuzz_frame 255 [] @ fuzz_frame 255 [] @ fuzz_frame 0 (crafted_ack 5) @ fuzz_frame 0 (crafted_ack 0x80000004)"

definition crafted_step :: "u8 \<Rightarrow> bytes \<Rightarrow> u64 \<times> world \<Rightarrow> (u64 \<times> world) option" where
  "crafted_step = fuzz_step sample_build Little first_random id"

definition sampled :: "(u64 \<times> world) option" where
  "sampled = crafted_step 0 opening_syn (1000000, new_world) \<bind> crafted_step 255 [] \<bind> crafted_step 255 [] \<bind>
     crafted_step 0 (crafted_ack 5)"

definition crafted_pf :: "u32 \<Rightarrow> PacketFormatV1" where
  "crafted_pf delay = the (decode_pf (crafted_ack delay))"

lemma crafted_length: "length (crafted_ack d) = 20" by (simp add: crafted_ack_def)

lemma extreme_fields:
  "decode_pf (crafted_ack 0x80000004) = Some (crafted_pf 0x80000004)"
  "pf_connid (crafted_pf 0x80000004) = 2" "pf_seq_nr (crafted_pf 0x80000004) = 2" "pf_ack_nr (crafted_pf 0x80000004) = 29746"
  "UTP_Version (crafted_pf 0x80000004) = 1" "pf_type (crafted_pf 0x80000004) = ST_STATE" "pf_ext (crafted_pf 0x80000004) = 0"
  "pf_reply_micro (crafted_pf 0x80000004) = 0x80000004"
  by code_simp+

lemma extreme_parsed:
  "\<exists>pp. parse_packet (crafted_ack 0x80000004) s = Some (Some pp, s) \<and> pp_selack pp = None \<and> pp_seq_nr pp = 2 \<and>
     pp_ack_nr pp = 29746 \<and> pp_type pp = ST_STATE \<and> pp_reply_micro pp = 0x80000004"
  by (simp add: parse_packet_def extreme_fields crafted_length PF_SIZE_def ST_STATE_def ST_NUM_STATES_def HEADER_SIZE_def)

lemma extreme_datagram:
  assumes d: "\<not> ndebug (bld E)" "Address_set (endian E) False to len = Some a" and n: "last_utp_socket (ctx w) = Some n" "heap w n = Some s"
    and c: "addr (conn s) = a" "conn_id_recv (conn s) = 2" "seq_nr (send s) = 29747" "cur_window_packets (send s) = 0"
      "ack_nr (recv s) = 1" "state (conn s) \<noteq> CS_SYN_SENT"
    and due: "\<And>h. slot_due (current_ms (refresh_clock E h)) (cc s)" "average_delay_base (cc s) = 5"
  shows "utp_process_udp E (Some ()) (crafted_ack 0x80000004) to len w = None"
proof -
  obtain pp where p: "parse_packet (crafted_ack 0x80000004) s = Some (Some pp, s)" "pp_selack pp = None" "pp_seq_nr pp = 2"
    "pp_ack_nr pp = 29746" "pp_type pp = ST_STATE" "pp_reply_micro pp = 0x80000004" using extreme_parsed by blast
  have "process_incoming E (crafted_ack 0x80000004) False h s = None" for h
  proof -
    obtain time h1 where t: "call_get_microseconds E (refresh_clock E (record_raw_recv (of_nat (length (crafted_ack 0x80000004))) h)) = (time, h1)"
      by (cases "call_get_microseconds E (refresh_clock E (record_raw_recv (of_nat (length (crafted_ack 0x80000004))) h))")
    have ms: "current_ms h1 = current_ms (refresh_clock E (record_raw_recv (of_nat (length (crafted_ack 0x80000004))) h))"
      using t by (auto simp: call_get_microseconds_def query_def)
    have ok: "\<not> invalid_ack pp s"
    proof -
      have e: "ucast (seq_nr (send s)) - 1 = (29746 :: u32)" "ucast (pp_ack_nr pp) = (29746 :: u32)" "ucast (curr_window s) = (3 :: u32)"
        by (simp_all add: c p curr_window_def ACK_NR_ALLOWED_WINDOW_def DUPLICATE_ACKS_BEFORE_RESEND_def)
      have "\<not> wrapping_compare_less (29746 :: u32) 29746 (ucast ACK_NR_MASK)" "\<not> wrapping_compare_less (29746 :: u32) (29746 - 3) (ucast ACK_NR_MASK)"
        by code_simp+
      then show ?thesis unfolding invalid_ack_def e by simp
    qed
    have "process_window_packet E pp time (seq_distance pp s) h1 (set_timing (\<lambda>t. t\<lparr>last_got_packet := current_ms h1\<rparr>) s) = None"
      by (rule extreme_sample_fails) (use d due p ms in \<open>simp_all add: set_timing_def\<close>)
    moreover have "seq_distance pp (set_timing (\<lambda>t. t\<lparr>last_got_packet := current_ms h1\<rparr>) s) = 0"
      by (simp add: seq_distance_def p c set_timing_def)
    moreover have "seq_distance pp s = 0" by (simp add: seq_distance_def p c)
    ultimately show ?thesis
      using ok c(6) p(5) by (simp add: process_incoming_def t p(1) REORDER_BUFFER_MAX_SIZE_def ST_RESET_def ST_STATE_def Let_def)
  qed
  then show ?thesis
    using d n c(1,2)
    by (simp add: utp_process_udp_def process_udp_def extreme_fields crafted_length PF_SIZE_def HEADER_SIZE_def find_connection_def on_socket_def
        no_result_def receive_on_def ST_STATE_def ST_RESET_def ST_SYN_def)
qed

lemma sampled_facts:
  "map_option (\<lambda>(now, w). (now, last_utp_socket (ctx w), map_option (\<lambda>s. (Address_set Little False (peer_addr Little) SIZEOF_SOCKADDR_IN = Some (addr (conn s)),
      conn_id_recv (conn s), seq_nr (send s), cur_window_packets (send s), ack_nr (recv s), state (conn s) = CS_SYN_SENT,
      slot_due 1019870 (cc s), average_delay_base (cc s))) (heap w 0))) sampled =
    Some (1019870, Some 0, Some (True, 2, 29747, 0, 1, False, True, 5))"
  by code_simp


end
