(* ===== verification/Log_Text.thy ===== *)
theory Log_Text
  imports Utp_Context Callbacks
begin

text \<open>
  Text: addresses (\<^verbatim>\<open>Address::fmt\<close> in \<^verbatim>\<open>src/utp/address.cpp\<close>), log lines (\<^verbatim>\<open>UtpSocket::vlog\<close>, \<^verbatim>\<open>UtpContext::log\<close>
  and \<^verbatim>\<open>logger.hpp\<close>) and the Windows replacements of \<open>inet_ntop\<close> and \<open>inet_pton\<close>
  (\<^verbatim>\<open>src/libutp_inet_ntop.cpp\<close>). A character buffer is the list of its bytes, a C string in it what comes before the first
  zero. The system's conversions and what \<open>printf\<close> makes of \<open>%p\<close> and of a message's own arguments are parameters.
\<close>

section \<open>C strings\<close>

definition c_string :: "bytes \<Rightarrow> bytes" where
  "c_string m = takeWhile (\<lambda>c. c \<noteq> 0) m"

fun decimal :: "nat \<Rightarrow> bytes" where
  "decimal n = (if n < 10 then [of_nat (48 + n)] else decimal (n div 10) @ [of_nat (48 + n mod 10)])"

declare decimal.simps [simp del]

text \<open>\<open>%06u\<close>\<close>

definition decimal6 :: "nat \<Rightarrow> bytes" where
  "decimal6 n = replicate (6 - length (decimal n)) 48 @ decimal n"

text \<open>\<open>snprintf\<close> writes at most as many bytes as it is given room for, the last of them a zero.\<close>

definition snprintf :: "nat \<Rightarrow> nat \<Rightarrow> bytes \<Rightarrow> bytes \<Rightarrow> bytes option" where
  "snprintf i room txt m =
     (if room = 0 then Some m else write_bytes i (take (room - 1) txt @ [0]) m)"

section \<open>Addresses\<close>

text \<open>\<open>inet_ntop\<close> as the code relies on it: the text and its zero when there is room for both, nothing otherwise.\<close>

type_synonym ntop = "family \<Rightarrow> bytes \<Rightarrow> nat \<Rightarrow> bytes option"

definition put_ntop :: "ntop \<Rightarrow> family \<Rightarrow> bytes \<Rightarrow> nat \<Rightarrow> nat \<Rightarrow> bytes \<Rightarrow> bytes option" where
  "put_ntop ntop f a i room m =
     (case ntop f a room of None \<Rightarrow> Some m | Some t \<Rightarrow> write_bytes i (t @ [0]) m)"

text \<open>The end of the string that goes on at \<open>i\<close>.\<close>

function scan_end :: "nat \<Rightarrow> bytes \<Rightarrow> nat option" where
  "scan_end i m = (if i < length m then if m ! i = 0 then Some i else scan_end (i + 1) m else None)"
  by pat_completeness auto
termination by (relation "measure (\<lambda>(i, m). length m - i)") auto

declare scan_end.simps [simp del]

definition Address_fmt :: "ntop \<Rightarrow> nat \<Rightarrow> Address \<Rightarrow> bytes option" where
  "Address_fmt ntop len a =
     (let m = replicate len 0; f = get_family a
      in if f = AF_INET
         then do {
           m \<leftarrow> put_ntop ntop f (drop 12 (in6 a)) 0 len m;
           i \<leftarrow> scan_end 1 m;
           snprintf i (len - i) (58 # decimal (unat (port a))) m
         }
         else do {
           m \<leftarrow> write_bytes 0 [91] m;
           m \<leftarrow> put_ntop ntop f (in6 a) 1 (len - 1) m;
           i \<leftarrow> scan_end 2 m;
           m \<leftarrow> write_bytes i [93] m;
           snprintf (i + 1) (len - (i + 1)) (58 # decimal (unat (port a))) m
         })"

definition addrfmt :: "ntop \<Rightarrow> Address \<Rightarrow> bytes option" where
  "addrfmt ntop a = map_option c_string (Address_fmt ntop 65 a)"

section \<open>Log lines\<close>

text \<open>A line in a buffer of 4096 bytes whose last one is set to zero.\<close>

definition print_line :: "bytes \<Rightarrow> bytes option" where
  "print_line txt =
     do {
       m \<leftarrow> snprintf 0 4096 txt (replicate 4096 0);
       m \<leftarrow> write_bytes 4095 [0] m;
       Some (c_string m)
     }"

definition flagnames :: "string list" where
  "flagnames = [''ST_DATA'', ''ST_FIN'', ''ST_STATE'', ''ST_RESET'', ''ST_SYN'']"

definition statenames :: "string list" where
  "statenames = [''UNINITIALIZED'', ''IDLE'', ''SYN_SENT'', ''SYN_RECV'', ''CONNECTED'', ''CONNECTED_FULL'', ''RESET'', ''DESTROY'']"

text \<open>A socket puts its pointer, its peer and its connection id in front.\<close>

definition socket_vlog ::
  "ntop \<Rightarrow> (nat \<Rightarrow> bytes) \<Rightarrow> utp_option \<Rightarrow> bytes \<Rightarrow> UtpContext \<Rightarrow> UtpSocket \<Rightarrow> bytes option option" where
  "socket_vlog ntop pointer level msg h s =
     (if \<not> would_log level h then Some None
      else do {
        buf \<leftarrow> print_line msg;
        a \<leftarrow> addrfmt ntop (addr (conn s));
        buf2 \<leftarrow> print_line (pointer (self s) @ [32] @ a @ [32] @ decimal6 (unat (conn_id_recv (conn s))) @ [32] @ buf);
        Some (Some buf2)
      })"

text \<open>The wrapper with variable arguments in \<^verbatim>\<open>ILogger\<close>, and the callback the line goes to.\<close>

definition socket_log ::
  "ntop \<Rightarrow> (nat \<Rightarrow> bytes) \<Rightarrow> 'u UtpCallbacks \<Rightarrow> utp_option \<Rightarrow> bytes \<Rightarrow> UtpContext \<Rightarrow> UtpSocket \<Rightarrow> 'u \<Rightarrow> 'u option" where
  "socket_log ntop pointer cbs level msg h s u =
     do {
       r \<leftarrow> socket_vlog ntop pointer level msg h s;
       Some (case r of None \<Rightarrow> u | Some line \<Rightarrow> utp_call_log cbs (Some (self s)) line u)
     }"

definition vlog_unchecked :: "'u UtpCallbacks \<Rightarrow> nat option \<Rightarrow> bytes \<Rightarrow> 'u \<Rightarrow> 'u option" where
  "vlog_unchecked cbs s msg u =
     do {
       buf \<leftarrow> print_line msg;
       Some (utp_call_log cbs s buf u)
     }"

definition log_unchecked :: "'u UtpCallbacks \<Rightarrow> nat option \<Rightarrow> bytes \<Rightarrow> 'u \<Rightarrow> 'u option" where
  "log_unchecked cbs s msg u = vlog_unchecked cbs s msg u"

definition context_log :: "'u UtpCallbacks \<Rightarrow> utp_option \<Rightarrow> nat option \<Rightarrow> bytes \<Rightarrow> UtpContext \<Rightarrow> 'u \<Rightarrow> 'u option" where
  "context_log cbs level s msg h u = (if \<not> would_log level h then Some u else vlog_unchecked cbs s msg u)"

section \<open>The Windows replacements\<close>

text \<open>
  \<open>WSAAddressToString\<close> and \<open>WSAStringToAddress\<close>, which answer nothing for \<open>SOCKET_ERROR\<close>. A family the functions
  do not know is \<open>None\<close>. \<open>inet_ntop\<close> answers the text it leaves in the caller's buffer, \<open>inet_pton\<close> its result and
  the address it leaves there, if it writes one.
\<close>

definition libutp_inet_ntop ::
  "(sockaddr \<Rightarrow> u32 \<Rightarrow> nat \<Rightarrow> bytes option) \<Rightarrow> family option \<Rightarrow> bytes \<Rightarrow> nat \<Rightarrow> bytes option" where
  "libutp_inet_ntop wsa af src len =
     (case af of
        None \<Rightarrow> None
      | Some AF_INET \<Rightarrow> wsa (Sockaddr_in 0 (take 4 src)) SIZEOF_SOCKADDR_IN len
      | Some AF_INET6 \<Rightarrow> wsa (Sockaddr_in6 0 0 (take 16 src) 0) SIZEOF_SOCKADDR_IN6 len)"

definition broadcast_text :: bytes where
  "broadcast_text = [50, 53, 53, 46, 50, 53, 53, 46, 50, 53, 53, 46, 50, 53, 53]"

definition INADDR_NONE :: bytes where "INADDR_NONE = [0xff, 0xff, 0xff, 0xff]"

fun address_bytes :: "sockaddr \<Rightarrow> bytes" where
  "address_bytes (Sockaddr_in p a) = a"
| "address_bytes (Sockaddr_in6 p fl a sc) = a"

definition libutp_inet_pton ::
  "(bytes \<Rightarrow> family \<Rightarrow> sockaddr option) \<Rightarrow> family option \<Rightarrow> bytes \<Rightarrow> int \<times> bytes option" where
  "libutp_inet_pton wsa af src =
     (case af of
        None \<Rightarrow> (- 1, None)
      | Some f \<Rightarrow>
          let result = wsa src f;
              dest = (if f = AF_INET
                      then case result of
                             Some sa \<Rightarrow> Some (address_bytes sa)
                           | None \<Rightarrow> if src = broadcast_text then Some INADDR_NONE else None
                      else case result of
                             Some sa \<Rightarrow> Some (address_bytes sa)
                           | None \<Rightarrow> None)
          in (if result = None then - 1 else 1, dest))"

section \<open>What the buffers hold\<close>

lemma decimal_digits: "set (decimal n) \<subseteq> {48..57}"
proof (induction n rule: decimal.induct)
  case (1 n)
  have d: "(of_nat (48 + k) :: u8) \<in> {48..57}" if "k < 10" for k
    using that by (auto simp: word_le_nat_alt unat_word_ariths unsigned_of_nat take_bit_eq_mod)
  show ?case
  proof (cases "n < 10")
    case True
    then show ?thesis using d [of n] by (subst decimal.simps) simp
  next
    case False
    then show ?thesis using 1 d [of "n mod 10"] by (subst decimal.simps) auto
  qed
qed

lemma decimal_length: "n < 10 ^ k \<Longrightarrow> 0 < k \<Longrightarrow> length (decimal n) \<le> k"
proof (induction n arbitrary: k rule: decimal.induct)
  case (1 n)
  show ?case
  proof (cases "n < 10")
    case True
    then show ?thesis using 1(3) by (subst decimal.simps) simp
  next
    case False
    obtain j where k: "k = Suc j" using 1(3) by (cases k) auto
    moreover have "0 < j" using False 1(2) k by (cases j) auto
    ultimately have j: "k = Suc j" "0 < j" by simp_all
    then have "n div 10 < 10 ^ j" using 1(2) by (simp add: div_less_iff_less_mult mult.commute)
    then have "length (decimal (n div 10)) \<le> j" using 1(1) False j(2) by blast
    then show ?thesis using False j(1) by (subst decimal.simps) simp
  qed
qed

lemma decimal_nonzero: "0 \<notin> set (decimal n)"
  using decimal_digits [of n] by auto

lemma c_string_text: "0 \<notin> set t \<Longrightarrow> c_string (t @ 0 # xs) = t"
  unfolding c_string_def by (subst takeWhile_append2) (auto simp: intro: ccontr)

lemma write_in_zeros:
  "i = length pre \<Longrightarrow> length pre + length xs \<le> n \<Longrightarrow>
     write_bytes i xs (pre @ replicate (n - length pre) 0) = Some (pre @ xs @ replicate (n - length pre - length xs) 0)"
  by (simp add: write_bytes_def)

text \<open>A text put into zeroes ends where it ends.\<close>

lemma scan_end_text:
  "0 \<notin> set t \<Longrightarrow> i \<le> length t \<Longrightarrow> scan_end i (t @ 0 # xs) = Some (length t)"
proof (induction "length t - i" arbitrary: i)
  case 0
  then have "i = length t" by simp
  then show ?case by (subst scan_end.simps) (simp add: nth_append)
next
  case (Suc k)
  then have i: "i < length t" by simp
  then have "t ! i \<noteq> 0" using Suc.prems(1) nth_mem by force
  then show ?case using Suc.hyps(1) [of "i + 1"] Suc.hyps(2) Suc.prems i by (subst scan_end.simps) (simp add: nth_append)
qed

text \<open>What is documented of \<open>inet_ntop\<close>: a text of digits and punctuation, written if it fits with its zero.\<close>

definition prints :: "ntop \<Rightarrow> (family \<Rightarrow> bytes \<Rightarrow> bytes) \<Rightarrow> bool" where
  "prints ntop txt \<longleftrightarrow> (\<forall>f a room. ntop f a room = (if length (txt f a) < room then Some (txt f a) else None)) \<and>
     (\<forall>f a. 0 \<notin> set (txt f a) \<and> 1 < length (txt f a) \<and> length (txt f a) \<le> 45)"

text \<open>
  C35: an address is printed whole. In a buffer of at least 65 bytes, \<open>fmt\<close> stays inside it and leaves the text of the
  address, an IPv6 one in brackets, a colon and the port, whatever the address.
\<close>

theorem fmt_prints_address:
  assumes "prints ntop txt" and "65 \<le> len"
  shows "\<exists>m. Address_fmt ntop len a = Some m \<and> length m = len \<and>
    c_string m = (if get_family a = AF_INET then txt AF_INET (drop 12 (in6 a)) else [91] @ txt AF_INET6 (in6 a) @ [93]) @
      [58] @ decimal (unat (port a))"
proof -
  let ?d = "decimal (unat (port a))"
  let ?t = "if get_family a = AF_INET then txt AF_INET (drop 12 (in6 a)) else txt AF_INET6 (in6 a)"
  have "unat (port a) < 2 ^ LENGTH(16)" by (rule unsigned_less)
  then have "unat (port a) < 10 ^ 5" by (rule less_le_trans) simp
  then have d: "length ?d \<le> 5" "0 \<notin> set ?d" using decimal_length [of _ 5] decimal_nonzero by simp_all
  have t: "0 \<notin> set ?t" "1 < length ?t" "length ?t \<le> 45" using assms(1) by (simp_all add: prints_def)
  have n: "ntop f x room = (if length (txt f x) < room then Some (txt f x) else None)" for f x room
    using assms(1) by (simp add: prints_def)
  define pre where "pre = (if get_family a = AF_INET then ?t else 91 # ?t)"
  define full where "full = (if get_family a = AF_INET then ?t else 91 # ?t @ [93])"
  have full: "0 \<notin> set full" "length full \<le> 47" using t by (auto simp: full_def)
  have tail: "snprintf (length full) (len - length full) (58 # ?d) (full @ replicate (len - length full) 0) =
      Some (full @ (58 # ?d) @ 0 # replicate (len - length full - length ?d - 2) 0)"
    using write_in_zeros [of "length full" full "58 # ?d @ [0]" len] full(2) d(1) assms(2)
    by (simp add: snprintf_def)
  have pre: "0 \<notin> set pre" "length pre \<le> 46" using t by (auto simp: pre_def)
  have z: "pre @ 0 # replicate (len - length pre - 1) 0 = pre @ replicate (len - length pre) 0"
    using pre(2) assms(2) by (simp flip: replicate_Suc add: Suc_diff_Suc)
  have sc: "scan_end i (pre @ replicate (len - length pre) 0) = Some (length pre)" if "i \<le> length pre" for i
    using scan_end_text [OF pre(1) that, of "replicate (len - length pre - 1) 0"] unfolding z .
  have "Address_fmt ntop len a = Some (full @ (58 # ?d) @ 0 # replicate (len - length full - length ?d - 2) 0)"
  proof (cases "get_family a = AF_INET")
    case True
    then have e: "pre = ?t" "full = ?t" by (simp_all add: pre_def full_def)
    have "put_ntop ntop AF_INET (drop 12 (in6 a)) 0 len (replicate len 0) = Some (?t @ replicate (len - length ?t) 0)"
      using True t assms(2) write_in_zeros [of 0 "[]" "?t @ [0]" len]
      by (simp add: put_ntop_def n) (simp flip: replicate_Suc add: Suc_diff_Suc)
    then show ?thesis
      using True sc [of 1] t tail unfolding e by (simp add: Address_fmt_def Let_def)
  next
    case False
    then have e: "pre = 91 # ?t" "full = pre @ [93]" by (simp_all add: pre_def full_def)
    have room: "length ?t < len - 1" using t(3) assms(2) by simp
    have "write_bytes 0 [91] (replicate len 0) = Some ([91] @ replicate (len - 1) 0)"
      using write_in_zeros [of 0 "[]" "[91]" len] assms(2) by simp
    moreover have "put_ntop ntop AF_INET6 (in6 a) 1 (len - 1) ([91] @ replicate (len - 1) 0) = Some (pre @ replicate (len - length pre) 0)"
      using False t room assms(2) write_in_zeros [of 1 "[91]" "?t @ [0]" len]
      by (simp add: put_ntop_def n e) (simp flip: replicate_Suc add: Suc_diff_Suc)
    moreover have "write_bytes (length pre) [93] (pre @ replicate (len - length pre) 0) = Some (full @ replicate (len - length full) 0)"
      using write_in_zeros [of "length pre" pre "[93]" len] pre(2) assms(2) by (simp add: e)
    moreover have "get_family a = AF_INET6" using False by (cases "get_family a") simp_all
    moreover have "length full = length pre + 1" by (simp add: e)
    ultimately show ?thesis
      using sc [of 2] t tail False by (simp add: Address_fmt_def Let_def e(1))
  qed
  moreover have "c_string (full @ (58 # ?d) @ 0 # replicate (len - length full - length ?d - 2) 0) = full @ 58 # ?d"
    using c_string_text [of "full @ 58 # ?d"] full(1) d(2) by simp
  moreover have "length (full @ (58 # ?d) @ 0 # replicate (len - length full - length ?d - 2) 0) = len"
    using full(2) d(1) assms(2) by simp
  ultimately show ?thesis by (auto simp: full_def)
qed

definition sample_ntop :: ntop where
  "sample_ntop f a room = (if 7 < room then Some [49, 46, 49, 46, 49, 46, 49] else None)"

theorem fmt_prints_address_witness:
  "map_option c_string (Address_fmt sample_ntop 65 \<lparr>in6 = v4mapped_prefix @ [1, 1, 1, 1], port = 80\<rparr>) =
     Some [49, 46, 49, 46, 49, 46, 49, 58, 56, 48]"
proof -
  have "prints sample_ntop (\<lambda>_ _. [49, 46, 49, 46, 49, 46, 49])" by (simp add: prints_def sample_ntop_def)
  moreover have "decimal 80 = [56, 48]" by (simp add: decimal.simps)
  ultimately show ?thesis
    using fmt_prints_address [of sample_ntop _ 65 "\<lparr>in6 = v4mapped_prefix @ [1, 1, 1, 1], port = 80\<rparr>"]
    by (force simp: get_family_def v4mapped_prefix_def)
qed

section \<open>Log lines\<close>

lemma print_line_prefix: "0 \<notin> set txt \<Longrightarrow> print_line txt = Some (take 4095 txt)"
proof -
  assume z: "0 \<notin> set txt"
  let ?t = "take 4095 txt"
  have l: "length ?t \<le> 4095" by simp
  have 1: "snprintf 0 4096 txt (replicate 4096 0) = Some (?t @ replicate (4096 - length ?t) 0)"
    using write_in_zeros [of 0 "[]" "?t @ [0]" 4096] l
    by (simp add: snprintf_def) (simp flip: replicate_Suc add: Suc_diff_le)
  have n: "0 \<notin> set ?t" using z in_set_takeD by fast
  define k where "k = 4095 - length ?t"
  have "?t @ replicate (4096 - length ?t) 0 = ?t @ replicate k 0 @ [0]"
  proof -
    have "4096 - length ?t = Suc k" using l by (simp add: k_def)
    then show ?thesis by (simp only: replicate_Suc flip: replicate_append_same)
  qed
  moreover have "write_bytes 4095 [0] (?t @ replicate k 0 @ [0]) = Some (?t @ replicate k 0 @ [0])"
    using l by (simp add: write_bytes_def k_def)
  moreover have "c_string (?t @ replicate k 0 @ [0]) = ?t"
    using c_string_text [OF n, of "replicate k 0"] by (simp add: replicate_append_same)
  ultimately show ?thesis unfolding print_line_def 1 by simp
qed

text \<open>
  A log line never leaves its buffer: whatever the length of the message, what a socket hands to the callback is the
  line of its pointer, peer, connection id and message, each cut at 4095 bytes; nothing is handed over
  at a level that is switched off.
\<close>

theorem socket_log_cuts:
  assumes "prints ntop txt" and "0 \<notin> set msg" and "0 \<notin> set (pointer (self s))"
  shows "\<exists>a. addrfmt ntop (addr (conn s)) = Some a \<and>
    socket_log ntop pointer cbs level msg h s u =
      Some (if would_log level h
            then utp_call_log cbs (Some (self s)) (take 4095 (pointer (self s) @ [32] @ a @ [32] @
              decimal6 (unat (conn_id_recv (conn s))) @ [32] @ take 4095 msg)) u
            else u)"
proof -
  obtain m where m: "Address_fmt ntop 65 (addr (conn s)) = Some m" and
    c: "c_string m = (if get_family (addr (conn s)) = AF_INET then txt AF_INET (drop 12 (in6 (addr (conn s))))
      else [91] @ txt AF_INET6 (in6 (addr (conn s))) @ [93]) @ [58] @ decimal (unat (port (addr (conn s))))"
    using fmt_prints_address [OF assms(1), of 65] by blast
  have z: "0 \<notin> set (c_string m)" unfolding c_string_def by (auto dest: set_takeWhileD)
  have d: "0 \<notin> set (decimal6 k)" for k using decimal_nonzero by (simp add: decimal6_def)
  have "0 \<notin> set (take 4095 msg)" using assms(2) in_set_takeD by fast
  then show ?thesis
    using m z d assms(2,3) by (simp add: addrfmt_def socket_log_def socket_vlog_def print_line_prefix)
qed

text \<open>
  The replacement of \<open>inet_pton\<close> knows that Winsock refuses the broadcast address and stores it itself, but reports a
  failure all the same; every other address is stored exactly when the result says so.
\<close>

theorem pton_broadcast_reported:
  assumes "wsa broadcast_text AF_INET = None"
  shows "libutp_inet_pton wsa (Some AF_INET) broadcast_text = (- 1, Some INADDR_NONE) \<and>
    (\<forall>af src. (af, src) \<noteq> (Some AF_INET, broadcast_text) \<longrightarrow>
       (fst (libutp_inet_pton wsa af src) = 1 \<longleftrightarrow> snd (libutp_inet_pton wsa af src) \<noteq> None))"
  using assms by (auto simp: libutp_inet_pton_def Let_def split: option.splits)

end
